(* ===== verification/Prelude.thy ===== *)
theory Prelude
  imports Main "HOL-Library.Word" "HOL-Library.Multiset" "HOL-Library.Sublist"
begin

text \<open>
  The vocabulary every component of the development shares: machine integers and byte
  sequences as the Go code has them, the sequencing of fallible steps, and the generic
  facts on lists and maps that the component proofs use through the collections
  \<open>bytes_simps\<close>, \<open>result_simps\<close> and \<open>list_loop\<close>.
\<close>

named_theorems bytes_simps \<open>facts on byte encodings\<close>
named_theorems result_simps \<open>facts on sequenced fallible steps\<close>
named_theorems list_loop \<open>index loops of the code as list functions\<close>

type_synonym byte = "8 word"
type_synonym bytes = "byte list"
type_synonym u16 = "16 word"
type_synonym u32 = "32 word"
type_synonym u64 = "64 word"

section \<open>Sequencing of fallible steps\<close>

text \<open>Go returns an error beside the value and the caller tests it at once: the error is
  \<open>Inl\<close>, and \<open>ebind\<close> is the early return on it.\<close>

definition ebind :: "'e + 'a \<Rightarrow> ('a \<Rightarrow> 'e + 'b) \<Rightarrow> 'e + 'b" where
  "ebind m f = (case m of Inl e \<Rightarrow> Inl e | Inr x \<Rightarrow> f x)"

lemma ebind_Inl [simp, result_simps]: "ebind (Inl e) f = Inl e"
  by (simp add: ebind_def)

lemma ebind_Inr [simp, result_simps]: "ebind (Inr x) f = f x"
  by (simp add: ebind_def)

lemma ebind_eq_Inr [result_simps]: "ebind m f = Inr y \<longleftrightarrow> (\<exists>x. m = Inr x \<and> f x = Inr y)"
  by (cases m) auto

lemma ebind_assoc: "ebind (ebind m f) g = ebind m (\<lambda>x. ebind (f x) g)"
  by (cases m) auto

section \<open>Strings and bytes\<close>

text \<open>A Go string is a byte sequence. Texts are HOL strings (a \<open>char\<close> is one byte), wire
  data are lists of 8-bit words; the conversions are the Go conversions \<open>[]byte(s)\<close> and
  \<open>string(b)\<close>.\<close>

definition to_bytes :: "string \<Rightarrow> bytes" where
  "to_bytes s = map (\<lambda>c. word_of_nat (of_char c)) s"

definition of_bytes :: "bytes \<Rightarrow> string" where
  "of_bytes b = map (\<lambda>w. char_of (unat w)) b"

lemma length_to_bytes [simp]: "length (to_bytes s) = length s"
  by (simp add: to_bytes_def)

lemma length_of_bytes [simp]: "length (of_bytes b) = length b"
  by (simp add: of_bytes_def)

lemma of_to_bytes [simp, bytes_simps]: "of_bytes (to_bytes s) = s"
proof -
  have "char_of (unat (word_of_nat (of_char c) :: byte)) = c" for c
  proof -
    have "(of_char c :: nat) = of_char (char_of (of_char c :: nat))" by simp
    also have "\<dots> = of_char c mod 256" by (rule of_char_of)
    finally have "(of_char c :: nat) < 256" by (metis mod_less_divisor zero_less_numeral)
    then show ?thesis by (simp add: unat_of_nat)
  qed
  then show ?thesis by (simp add: of_bytes_def to_bytes_def comp_def)
qed

lemma to_of_bytes [simp, bytes_simps]: "to_bytes (of_bytes b) = b"
proof -
  have "(word_of_nat (of_char (char_of (unat w))) :: byte) = w" for w :: byte
    using unsigned_less [of w, where 'a = nat] by (simp add: of_char_of)
  then show ?thesis by (simp add: of_bytes_def to_bytes_def comp_def map_idI)
qed

lemma to_bytes_append [simp]: "to_bytes (s @ t) = to_bytes s @ to_bytes t"
  by (simp add: to_bytes_def)

lemma to_bytes_Nil_iff [simp]: "to_bytes s = [] \<longleftrightarrow> s = []"
  by (simp add: to_bytes_def)

lemma to_bytes_inject [simp]: "to_bytes s = to_bytes t \<longleftrightarrow> s = t"
  by (metis of_to_bytes)

section \<open>Loops over slices\<close>

text \<open>\<open>s = append(s[:i], s[i+1:]...)\<close>: element \<open>i\<close> cut out of the slice.\<close>

definition cut_at :: "nat \<Rightarrow> 'a list \<Rightarrow> 'a list" where
  "cut_at i xs = take i xs @ drop (Suc i) xs"

text \<open>The descending loop
  \<open>for i := len(s)-1; i >= 0; i-- { if f(&s[i]) { s = append(s[:i], s[i+1:]...) } }\<close>:
  the first argument is the number of indices still to visit.\<close>

fun remove_desc :: "('a \<Rightarrow> bool) \<Rightarrow> nat \<Rightarrow> 'a list \<Rightarrow> 'a list" where
  "remove_desc f 0 xs = xs"
| "remove_desc f (Suc i) xs =
     remove_desc f i (if f (xs ! i) then cut_at i xs else xs)"

lemma remove_desc_filter:
  "i \<le> length xs \<Longrightarrow> remove_desc f i xs = filter (\<lambda>x. \<not> f x) (take i xs) @ drop i xs"
proof (induction i arbitrary: xs)
  case 0
  then show ?case by simp
next
  case (Suc i)
  then have i: "i < length xs" by simp
  have split: "take (Suc i) xs = take i xs @ [xs ! i]"
    using i by (rule take_Suc_conv_app_nth)
  show ?case
  proof (cases "f (xs ! i)")
    case True
    have "remove_desc f i (cut_at i xs) =
      filter (\<lambda>x. \<not> f x) (take i (cut_at i xs)) @ drop i (cut_at i xs)"
      using i by (intro Suc.IH) (simp add: cut_at_def)
    with True i split show ?thesis by (simp add: cut_at_def)
  next
    case False
    have "remove_desc f i xs = filter (\<lambda>x. \<not> f x) (take i xs) @ drop i xs"
      using i by (intro Suc.IH) simp
    with False split show ?thesis by (simp add: Cons_nth_drop_Suc i)
  qed
qed

lemma remove_desc_all [list_loop]:
  "remove_desc f (length xs) xs = filter (\<lambda>x. \<not> f x) xs"
  by (simp add: remove_desc_filter)

section \<open>Maps built by a loop\<close>

text \<open>\<open>for _, x := range xs { m[key(x)] = val(x) }\<close>: a later element overwrites an earlier
  one with the same key.\<close>

definition store_all :: "('a \<Rightarrow> 'k) \<Rightarrow> ('a \<Rightarrow> 'v) \<Rightarrow> 'a list \<Rightarrow> ('k \<rightharpoonup> 'v) \<Rightarrow> ('k \<rightharpoonup> 'v)" where
  "store_all key val xs m = foldl (\<lambda>m x. m(key x \<mapsto> val x)) m xs"

lemma store_all_Nil [simp]: "store_all key val [] m = m"
  by (simp add: store_all_def)

lemma store_all_Cons [simp]:
  "store_all key val (x # xs) m = store_all key val xs (m(key x \<mapsto> val x))"
  by (simp add: store_all_def)

lemma store_all_append:
  "store_all key val (xs @ ys) m = store_all key val ys (store_all key val xs m)"
  by (simp add: store_all_def)

lemma store_all_other: "k \<notin> key ` set xs \<Longrightarrow> store_all key val xs m k = m k"
  by (induction xs arbitrary: m) auto

lemma store_all_mem:
  assumes "inj_on key (set xs)" and "x \<in> set xs"
  shows "store_all key val xs m (key x) = Some (val x)"
  using assms
proof (induction xs arbitrary: m)
  case Nil
  then show ?case by simp
next
  case (Cons y ys)
  show ?case
  proof (cases "x \<in> set ys")
    case True
    with Cons show ?thesis by (auto simp: inj_on_def)
  next
    case False
    with Cons.prems have "x = y" by simp
    moreover have "key y \<notin> key ` set ys"
      using Cons.prems False \<open>x = y\<close> by (auto simp: inj_on_def)
    ultimately show ?thesis by (simp add: store_all_other)
  qed
qed

lemma store_all_SomeD:
  "store_all key val xs m k = Some v \<Longrightarrow> (\<exists>x \<in> set xs. key x = k \<and> val x = v) \<or> m k = Some v"
proof (induction xs arbitrary: m)
  case Nil
  then show ?case by simp
next
  case (Cons y ys)
  from Cons.prems have "store_all key val ys (m(key y \<mapsto> val y)) k = Some v" by simp
  from Cons.IH [OF this] show ?case
    by (cases "k = key y") auto
qed

lemma store_all_find:
  "store_all key val xs m k =
     (case find (\<lambda>x. key x = k) (rev xs) of None \<Rightarrow> m k | Some x \<Rightarrow> Some (val x))"
  by (induction xs rule: rev_induct) (simp_all add: store_all_append)

lemma filter_filter_le: "length (filter P (filter Q xs)) \<le> length (filter P xs)"
  by (induction xs) auto

lemma dom_store_all: "dom (store_all key val xs m) = key ` set xs \<union> dom m"
  by (induction xs arbitrary: m) auto

section \<open>Prefixes\<close>

text \<open>The longest of the words of \<open>D\<close> that are prefixes of \<open>s\<close>, the empty word if
  there is none: what a longest-prefix match over a dictionary returns.\<close>

definition prefixes_in :: "'a list set \<Rightarrow> 'a list \<Rightarrow> 'a list set" where
  "prefixes_in D s = {w \<in> D. prefix w s}"

definition longest_match :: "'a list set \<Rightarrow> 'a list \<Rightarrow> 'a list \<Rightarrow> bool" where
  "longest_match D s w \<longleftrightarrow>
     (w = [] \<or> w \<in> D) \<and> prefix w s \<and> (\<forall>v \<in> prefixes_in D s. length v \<le> length w)"

lemma longest_match_unique:
  assumes "longest_match D s v" and "longest_match D s w"
  shows "v = w"
proof -
  have le: "length v \<le> length w" if "longest_match D s v" and "longest_match D s w" for v w
    using that by (auto simp: longest_match_def prefixes_in_def)
  from le [OF assms] le [OF assms(2,1)] have "length v = length w" by simp
  moreover from assms have "prefix v s" and "prefix w s"
    by (auto simp: longest_match_def)
  ultimately show ?thesis by (auto simp: prefix_def append_eq_append_conv)
qed

lemma list_all_any: "list_all (\<lambda>_. True) xs"
  by (simp add: list_all_iff)

end
