(* ===== verification/Go_Std.thy ===== *)
theory Go_Std
  imports Prelude
begin

unbundle bit_operations_syntax

text \<open>
  The parts of the Go standard library the modelled packages use, on the data of the
  prelude: errors, \<open>io.ReadFull\<close>, \<open>io.Writer\<close>, \<open>encoding/binary\<close>, and the
  functions of \<open>strings\<close>, \<open>strconv\<close> and \<open>net\<close> on texts. A reader is the byte
  sequence the peer sends before it closes; a reading function returns what it read and
  the rest. White space is ASCII white space.
\<close>

section \<open>Errors\<close>

text \<open>Sentinel errors are constructors, \<open>fmt.Errorf\<close> without \<open>%w\<close> is \<open>Errorf\<close>, and
  with \<open>%w\<close> it is \<open>Wrapped\<close>; \<open>errors.Is\<close> looks through the wrapping.\<close>

datatype go_err =
    IoEOF | IoUnexpectedEOF | IoShortBuffer | IoClosedPipe
  | OsDeadlineExceeded | HttpErrServerClosed | NetErrClosed | NetTimeout | ContextDone
  | ErrFailAuth | ErrReplayAttack | ErrPassageAbuse
  | ErrWrite | Errorf string | Wrapped string go_err

fun errors_Is :: "go_err \<Rightarrow> go_err \<Rightarrow> bool" where
  "errors_Is (Wrapped m e) t = (Wrapped m e = t \<or> errors_Is e t)"
| "errors_Is e t = (e = t)"

text \<open>\<open>errors.As(err, &netErr) && netErr.Timeout()\<close>\<close>

fun is_net_timeout :: "go_err \<Rightarrow> bool" where
  "is_net_timeout (Wrapped _ e) = is_net_timeout e"
| "is_net_timeout NetTimeout = True"
| "is_net_timeout OsDeadlineExceeded = True"
| "is_net_timeout ContextDone = True"
| "is_net_timeout _ = False"

section \<open>Readers and writers\<close>

text \<open>\<open>io.ReadFull\<close>: nothing is read for an empty buffer, \<open>EOF\<close> if no byte arrives,
  \<open>ErrUnexpectedEOF\<close> if the stream ends inside the buffer.\<close>

definition readFull :: "nat \<Rightarrow> bytes \<Rightarrow> go_err + bytes \<times> bytes" where
  "readFull n s =
     (if n \<le> length s then Inr (take n s, drop n s)
      else if s = [] then Inl IoEOF else Inl IoUnexpectedEOF)"

lemma readFull_append [simp, bytes_simps]:
  "n = length a \<Longrightarrow> readFull n (a @ s) = Inr (a, s)"
  by (simp add: readFull_def)

lemma readFull_0 [simp]: "readFull 0 s = Inr ([], s)"
  by (simp add: readFull_def)

lemma readFull_one [simp]: "readFull (Suc 0) (x # s) = Inr ([x], s)"
  by (simp add: readFull_def)

lemma readFull_InrD:
  "readFull n s = Inr (a, r) \<Longrightarrow> s = a @ r \<and> length a = n"
  by (auto simp: readFull_def split: if_splits)

lemma readFull_mono: "readFull n s = Inr (a, r) \<Longrightarrow> readFull n (s @ z) = Inr (a, r @ z)"
  by (auto simp: readFull_def split: if_splits)

text \<open>A writer: what it has taken so far, and after how many more calls of \<open>Write\<close> the
  connection fails (\<open>None\<close>: never).\<close>

record writer =
  w_out :: bytes
  w_budget :: "nat option"

definition goWrite :: "writer \<Rightarrow> bytes \<Rightarrow> writer \<times> go_err option" where
  "goWrite w b =
     (case w_budget w of
        Some 0 \<Rightarrow> (w, Some ErrWrite)
      | Some (Suc k) \<Rightarrow> (w\<lparr>w_out := w_out w @ b, w_budget := Some k\<rparr>, None)
      | None \<Rightarrow> (w\<lparr>w_out := w_out w @ b\<rparr>, None))"

lemma goWrite_ok [simp]:
  "w_budget w = None \<Longrightarrow> goWrite w b = (w\<lparr>w_out := w_out w @ b\<rparr>, None)"
  by (simp add: goWrite_def)

lemma goWrite_out:
  "goWrite w b = (w', None) \<Longrightarrow> w_out w' = w_out w @ b"
  by (auto simp: goWrite_def split: option.splits nat.splits)

lemma goWrite_err: "goWrite w b = (w', Some e) \<Longrightarrow> w' = w"
  by (auto simp: goWrite_def split: option.splits nat.splits)

section \<open>\<open>encoding/binary\<close>, big endian\<close>

definition putUint16 :: "u16 \<Rightarrow> bytes" where
  "putUint16 v = [ucast (drop_bit 8 v), ucast v]"

definition uint16 :: "bytes \<Rightarrow> u16" where
  "uint16 b = push_bit 8 (ucast (b ! 0)) OR ucast (b ! 1)"

definition putUint32 :: "u32 \<Rightarrow> bytes" where
  "putUint32 v = [ucast (drop_bit 24 v), ucast (drop_bit 16 v), ucast (drop_bit 8 v), ucast v]"

definition uint32 :: "bytes \<Rightarrow> u32" where
  "uint32 b = push_bit 24 (ucast (b ! 0)) OR push_bit 16 (ucast (b ! 1)) OR
     push_bit 8 (ucast (b ! 2)) OR ucast (b ! 3)"

lemma length_putUint16 [simp]: "length (putUint16 v) = 2"
  by (simp add: putUint16_def)

lemma length_putUint32 [simp]: "length (putUint32 v) = 4"
  by (simp add: putUint32_def)

lemma uint16_put [simp, bytes_simps]: "uint16 (putUint16 v) = v"
proof (rule bit_word_eqI)
  fix n
  assume "n < LENGTH(16)"
  then show "bit (uint16 (putUint16 v)) n = bit v n"
    by (auto simp: uint16_def putUint16_def bit_simps)
qed

lemma uint32_put [simp, bytes_simps]: "uint32 (putUint32 v) = v"
proof (rule bit_word_eqI)
  fix n
  assume "n < LENGTH(32)"
  then show "bit (uint32 (putUint32 v)) n = bit v n"
    by (cases "n < 8"; cases "n < 16"; cases "n < 24")
      (auto simp: uint32_def putUint32_def bit_simps not_less)
qed

lemma put_uint16 [bytes_simps]:
  assumes "length b = 2"
  shows "putUint16 (uint16 b) = b"
proof -
  obtain x y where b: "b = [x, y]"
    using assms by (auto simp: numeral_2_eq_2 length_Suc_conv)
  have "ucast (drop_bit 8 (push_bit 8 (ucast x) OR ucast y :: u16)) = x"
    by (rule bit_word_eqI) (auto simp: bit_simps dest: bit_imp_le_length)
  moreover have "ucast (push_bit 8 (ucast x) OR ucast y :: u16) = y"
    by (rule bit_word_eqI) (auto simp: bit_simps)
  ultimately show ?thesis by (simp add: b putUint16_def uint16_def)
qed

lemma put_uint32 [bytes_simps]:
  assumes "length b = 4"
  shows "putUint32 (uint32 b) = b"
proof -
  obtain x y z w where b: "b = [x, y, z, w]"
    using assms by (auto simp: eval_nat_numeral length_Suc_conv)
  let ?v = "uint32 [x, y, z, w]"
  have bit: "bit ?v n = (if n < 8 then bit w n else if n < 16 then bit z (n - 8)
      else if n < 24 then bit y (n - 16) else n < 32 \<and> bit x (n - 24))" for n
    by (cases "n < 8"; cases "n < 16"; cases "n < 24")
      (auto simp: uint32_def bit_simps not_less dest: bit_imp_le_length)
  have "ucast (drop_bit 24 ?v) = x" "ucast (drop_bit 16 ?v) = y" "ucast (drop_bit 8 ?v) = z"
    "ucast ?v = w"
    by (rule bit_word_eqI; simp add: bit_simps bit)+
  then show ?thesis by (simp add: b putUint32_def)
qed

lemma unat_of_nat_u16: "n < 65536 \<Longrightarrow> unat (word_of_nat n :: u16) = n"
  by (simp add: unat_of_nat)

lemma unat_of_nat_u32: "n < 2 ^ 32 \<Longrightarrow> unat (word_of_nat n :: u32) = n"
  by (simp add: unat_of_nat)

lemma unat_of_nat_u8: "n < 256 \<Longrightarrow> unat (word_of_nat n :: byte) = n"
  by (simp add: unat_of_nat)

section \<open>\<open>strings\<close>\<close>

text \<open>\<open>strings.Split\<close> with a separator of one byte.\<close>

fun strings_Split :: "char \<Rightarrow> string \<Rightarrow> string list" where
  "strings_Split c [] = [[]]"
| "strings_Split c (x # xs) =
     (if x = c then [] # strings_Split c xs
      else (case strings_Split c xs of [] \<Rightarrow> [[x]] | f # fs \<Rightarrow> (x # f) # fs))"

lemma strings_Split_nonempty [simp]: "strings_Split c s \<noteq> []"
  by (induction s) (auto split: list.splits)

text \<open>\<open>strings.Cut\<close> at the first occurrence of a byte; \<open>None\<close> is the result
  \<open>ok = false\<close>. \<open>strings.SplitN(s, c, 2)\<close> has two fields exactly when \<open>Cut\<close> finds
  the separator.\<close>

fun strings_Cut :: "char \<Rightarrow> string \<Rightarrow> (string \<times> string) option" where
  "strings_Cut c [] = None"
| "strings_Cut c (x # xs) =
     (if x = c then Some ([], xs)
      else map_option (\<lambda>(a, b). (x # a, b)) (strings_Cut c xs))"

lemma strings_Cut_Some: "strings_Cut c s = Some (a, b) \<longleftrightarrow> s = a @ c # b \<and> c \<notin> set a"
proof (induction s arbitrary: a)
  case Nil
  then show ?case by simp
next
  case (Cons x xs)
  then show ?case by (cases a) auto
qed

lemma strings_Cut_None: "strings_Cut c s = None \<longleftrightarrow> c \<notin> set s"
  by (induction s) auto

fun strings_Join :: "string \<Rightarrow> string list \<Rightarrow> string" where
  "strings_Join sep [] = []"
| "strings_Join sep [s] = s"
| "strings_Join sep (s # t # ss) = s @ sep @ strings_Join sep (t # ss)"

lemma strings_Join_Split: "strings_Join [c] (strings_Split c s) = s"
proof (induction s)
  case Nil
  then show ?case by simp
next
  case (Cons x xs)
  then show ?case
    by (cases "strings_Split c xs"; cases "tl (strings_Split c xs)") auto
qed

lemma strings_Split_no_sep: "c \<notin> set s \<Longrightarrow> strings_Split c s = [s]"
  by (induction s) auto

lemma strings_Split_Cons_sep:
  "c \<notin> set s \<Longrightarrow> strings_Split c (s @ c # t) = s # strings_Split c t"
  by (induction s) auto

definition is_space :: "char \<Rightarrow> bool" where
  "is_space c \<longleftrightarrow> c \<in> {CHR ''\<newline>'', CHR 0x09, CHR 0x0B, CHR 0x0C, CHR 0x0D, CHR '' ''}"

definition strings_TrimSpace :: "string \<Rightarrow> string" where
  "strings_TrimSpace s = rev (dropWhile is_space (rev (dropWhile is_space s)))"

text \<open>\<open>strings.Fields\<close>: the maximal runs of non-space bytes.\<close>

function strings_Fields :: "string \<Rightarrow> string list" where
  "strings_Fields s =
     (let t = dropWhile is_space s
      in if t = [] then []
         else takeWhile (\<lambda>c. \<not> is_space c) t #
              strings_Fields (dropWhile (\<lambda>c. \<not> is_space c) t))"
  by pat_completeness auto
termination
proof (relation "measure length", goal_cases)
  case 1
  then show ?case by simp
next
  case (2 s t)
  then have "\<not> is_space (hd t)" using hd_dropWhile [of is_space s] by (simp add: dropWhile_eq_Nil_conv)
  then have "length (dropWhile (\<lambda>c. \<not> is_space c) t) < length t"
    using 2(2) by (cases t) (simp_all only: list.sel dropWhile.simps if_True simp_thms
        list.size add_Suc_right add_0_right less_Suc_eq_le length_dropWhile_le)
  also have "\<dots> \<le> length s" using 2 by (simp add: length_dropWhile_le)
  finally show ?case by simp
qed

declare strings_Fields.simps [simp del]

definition strings_HasPrefix :: "string \<Rightarrow> string \<Rightarrow> bool" where
  "strings_HasPrefix s p \<longleftrightarrow> take (length p) s = p"

definition strings_TrimPrefix :: "string \<Rightarrow> string \<Rightarrow> string" where
  "strings_TrimPrefix s p = (if strings_HasPrefix s p then drop (length p) s else s)"

definition strings_TrimSuffix :: "string \<Rightarrow> string \<Rightarrow> string" where
  "strings_TrimSuffix s p =
     (if length p \<le> length s \<and> drop (length s - length p) s = p
      then take (length s - length p) s else s)"

text \<open>\<open>strings.ReplaceAll\<close> of one byte by a text.\<close>

definition strings_ReplaceByte :: "char \<Rightarrow> string \<Rightarrow> string \<Rightarrow> string" where
  "strings_ReplaceByte c r s = concat (map (\<lambda>x. if x = c then r else [x]) s)"

lemma strings_HasPrefix_iff: "strings_HasPrefix s p \<longleftrightarrow> prefix p s"
  by (auto simp: strings_HasPrefix_def prefix_def) (metis append_take_drop_id)

end
