(* ===== verification/Wire.thy ===== *)
theory Wire
  imports Go_Std
begin

text \<open>
  Self-delimiting messages on a byte stream: the interface every wire format of the
  repository provides (a function that writes one message, a function that reads one), and
  what a peer that relies on it gets: a sequence of messages is read back as it was
  written, no message is a proper prefix of another one, a cut-off message is an error.
\<close>

text \<open>The loop \<open>for { x, err := read(r); if err != nil { return err }; use(x) }\<close> over a stream
  that ends: the messages used, the error that ends the loop and the bytes left. The fuel is the
  number of rounds; \<open>None\<close> is a loop that is still running.\<close>

fun read_all :: "(bytes \<Rightarrow> go_err + 'a \<times> bytes) \<Rightarrow> nat \<Rightarrow> bytes \<Rightarrow> ('a list \<times> go_err \<times> bytes) option" where
  "read_all rd 0 s = None"
| "read_all rd (Suc k) s =
     (case rd s of
        Inl e \<Rightarrow> Some ([], e, s)
      | Inr (x, r) \<Rightarrow> map_option (\<lambda>(xs, e, z). (x # xs, e, z)) (read_all rd k r))"

text \<open>Messages written one after the other; the first error ends the writing.\<close>

fun write_all :: "(writer \<Rightarrow> 'a \<Rightarrow> writer \<times> go_err option) \<Rightarrow> writer \<Rightarrow> 'a list \<Rightarrow>
    writer \<times> go_err option" where
  "write_all wr w [] = (w, None)"
| "write_all wr w (x # xs) =
     (case wr w x of (w', Some e) \<Rightarrow> (w', Some e) | (w', None) \<Rightarrow> write_all wr w' xs)"

locale stream_codec =
  fixes wr :: "writer \<Rightarrow> 'a \<Rightarrow> writer \<times> go_err option"
    and rd :: "bytes \<Rightarrow> go_err + 'b \<times> bytes"
    and enc :: "'a \<Rightarrow> bytes"
    and valid :: "'a \<Rightarrow> bool"
    and norm :: "'a \<Rightarrow> 'b"
  assumes wr_enc: "valid x \<Longrightarrow> w_budget w = None \<Longrightarrow> wr w x = (w\<lparr>w_out := w_out w @ enc x\<rparr>, None)"
    and rd_enc: "valid x \<Longrightarrow> rd (enc x @ s) = Inr (norm x, s)"
    and rd_mono: "rd s = Inr (y, r) \<Longrightarrow> rd (s @ z) = Inr (y, r @ z)"
    and rd_consumes: "rd s = Inr (y, r) \<Longrightarrow> length r < length s"
    and rd_empty: "rd [] = Inl IoEOF"
begin

lemma enc_nonempty: "valid x \<Longrightarrow> enc x \<noteq> []"
  using rd_enc [of x "[]"] rd_empty by auto

lemma write_all_enc:
  "list_all valid xs \<Longrightarrow> w_budget w = None \<Longrightarrow>
     write_all wr w xs = (w\<lparr>w_out := w_out w @ concat (map enc xs)\<rparr>, None)"
  by (induction xs arbitrary: w) (simp_all add: wr_enc)

lemma read_all_enc:
  "list_all valid xs \<Longrightarrow> length xs < k \<Longrightarrow>
     read_all rd k (concat (map enc xs)) = Some (map norm xs, IoEOF, [])"
proof (induction xs arbitrary: k)
  case Nil
  then show ?case by (cases k) (simp_all add: rd_empty)
next
  case (Cons x xs)
  then show ?case by (cases k) (simp_all add: rd_enc)
qed

text \<open>What was written arrives.\<close>

lemma roundtrip_all:
  assumes "list_all valid xs" and "w_budget w = None" and "w_out w = []" and "length xs < k"
  shows "read_all rd k (w_out (fst (write_all wr w xs))) = Some (map norm xs, IoEOF, [])"
  using assms by (simp add: write_all_enc read_all_enc)

text \<open>The loop ends on every stream: one round takes at least one byte.\<close>

lemma read_all_terminates: "length s < k \<Longrightarrow> \<exists>r. read_all rd k s = Some r"
proof (induction k arbitrary: s)
  case (Suc k)
  show ?case
  proof (cases "rd s")
    case (Inr p)
    obtain x r where p: "p = (x, r)" by (cases p)
    with Inr Suc.prems have "length r < k" using rd_consumes [of s x r] by simp
    with Suc.IH [of r] Inr p show ?thesis by auto
  qed simp
qed simp

lemma truncated:
  assumes "valid x" and "strict_prefix p (enc x)"
  shows "\<exists>e. rd p = Inl e"
proof (cases "rd p")
  case (Inr q)
  obtain y r where q: "q = (y, r)" by (cases q)
  from assms(2) obtain z where z: "enc x = p @ z" "z \<noteq> []"
    by (auto simp: strict_prefix_def prefix_def)
  from rd_mono [of p y r z] Inr q rd_enc [OF assms(1), of "[]"] z show ?thesis by simp
qed simp

lemma self_delimiting:
  assumes "valid x" and "valid y" and "enc x @ s = enc y @ t"
  shows "norm x = norm y \<and> s = t"
  using rd_enc [OF assms(1), of s] rd_enc [OF assms(2), of t] assms(3) by simp

end

end
