(* ===== verification/Anytls_Frame.thy ===== *)
theory Anytls_Frame
  imports Wire
begin

text \<open>
  The frames of the AnyTLS multiplexer (\<open>server/anytls/frame.go\<close>): a command byte, a 32-bit
  stream id, a 16-bit length and that many bytes of data.
\<close>

section \<open>The commands\<close>

definition cmdWaste :: byte where "cmdWaste = 0"
definition cmdSYN :: byte where "cmdSYN = 1"
definition cmdPSH :: byte where "cmdPSH = 2"
definition cmdFIN :: byte where "cmdFIN = 3"
definition cmdSettings :: byte where "cmdSettings = 4"
definition cmdAlert :: byte where "cmdAlert = 5"
definition cmdUpdatePaddingScheme :: byte where "cmdUpdatePaddingScheme = 6"
definition cmdSYNACK :: byte where "cmdSYNACK = 7"
definition cmdHeartRequest :: byte where "cmdHeartRequest = 8"
definition cmdHeartResponse :: byte where "cmdHeartResponse = 9"
definition cmdServerSettings :: byte where "cmdServerSettings = 10"

lemmas cmd_defs = cmdWaste_def cmdSYN_def cmdPSH_def cmdFIN_def cmdSettings_def cmdAlert_def
  cmdUpdatePaddingScheme_def cmdSYNACK_def cmdHeartRequest_def cmdHeartResponse_def
  cmdServerSettings_def

definition frameHeaderLen :: nat where "frameHeaderLen = 7"
definition maxFrameData :: nat where "maxFrameData = 2 ^ 16 - 1"

section \<open>Reading and writing a frame\<close>

record frame =
  f_cmd :: byte
  f_streamID :: u32
  f_data :: bytes

text \<open>\<open>header[5:7]\<close> is \<open>take 2 (drop 5 header)\<close>.\<close>

definition readFrame :: "bytes \<Rightarrow> go_err + frame \<times> bytes" where
  "readFrame r =
     ebind (readFull frameHeaderLen r) (\<lambda>(header, r1).
       let len = uint16 (take 2 (drop 5 header));
           f = \<lparr>f_cmd = header ! 0, f_streamID = uint32 (take 4 (drop 1 header)), f_data = []\<rparr>
       in if 0 < len
          then ebind (readFull (unat len) r1) (\<lambda>(d, r2). Inr (f\<lparr>f_data := d\<rparr>, r2))
          else Inr (f, r1))"

definition frame_header :: "frame \<Rightarrow> bytes" where
  "frame_header f =
     f_cmd f # putUint32 (f_streamID f) @ putUint16 (word_of_nat (length (f_data f)))"

definition writeFrame :: "writer \<Rightarrow> frame \<Rightarrow> writer \<times> go_err option" where
  "writeFrame w f =
     (if maxFrameData < length (f_data f) then (w, Some (Errorf ''frame data too large''))
      else (case goWrite w (frame_header f) of
              (w1, Some e) \<Rightarrow> (w1, Some e)
            | (w1, None) \<Rightarrow> if length (f_data f) = 0 then (w1, None) else goWrite w1 (f_data f)))"

definition frame_bytes :: "frame \<Rightarrow> bytes" where
  "frame_bytes f = frame_header f @ f_data f"

abbreviation valid_frame :: "frame \<Rightarrow> bool" where
  "valid_frame f \<equiv> length (f_data f) \<le> maxFrameData"

lemma length_frame_header [simp]: "length (frame_header f) = frameHeaderLen"
  by (simp add: frame_header_def frameHeaderLen_def)

lemma header_fields [simp]:
  "frame_header f ! 0 = f_cmd f"
  "uint32 (take 4 (drop (Suc 0) (frame_header f))) = f_streamID f"
  "uint16 (take 2 (drop 5 (frame_header f))) = word_of_nat (length (f_data f))"
  by (simp_all add: frame_header_def)

lemma readFrame_bytes:
  assumes "valid_frame f"
  shows "readFrame (frame_bytes f @ s) = Inr (f, s)"
proof -
  let ?n = "word_of_nat (length (f_data f)) :: u16"
  have u: "unat ?n = length (f_data f)"
    using assms by (intro unat_of_nat_u16) (simp add: maxFrameData_def)
  then have "?n = 0 \<longleftrightarrow> f_data f = []" by (metis length_0_conv unat_0 unat_eq_zero)
  then show ?thesis
    using u by (cases f) (auto simp: readFrame_def frame_bytes_def word_gt_0 simp del: unat_of_nat)
qed

lemma writeFrame_bytes:
  "valid_frame f \<Longrightarrow> w_budget w = None \<Longrightarrow>
     writeFrame w f = (w\<lparr>w_out := w_out w @ frame_bytes f\<rparr>, None)"
  by (auto simp: writeFrame_def frame_bytes_def)

lemma header_split:
  assumes "length h = frameHeaderLen"
  shows "h = h ! 0 # take 4 (drop 1 h) @ take 2 (drop 5 h)"
  using assms by (auto simp: frameHeaderLen_def eval_nat_numeral length_Suc_conv)

text \<open>What \<open>readFrame\<close> accepts is exactly the encoding of what it returns.\<close>

lemma readFrame_consumes:
  assumes "readFrame s = Inr (f, r)"
  shows "s = frame_bytes f @ r \<and> valid_frame f"
proof -
  from assms obtain h r1 where h: "readFull frameHeaderLen s = Inr (h, r1)"
    by (auto simp: readFrame_def result_simps)
  note sh = readFull_InrD [OF h]
  let ?n = "uint16 (take 2 (drop 5 h))"
  have lt: "unat ?n < 65536" using unsigned_less [of ?n, where 'a = nat] by simp
  have b: "f_cmd f = h ! 0" "f_streamID f = uint32 (take 4 (drop 1 h))"
    "r1 = f_data f @ r" "length (f_data f) = unat ?n"
    using assms h by (auto simp: readFrame_def Let_def word_gt_0 result_simps
        dest!: readFull_InrD split: if_splits)
  have "frame_header f = h"
    using sh header_split [of h] b by (simp add: frame_header_def bytes_simps frameHeaderLen_def)
  with sh b lt show ?thesis by (simp add: frame_bytes_def maxFrameData_def)
qed

interpretation frames: stream_codec writeFrame readFrame frame_bytes valid_frame "\<lambda>f. f"
proof
  show "readFrame [] = Inl IoEOF"
    by (simp add: readFrame_def readFull_def frameHeaderLen_def)
  show "length r < length s" if "readFrame s = Inr (y, r)" for s y r
    using readFrame_consumes [OF that] by (simp add: frame_bytes_def frameHeaderLen_def)
  show "readFrame (s @ z) = Inr (y, r @ z)" if "readFrame s = Inr (y, r)" for s y r z
    using readFrame_consumes [OF that] by (simp add: readFrame_bytes)
qed (simp_all add: readFrame_bytes writeFrame_bytes)

end
