(* ===== verification/Go_Net.thy ===== *)
theory Go_Net
  imports Go_Std
begin

text \<open>
  \<open>strconv\<close>, the host and port functions of \<open>net\<close>, and the address parser and printer
  of \<open>net/netip\<close>, as the Go standard library computes them: the values returned beside an
  error are kept, because the repository's \<open>ShouldParse...\<close> helpers use them.
\<close>

section \<open>\<open>strconv\<close>\<close>

datatype num_err = ErrSyntax | ErrRange

definition is_digit :: "char \<Rightarrow> bool" where
  "is_digit c \<longleftrightarrow> (48::nat) \<le> of_char c \<and> of_char c \<le> (57::nat)"

definition digit_val :: "char \<Rightarrow> nat" where
  "digit_val c = of_char c - 48"

fun parse_digits :: "nat \<Rightarrow> nat \<Rightarrow> string \<Rightarrow> nat \<times> num_err option" where
  "parse_digits maxVal n [] = (n, None)"
| "parse_digits maxVal n (c # cs) =
     (if is_digit c
      then (let n1 = n * 10 + digit_val c
            in if maxVal < n1 then (maxVal, Some ErrRange) else parse_digits maxVal n1 cs)
      else (0, Some ErrSyntax))"

text \<open>\<open>strconv.ParseUint(s, 10, bits)\<close>: on overflow the largest value is returned with the
  range error, on a syntax error 0.\<close>

definition parseUint :: "nat \<Rightarrow> string \<Rightarrow> nat \<times> num_err option" where
  "parseUint bits s = (if s = [] then (0, Some ErrSyntax) else parse_digits (2 ^ bits - 1) 0 s)"

text \<open>\<open>strconv.ParseInt(s, 10, 64)\<close>; \<open>strconv.Atoi\<close> computes the same function where an
  \<open>int\<close> has 64 bits.\<close>

definition parseInt64 :: "string \<Rightarrow> int \<times> num_err option" where
  "parseInt64 s =
     (if s = [] then (0, Some ErrSyntax)
      else let neg = (hd s = CHR ''-'');
               t = (if hd s = CHR ''+'' \<or> hd s = CHR ''-'' then tl s else s);
               (un, e) = parseUint 64 t
           in if e = Some ErrSyntax then (0, Some ErrSyntax)
              else if \<not> neg \<and> 2 ^ 63 \<le> un then (2 ^ 63 - 1, Some ErrRange)
              else if neg \<and> 2 ^ 63 < un then (- (2 ^ 63), Some ErrRange)
              else (if neg then - int un else int un, None))"

abbreviation atoi :: "string \<Rightarrow> int \<times> num_err option" where
  "atoi \<equiv> parseInt64"

definition digit_char :: "nat \<Rightarrow> char" where
  "digit_char d = (if d < 10 then char_of (48 + d) else char_of (87 + d))"

text \<open>\<open>strconv.FormatInt(n, b)\<close> for a natural number; \<open>strconv.Itoa\<close> is base ten.\<close>

fun fmt_base :: "nat \<Rightarrow> nat \<Rightarrow> string" where
  "fmt_base b n =
     (if b < 2 \<or> n < b then [digit_char n] else fmt_base b (n div b) @ [digit_char (n mod b)])"

declare fmt_base.simps [simp del]

abbreviation itoa :: "nat \<Rightarrow> string" where
  "itoa \<equiv> fmt_base 10"

lemma digit_char_digit [simp]: "d < 10 \<Longrightarrow> is_digit (digit_char d)"
  by (simp add: is_digit_def digit_char_def)

lemma digit_val_char [simp]: "d < 10 \<Longrightarrow> digit_val (digit_char d) = d"
  by (simp add: digit_val_def digit_char_def)

lemma itoa_nonempty [simp]: "fmt_base b n \<noteq> []"
  by (subst fmt_base.simps) simp

lemma itoa_digits: "c \<in> set (itoa n) \<Longrightarrow> is_digit c"
proof (induction "10::nat" n rule: fmt_base.induct)
  case (1 n)
  then show ?case by (subst (asm) (2) fmt_base.simps) (auto split: if_splits)
qed

lemma parse_digits_itoa: "n \<le> M \<Longrightarrow> parse_digits M 0 (itoa n @ cs) = parse_digits M n cs"
proof (induction "10::nat" n arbitrary: cs rule: fmt_base.induct)
  case (1 n)
  show ?case
  proof (cases "n < 10")
    case True
    with "1.prems" show ?thesis by (subst fmt_base.simps) simp
  next
    case False
    have "parse_digits M 0 (itoa (n div 10) @ digit_char (n mod 10) # cs) =
      parse_digits M (n div 10) (digit_char (n mod 10) # cs)"
      using "1.prems" False by (intro "1.hyps") auto
    also have "\<dots> = parse_digits M n cs"
      using "1.prems" by (simp add: Let_def)
    finally show ?thesis using False by (subst fmt_base.simps) simp
  qed
qed

lemma parseUint_itoa: "n < 2 ^ bits \<Longrightarrow> parseUint bits (itoa n) = (n, None)"
  using parse_digits_itoa [of n "2 ^ bits - 1" "[]"] by (simp add: parseUint_def)

lemma parse_digits_bound: "n \<le> M \<Longrightarrow> fst (parse_digits M n s) \<le> M"
  by (induction s arbitrary: n) (auto simp: Let_def)

lemma parseUint_bound: "fst (parseUint bits s) < 2 ^ bits"
proof -
  have "fst (parseUint bits s) \<le> 2 ^ bits - 1"
    using parse_digits_bound [of 0 "2 ^ bits - 1" s] by (simp add: parseUint_def)
  also have "\<dots> < 2 ^ bits" by simp
  finally show ?thesis .
qed

text \<open>Digits without overflow parse to the same number at every width.\<close>

lemma parse_digits_widen:
  "parse_digits M n s = (v, None) \<Longrightarrow> M \<le> M' \<Longrightarrow> parse_digits M' n s = (v, None)"
  by (induction s arbitrary: n) (auto simp: Let_def split: if_splits)

lemma parse_digits_narrow:
  "parse_digits M n s = (v, None) \<Longrightarrow> v \<le> M' \<Longrightarrow> n \<le> M' \<Longrightarrow> parse_digits M' n s = (v, None)"
proof (induction s arbitrary: n)
  case Nil
  then show ?case by simp
next
  case (Cons c cs)
  have mono: "n \<le> v" if "parse_digits M n s = (v, None)" for n s
    using that by (induction s arbitrary: n) (fastforce simp: Let_def split: if_splits)+
  from Cons.prems(1) have c: "is_digit c"
    and p: "parse_digits M (n * 10 + digit_val c) cs = (v, None)"
    by (auto simp: Let_def split: if_splits)
  from mono [OF p] Cons.prems(2) have "n * 10 + digit_val c \<le> M'" by simp
  with Cons.IH [OF p Cons.prems(2)] c show ?case by (simp add: Let_def)
qed

section \<open>\<open>net.JoinHostPort\<close> and \<open>net.SplitHostPort\<close>\<close>

definition joinHostPort :: "string \<Rightarrow> string \<Rightarrow> string" where
  "joinHostPort host port =
     (if CHR '':'' \<in> set host then ''['' @ host @ '']:'' @ port else host @ '':'' @ port)"

text \<open>The last and the first index of a byte.\<close>

fun index_of :: "char \<Rightarrow> string \<Rightarrow> nat option" where
  "index_of c [] = None"
| "index_of c (x # xs) = (if x = c then Some 0 else map_option Suc (index_of c xs))"

definition last_index_of :: "char \<Rightarrow> string \<Rightarrow> nat option" where
  "last_index_of c s = map_option (\<lambda>k. length s - Suc k) (index_of c (rev s))"

datatype addr_err = MissingPort | TooManyColons | MissingBracket | UnexpectedBracket

text \<open>The texts of the errors.\<close>

fun addr_err_msg :: "addr_err \<Rightarrow> string" where
  "addr_err_msg MissingPort = ''missing port in address''"
| "addr_err_msg TooManyColons = ''too many colons in address''"
| "addr_err_msg MissingBracket = ''missing ']' in address''"
| "addr_err_msg UnexpectedBracket = ''unexpected bracket in address''"

fun num_err_msg :: "num_err \<Rightarrow> string" where
  "num_err_msg ErrSyntax = ''invalid syntax''"
| "num_err_msg ErrRange = ''value out of range''"

definition net_SplitHostPort :: "string \<Rightarrow> addr_err + (string \<times> string)" where
  "net_SplitHostPort hp =
     (case last_index_of CHR '':'' hp of
        None \<Rightarrow> Inl MissingPort
      | Some i \<Rightarrow>
          ebind
            (if hd hp = CHR ''[''
             then (case index_of CHR '']'' hp of
                     None \<Rightarrow> Inl MissingBracket
                   | Some e \<Rightarrow>
                       if e + 1 = length hp then Inl MissingPort
                       else if e + 1 = i then Inr (take (e - 1) (drop 1 hp), 1, e + 1)
                       else if hp ! (e + 1) = CHR '':'' then Inl TooManyColons
                       else Inl MissingPort)
             else if CHR '':'' \<in> set (take i hp) then Inl TooManyColons
             else Inr (take i hp, 0, 0))
            (\<lambda>(host, j, k).
               if CHR ''['' \<in> set (drop j hp) then Inl UnexpectedBracket
               else if CHR '']'' \<in> set (drop k hp) then Inl UnexpectedBracket
               else Inr (host, drop (i + 1) hp)))"

lemma index_of_append_notin:
  "c \<notin> set a \<Longrightarrow> index_of c (a @ c # b) = Some (length a)"
  by (induction a) auto

lemma last_index_of_append_notin:
  assumes "c \<notin> set b"
  shows "last_index_of c (a @ c # b) = Some (length a)"
  using index_of_append_notin [of c "rev b" "rev a"] assms by (simp add: last_index_of_def)

text \<open>A host without brackets joined with a port without colons and brackets is split into
  the same two texts.\<close>

lemma split_joinHostPort:
  assumes h: "CHR ''['' \<notin> set host" "CHR '']'' \<notin> set host"
    and p: "CHR '':'' \<notin> set port" "CHR ''['' \<notin> set port" "CHR '']'' \<notin> set port"
  shows "net_SplitHostPort (joinHostPort host port) = Inr (host, port)"
proof (cases "CHR '':'' \<in> set host")
  case True
  let ?hp = "(CHR ''['' # host @ [CHR '']'']) @ CHR '':'' # port"
  have "last_index_of CHR '':'' ?hp = Some (length host + 2)"
    using p(1) by (subst last_index_of_append_notin) simp_all
  moreover have "index_of CHR '']'' ?hp = Some (length host + 1)"
    using index_of_append_notin [of "CHR '']''" "CHR ''['' # host" "CHR '':'' # port"] h by simp
  ultimately show ?thesis
    using True h p by (simp add: joinHostPort_def net_SplitHostPort_def)
next
  case False
  have "last_index_of CHR '':'' (host @ CHR '':'' # port) = Some (length host)"
    using p(1) by (rule last_index_of_append_notin)
  moreover have "hd (host @ CHR '':'' # port) \<noteq> CHR ''[''"
    using h by (cases host) auto
  ultimately show ?thesis
    using False h p by (simp add: joinHostPort_def net_SplitHostPort_def)
qed

end
