(* ===== verification/Anytls_Session.thy ===== *)
theory Anytls_Session
  imports Anytls_Frame Go_Net "HOL-Library.AList"
begin

text \<open>
  The AnyTLS session and its streams (\<open>server/anytls/session.go\<close>, \<open>stream.go\<close>). Stream
  objects live on a heap, because the session's map, the handlers and the dialers share them:
  an address is an index into \<open>s_heap\<close>. The connection is a writer for what the session
  sends; what it receives is the byte sequence \<open>recvLoop\<close> is given. A \<open>select\<close> with
  several ready cases is an argument that names the case taken. Times are numbers, 0 is Go's
  zero time, and \<open>now\<close> is an argument. The mutexes make the operations atomic. Both
  constructors set \<open>conn\<close>, so the tests for a nil connection are left out.
\<close>

section \<open>Streams\<close>

record stream =
  st_id :: u32
  st_pending :: bytes
  st_readDeadline :: nat
  st_writeDeadline :: nat
  st_readCh :: "bytes list"
  st_closed :: bool
  st_synackCh :: "go_err option list"
  st_synackDone :: bool

definition readChCap :: nat where "readChCap = 32"

definition newStream :: "u32 \<Rightarrow> stream" where
  "newStream sid =
     \<lparr>st_id = sid, st_pending = [], st_readDeadline = 0, st_writeDeadline = 0, st_readCh = [],
      st_closed = False, st_synackCh = [], st_synackDone = False\<rparr>"

definition deadlineExceeded :: "nat \<Rightarrow> nat \<Rightarrow> bool" where
  "deadlineExceeded now t \<longleftrightarrow> t \<noteq> 0 \<and> \<not> now < t"

text \<open>One round of the loop of \<open>Stream.Read\<close> into a buffer of \<open>n\<close> bytes. \<open>None\<close>: the
  chosen case of the \<open>select\<close> is not ready. \<open>ReadAgain\<close>: the loop goes on.\<close>

datatype read_case = CaseData | CaseClosed | CaseDeadlineReset | CaseTimer

datatype read_out = ReadGot bytes | ReadErr go_err | ReadAgain

definition readRound :: "nat \<Rightarrow> nat \<Rightarrow> read_case \<Rightarrow> stream \<Rightarrow> (stream \<times> read_out) option" where
  "readRound now n ch st =
     (if 0 < length (st_pending st)
      then Some (st\<lparr>st_pending := drop n (st_pending st)\<rparr>, ReadGot (take n (st_pending st)))
      else if deadlineExceeded now (st_readDeadline st) then Some (st, ReadErr OsDeadlineExceeded)
      else (case ch of
              CaseData \<Rightarrow>
                (case st_readCh st of
                   [] \<Rightarrow> None
                 | d # q \<Rightarrow> Some (st\<lparr>st_readCh := q, st_pending := d\<rparr>, ReadAgain))
            | CaseClosed \<Rightarrow> if st_closed st then Some (st, ReadErr IoEOF) else None
            | CaseDeadlineReset \<Rightarrow> Some (st, ReadAgain)
            | CaseTimer \<Rightarrow>
                if st_readDeadline st \<noteq> 0 then Some (st, ReadErr OsDeadlineExceeded) else None))"

definition stream_closeRemote :: "stream \<Rightarrow> stream" where
  "stream_closeRemote st = st\<lparr>st_closed := True\<rparr>"

definition stream_receiveSYNACK :: "bytes \<Rightarrow> stream \<Rightarrow> stream" where
  "stream_receiveSYNACK data st =
     (let err = (if 0 < length data then Some (Errorf (of_bytes data)) else None);
          st1 = (if 0 < length data then stream_closeRemote st else st)
      in if st_synackDone st1 then st1
         else st1\<lparr>st_synackCh := st_synackCh st1 @ [err], st_synackDone := True\<rparr>)"

section \<open>Sessions\<close>

record session =
  s_conn :: writer
  s_connClosed :: bool
  s_connDeadline :: nat
  s_isClient :: bool
  s_activeWrite :: "nat option"
  s_nextID :: u32
  s_streams :: "(u32 \<times> nat) list"
  s_closed :: bool
  s_peerVersion :: byte
  s_serverSettingsDone :: bool
  s_serverSettingsTimedOut :: bool
  s_serverSettingsCh :: bool
  s_heap :: "stream list"
  s_handled :: "nat list"

text \<open>\<open>s_serverSettingsCh\<close> says that the channel is closed; \<open>s_handled\<close> lists the streams
  \<open>onStream\<close> was started on.\<close>

definition newClientSession :: "writer \<Rightarrow> session" where
  "newClientSession conn =
     \<lparr>s_conn = conn, s_connClosed = False, s_connDeadline = 0, s_isClient = True,
      s_activeWrite = None, s_nextID = 0, s_streams = [], s_closed = False, s_peerVersion = 0,
      s_serverSettingsDone = False, s_serverSettingsTimedOut = False, s_serverSettingsCh = False,
      s_heap = [], s_handled = []\<rparr>"

definition newServerSession :: "writer \<Rightarrow> session" where
  "newServerSession conn = (newClientSession conn)\<lparr>s_isClient := False\<rparr>"

definition conn_Write :: "session \<Rightarrow> frame \<Rightarrow> session \<times> go_err option" where
  "conn_Write s f =
     (if s_connClosed s then (s, Some NetErrClosed)
      else case writeFrame (s_conn s) f of (w, e) \<Rightarrow> (s\<lparr>s_conn := w\<rparr>, e))"

abbreviation sess_writeFrame :: "session \<Rightarrow> frame \<Rightarrow> session \<times> go_err option" where
  "sess_writeFrame \<equiv> conn_Write"

definition the_stream :: "session \<Rightarrow> nat \<Rightarrow> stream" where
  "the_stream s a = s_heap s ! a"

definition upd_stream :: "nat \<Rightarrow> (stream \<Rightarrow> stream) \<Rightarrow> session \<Rightarrow> session" where
  "upd_stream a f s = s\<lparr>s_heap := (s_heap s)[a := f (s_heap s ! a)]\<rparr>"

definition getStream :: "session \<Rightarrow> u32 \<Rightarrow> nat option" where
  "getStream s sid = map_of (s_streams s) sid"

definition addStream :: "u32 \<Rightarrow> session \<Rightarrow> session" where
  "addStream sid s =
     s\<lparr>s_streams := AList.update sid (length (s_heap s)) (s_streams s),
       s_heap := s_heap s @ [newStream sid]\<rparr>"

definition getOrCreateStream :: "session \<Rightarrow> u32 \<Rightarrow> session \<times> nat" where
  "getOrCreateStream s sid =
     (case getStream s sid of
        Some a \<Rightarrow> (s, a)
      | None \<Rightarrow> (addStream sid s, length (s_heap s)))"

definition closeServerSettings :: "session \<Rightarrow> session" where
  "closeServerSettings s = s\<lparr>s_serverSettingsCh := True\<rparr>"

definition sess_Close :: "session \<Rightarrow> session" where
  "sess_Close s =
     (if s_closed s then s
      else let s1 = s\<lparr>s_closed := True\<rparr>;
               s2 = (if s_isClient s1 then closeServerSettings s1 else s1);
               s3 = s2\<lparr>s_connClosed := True\<rparr>;
               s4 = foldl (\<lambda>s (sid, a). upd_stream a stream_closeRemote s) s3 (s_streams s3)
           in s4\<lparr>s_streams := []\<rparr>)"

definition closeStream :: "session \<Rightarrow> u32 \<Rightarrow> bool \<Rightarrow> session \<times> go_err option" where
  "closeStream s sid notify =
     (let s1 = s\<lparr>s_streams := AList.delete sid (s_streams s)\<rparr>
      in if \<not> notify \<or> s_closed s1 then (s1, None)
         else sess_writeFrame s1 \<lparr>f_cmd = cmdFIN, f_streamID = sid, f_data = []\<rparr>)"

definition OpenStream :: "session \<Rightarrow> session \<times> (go_err + nat)" where
  "OpenStream s =
     (if s_closed s then (s, Inl IoClosedPipe)
      else let s1 = s\<lparr>s_nextID := s_nextID s + 1\<rparr>;
               sid = s_nextID s1;
               a = length (s_heap s1);
               s2 = addStream sid s1
           in case sess_writeFrame s2 \<lparr>f_cmd = cmdSYN, f_streamID = sid, f_data = []\<rparr> of
                (s3, Some e) \<Rightarrow> (fst (closeStream s3 sid False), Inl e)
              | (s3, None) \<Rightarrow> (s3, Inr a))"

definition clientSettings :: string where
  "clientSettings =
     ''v=2'' @ [CHR ''\<newline>''] @ ''client=BitterJohn'' @ [CHR ''\<newline>''] @ ''padding-md5=''"

definition runClient :: "session \<Rightarrow> session \<times> go_err option" where
  "runClient s =
     sess_writeFrame s \<lparr>f_cmd = cmdSettings, f_streamID = 0,
       f_data = to_bytes clientSettings\<rparr>"

section \<open>Writing on a stream\<close>

definition conn_SetWriteDeadline :: "session \<Rightarrow> nat \<Rightarrow> session \<times> go_err option" where
  "conn_SetWriteDeadline s t =
     (if s_connClosed s then (s, Some NetErrClosed) else (s\<lparr>s_connDeadline := t\<rparr>, None))"

definition beginStreamWrite :: "session \<Rightarrow> nat \<Rightarrow> nat \<Rightarrow> session \<times> go_err option" where
  "beginStreamWrite s a deadline = conn_SetWriteDeadline (s\<lparr>s_activeWrite := Some a\<rparr>) deadline"

definition endStreamWrite :: "session \<Rightarrow> nat \<Rightarrow> session" where
  "endStreamWrite s a =
     (if s_activeWrite s \<noteq> Some a then s
      else fst (conn_SetWriteDeadline (s\<lparr>s_activeWrite := None\<rparr>) 0))"

definition updateActiveWriteDeadline :: "session \<Rightarrow> nat \<Rightarrow> nat \<Rightarrow> session \<times> go_err option" where
  "updateActiveWriteDeadline s a deadline =
     (if s_activeWrite s \<noteq> Some a then (s, None) else conn_SetWriteDeadline s deadline)"

definition writeFrameForStream :: "nat \<Rightarrow> session \<Rightarrow> nat \<Rightarrow> frame \<Rightarrow> session \<times> go_err option" where
  "writeFrameForStream now s a f =
     (let deadline = st_writeDeadline (the_stream s a)
      in if deadlineExceeded now deadline then (s, Some OsDeadlineExceeded)
         else case beginStreamWrite s a deadline of
                (s1, Some e) \<Rightarrow> (endStreamWrite s1 a, Some e)
              | (s1, None) \<Rightarrow>
                  (case sess_writeFrame s1 f of (s2, e) \<Rightarrow> (endStreamWrite s2 a, e)))"

text \<open>The loop of \<open>Stream.Write\<close>: \<open>b\<close> is \<open>b[written:]\<close>.\<close>

function writeLoop :: "nat \<Rightarrow> session \<Rightarrow> nat \<Rightarrow> nat \<Rightarrow> bytes \<Rightarrow> session \<times> nat \<times> go_err option" where
  "writeLoop now s a written b =
     (if b = [] then (s, written, None)
      else let chunk = take maxFrameData b
           in case writeFrameForStream now s a
                     \<lparr>f_cmd = cmdPSH, f_streamID = st_id (the_stream s a), f_data = chunk\<rparr> of
                (s1, Some e) \<Rightarrow> (s1, written, Some e)
              | (s1, None) \<Rightarrow> writeLoop now s1 a (written + length chunk) (drop maxFrameData b))"
  by pat_completeness auto
termination
  by (relation "measure (\<lambda>(now, s, a, written, b). length b)") (auto simp: maxFrameData_def)

declare writeLoop.simps [simp del]

definition stream_Write :: "nat \<Rightarrow> session \<Rightarrow> nat \<Rightarrow> bytes \<Rightarrow> session \<times> nat \<times> go_err option" where
  "stream_Write now s a b =
     (if deadlineExceeded now (st_writeDeadline (the_stream s a))
      then (s, 0, Some OsDeadlineExceeded)
      else writeLoop now s a 0 b)"

definition stream_Close :: "session \<Rightarrow> nat \<Rightarrow> session \<times> go_err option" where
  "stream_Close s a =
     (if st_closed (the_stream s a) then (s, None)
      else closeStream (upd_stream a stream_closeRemote s) (st_id (the_stream s a)) True)"

definition stream_SetReadDeadline :: "session \<Rightarrow> nat \<Rightarrow> nat \<Rightarrow> session" where
  "stream_SetReadDeadline s a t = upd_stream a (\<lambda>st. st\<lparr>st_readDeadline := t\<rparr>) s"

definition stream_SetWriteDeadline :: "session \<Rightarrow> nat \<Rightarrow> nat \<Rightarrow> session \<times> go_err option" where
  "stream_SetWriteDeadline s a t =
     updateActiveWriteDeadline (upd_stream a (\<lambda>st. st\<lparr>st_writeDeadline := t\<rparr>) s) a t"

definition stream_SetDeadline :: "session \<Rightarrow> nat \<Rightarrow> nat \<Rightarrow> session \<times> go_err option" where
  "stream_SetDeadline s a t = stream_SetWriteDeadline (stream_SetReadDeadline s a t) a t"

text \<open>\<open>waitSYNACK\<close> and the case its \<open>select\<close> takes; \<open>None\<close>: the case is not ready. A
  closed \<open>synackCh\<close> with nothing left yields nil.\<close>

datatype synack_case = SynackCh | SynackClosed | SynackSessClosed | SynackCtx

definition waitSYNACK :: "synack_case \<Rightarrow> session \<Rightarrow> nat \<Rightarrow> (session \<times> go_err option) option" where
  "waitSYNACK ch s a =
     (let st = the_stream s a
      in case ch of
           SynackCh \<Rightarrow>
             (case st_synackCh st of
                e # q \<Rightarrow> Some (upd_stream a (\<lambda>st. st\<lparr>st_synackCh := q\<rparr>) s, e)
              | [] \<Rightarrow> if st_synackDone st then Some (s, None) else None)
         | SynackClosed \<Rightarrow> if st_closed st then Some (s, Some IoClosedPipe) else None
         | SynackSessClosed \<Rightarrow> if s_closed s then Some (s, Some IoClosedPipe) else None
         | SynackCtx \<Rightarrow> Some (fst (stream_Close s a), Some ContextDone))"

section \<open>Settings and versions\<close>

definition parseSettings :: "bytes \<Rightarrow> (string \<rightharpoonup> string)" where
  "parseSettings data =
     foldl (\<lambda>settings line.
              case strings_Cut CHR ''='' line of
                None \<Rightarrow> settings
              | Some (key, value) \<Rightarrow> settings(strings_TrimSpace key \<mapsto> strings_TrimSpace value))
       Map.empty (strings_Split CHR ''\<newline>'' (of_bytes data))"

text \<open>\<open>strconv.Atoi(parseSettings(data)["v"])\<close>: a missing key is the empty text.\<close>

definition settings_version :: "bytes \<Rightarrow> int \<times> num_err option" where
  "settings_version data = atoi (case parseSettings data ''v'' of None \<Rightarrow> [] | Some v \<Rightarrow> v)"

definition setPeerVersion :: "byte \<Rightarrow> session \<Rightarrow> session" where
  "setPeerVersion v s = s\<lparr>s_peerVersion := v\<rparr>"

definition completePeerVersion :: "byte \<Rightarrow> session \<Rightarrow> session" where
  "completePeerVersion v s =
     closeServerSettings
       ((if s_peerVersion s = 0 \<or> s_serverSettingsTimedOut s then s\<lparr>s_peerVersion := v\<rparr> else s)
          \<lparr>s_serverSettingsDone := True, s_serverSettingsTimedOut := False\<rparr>)"

definition serverSettingsState :: "session \<Rightarrow> byte \<times> bool" where
  "serverSettingsState s =
     (if s_serverSettingsDone s \<or> s_peerVersion s \<noteq> 0
      then (if s_peerVersion s = 0 then (1, False) else (s_peerVersion s, False))
      else if s_serverSettingsTimedOut s then (1, False)
      else (0, True))"

definition markServerSettingsTimedOut :: "session \<Rightarrow> session" where
  "markServerSettingsTimedOut s =
     (if s_peerVersion s = 0 \<and> \<not> s_serverSettingsDone s
      then s\<lparr>s_serverSettingsTimedOut := True\<rparr> else s)"

text \<open>\<open>waitServerSettings\<close>: \<open>between\<close> is the session as the other goroutines leave it while
  this one waits in the \<open>select\<close>.\<close>

datatype settings_case = SettingsCh | SettingsTimer | SettingsClosed

definition waitServerSettings ::
    "settings_case \<Rightarrow> (session \<Rightarrow> session) \<Rightarrow> session \<Rightarrow> (session \<times> byte) option" where
  "waitServerSettings ch between s =
     (if \<not> s_isClient s then Some (s, s_peerVersion s)
      else case serverSettingsState s of
             (version, False) \<Rightarrow> Some (s, version)
           | (version, True) \<Rightarrow>
               (let s1 = between s;
                    ready = (case ch of
                               SettingsCh \<Rightarrow> s_serverSettingsCh s1
                             | SettingsTimer \<Rightarrow> True
                             | SettingsClosed \<Rightarrow> s_closed s1);
                    s2 = (if ch = SettingsTimer then markServerSettingsTimedOut s1 else s1)
                in if \<not> ready then None
                   else Some (s2, if s_peerVersion s2 = 0 then 1 else s_peerVersion s2)))"

end
