(* ===== verification/Anytls_Recv.thy ===== *)
theory Anytls_Recv
  imports Anytls_Session
begin

text \<open>
  The receiving side of a session (\<open>Session.recvLoop\<close>), one frame at a time and as a loop
  over what the peer sent; the system of receive loop and stream users as a step relation; the
  invariant of its reachable states.
\<close>

section \<open>One frame\<close>

text \<open>How a round of the loop ends: it goes on, the loop returns an error, or it waits
  because the stream's queue is full and neither the stream nor the session is closed.\<close>

datatype recv_out = RecvGo bool session | RecvRet go_err session | RecvBlocked

text \<open>\<open>Stream.receive\<close>; where the stream or the session is closed the \<open>select\<close> may still
  queue the data, which nobody is obliged to read: the closed case is taken here.\<close>

definition stream_receive :: "session \<Rightarrow> nat \<Rightarrow> bytes \<Rightarrow> (session \<times> go_err option) option" where
  "stream_receive s a data =
     (let st = the_stream s a
      in if st_closed st \<or> s_closed s then Some (s, Some IoClosedPipe)
         else if length (st_readCh st) < readChCap
         then Some (upd_stream a (\<lambda>st. st\<lparr>st_readCh := st_readCh st @ [data]\<rparr>) s, None)
         else None)"

definition recv_SYN :: "bool \<Rightarrow> session \<Rightarrow> u32 \<Rightarrow> recv_out" where
  "recv_SYN receivedSettings s sid =
     (if \<not> s_isClient s \<and> \<not> receivedSettings
      then RecvRet (Errorf ''client opened stream before settings'')
             (fst (sess_writeFrame s \<lparr>f_cmd = cmdAlert, f_streamID = 0,
                     f_data = to_bytes ''client did not send its settings''\<rparr>))
      else if s_isClient s then RecvGo receivedSettings s
      else let (s1, a) = getOrCreateStream s sid;
               s2 = (if 2 \<le> s_peerVersion s1
                     then fst (sess_writeFrame s1 \<lparr>f_cmd = cmdSYNACK, f_streamID = sid, f_data = []\<rparr>)
                     else s1)
           in RecvGo receivedSettings (s2\<lparr>s_handled := s_handled s2 @ [a]\<rparr>))"

definition recv_SYNACK :: "session \<Rightarrow> u32 \<Rightarrow> bytes \<Rightarrow> session" where
  "recv_SYNACK s sid data =
     (case getStream s sid of
        None \<Rightarrow> s
      | Some a \<Rightarrow>
          let s1 = upd_stream a (stream_receiveSYNACK data) s
          in if 0 < length data then fst (closeStream s1 sid False) else s1)"

definition recv_FIN :: "session \<Rightarrow> u32 \<Rightarrow> session" where
  "recv_FIN s sid =
     (case getStream s sid of
        None \<Rightarrow> s
      | Some a \<Rightarrow> upd_stream a stream_closeRemote (fst (closeStream s sid False)))"

definition recv_Settings :: "bool \<Rightarrow> session \<Rightarrow> bytes \<Rightarrow> bool \<times> session" where
  "recv_Settings receivedSettings s data =
     (if s_isClient s then (receivedSettings, s)
      else (case settings_version data of
              (v, None) \<Rightarrow>
                if 2 \<le> v
                then (True, fst (sess_writeFrame (setPeerVersion (word_of_int v) s)
                        \<lparr>f_cmd = cmdServerSettings, f_streamID = 0, f_data = to_bytes ''v=2''\<rparr>))
                else (True, s)
            | (v, Some e) \<Rightarrow> (True, s)))"

definition recv_ServerSettings :: "session \<Rightarrow> bytes \<Rightarrow> session" where
  "recv_ServerSettings s data =
     (if \<not> s_isClient s then s
      else case settings_version data of
             (v, None) \<Rightarrow> completePeerVersion (word_of_int v) s
           | (v, Some e) \<Rightarrow> completePeerVersion 1 s)"

text \<open>The \<open>switch\<close> of \<open>recvLoop\<close>.\<close>

definition handleFrame :: "bool \<Rightarrow> session \<Rightarrow> frame \<Rightarrow> recv_out" where
  "handleFrame rs s f =
     (let c = f_cmd f; sid = f_streamID f; data = f_data f
      in if c = cmdWaste then RecvGo rs s
         else if c = cmdPSH
         then (case getStream s sid of
                 None \<Rightarrow> RecvGo rs s
               | Some a \<Rightarrow>
                   (case stream_receive s a data of
                      None \<Rightarrow> RecvBlocked
                    | Some (s1, e) \<Rightarrow> RecvGo rs s1))
         else if c = cmdSYN then recv_SYN rs s sid
         else if c = cmdSYNACK then RecvGo rs (recv_SYNACK s sid data)
         else if c = cmdFIN then RecvGo rs (recv_FIN s sid)
         else if c = cmdSettings then (case recv_Settings rs s data of (rs1, s1) \<Rightarrow> RecvGo rs1 s1)
         else if c = cmdServerSettings then RecvGo rs (recv_ServerSettings s data)
         else if c = cmdAlert then RecvRet (Errorf (''remote alert: '' @ of_bytes data)) s
         else if c = cmdUpdatePaddingScheme then RecvGo rs s
         else if c = cmdHeartRequest
         then RecvGo rs (fst (sess_writeFrame s
                \<lparr>f_cmd = cmdHeartResponse, f_streamID = sid, f_data = []\<rparr>))
         else if c = cmdHeartResponse then RecvGo rs s
         else RecvRet (Errorf ''unknown anytls command'') s)"

section \<open>The loop\<close>

text \<open>\<open>recvLoop\<close> on what the peer sends up to the end of the connection, when no stream user
  runs meanwhile: the error it returns with the session closed by \<open>defer\<close>, or the session in
  which it waits. The fuel counts frames.\<close>

datatype loop_out = LoopRet go_err session | LoopWaits session bytes

fun recvLoop :: "nat \<Rightarrow> bool \<Rightarrow> session \<Rightarrow> bytes \<Rightarrow> loop_out option" where
  "recvLoop 0 rs s r = None"
| "recvLoop (Suc k) rs s r =
     (case readFrame r of
        Inl e \<Rightarrow> Some (LoopRet e (sess_Close s))
      | Inr (f, r1) \<Rightarrow>
          (case handleFrame rs s f of
             RecvGo rs1 s1 \<Rightarrow> recvLoop k rs1 s1 r1
           | RecvRet e s1 \<Rightarrow> Some (LoopRet e (sess_Close s1))
           | RecvBlocked \<Rightarrow> Some (LoopWaits s r)))"

lemma recvLoop_terminates: "length r < k \<Longrightarrow> \<exists>out. recvLoop k rs s r = Some out"
proof (induction k arbitrary: rs s r)
  case (Suc k)
  show ?case
  proof (cases "readFrame r")
    case (Inr p)
    obtain f r1 where p: "p = (f, r1)" by (cases p)
    with Inr Suc.prems have "length r1 < k" using frames.rd_consumes [of r f r1] by simp
    with Suc.IH Inr p show ?thesis by (auto split: recv_out.split)
  qed simp
qed simp

section \<open>The system\<close>

text \<open>The receive loop (while the session is open), the users of the streams, and the end of
  the session. \<open>y_in\<close> and \<open>y_out\<close> are histories: the data of the \<open>PSH\<close> frames
  received for each stream object and the data its readers got.\<close>

record sys =
  y_rs :: bool
  y_sess :: session
  y_in :: "nat \<Rightarrow> bytes"
  y_out :: "nat \<Rightarrow> bytes"

datatype event =
    EvFrame frame | EvEnd | EvOpen | EvRead nat nat nat read_case
  | EvWrite nat nat bytes | EvClose nat | EvDeadline nat nat
  | EvWaitSYNACK synack_case nat | EvTimedOut

definition psh_target :: "session \<Rightarrow> frame \<Rightarrow> nat option" where
  "psh_target s f = (if f_cmd f = cmdPSH then getStream s (f_streamID f) else None)"

definition record_in :: "session \<Rightarrow> frame \<Rightarrow> (nat \<Rightarrow> bytes) \<Rightarrow> (nat \<Rightarrow> bytes)" where
  "record_in s f h = (case psh_target s f of None \<Rightarrow> h | Some a \<Rightarrow> h(a := h a @ f_data f))"

definition valid_addr :: "session \<Rightarrow> nat \<Rightarrow> bool" where
  "valid_addr s a \<longleftrightarrow> a < length (s_heap s)"

fun exec :: "event \<Rightarrow> sys \<Rightarrow> sys option" where
  "exec (EvFrame f) y =
     (if s_closed (y_sess y) then None
      else case handleFrame (y_rs y) (y_sess y) f of
             RecvGo rs s \<Rightarrow> Some (y\<lparr>y_rs := rs, y_sess := s, y_in := record_in (y_sess y) f (y_in y)\<rparr>)
           | RecvRet e s \<Rightarrow> Some (y\<lparr>y_sess := sess_Close s\<rparr>)
           | RecvBlocked \<Rightarrow> None)"
| "exec EvEnd y = Some (y\<lparr>y_sess := sess_Close (y_sess y)\<rparr>)"
| "exec EvOpen y =
     (if s_isClient (y_sess y) then Some (y\<lparr>y_sess := fst (OpenStream (y_sess y))\<rparr>) else None)"
| "exec (EvRead a now n ch) y =
     (if \<not> valid_addr (y_sess y) a then None
      else case readRound now n ch (the_stream (y_sess y) a) of
             None \<Rightarrow> None
           | Some (st, out) \<Rightarrow>
               Some (y\<lparr>y_sess := upd_stream a (\<lambda>_. st) (y_sess y),
                       y_out := (case out of
                                   ReadGot b \<Rightarrow> (y_out y)(a := y_out y a @ b)
                                 | _ \<Rightarrow> y_out y)\<rparr>))"
| "exec (EvWrite a now b) y =
     (if valid_addr (y_sess y) a then Some (y\<lparr>y_sess := fst (stream_Write now (y_sess y) a b)\<rparr>)
      else None)"
| "exec (EvClose a) y =
     (if valid_addr (y_sess y) a then Some (y\<lparr>y_sess := fst (stream_Close (y_sess y) a)\<rparr>) else None)"
| "exec (EvDeadline a t) y =
     (if valid_addr (y_sess y) a
      then Some (y\<lparr>y_sess := fst (stream_SetDeadline (y_sess y) a t)\<rparr>) else None)"
| "exec (EvWaitSYNACK ch a) y =
     (if valid_addr (y_sess y) a
      then map_option (\<lambda>(s, e). y\<lparr>y_sess := s\<rparr>) (waitSYNACK ch (y_sess y) a) else None)"
| "exec EvTimedOut y = Some (y\<lparr>y_sess := markServerSettingsTimedOut (y_sess y)\<rparr>)"

definition sys_init :: "session \<Rightarrow> sys" where
  "sys_init s = \<lparr>y_rs = False, y_sess = s, y_in = (\<lambda>a. []), y_out = (\<lambda>a. [])\<rparr>"

inductive sys_step :: "sys \<Rightarrow> event \<Rightarrow> sys \<Rightarrow> bool" where
  step: "exec e y = Some y' \<Longrightarrow> sys_step y e y'"

inductive_cases sys_stepE: "sys_step y e y'"

inductive reachable :: "sys \<Rightarrow> bool" where
  client: "reachable (sys_init (fst (runClient (newClientSession w))))"
| server: "reachable (sys_init (newServerSession w))"
| later: "reachable y \<Longrightarrow> sys_step y e y' \<Longrightarrow> reachable y'"

section \<open>The invariant\<close>

definition stream_ok :: "stream \<Rightarrow> bool" where
  "stream_ok st \<longleftrightarrow> length (st_readCh st) \<le> readChCap \<and> length (st_synackCh st) \<le> 1 \<and>
     (\<not> st_synackDone st \<longrightarrow> st_synackCh st = [])"

definition mapped_ok :: "stream list \<Rightarrow> u32 \<times> nat \<Rightarrow> bool" where
  "mapped_ok h p \<longleftrightarrow> snd p < length h \<and> st_id (h ! snd p) = fst p \<and> \<not> st_closed (h ! snd p)"

definition sess_inv :: "session \<Rightarrow> bool" where
  "sess_inv s \<longleftrightarrow>
     distinct (map fst (s_streams s)) \<and> list_all (mapped_ok (s_heap s)) (s_streams s) \<and>
     (s_closed s \<longrightarrow> s_streams s = [] \<and> s_connClosed s \<and> (s_isClient s \<longrightarrow> s_serverSettingsCh s)) \<and>
     list_all stream_ok (s_heap s) \<and>
     (s_isClient s \<longrightarrow> s_handled s = []) \<and> list_all (\<lambda>a. a < length (s_heap s)) (s_handled s)"

text \<open>The part of a session the invariant and the buffers depend on; writing on the connection
  and the version fields are outside it.\<close>

definition core :: "session \<Rightarrow>
    stream list \<times> (u32 \<times> nat) list \<times> bool \<times> bool \<times> bool \<times> bool \<times> nat list" where
  "core s = (s_heap s, s_streams s, s_closed s, s_connClosed s, s_isClient s,
             s_serverSettingsCh s, s_handled s)"

lemma core_eqD:
  assumes "core s = core t"
  shows "s_heap s = s_heap t" "s_streams s = s_streams t" "s_closed s = s_closed t"
    "s_connClosed s = s_connClosed t" "s_isClient s = s_isClient t"
    "s_serverSettingsCh s = s_serverSettingsCh t" "s_handled s = s_handled t"
  using assms by (simp_all add: core_def)

lemma sess_inv_core: "core s = core t \<Longrightarrow> sess_inv s = sess_inv t"
  by (simp add: sess_inv_def core_eqD [of s t])

lemma core_conn_Write [simp]: "core (fst (conn_Write s f)) = core s"
  by (simp add: conn_Write_def core_def split: prod.split)

lemma core_SetWriteDeadline [simp]: "core (fst (conn_SetWriteDeadline s t)) = core s"
  by (simp add: conn_SetWriteDeadline_def core_def)

lemma core_activeWrite [simp]: "core (s\<lparr>s_activeWrite := x\<rparr>) = core s"
  by (simp add: core_def)

lemma core_endStreamWrite [simp]: "core (endStreamWrite s a) = core s"
  by (simp add: endStreamWrite_def)

lemma core_writeFrameForStream [simp]: "core (fst (writeFrameForStream now s a f)) = core s"
proof -
  have "core s1 = core s" if "beginStreamWrite s a d = (s1, e)" for s1 e d
    using that core_SetWriteDeadline [of "s\<lparr>s_activeWrite := Some a\<rparr>" d]
    by (simp add: beginStreamWrite_def)
  moreover have "core s2 = core s1" if "conn_Write s1 f = (s2, e)" for s1 s2 e
    using that core_conn_Write [of s1 f] by simp
  ultimately show ?thesis
    by (auto simp: writeFrameForStream_def Let_def split: prod.splits option.splits)
qed

lemma core_writeLoop [simp]: "core (fst (writeLoop now s a n b)) = core s"
proof (induction now s a n b rule: writeLoop.induct)
  case (1 now s a n b)
  show ?case
  proof (cases "b = []")
    case False
    let ?f = "\<lparr>f_cmd = cmdPSH, f_streamID = st_id (the_stream s a), f_data = take maxFrameData b\<rparr>"
    obtain s1 e where w: "writeFrameForStream now s a ?f = (s1, e)" by fastforce
    then have c: "core s1 = core s" using core_writeFrameForStream [of now s a ?f] by simp
    show ?thesis
      using False w c 1 [OF False refl w [symmetric]]
      by (subst writeLoop.simps) (auto simp: Let_def split: option.splits)
  qed (simp add: writeLoop.simps)
qed

lemma core_stream_Write [simp]: "core (fst (stream_Write now s a b)) = core s"
  by (simp add: stream_Write_def)

lemma core_setPeerVersion [simp]: "core (setPeerVersion v s) = core s"
  by (simp add: setPeerVersion_def core_def)

lemma core_markTimedOut [simp]: "core (markServerSettingsTimedOut s) = core s"
  by (simp add: markServerSettingsTimedOut_def core_def)

subsection \<open>Steps that keep the invariant\<close>

lemma inv_upd_stream:
  assumes "sess_inv s" and "a < length (s_heap s) \<Longrightarrow> stream_ok (f (s_heap s ! a))"
    and "st_id (f (s_heap s ! a)) = st_id (s_heap s ! a)"
    and "st_closed (f (s_heap s ! a)) \<Longrightarrow> st_closed (s_heap s ! a) \<or> a \<notin> snd ` set (s_streams s)"
  shows "sess_inv (upd_stream a f s)"
proof (cases "a < length (s_heap s)")
  case True
  have "list_all (mapped_ok ((s_heap s)[a := f (s_heap s ! a)])) (s_streams s)"
    using assms True by (fastforce simp: sess_inv_def list_all_iff mapped_ok_def nth_list_update)
  moreover have "list_all stream_ok ((s_heap s)[a := f (s_heap s ! a)])"
    using assms True by (auto simp: sess_inv_def list_all_iff dest!: subsetD [OF set_update_subset_insert])
  ultimately show ?thesis using assms(1) by (simp add: sess_inv_def upd_stream_def)
qed (use assms(1) in \<open>simp add: upd_stream_def list_update_beyond\<close>)

lemma inv_delete:
  "sess_inv s \<Longrightarrow> sess_inv (s\<lparr>s_streams := AList.delete sid (s_streams s)\<rparr>)"
  by (auto simp: sess_inv_def distinct_map_filter list_all_iff AList.delete_eq)

lemma not_mapped_after_delete:
  "sess_inv s \<Longrightarrow> a \<notin> snd ` set (AList.delete (st_id (s_heap s ! a)) (s_streams s))"
  by (auto simp: sess_inv_def list_all_iff mapped_ok_def AList.delete_eq)

lemma set_AList_update: "set (AList.update k v al) \<subseteq> insert (k, v) (set al)"
  by (induction al) auto

lemma inv_addStream:
  assumes "sess_inv s" and "\<not> s_closed s"
  shows "sess_inv (addStream sid s)"
proof -
  have "list_all (mapped_ok (s_heap s @ [newStream sid]))
      (AList.update sid (length (s_heap s)) (s_streams s))"
    unfolding list_all_iff
  proof
    fix p
    assume "p \<in> set (AList.update sid (length (s_heap s)) (s_streams s))"
    then have "p \<in> set (s_streams s) \<or> p = (sid, length (s_heap s))"
      using set_AList_update [of sid "length (s_heap s)" "s_streams s"] by auto
    then show "mapped_ok (s_heap s @ [newStream sid]) p"
      using assms(1) by (auto simp: sess_inv_def list_all_iff mapped_ok_def nth_append newStream_def)
  qed
  with assms show ?thesis
    by (auto simp: sess_inv_def addStream_def AList.distinct_update list_all_iff stream_ok_def
        newStream_def less_SucI)
qed

lemma foldl_closeRemote:
  "foldl (\<lambda>s (sid, a). upd_stream a stream_closeRemote s) s ps =
     s\<lparr>s_heap := foldl (\<lambda>h (sid, a). h[a := stream_closeRemote (h ! a)]) (s_heap s) ps\<rparr>"
  by (induction ps arbitrary: s) (auto simp: upd_stream_def)

lemma length_foldl_close [simp]:
  "length (foldl (\<lambda>h (sid, a). h[a := stream_closeRemote (h ! a)]) h ps) = length h"
  by (induction ps arbitrary: h) auto

lemma foldl_close_nth:
  assumes "\<And>st. P (stream_closeRemote st) = P st" and "a < length h"
  shows "P (foldl (\<lambda>h (sid, a). h[a := stream_closeRemote (h ! a)]) h ps ! a) = P (h ! a)"
  using assms(2)
proof (induction ps arbitrary: h)
  case (Cons p ps)
  obtain sid b where p: "p = (sid, b)" by (cases p)
  have "P (h[b := stream_closeRemote (h ! b)] ! a) = P (h ! a)"
    using Cons.prems assms(1) by (cases "a = b") auto
  with Cons.IH [of "h[b := stream_closeRemote (h ! b)]"] Cons.prems show ?case by (simp add: p)
qed simp

lemma stream_ok_closeRemote [simp]: "stream_ok (stream_closeRemote st) = stream_ok st"
  by (simp add: stream_ok_def stream_closeRemote_def)

lemma inv_Close: "sess_inv s \<Longrightarrow> sess_inv (sess_Close s)"
proof -
  assume inv: "sess_inv s"
  let ?h = "foldl (\<lambda>h (sid, a). h[a := stream_closeRemote (h ! a)]) (s_heap s) (s_streams s)"
  have "list_all stream_ok ?h"
    using inv foldl_close_nth [of stream_ok _ "s_heap s" "s_streams s"] stream_ok_closeRemote
    by (simp add: sess_inv_def list_all_length)
  with inv show ?thesis
    by (auto simp: sess_Close_def Let_def foldl_closeRemote closeServerSettings_def sess_inv_def
        split: prod.splits)
qed

lemma upd_stream_streams [simp]:
  "s_streams (upd_stream a f s) = s_streams s" "s_closed (upd_stream a f s) = s_closed s"
  "s_isClient (upd_stream a f s) = s_isClient s" "s_handled (upd_stream a f s) = s_handled s"
  "length (s_heap (upd_stream a f s)) = length (s_heap s)"
  by (simp_all add: upd_stream_def)

lemma core_closeStream:
  "core (fst (closeStream s sid notify)) = core (s\<lparr>s_streams := AList.delete sid (s_streams s)\<rparr>)"
  by (simp add: closeStream_def Let_def)

lemma inv_closeStream: "sess_inv s \<Longrightarrow> sess_inv (fst (closeStream s sid notify))"
  using inv_delete [of s sid] sess_inv_core [OF core_closeStream [of s sid notify]] by simp

text \<open>Deleting a stream's entry and closing the stream, in either order.\<close>

lemma inv_close_delete:
  assumes "sess_inv s" and "\<And>st. stream_ok st \<Longrightarrow> stream_ok (f st)" and "\<And>st. st_id (f st) = st_id st"
    and "sid = st_id (s_heap s ! a)"
  shows "sess_inv (upd_stream a f (s\<lparr>s_streams := AList.delete sid (s_streams s)\<rparr>))"
proof (rule inv_upd_stream)
  show "sess_inv (s\<lparr>s_streams := AList.delete sid (s_streams s)\<rparr>)"
    using assms(1) by (rule inv_delete)
qed (use assms not_mapped_after_delete [OF assms(1), of a] in
  \<open>auto simp: sess_inv_def list_all_length\<close>)

lemma upd_stream_delete:
  "(upd_stream a f s)\<lparr>s_streams := xs\<rparr> = upd_stream a f (s\<lparr>s_streams := xs\<rparr>)"
  by (simp add: upd_stream_def)

lemma inv_stream_Close: "sess_inv s \<Longrightarrow> sess_inv (fst (stream_Close s a))"
proof -
  assume inv: "sess_inv s"
  have "sess_inv ((upd_stream a stream_closeRemote s)
      \<lparr>s_streams := AList.delete (st_id (the_stream s a)) (s_streams s)\<rparr>)"
    unfolding upd_stream_delete
    by (rule inv_close_delete [OF inv])
      (simp_all add: stream_ok_def stream_closeRemote_def the_stream_def)
  with inv show ?thesis
    by (simp add: stream_Close_def sess_inv_core [OF core_closeStream])
qed

subsection \<open>Every reachable session\<close>

lemma inv_stream_ok: "sess_inv s \<Longrightarrow> a < length (s_heap s) \<Longrightarrow> stream_ok (s_heap s ! a)"
  by (simp add: sess_inv_def list_all_length)

lemma inv_recv_PSH:
  assumes "sess_inv s" and "stream_receive s a data = Some (s', e)"
  shows "sess_inv s'"
proof (cases "s' = s")
  case False
  with assms(2) have s': "s' = upd_stream a (\<lambda>st. st\<lparr>st_readCh := st_readCh st @ [data]\<rparr>) s"
    and l: "length (st_readCh (s_heap s ! a)) < readChCap"
    by (auto simp: stream_receive_def Let_def the_stream_def split: if_splits)
  show ?thesis unfolding s'
    by (rule inv_upd_stream [OF assms(1)])
      (use l inv_stream_ok [OF assms(1), of a] in \<open>simp_all add: stream_ok_def\<close>)
qed (use assms(1) in simp)

lemma sess_inv_handled:
  "sess_inv s \<Longrightarrow> \<not> s_isClient s \<Longrightarrow> a < length (s_heap s) \<Longrightarrow>
     sess_inv (s\<lparr>s_handled := s_handled s @ [a]\<rparr>)"
  by (simp add: sess_inv_def)

lemma getStream_valid: "sess_inv s \<Longrightarrow> getStream s sid = Some a \<Longrightarrow>
    a < length (s_heap s) \<and> st_id (s_heap s ! a) = sid \<and> \<not> st_closed (s_heap s ! a) \<and> \<not> s_closed s"
  by (fastforce simp: getStream_def sess_inv_def list_all_iff mapped_ok_def dest: map_of_SomeD)

lemma getOrCreate_inv:
  assumes "sess_inv s" and "\<not> s_closed s" and "getOrCreateStream s sid = (s1, a)"
  shows "sess_inv s1 \<and> a < length (s_heap s1) \<and> s_isClient s1 = s_isClient s"
  using assms getStream_valid [OF assms(1), of sid] inv_addStream [OF assms(1,2), of sid]
  by (auto simp: getOrCreateStream_def addStream_def split: option.splits)

lemma inv_recv_SYN:
  assumes "sess_inv s" and "\<not> s_closed s"
  shows "case recv_SYN rs s sid of RecvGo _ s' \<Rightarrow> sess_inv s' | RecvRet _ s' \<Rightarrow> sess_inv s' | RecvBlocked \<Rightarrow> True"
proof -
  have w: "sess_inv (fst (conn_Write t f)) = sess_inv t" for t f
    by (rule sess_inv_core) simp
  obtain s1 a where g: "getOrCreateStream s sid = (s1, a)" by fastforce
  note i = getOrCreate_inv [OF assms g]
  let ?s2 = "if 2 \<le> s_peerVersion s1
     then fst (conn_Write s1 \<lparr>f_cmd = cmdSYNACK, f_streamID = sid, f_data = []\<rparr>) else s1"
  have c: "core ?s2 = core s1" by simp
  have "sess_inv (?s2\<lparr>s_handled := s_handled ?s2 @ [a]\<rparr>)" if "\<not> s_isClient s"
    using i that core_eqD [OF c] sess_inv_core [OF c] by (intro sess_inv_handled) simp_all
  with assms w g show ?thesis by (simp add: recv_SYN_def Let_def split: if_splits)
qed

lemma inv_recv_SYNACK: "sess_inv s \<Longrightarrow> sess_inv (recv_SYNACK s sid data)"
proof (cases "getStream s sid")
  case (Some a)
  assume inv: "sess_inv s"
  note v = getStream_valid [OF inv Some]
  have ok: "stream_ok (stream_receiveSYNACK data st)" if "stream_ok st" for st
    using that by (auto simp: stream_receiveSYNACK_def stream_closeRemote_def stream_ok_def Let_def)
  have sid: "st_id (stream_receiveSYNACK data st) = st_id st" for st
    by (simp add: stream_receiveSYNACK_def stream_closeRemote_def Let_def)
  show ?thesis
  proof (cases "data = []")
    case True
    then have cl: "st_closed (stream_receiveSYNACK data st) = st_closed st" for st
      by (simp add: stream_receiveSYNACK_def Let_def)
    have "sess_inv (upd_stream a (stream_receiveSYNACK data) s)"
      by (rule inv_upd_stream [OF inv])
        (use inv ok in \<open>auto simp: sess_inv_def list_all_length sid cl\<close>)
    with True Some show ?thesis by (simp add: recv_SYNACK_def)
  next
    case False
    have "sess_inv ((upd_stream a (stream_receiveSYNACK data) s)
        \<lparr>s_streams := AList.delete sid (s_streams s)\<rparr>)"
      unfolding upd_stream_delete
      by (rule inv_close_delete [OF inv]) (use v ok sid in auto)
    with False Some show ?thesis
      by (simp add: recv_SYNACK_def sess_inv_core [OF core_closeStream])
  qed
qed (simp add: recv_SYNACK_def)

lemma inv_recv_FIN: "sess_inv s \<Longrightarrow> sess_inv (recv_FIN s sid)"
proof (cases "getStream s sid")
  case (Some a)
  assume inv: "sess_inv s"
  have "sess_inv (upd_stream a stream_closeRemote (s\<lparr>s_streams := AList.delete sid (s_streams s)\<rparr>))"
    by (rule inv_close_delete [OF inv])
      (use getStream_valid [OF inv Some] in \<open>auto simp: stream_closeRemote_def stream_ok_def\<close>)
  with Some show ?thesis by (simp add: recv_FIN_def closeStream_def)
qed (simp add: recv_FIN_def)

lemma inv_recv_Settings: "sess_inv s \<Longrightarrow> recv_Settings rs s data = (rs', s') \<Longrightarrow> sess_inv s'"
proof -
  assume inv: "sess_inv s" and r: "recv_Settings rs s data = (rs', s')"
  have "core s' = core s"
    using r core_conn_Write [of "setPeerVersion v s" for v]
    by (auto simp: recv_Settings_def split: if_splits prod.splits option.splits)
  with inv show ?thesis using sess_inv_core by blast
qed

lemma inv_recv_ServerSettings: "sess_inv s \<Longrightarrow> sess_inv (recv_ServerSettings s data)"
proof -
  assume inv: "sess_inv s"
  have "sess_inv (completePeerVersion v s)" for v
    using inv by (simp add: completePeerVersion_def closeServerSettings_def sess_inv_def)
  with inv show ?thesis by (simp add: recv_ServerSettings_def split: prod.split option.split)
qed

lemma inv_handleFrame:
  assumes "sess_inv s" and "\<not> s_closed s"
  shows "case handleFrame rs s f of RecvGo _ s' \<Rightarrow> sess_inv s' | RecvRet _ s' \<Rightarrow> sess_inv s' | RecvBlocked \<Rightarrow> True"
proof -
  have w: "sess_inv (fst (conn_Write s g))" for g
    using assms(1) sess_inv_core [of "fst (conn_Write s g)" s] by simp
  show ?thesis
    using w inv_recv_SYN [OF assms, of rs "f_streamID f"] assms(1)
    by (simp add: handleFrame_def Let_def inv_recv_SYNACK inv_recv_FIN inv_recv_ServerSettings
        inv_recv_PSH [OF assms(1)] inv_recv_Settings [OF assms(1)] split: option.split prod.split)
qed

lemma inv_OpenStream: "sess_inv s \<Longrightarrow> sess_inv (fst (OpenStream s))"
proof (cases "s_closed s")
  case False
  assume inv: "sess_inv s"
  let ?s1 = "s\<lparr>s_nextID := s_nextID s + 1\<rparr>"
  have "sess_inv ?s1" using inv by (simp add: sess_inv_def)
  with False have i2: "sess_inv (addStream (s_nextID ?s1) ?s1)" by (simp add: inv_addStream)
  let ?w = "conn_Write (addStream (s_nextID ?s1) ?s1)
    \<lparr>f_cmd = cmdSYN, f_streamID = s_nextID ?s1, f_data = []\<rparr>"
  have "sess_inv (fst ?w)" using i2 sess_inv_core [OF core_conn_Write] by blast
  with False inv_closeStream show ?thesis
    by (auto simp: OpenStream_def Let_def split: prod.split option.split)
qed (simp add: OpenStream_def)

lemma inv_readRound:
  assumes "sess_inv s" and "valid_addr s a" and "readRound now n ch (the_stream s a) = Some (st, out)"
  shows "sess_inv (upd_stream a (\<lambda>_. st) s)"
proof (rule inv_upd_stream [OF assms(1)])
  have st: "st_id st = st_id (s_heap s ! a)" "st_closed st = st_closed (s_heap s ! a)"
    "stream_ok (s_heap s ! a) \<longrightarrow> stream_ok st"
    using assms(3)
    by (auto simp: readRound_def the_stream_def stream_ok_def
        split: if_splits read_case.splits list.splits)
  then show "st_id st = st_id (s_heap s ! a)"
    "st_closed st \<Longrightarrow> st_closed (s_heap s ! a) \<or> a \<notin> snd ` set (s_streams s)" by simp_all
  show "stream_ok st"
    using st(3) assms(1,2) by (simp add: sess_inv_def list_all_length valid_addr_def)
qed

lemma inv_waitSYNACK:
  assumes "sess_inv s" and "waitSYNACK ch s a = Some (s', e)"
  shows "sess_inv s'"
proof -
  have "sess_inv (upd_stream a (\<lambda>st. st\<lparr>st_synackCh := q\<rparr>) s)"
    if "st_synackCh (the_stream s a) = x # q" for x q
    using that assms(1)
    by (intro inv_upd_stream)
      (auto simp: sess_inv_def list_all_length stream_ok_def the_stream_def)
  with assms inv_stream_Close [OF assms(1), of a] show ?thesis
    by (auto simp: waitSYNACK_def Let_def split: synack_case.splits list.splits if_splits)
qed

lemma core_SetWriteDeadline_stream:
  "core (fst (stream_SetWriteDeadline s a t)) = core (upd_stream a (\<lambda>st. st\<lparr>st_writeDeadline := t\<rparr>) s)"
  by (simp add: stream_SetWriteDeadline_def updateActiveWriteDeadline_def)

lemma inv_SetDeadline: "sess_inv s \<Longrightarrow> sess_inv (fst (stream_SetDeadline s a t))"
proof -
  assume inv: "sess_inv s"
  have d: "sess_inv (upd_stream a f s)"
    if "sess_inv s" "\<And>st. stream_ok (f st) = stream_ok st" "\<And>st. st_id (f st) = st_id st"
      "\<And>st. st_closed (f st) = st_closed st" for f s
    using that by (intro inv_upd_stream) (auto simp: sess_inv_def list_all_length)
  have "sess_inv (stream_SetReadDeadline s a t)"
    unfolding stream_SetReadDeadline_def by (rule d [OF inv]) (simp_all add: stream_ok_def)
  then have "sess_inv (upd_stream a (\<lambda>st. st\<lparr>st_writeDeadline := t\<rparr>) (stream_SetReadDeadline s a t))"
    by (rule d) (simp_all add: stream_ok_def)
  then show ?thesis
    by (simp add: stream_SetDeadline_def sess_inv_core [OF core_SetWriteDeadline_stream])
qed

lemma inv_exec:
  assumes "sess_inv (y_sess y)" and "exec e y = Some y'"
  shows "sess_inv (y_sess y')"
proof (cases e)
  case (EvFrame f)
  with assms inv_handleFrame [OF assms(1), of "y_rs y" f] show ?thesis
    by (auto split: if_splits recv_out.splits intro: inv_Close)
next
  case (EvRead a now n ch)
  with assms show ?thesis by (auto split: if_splits option.splits intro: inv_readRound)
next
  case (EvWaitSYNACK ch a)
  with assms show ?thesis by (auto split: if_splits intro: inv_waitSYNACK)
qed (use assms sess_inv_core [OF core_stream_Write] sess_inv_core [OF core_markTimedOut] in
  \<open>auto split: if_splits intro: inv_Close inv_OpenStream inv_stream_Close inv_SetDeadline\<close>)

lemma sess_inv_new: "sess_inv (newClientSession w)" "sess_inv (newServerSession w)"
  by (simp_all add: sess_inv_def newServerSession_def newClientSession_def)

lemma reachable_inv: "reachable y \<Longrightarrow> sess_inv (y_sess y)"
proof (induction rule: reachable.induct)
  case (client w)
  show ?case
    using sess_inv_new(1) [of w] sess_inv_core [OF core_conn_Write]
    by (simp add: sys_init_def runClient_def)
next
  case (server w)
  show ?case by (simp add: sys_init_def sess_inv_new)
next
  case (later y e y')
  then show ?case by (auto elim!: sys_stepE intro: inv_exec)
qed

end
