(* ===== verification/Anytls_Streams.thy ===== *)
theory Anytls_Streams
  imports Anytls_Recv
begin

text \<open>
  What the users of AnyTLS streams rely on: the bytes a reader gets are the bytes the peer sent
  on that stream object, in order; \<open>Stream.Write\<close> cuts its buffer into frames that carry it;
  a session opened by a version-2 client negotiates version 2.
\<close>

section \<open>The bytes of a stream\<close>

text \<open>What a stream object holds for its readers.\<close>

definition buf :: "session \<Rightarrow> nat \<Rightarrow> bytes" where
  "buf s a = (if a < length (s_heap s)
     then st_pending (s_heap s ! a) @ concat (st_readCh (s_heap s ! a)) else [])"

lemma buf_core: "core s = core t \<Longrightarrow> buf s = buf t"
  by (simp add: buf_def core_eqD [of s t] fun_eq_iff)

lemma buf_upd_same:
  "(\<And>st. st_pending (f st) = st_pending st) \<Longrightarrow> (\<And>st. st_readCh (f st) = st_readCh st) \<Longrightarrow>
     buf (upd_stream a f s) = buf s"
proof
  fix x
  assume "\<And>st. st_pending (f st) = st_pending st" and "\<And>st. st_readCh (f st) = st_readCh st"
  then show "buf (upd_stream a f s) x = buf s x"
    by (cases "a = x") (simp_all add: buf_def upd_stream_def)
qed

lemma buf_streams [simp]: "buf (s\<lparr>s_streams := xs\<rparr>) = buf s" "buf (s\<lparr>s_nextID := i\<rparr>) = buf s"
  "buf (s\<lparr>s_handled := hs\<rparr>) = buf s"
  by (simp_all add: buf_def fun_eq_iff)

lemma buf_addStream [simp]: "buf (addStream sid s) = buf s"
  by (auto simp: buf_def addStream_def newStream_def fun_eq_iff nth_append less_Suc_eq)

lemma buf_Close [simp]: "buf (sess_Close s) = buf s"
proof
  fix a
  let ?h = "foldl (\<lambda>h (sid, a). h[a := stream_closeRemote (h ! a)]) (s_heap s) (s_streams s)"
  have "st_pending (?h ! a) = st_pending (s_heap s ! a)" "st_readCh (?h ! a) = st_readCh (s_heap s ! a)"
    if "a < length (s_heap s)"
    using that by (intro foldl_close_nth; simp add: stream_closeRemote_def)+
  then show "buf (sess_Close s) a = buf s a"
    by (auto simp: buf_def sess_Close_def Let_def foldl_closeRemote closeServerSettings_def)
qed

lemma buf_closeStream [simp]: "buf (fst (closeStream s sid n)) = buf s"
  using buf_core [OF core_closeStream [of s sid n]] by simp

lemma buf_conn_Write [simp]: "buf (fst (conn_Write s f)) = buf s"
  by (rule buf_core) simp

lemma buf_stream_Close [simp]: "buf (fst (stream_Close s a)) = buf s"
  by (simp add: stream_Close_def buf_upd_same stream_closeRemote_def)

lemma buf_OpenStream [simp]: "buf (fst (OpenStream s)) = buf s"
proof -
  have "buf s' = buf (addStream i (s\<lparr>s_nextID := i\<rparr>))"
    if "conn_Write (addStream i (s\<lparr>s_nextID := i\<rparr>)) f = (s', e)" for s' e f i
    using that buf_conn_Write [of "addStream i (s\<lparr>s_nextID := i\<rparr>)" f] by simp
  then show ?thesis
    by (auto simp: OpenStream_def Let_def split: prod.split option.split)
qed

lemma buf_waitSYNACK: "waitSYNACK ch s a = Some (s', e) \<Longrightarrow> buf s' = buf s"
  by (auto simp: waitSYNACK_def Let_def buf_upd_same
      split: synack_case.splits list.splits if_splits)

lemma buf_SetDeadline [simp]: "buf (fst (stream_SetDeadline s a t)) = buf s"
  using buf_core [OF core_SetWriteDeadline_stream]
  by (simp add: stream_SetDeadline_def stream_SetReadDeadline_def buf_upd_same)

lemma buf_handleFrame:
  assumes "sess_inv s"
  shows "handleFrame rs s f = RecvGo rs' s' \<Longrightarrow> buf s' a =
      buf s a @ (if psh_target s f = Some a then f_data f else [])"
    and "handleFrame rs s f = RecvRet e s' \<Longrightarrow> buf s' = buf s"
proof -
  have psh: "buf s1 a = buf s a @ (if b = a then d else [])"
    if "getStream s sid = Some b" "stream_receive s b d = Some (s1, e)" for sid b d s1 e
    using that getStream_valid [OF assms that(1)]
    by (auto simp: stream_receive_def Let_def the_stream_def buf_def upd_stream_def split: if_splits)
  have syn: "case recv_SYN rs s sid of RecvGo _ t \<Rightarrow> buf t = buf s | RecvRet _ t \<Rightarrow> buf t = buf s
      | RecvBlocked \<Rightarrow> True" for sid
    by (simp add: recv_SYN_def getOrCreateStream_def Let_def split: prod.split option.split)
  have syn1: "buf t = buf s" if "recv_SYN rs s sid = RecvGo rs1 t" for sid rs1 t
    using syn [of sid] that by simp
  have syn2: "buf t = buf s" if "recv_SYN rs s sid = RecvRet e t" for sid e t
    using syn [of sid] that by simp
  have upd: "buf (upd_stream b (stream_receiveSYNACK d) s) = buf s" for b d
    by (rule buf_upd_same) (simp_all add: stream_receiveSYNACK_def stream_closeRemote_def Let_def)
  have synack: "buf (recv_SYNACK s sid d) = buf s" for sid d
    by (simp add: recv_SYNACK_def Let_def upd split: option.split)
  have fin: "buf (recv_FIN s sid) = buf s" for sid
    by (simp add: recv_FIN_def buf_upd_same stream_closeRemote_def split: option.split)
  have settings: "buf t = buf s" if "recv_Settings rs s d = (rs1, t)" for rs1 t d
  proof -
    have "buf (setPeerVersion v s) = buf s" for v by (rule buf_core) simp
    with that show ?thesis
      by (auto simp: recv_Settings_def split: if_splits prod.splits option.splits)
  qed
  have server: "buf (recv_ServerSettings s d) = buf s" for d
    by (simp add: recv_ServerSettings_def completePeerVersion_def closeServerSettings_def buf_def
        fun_eq_iff split: prod.split option.split)
  show "buf s' a = buf s a @ (if psh_target s f = Some a then f_data f else [])"
    if "handleFrame rs s f = RecvGo rs' s'"
    using that syn1 synack fin settings server
    by (auto simp: handleFrame_def Let_def psh_target_def cmd_defs dest: psh
        split: if_split_asm option.split_asm prod.split_asm)
  show "buf s' = buf s" if "handleFrame rs s f = RecvRet e s'"
    using that syn2
    by (auto simp: handleFrame_def Let_def split: if_split_asm option.split_asm prod.split_asm)
qed

lemma buf_readRound:
  assumes "valid_addr s a" and "readRound now n ch (the_stream s a) = Some (st, out)"
  shows "(case out of ReadGot b \<Rightarrow> b | _ \<Rightarrow> []) @ buf (upd_stream a (\<lambda>_. st) s) a = buf s a"
    and "c \<noteq> a \<Longrightarrow> buf (upd_stream a (\<lambda>_. st) s) c = buf s c"
  using assms
  by (auto simp: readRound_def the_stream_def buf_def upd_stream_def valid_addr_def
      split: if_splits read_case.splits list.splits)

definition data_inv :: "sys \<Rightarrow> bool" where
  "data_inv y \<longleftrightarrow> (\<forall>a. y_out y a @ buf (y_sess y) a = y_in y a)"

lemma data_inv_exec:
  assumes "sess_inv (y_sess y)" and "data_inv y" and "exec e y = Some y'"
  shows "data_inv y'"
proof (cases e)
  case (EvFrame f)
  show ?thesis
  proof (cases "handleFrame (y_rs y) (y_sess y) f")
    case (RecvGo rs s)
    with EvFrame assms buf_handleFrame(1) [OF assms(1) RecvGo] show ?thesis
      by (auto simp: data_inv_def record_in_def append_assoc [symmetric] simp del: append_assoc
          split: if_splits option.splits)
  next
    case (RecvRet er s)
    with EvFrame assms buf_handleFrame(2) [OF assms(1) RecvRet] show ?thesis
      by (auto simp: data_inv_def split: if_splits)
  qed (use EvFrame assms in \<open>auto split: if_splits\<close>)
next
  case (EvRead a now n ch)
  with assms(3) obtain st out where v: "valid_addr (y_sess y) a"
    and r: "readRound now n ch (the_stream (y_sess y) a) = Some (st, out)"
    and y': "y' = y\<lparr>y_sess := upd_stream a (\<lambda>_. st) (y_sess y),
        y_out := (case out of ReadGot b \<Rightarrow> (y_out y)(a := y_out y a @ b) | _ \<Rightarrow> y_out y)\<rparr>"
    by (auto split: if_splits option.splits)
  note b = buf_readRound [OF v r]
  show ?thesis unfolding data_inv_def
  proof
    fix c
    show "y_out y' c @ buf (y_sess y') c = y_in y' c"
      using b(1) b(2) [of c] assms(2) y'
      by (cases "c = a"; cases out) (auto simp: data_inv_def)
  qed
next
  case (EvWaitSYNACK ch a)
  with assms show ?thesis by (auto simp: data_inv_def dest!: buf_waitSYNACK split: if_splits)
qed (use assms buf_core [OF core_stream_Write] buf_core [OF core_markTimedOut] in
  \<open>auto simp: data_inv_def split: if_splits\<close>)

lemma reachable_data: "reachable y \<Longrightarrow> data_inv y"
proof (induction rule: reachable.induct)
  case (client w)
  show ?case
    by (simp add: data_inv_def sys_init_def runClient_def buf_core [OF core_conn_Write])
      (simp add: buf_def newClientSession_def)
next
  case (server w)
  show ?case by (simp add: data_inv_def sys_init_def buf_def newServerSession_def newClientSession_def)
next
  case (later y e y')
  then show ?case by (auto elim!: sys_stepE intro: data_inv_exec reachable_inv)
qed

section \<open>Writing on a stream\<close>

text \<open>The chunks of a buffer.\<close>

function chunks :: "bytes \<Rightarrow> bytes list" where
  "chunks b = (if b = [] then [] else take maxFrameData b # chunks (drop maxFrameData b))"
  by pat_completeness auto
termination by (relation "measure length") (auto simp: maxFrameData_def)

declare chunks.simps [simp del]

lemma concat_chunks: "concat (chunks b) = b"
  by (induction b rule: chunks.induct) (subst chunks.simps, simp)

lemma chunks_valid: "c \<in> set (chunks b) \<Longrightarrow> 0 < length c \<and> length c \<le> maxFrameData"
proof (induction b rule: chunks.induct)
  case (1 b)
  then show ?case by (subst (asm) (2) chunks.simps) (auto simp: maxFrameData_def split: if_splits)
qed

definition psh :: "u32 \<Rightarrow> bytes \<Rightarrow> frame" where
  "psh sid d = \<lparr>f_cmd = cmdPSH, f_streamID = sid, f_data = d\<rparr>"

text \<open>A connection that works: open, and no write fails.\<close>

definition conn_up :: "session \<Rightarrow> bool" where
  "conn_up s \<longleftrightarrow> \<not> s_connClosed s \<and> w_budget (s_conn s) = None"

lemma writeFrameForStream_up:
  assumes "conn_up s" and "\<not> deadlineExceeded now (st_writeDeadline (the_stream s a))"
    and "length (f_data f) \<le> maxFrameData"
  shows "\<exists>s'. writeFrameForStream now s a f = (s', None) \<and> conn_up s' \<and> core s' = core s \<and>
    w_out (s_conn s') = w_out (s_conn s) @ frame_bytes f"
proof -
  have "core (fst (writeFrameForStream now s a f)) = core s" by simp
  then show ?thesis
    using assms
    by (simp add: writeFrameForStream_def beginStreamWrite_def conn_SetWriteDeadline_def conn_up_def
        conn_Write_def writeFrame_bytes endStreamWrite_def Let_def)
qed

lemma the_stream_core: "core s = core t \<Longrightarrow> the_stream s a = the_stream t a"
  by (simp add: the_stream_def core_eqD [of s t])

lemma writeLoop_up:
  assumes "conn_up s" and "\<not> deadlineExceeded now (st_writeDeadline (the_stream s a))"
  shows "\<exists>s'. writeLoop now s a n b = (s', n + length b, None) \<and> conn_up s' \<and> core s' = core s \<and>
    w_out (s_conn s') =
      w_out (s_conn s) @ concat (map frame_bytes (map (psh (st_id (the_stream s a))) (chunks b)))"
  using assms
proof (induction now s a n b rule: writeLoop.induct)
  case (1 now s a n b)
  show ?case
  proof (cases "b = []")
    case True
    with 1 show ?thesis by (simp add: writeLoop.simps chunks.simps)
  next
    case False
    let ?f = "\<lparr>f_cmd = cmdPSH, f_streamID = st_id (the_stream s a), f_data = take maxFrameData b\<rparr>"
    from writeFrameForStream_up [OF 1(2,3), of ?f]
    obtain s1 where w: "writeFrameForStream now s a ?f = (s1, None)" and up: "conn_up s1"
      and c: "core s1 = core s" and o: "w_out (s_conn s1) = w_out (s_conn s) @ frame_bytes ?f"
      by auto
    note st = the_stream_core [OF c, of a]
    from 1(1) [OF False refl w [symmetric] refl up] 1(3) st
    obtain s' where s': "writeLoop now s1 a (n + length (take maxFrameData b)) (drop maxFrameData b)
        = (s', n + length (take maxFrameData b) + length (drop maxFrameData b), None)"
      and up': "conn_up s'" and c': "core s' = core s1"
      and o': "w_out (s_conn s') = w_out (s_conn s1) @ concat (map frame_bytes
        (map (psh (st_id (the_stream s a))) (chunks (drop maxFrameData b))))"
      by auto
    have len: "length (take maxFrameData b) + length (drop maxFrameData b) = length b" by simp
    show ?thesis
      using False w s' up' c c' o o' len
      by (subst writeLoop.simps, subst chunks.simps)
        (simp add: Let_def psh_def add.assoc del: length_take length_drop)
  qed
qed

section \<open>Receiving what was written\<close>

lemma frame_loop:
  assumes "sess_inv s" and "getStream s sid = Some a" and "\<forall>c \<in> set cs. length c \<le> maxFrameData"
    and "length (st_readCh (the_stream s a)) + length cs \<le> readChCap"
  shows "recvLoop (length cs + k) rs s (concat (map frame_bytes (map (psh sid) cs)) @ r) =
    recvLoop k rs (upd_stream a (\<lambda>st. st\<lparr>st_readCh := st_readCh st @ cs\<rparr>) s) r"
  using assms
proof (induction cs arbitrary: s)
  case Nil
  then show ?case by (simp add: upd_stream_def)
next
  case (Cons c cs)
  note v = getStream_valid [OF Cons.prems(1,2)]
  let ?s1 = "upd_stream a (\<lambda>st. st\<lparr>st_readCh := st_readCh st @ [c]\<rparr>) s"
  have rcv: "stream_receive s a c = Some (?s1, None)"
    using v Cons.prems(4) by (simp add: stream_receive_def the_stream_def)
  have h: "handleFrame rs s (psh sid c) = RecvGo rs ?s1"
    using Cons.prems(2) rcv by (simp add: handleFrame_def psh_def cmd_defs)
  have f: "readFrame (frame_bytes (psh sid c) @ z) = Inr (psh sid c, z)" for z
    using Cons.prems(3) by (intro readFrame_bytes) (simp add: psh_def)
  have inv: "sess_inv ?s1" using inv_recv_PSH [OF Cons.prems(1) rcv] .
  have g: "getStream ?s1 sid = Some a" using Cons.prems(2) by (simp add: getStream_def)
  have l: "length (st_readCh (the_stream ?s1 a)) + length cs \<le> readChCap"
    using Cons.prems(4) v by (simp add: the_stream_def upd_stream_def)
  have u: "upd_stream a (\<lambda>st. st\<lparr>st_readCh := st_readCh st @ cs\<rparr>) ?s1 =
      upd_stream a (\<lambda>st. st\<lparr>st_readCh := st_readCh st @ c # cs\<rparr>) s"
    using v by (simp add: upd_stream_def)
  show ?case
    using Cons.IH [OF inv g _ l] Cons.prems(3) by (simp add: f h u)
qed

lemma length_chunks: "length b \<le> k * maxFrameData \<Longrightarrow> length (chunks b) \<le> k"
proof (induction b arbitrary: k rule: chunks.induct)
  case (1 b)
  show ?case
  proof (cases "b = []")
    case False
    then obtain m where k: "k = Suc m" using 1(2) by (cases k) auto
    have "length (drop maxFrameData b) \<le> m * maxFrameData" using 1(2) k by simp
    from 1(1) [OF False this] show ?thesis using k False by (subst chunks.simps) simp
  qed (simp add: chunks.simps)
qed

section \<open>Properties\<close>





text \<open>C2: A buffer written on a stream whose connection works is written whole, and a session
  that receives those bytes on an open stream of that id with an empty queue (up to the 32
  frames the queue holds) ends with the buffer appended to what the stream holds.\<close>

theorem anytls_write_arrives:
  assumes "conn_up c" and "w_out (s_conn c) = []"
    and "\<not> deadlineExceeded now (st_writeDeadline (the_stream c a))"
    and "sess_inv s" and "getStream s (st_id (the_stream c a)) = Some d"
    and "st_readCh (the_stream s d) = []" and "length b \<le> readChCap * maxFrameData"
    and "length (chunks b) < k"
  shows "\<exists>c' s'. stream_Write now c a b = (c', length b, None) \<and>
    recvLoop k rs s (w_out (s_conn c')) = Some (LoopRet IoEOF (sess_Close s')) \<and>
    buf s' d = buf s d @ b"
proof -
  let ?sid = "st_id (the_stream c a)"
  let ?s' = "upd_stream d (\<lambda>st. st\<lparr>st_readCh := st_readCh st @ chunks b\<rparr>) s"
  from writeLoop_up [OF assms(1,3), of 0 b] assms(2,3) obtain c' where
    c': "stream_Write now c a b = (c', length b, None)"
      "w_out (s_conn c') = concat (map frame_bytes (map (psh ?sid) (chunks b)))"
    by (auto simp: stream_Write_def)
  obtain j where k: "k = length (chunks b) + Suc j"
    using assms(8) by (metis less_imp_Suc_add add_Suc_right)
  have l: "length (st_readCh (the_stream s d)) + length (chunks b) \<le> readChCap"
    using assms(6) length_chunks [OF assms(7)] by simp
  have "recvLoop k rs s (w_out (s_conn c') @ []) = recvLoop (Suc j) rs ?s' []"
    unfolding c'(2) k using chunks_valid by (intro frame_loop [OF assms(4,5) _ l]) blast
  then have "recvLoop k rs s (w_out (s_conn c')) = Some (LoopRet IoEOF (sess_Close ?s'))"
    by (simp add: frames.rd_empty)
  moreover have "buf ?s' d = buf s d @ b"
    using getStream_valid [OF assms(4,5)] by (simp add: buf_def upd_stream_def concat_chunks)
  ultimately show ?thesis using c'(1) by blast
qed

definition demo_session :: session where
  "demo_session = addStream 1 (newServerSession \<lparr>w_out = [], w_budget = None\<rparr>)"

theorem anytls_write_arrives_witness:
  "\<exists>c' s'. stream_Write 5 demo_session 0 [104, 105] = (c', length [104, 105 :: byte], None) \<and>
    recvLoop 2 True demo_session (w_out (s_conn c')) = Some (LoopRet IoEOF (sess_Close s')) \<and>
    buf s' 0 = buf demo_session 0 @ [104, 105]"
proof (rule anytls_write_arrives)
  have "length (chunks [104, 105]) \<le> 1" by (rule length_chunks) (simp add: maxFrameData_def)
  then show "length (chunks [104, 105]) < 2" by simp
  show "sess_inv demo_session"
    unfolding demo_session_def
    by (rule inv_addStream [OF sess_inv_new(2)]) (simp add: newServerSession_def newClientSession_def)
qed (simp_all add: demo_session_def conn_up_def newServerSession_def newClientSession_def addStream_def
    the_stream_def newStream_def getStream_def deadlineExceeded_def readChCap_def maxFrameData_def)

text \<open>C6: A \<open>FIN\<close> that arrives while data of the stream is still queued makes both cases of
  the reader's \<open>select\<close> ready: the read may take the data, and it may as well report the end of
  the stream with the data never delivered.\<close>

theorem anytls_fin_races_with_data:
  assumes "sess_inv s" and "getStream s sid = Some a" and "st_pending (the_stream s a) = []"
    and "st_readCh (the_stream s a) = d # q"
    and "\<not> deadlineExceeded now (st_readDeadline (the_stream s a))"
  shows "let st = the_stream (recv_FIN s sid) a
    in readRound now n CaseClosed st = Some (st, ReadErr IoEOF) \<and>
       readRound now n CaseData st = Some (st\<lparr>st_readCh := q, st_pending := d\<rparr>, ReadAgain)"
proof -
  have "the_stream (recv_FIN s sid) a = stream_closeRemote (the_stream s a)"
    using getStream_valid [OF assms(1,2)] assms(2)
    by (simp add: recv_FIN_def closeStream_def the_stream_def upd_stream_def)
  with assms show ?thesis by (simp add: readRound_def stream_closeRemote_def)
qed

definition demo_queued :: session where
  "demo_queued = upd_stream 0 (\<lambda>st. st\<lparr>st_readCh := [[104, 105]]\<rparr>) demo_session"

theorem anytls_fin_races_with_data_witness:
  "let st = the_stream (recv_FIN demo_queued 1) 0
   in readRound 5 10 CaseClosed st = Some (st, ReadErr IoEOF) \<and>
      readRound 5 10 CaseData st = Some (st\<lparr>st_readCh := [], st_pending := [104, 105]\<rparr>, ReadAgain)"
proof (rule anytls_fin_races_with_data)
  show "sess_inv demo_queued"
    unfolding demo_queued_def
    by (rule inv_upd_stream) (simp_all add: sess_inv_def demo_session_def addStream_def newStream_def
        newServerSession_def newClientSession_def mapped_ok_def stream_ok_def readChCap_def)
qed (simp_all add: demo_queued_def demo_session_def upd_stream_def addStream_def newStream_def
    newServerSession_def newClientSession_def getStream_def the_stream_def deadlineExceeded_def)

end
