(* ===== verification/Anytls_Versions.thy ===== *)
theory Anytls_Versions
  imports Anytls_Recv
begin

text \<open>
  Settings and protocol versions of an AnyTLS session: no stream before the client's settings,
  what the settings frames do to the peer version, and what a client that waits for the server's
  settings gets, also when they arrive after its patience has ended.
\<close>

section \<open>No stream before the settings\<close>

definition no_stream :: "sys \<Rightarrow> bool" where
  "no_stream y \<longleftrightarrow> (s_isClient (y_sess y) \<or> y_rs y \<or>
     s_heap (y_sess y) = [] \<and> s_streams (y_sess y) = [] \<and> s_handled (y_sess y) = [])"

lemma isClient_core: "core s = core t \<Longrightarrow> s_isClient s = s_isClient t"
  by (rule core_eqD)

lemma fresh_core: "core s = core t \<Longrightarrow> s_heap s = [] \<and> s_streams s = [] \<and> s_handled s = [] \<longleftrightarrow>
    s_heap t = [] \<and> s_streams t = [] \<and> s_handled t = []"
  by (simp add: core_eqD [of s t])

abbreviation fresh :: "session \<Rightarrow> bool" where
  "fresh s \<equiv> s_heap s = [] \<and> s_streams s = [] \<and> s_handled s = []"

lemma fresh_Close: "fresh s \<Longrightarrow> fresh (sess_Close s)"
  by (auto simp: sess_Close_def Let_def foldl_closeRemote closeServerSettings_def)

lemma fresh_handleFrame:
  assumes "\<not> s_isClient s" and "fresh s"
  shows "handleFrame False s f = RecvGo False s' \<Longrightarrow> fresh s' \<and> \<not> s_isClient s'"
    and "handleFrame False s f = RecvRet e s' \<Longrightarrow> fresh s' \<and> \<not> s_isClient s'"
proof -
  have w: "fresh (fst (conn_Write s g)) \<and> \<not> s_isClient (fst (conn_Write s g))" for g
    using assms core_eqD [OF core_conn_Write [of s g]] by simp
  have none: "getStream s sid = None" for sid using assms by (simp add: getStream_def)
  have set: "rs1" if "recv_Settings False s d = (rs1, t)" for rs1 t d
    using that assms by (auto simp: recv_Settings_def split: prod.splits option.splits if_splits)
  show "fresh s' \<and> \<not> s_isClient s'" if "handleFrame False s f = RecvGo False s'"
    using that w assms
    by (auto simp: handleFrame_def Let_def none recv_SYN_def recv_SYNACK_def recv_FIN_def
        recv_ServerSettings_def dest: set split: if_split_asm prod.split_asm)
  show "fresh s' \<and> \<not> s_isClient s'" if "handleFrame False s f = RecvRet e s'"
    using that w assms
    by (auto simp: handleFrame_def Let_def none recv_SYN_def split: if_split_asm prod.split_asm)
qed

lemma handleFrame_isClient:
  assumes "sess_inv s"
  shows "handleFrame rs s f = RecvGo rs' s' \<Longrightarrow> s_isClient s' = s_isClient s \<and> (rs \<longrightarrow> rs')"
    and "handleFrame rs s f = RecvRet e s' \<Longrightarrow> s_isClient s' = s_isClient s"
proof -
  have w: "s_isClient (fst (conn_Write t g)) = s_isClient t" for t g
    by (rule isClient_core) simp
  have cl: "s_isClient (fst (closeStream t sid n)) = s_isClient t" for t sid n
    using core_eqD(5) [OF core_closeStream [of t sid n]] by simp
  have settings: "s_isClient t = s_isClient s \<and> (rs \<longrightarrow> rs1)" if "recv_Settings rs s d = (rs1, t)" for rs1 t d
    using that by (auto simp: recv_Settings_def w setPeerVersion_def
        split: if_splits prod.splits option.splits)
  have syn: "case recv_SYN rs s sid of RecvGo rs1 t \<Rightarrow> s_isClient t = s_isClient s \<and> (rs \<longrightarrow> rs1)
      | RecvRet _ t \<Rightarrow> s_isClient t = s_isClient s | RecvBlocked \<Rightarrow> True" for sid
    by (simp add: recv_SYN_def getOrCreateStream_def addStream_def Let_def w split: prod.split option.split)
  have syn1: "s_isClient t = s_isClient s \<and> (rs \<longrightarrow> rs1)" if "recv_SYN rs s sid = RecvGo rs1 t" for sid rs1 t
    using syn [of sid] that by simp
  have syn2: "s_isClient t = s_isClient s" if "recv_SYN rs s sid = RecvRet e t" for sid e t
    using syn [of sid] that by simp
  have other: "s_isClient (recv_SYNACK s sid d) = s_isClient s" "s_isClient (recv_FIN s sid) = s_isClient s"
    "s_isClient (recv_ServerSettings s d) = s_isClient s" for sid d
    by (simp_all add: recv_SYNACK_def recv_FIN_def recv_ServerSettings_def completePeerVersion_def
        closeServerSettings_def Let_def cl split: option.split prod.split)
  have psh: "s_isClient t = s_isClient s" if "stream_receive s a d = Some (t, e)" for a d t e
    using that by (auto simp: stream_receive_def Let_def split: if_splits)
  show "s_isClient s' = s_isClient s \<and> (rs \<longrightarrow> rs')" if "handleFrame rs s f = RecvGo rs' s'"
    using that other
    by (auto simp: handleFrame_def Let_def w dest: settings syn1 psh
        split: if_split_asm prod.split_asm option.split_asm)
  show "s_isClient s' = s_isClient s" if "handleFrame rs s f = RecvRet e s'"
    using that
    by (auto simp: handleFrame_def Let_def dest: syn2
        split: if_split_asm prod.split_asm option.split_asm)
qed

lemma isClient_Close [simp]: "s_isClient (sess_Close s) = s_isClient s"
  by (simp add: sess_Close_def Let_def foldl_closeRemote closeServerSettings_def)

lemma no_stream_exec:
  assumes inv: "sess_inv (y_sess y)" and "no_stream y" and "exec e y = Some y'"
  shows "no_stream y'"
proof (cases "s_isClient (y_sess y) \<or> y_rs y")
  case True
  have cl: "s_isClient (fst (closeStream t sid n)) = s_isClient t" for t sid n
    using core_eqD(5) [OF core_closeStream [of t sid n]] by simp
  have c: "s_isClient (fst (conn_Write t g)) = s_isClient t" for t g
    by (rule isClient_core) simp
  have o: "s_isClient (fst (OpenStream t)) = s_isClient t" for t
  proof -
    let ?u = "addStream (s_nextID t + 1) (t\<lparr>s_nextID := s_nextID t + 1\<rparr>)"
    have "s_isClient t' = s_isClient t" if "conn_Write ?u g = (t', e)" for t' e g
      using c [of ?u g] that by (simp add: addStream_def)
    then show ?thesis
      by (auto simp: OpenStream_def Let_def cl split: prod.split option.split)
  qed
  have sc: "s_isClient (fst (stream_Close t a)) = s_isClient t" for t a
    by (simp add: stream_Close_def cl)
  have "s_isClient (y_sess y') = s_isClient (y_sess y) \<and> (y_rs y \<longrightarrow> y_rs y')"
  proof (cases e)
    case (EvFrame f)
    with assms(3) handleFrame_isClient [OF inv] show ?thesis
      by (fastforce split: if_splits recv_out.splits)
  next
    case (EvWaitSYNACK ch a)
    with assms(3) show ?thesis
      by (auto simp: waitSYNACK_def Let_def sc split: if_splits synack_case.splits list.splits)
  qed (use assms(3) core_eqD(5) [OF core_stream_Write] core_eqD(5) [OF core_markTimedOut]
      core_eqD(5) [OF core_SetWriteDeadline_stream] in
    \<open>auto simp: o sc stream_SetDeadline_def stream_SetReadDeadline_def split: if_splits option.splits\<close>)
  with True show ?thesis by (auto simp: no_stream_def)
next
  case False
  with assms(2) have f: "fresh (y_sess y)" by (simp add: no_stream_def)
  then have v: "\<not> valid_addr (y_sess y) a" for a by (simp add: valid_addr_def)
  show ?thesis
  proof (cases e)
    case (EvFrame g)
    show ?thesis
    proof (cases "handleFrame (y_rs y) (y_sess y) g")
      case (RecvGo rs s)
      with EvFrame False f assms(3) fresh_handleFrame(1) [of "y_sess y" g s] show ?thesis
        by (cases rs) (auto simp: no_stream_def split: if_splits)
    next
      case (RecvRet er s)
      with EvFrame False f assms(3) fresh_handleFrame(2) [of "y_sess y" g er s] fresh_Close [of s]
      show ?thesis by (auto simp: no_stream_def split: if_splits)
    qed (use EvFrame assms(3) in \<open>auto split: if_splits\<close>)
  next
    case EvEnd
    with assms(3) f fresh_Close [OF f] show ?thesis by (auto simp: no_stream_def)
  qed (use assms(3) f v False in \<open>auto simp: no_stream_def markServerSettingsTimedOut_def\<close>)
qed

lemma reachable_no_stream: "reachable y \<Longrightarrow> no_stream y"
proof (induction rule: reachable.induct)
  case (client w)
  have "s_isClient (fst (conn_Write (newClientSession w) f)) = s_isClient (newClientSession w)" for f
    by (rule isClient_core) simp
  then show ?case by (simp add: no_stream_def sys_init_def runClient_def newClientSession_def)
next
  case (server w)
  show ?case by (simp add: no_stream_def sys_init_def newServerSession_def newClientSession_def)
next
  case (later y e y')
  then show ?case by (auto elim!: sys_stepE intro: no_stream_exec reachable_inv)
qed

section \<open>Waiting for the server's settings\<close>

text \<open>What a client knows of the server's version: the version the server's settings named once
  they are complete, 1 once the waiting timed out, nothing before.\<close>

lemma waitServerSettings_value:
  assumes "s_isClient s" and "waitServerSettings ch between s = Some (s', v)"
  shows "v \<noteq> 0"
  using assms
  by (auto simp: waitServerSettings_def serverSettingsState_def Let_def
      split: if_splits bool.splits prod.splits)

section \<open>Properties\<close>

text \<open>C4: A server session that has not received the client's settings has created no stream
  object and started no handler, whatever it was sent and whatever order the operations ran in.\<close>

theorem anytls_no_stream_before_settings:
  assumes "reachable y" and "\<not> s_isClient (y_sess y)" and "\<not> y_rs y"
  shows "s_heap (y_sess y) = [] \<and> s_streams (y_sess y) = [] \<and> s_handled (y_sess y) = []"
  using reachable_no_stream [OF assms(1)] assms(2,3) by (simp add: no_stream_def)

theorem anytls_no_stream_before_settings_witness:
  "let s = y_sess (sys_init (newServerSession \<lparr>w_out = [], w_budget = None\<rparr>))
   in s_heap s = [] \<and> s_streams s = [] \<and> s_handled s = []"
  unfolding Let_def
  by (rule anytls_no_stream_before_settings [OF reachable.server])
    (simp_all add: sys_init_def newServerSession_def newClientSession_def)

text \<open>A \<open>SYN\<close> that arrives at a server before the settings ends the receive loop with an
  error after an alert frame was written, and creates no stream.\<close>

theorem anytls_early_syn_alert:
  assumes "\<not> s_isClient s" and "\<not> s_connClosed s" and "w_budget (s_conn s) = None"
    and "valid_frame f" and "f_cmd f = cmdSYN"
  shows "recvLoop (Suc k) False s (frame_bytes f @ r) =
    Some (LoopRet (Errorf ''client opened stream before settings'')
      (sess_Close (s\<lparr>s_conn := (s_conn s)\<lparr>w_out := w_out (s_conn s) @
        frame_bytes \<lparr>f_cmd = cmdAlert, f_streamID = 0,
          f_data = to_bytes ''client did not send its settings''\<rparr>\<rparr>\<rparr>)))"
  using assms
  by (simp add: readFrame_bytes handleFrame_def recv_SYN_def cmd_defs conn_Write_def
      writeFrame_bytes maxFrameData_def)

theorem anytls_early_syn_alert_witness:
  "let s = newServerSession \<lparr>w_out = [], w_budget = None\<rparr>;
       f = \<lparr>f_cmd = cmdSYN, f_streamID = 1, f_data = []\<rparr>
   in recvLoop 1 False s (frame_bytes f @ []) =
    Some (LoopRet (Errorf ''client opened stream before settings'')
      (sess_Close (s\<lparr>s_conn := (s_conn s)\<lparr>w_out := w_out (s_conn s) @
        frame_bytes \<lparr>f_cmd = cmdAlert, f_streamID = 0,
          f_data = to_bytes ''client did not send its settings''\<rparr>\<rparr>\<rparr>)))"
  unfolding Let_def One_nat_def
  by (rule anytls_early_syn_alert)
    (simp_all add: newServerSession_def newClientSession_def maxFrameData_def)

definition server_after :: "session \<Rightarrow> session" where
  "server_after s = snd (recv_Settings False s (to_bytes clientSettings))"

lemma client_settings_version: "settings_version (to_bytes clientSettings) = (2, None)"
  by (simp add: settings_version_def parseSettings_def strings_TrimSpace_def is_space_def
      clientSettings_def parseInt64_def parseUint_def is_digit_def digit_val_def)

lemma server_settings_version: "settings_version (to_bytes ''v=2'') = (2, None)"
  by (simp add: settings_version_def parseSettings_def strings_TrimSpace_def is_space_def
      parseInt64_def parseUint_def is_digit_def digit_val_def)

text \<open>C5: The settings exchange. The settings a client sends make the server take version 2 and
  answer; the answer makes the client take version 2, also when the client's wait had already timed
  out and settled for version 1; a client that waits never gets version 0.\<close>

theorem anytls_settings_exchange:
  assumes "s_isClient c" and "s_peerVersion c = 0" and "\<not> s_serverSettingsDone c"
    and "\<not> s_isClient s" and "\<not> s_connClosed s" and "w_budget (s_conn s) = None"
  shows "s_peerVersion (server_after s) = 2 \<and>
    w_out (s_conn (server_after s)) = w_out (s_conn s) @
      frame_bytes \<lparr>f_cmd = cmdServerSettings, f_streamID = 0, f_data = to_bytes ''v=2''\<rparr> \<and>
    serverSettingsState (recv_ServerSettings c (to_bytes ''v=2'')) = (2, False) \<and>
    (\<exists>c1. waitServerSettings SettingsTimer (\<lambda>c. c) c = Some (c1, 1) \<and>
       serverSettingsState (recv_ServerSettings c1 (to_bytes ''v=2'')) = (2, False)) \<and>
    (\<forall>ch between s' v. waitServerSettings ch between c = Some (s', v) \<longrightarrow> v \<noteq> 0)"
proof (intro conjI allI impI)
  show "s_peerVersion (server_after s) = 2"
    "w_out (s_conn (server_after s)) = w_out (s_conn s) @
      frame_bytes \<lparr>f_cmd = cmdServerSettings, f_streamID = 0, f_data = to_bytes ''v=2''\<rparr>"
    using assms(4-6)
    by (simp_all add: server_after_def recv_Settings_def client_settings_version setPeerVersion_def
        conn_Write_def writeFrame_bytes maxFrameData_def)
  show "serverSettingsState (recv_ServerSettings c (to_bytes ''v=2'')) = (2, False)"
    using assms(1,2) by (simp add: recv_ServerSettings_def server_settings_version
        completePeerVersion_def closeServerSettings_def serverSettingsState_def)
  show "\<exists>c1. waitServerSettings SettingsTimer (\<lambda>c. c) c = Some (c1, 1) \<and>
       serverSettingsState (recv_ServerSettings c1 (to_bytes ''v=2'')) = (2, False)"
  proof (cases "s_serverSettingsTimedOut c")
    case True
    with assms(1-3) show ?thesis
      by (intro exI [of _ c]) (simp add: waitServerSettings_def serverSettingsState_def
          recv_ServerSettings_def server_settings_version completePeerVersion_def closeServerSettings_def)
  next
    case False
    with assms(1-3) show ?thesis
      by (intro exI [of _ "markServerSettingsTimedOut c"])
        (simp add: waitServerSettings_def serverSettingsState_def markServerSettingsTimedOut_def
          recv_ServerSettings_def server_settings_version completePeerVersion_def closeServerSettings_def)
  qed
  show "v \<noteq> 0" if "waitServerSettings ch between c = Some (s', v)" for ch between s' v
    using waitServerSettings_value [OF assms(1) that] .
qed

theorem anytls_settings_exchange_witness:
  "let w = \<lparr>w_out = [], w_budget = None\<rparr>; c = newClientSession w; s = newServerSession w
   in s_peerVersion (server_after s) = 2 \<and>
     serverSettingsState (recv_ServerSettings c (to_bytes ''v=2'')) = (2, False)"
  using anytls_settings_exchange [of "newClientSession \<lparr>w_out = [], w_budget = None\<rparr>"
      "newServerSession \<lparr>w_out = [], w_budget = None\<rparr>"]
  by (simp add: newServerSession_def newClientSession_def)

end
