(* ===== verification/Go_Netip.thy ===== *)
theory Go_Netip
  imports Go_Net
begin

text \<open>
  \<open>netip.ParseAddr\<close> and \<open>netip.Addr.String\<close>, and the \<open>net.IP\<close> conversions between the
  4-byte and the 16-byte form. An address is its bytes; an IPv6 address carries its zone.
\<close>

datatype ipaddr = IP4 bytes | IP6 bytes string

fun addr_Is4 :: "ipaddr \<Rightarrow> bool" where
  "addr_Is4 (IP4 b) = True"
| "addr_Is4 (IP6 b z) = False"

text \<open>\<open>Is6\<close> holds for every IPv6 address, the IPv4-mapped ones included.\<close>

fun addr_Is6 :: "ipaddr \<Rightarrow> bool" where
  "addr_Is6 (IP4 b) = False"
| "addr_Is6 (IP6 b z) = True"

fun addr_AsSlice :: "ipaddr \<Rightarrow> bytes" where
  "addr_AsSlice (IP4 b) = b"
| "addr_AsSlice (IP6 b z) = b"

fun wf_addr :: "ipaddr \<Rightarrow> bool" where
  "wf_addr (IP4 b) = (length b = 4)"
| "wf_addr (IP6 b z) = (length b = 16)"

section \<open>Parsing\<close>

text \<open>The loop of \<open>parseIPv4Fields\<close>: the previous byte (\<open>None\<close> at the start), the value
  and the number of digits of the current field, the fields before it.\<close>

fun parse4 :: "char option \<Rightarrow> nat \<Rightarrow> nat \<Rightarrow> bytes \<Rightarrow> string \<Rightarrow> bytes option" where
  "parse4 prev val digLen fs [] =
     (if length fs < 3 then None else Some (fs @ [word_of_nat val]))"
| "parse4 prev val digLen fs (c # cs) =
     (if is_digit c
      then (if digLen = 1 \<and> val = 0 then None
            else let v = val * 10 + digit_val c
                 in if 255 < v then None else parse4 (Some c) v (Suc digLen) fs cs)
      else if c = CHR ''.''
      then (if prev = None \<or> cs = [] \<or> prev = Some CHR ''.'' then None
            else if length fs = 3 then None
            else parse4 (Some c) 0 0 (fs @ [word_of_nat val]) cs)
      else None)"

definition is_hex :: "char \<Rightarrow> bool" where
  "is_hex c \<longleftrightarrow> is_digit c \<or> (97::nat) \<le> of_char c \<and> of_char c \<le> (102::nat) \<or>
     (65::nat) \<le> of_char c \<and> of_char c \<le> (70::nat)"

definition hex_val :: "char \<Rightarrow> nat" where
  "hex_val c = (if is_digit c then digit_val c
     else if (97::nat) \<le> of_char c then of_char c - 87 else of_char c - 55)"

definition hex_num :: "string \<Rightarrow> nat" where
  "hex_num s = foldl (\<lambda>a c. a * 16 + hex_val c) 0 s"

text \<open>One round of the loop of \<open>parseIPv6\<close> over the 16-bit groups: the bytes parsed so
  far, the position of the ellipsis, the rest of the text, and whether the loop goes on.\<close>

definition group6 :: "bytes \<Rightarrow> nat option \<Rightarrow> string \<Rightarrow>
    (bytes \<times> nat option \<times> string \<times> bool) option" where
  "group6 ip ellipsis s =
     (let ds = takeWhile is_hex s;
          ip' = ip @ [word_of_nat (hex_num ds div 256), word_of_nat (hex_num ds mod 256)]
      in if ds = [] \<or> 4 < length ds then None
      else (case drop (length ds) s of
              [] \<Rightarrow> Some (ip', ellipsis, [], False)
            | c # r \<Rightarrow>
                if c = CHR ''.''
                then (if ellipsis = None \<and> length ip \<noteq> 12 then None
                      else if 16 < length ip + 4 then None
                      else map_option (\<lambda>b. (ip @ b, ellipsis, [], False)) (parse4 None 0 0 [] s))
                else if c \<noteq> CHR '':'' then None
                else (case r of
                        [] \<Rightarrow> None
                      | d # r' \<Rightarrow>
                          if d \<noteq> CHR '':'' then Some (ip', ellipsis, r, True)
                          else if ellipsis \<noteq> None then None
                          else Some (ip', Some (length ip'), r', r' \<noteq> []))))"

lemma group6_again:
  "group6 ip e s = Some (ip', e', s', True) \<Longrightarrow> length ip' = length ip + 2"
  by (auto simp: group6_def Let_def split: if_split_asm list.split_asm)

function parse6 :: "bytes \<Rightarrow> nat option \<Rightarrow> string \<Rightarrow> (bytes \<times> nat option \<times> string) option" where
  "parse6 ip ellipsis s =
     (if 16 \<le> length ip then Some (ip, ellipsis, s)
      else (case group6 ip ellipsis s of
              None \<Rightarrow> None
            | Some (ip', e', s', again) \<Rightarrow>
                if again then parse6 ip' e' s' else Some (ip', e', s')))"
  by pat_completeness auto
termination
  by (relation "measure (\<lambda>(ip, e, s). 16 - length ip)") (auto dest: group6_again)

declare parse6.simps [simp del]

definition parseIPv6 :: "string \<Rightarrow> ipaddr option" where
  "parseIPv6 s0 =
     (let (s, zone) = (case strings_Cut CHR ''%'' s0 of
                         None \<Rightarrow> (s0, None) | Some (a, z) \<Rightarrow> (a, Some z))
      in if zone = Some [] then None
      else let zn = (case zone of None \<Rightarrow> [] | Some z \<Rightarrow> z);
               lead = (strings_HasPrefix s ''::'');
               s1 = (if lead then drop 2 s else s)
      in if lead \<and> s1 = [] then Some (IP6 (replicate 16 0) zn)
      else (case parse6 [] (if lead then Some 0 else None) s1 of
              None \<Rightarrow> None
            | Some (ip, ellipsis, rest) \<Rightarrow>
                if rest \<noteq> [] then None
                else if length ip < 16
                then (case ellipsis of
                        None \<Rightarrow> None
                      | Some e \<Rightarrow>
                          Some (IP6 (take e ip @ replicate (16 - length ip) 0 @ drop e ip) zn))
                else if ellipsis \<noteq> None then None
                else Some (IP6 ip zn)))"

fun parseAddr_at :: "string \<Rightarrow> string \<Rightarrow> ipaddr option" where
  "parseAddr_at s [] = None"
| "parseAddr_at s (c # cs) =
     (if c = CHR ''.'' then map_option IP4 (parse4 None 0 0 [] s)
      else if c = CHR '':'' then parseIPv6 s
      else if c = CHR ''%'' then None
      else parseAddr_at s cs)"

definition parseAddr :: "string \<Rightarrow> ipaddr option" where
  "parseAddr s = parseAddr_at s s"

section \<open>Printing\<close>

definition string4 :: "bytes \<Rightarrow> string" where
  "string4 b = strings_Join ''.'' (map (\<lambda>x. itoa (unat x)) b)"

text \<open>The 16-bit groups of an IPv6 address.\<close>

fun groups6 :: "bytes \<Rightarrow> nat list" where
  "groups6 (a # b # r) = (unat a * 256 + unat b) # groups6 r"
| "groups6 _ = []"

text \<open>The first longest run of at least two zero groups: its start and its end.\<close>

fun zero_run :: "nat list \<Rightarrow> nat list \<Rightarrow> nat \<Rightarrow> nat \<Rightarrow> nat \<times> nat" where
  "zero_run gs [] st en = (st, en)"
| "zero_run gs (i # is) st en =
     (let j = i + length (takeWhile (\<lambda>g. g = 0) (drop i gs)); l = j - i
      in if 2 \<le> l \<and> en - st < l then zero_run gs is i j else zero_run gs is st en)"

function emit6 :: "nat list \<Rightarrow> nat \<Rightarrow> nat \<Rightarrow> nat \<Rightarrow> string" where
  "emit6 gs st en i =
     (if 8 \<le> i then []
      else if i = st
      then ''::'' @ (if 8 \<le> en then [] else fmt_base 16 (gs ! en) @
             (if en < i then [] else emit6 gs st en (Suc en)))
      else (if 0 < i then '':'' else []) @ fmt_base 16 (gs ! i) @ emit6 gs st en (Suc i))"
  by pat_completeness auto
termination
  by (relation "measure (\<lambda>(gs, st, en, i). 8 - i)") auto

declare emit6.simps [simp del]

definition string6 :: "bytes \<Rightarrow> string" where
  "string6 b =
     (if take 12 b = replicate 10 0 @ [255, 255]
      then ''::ffff:'' @ string4 (drop 12 b)
      else let gs = groups6 b; (st, en) = zero_run gs [0..<8] 255 255
           in emit6 gs st en 0)"

fun addr_String :: "ipaddr \<Rightarrow> string" where
  "addr_String (IP4 b) = string4 b"
| "addr_String (IP6 b z) = string6 b @ (if z = [] then [] else CHR ''%'' # z)"

section \<open>Well-formed results\<close>

lemma parse4_length: "parse4 p v d f s = Some b \<Longrightarrow> length f \<le> 3 \<Longrightarrow> length b = 4"
proof (induction p v d f s rule: parse4.induct)
  case (1 prev val digLen fs)
  then show ?case by (auto split: if_splits)
next
  case (2 prev val digLen fs c cs)
  then show ?case by (auto simp: Let_def split: if_splits)
qed

lemma group6_length:
  "group6 ip e s = Some (ip', e', s', again) \<Longrightarrow> length ip \<le> 14 \<Longrightarrow> length ip' \<le> 16"
  by (auto simp: group6_def Let_def dest!: parse4_length split: if_split_asm list.split_asm)

lemma parse6_length:
  "parse6 ip e s = Some (ip', e', s') \<Longrightarrow> even (length ip) \<Longrightarrow> length ip \<le> 16 \<Longrightarrow>
     length ip' \<le> 16"
proof (induction ip e s rule: parse6.induct)
  case (1 ip e s)
  show ?case
  proof (cases "16 \<le> length ip")
    case True
    with 1 show ?thesis by (simp add: parse6.simps)
  next
    case False
    with "1.prems"(2) have le: "length ip \<le> 14" by presburger
    from "1.prems"(1) False obtain i f t g where g: "group6 ip e s = Some (i, f, t, g)"
      by (auto simp: parse6.simps [of ip e s] split: option.splits)
    show ?thesis
    proof (cases g)
      case True
      with g have "length i = length ip + 2" by (simp add: group6_again)
      with 1 False g True le show ?thesis by (auto simp: parse6.simps [of ip e s])
    next
      case False: False
      with g le have "length i \<le> 16" by (simp add: group6_length)
      with "1.prems"(1) \<open>\<not> 16 \<le> length ip\<close> g False show ?thesis
        by (simp add: parse6.simps [of ip e s])
    qed
  qed
qed

lemma parseAddr_at_wf: "parseAddr_at s t = Some a \<Longrightarrow> wf_addr a"
proof (induction s t rule: parseAddr_at.induct)
  case (1 s)
  then show ?case by simp
next
  case (2 s c cs)
  have "wf_addr a" if "parseIPv6 s = Some a"
    using that
    by (auto simp: parseIPv6_def Let_def split: prod.splits option.splits if_splits
        dest: parse6_length)
  with 2 show ?case by (auto split: if_splits dest: parse4_length)
qed

lemma parseAddr_wf: "parseAddr s = Some a \<Longrightarrow> wf_addr a"
  by (simp add: parseAddr_def parseAddr_at_wf)

section \<open>Dotted decimal texts are canonical\<close>

lemma itoa_snoc: "0 < v \<Longrightarrow> is_digit c \<Longrightarrow> itoa (v * 10 + digit_val c) = itoa v @ [c]"
proof -
  assume v: "0 < v" and c: "is_digit c"
  have d: "digit_val c < 10" using c by (auto simp: is_digit_def digit_val_def)
  have "digit_char (digit_val c) = c"
    using c d by (simp add: digit_char_def digit_val_def is_digit_def)
  with v d show ?thesis by (subst fmt_base.simps) simp
qed

lemma itoa_single: "is_digit c \<Longrightarrow> itoa (digit_val c) = [c]"
  by (subst fmt_base.simps) (auto simp: digit_char_def digit_val_def is_digit_def)

lemma parse4_itoa:
  "n < 256 \<Longrightarrow> parse4 p 0 0 fs (itoa n @ cs) =
     parse4 (Some (last (itoa n))) n (length (itoa n)) fs cs"
proof (induction "10::nat" n arbitrary: cs rule: fmt_base.induct)
  case (1 n)
  show ?case
  proof (cases "n < 10")
    case True
    then have i: "itoa n = [digit_char n]" by (simp add: fmt_base.simps)
    show ?thesis unfolding i using True by simp
  next
    case False
    then have i: "itoa n = itoa (n div 10) @ [digit_char (n mod 10)]"
      by (simp add: fmt_base.simps [of _ n])
    have pos: "0 < n div 10" and small: "n div 10 * 10 + n mod 10 = n"
      using False by simp_all
    have dv: "digit_val (digit_char (n mod 10)) = n mod 10" by simp
    have "parse4 p 0 0 fs (itoa (n div 10) @ digit_char (n mod 10) # cs) =
      parse4 (Some (last (itoa (n div 10)))) (n div 10) (length (itoa (n div 10))) fs
        (digit_char (n mod 10) # cs)"
      using False "1.prems" by (intro "1.hyps") auto
    also have "\<dots> = parse4 (Some (digit_char (n mod 10))) n (Suc (length (itoa (n div 10)))) fs cs"
      using pos small "1.prems" by (simp add: Let_def dv del: mult_div_mod_eq)
    finally show ?thesis unfolding i by simp
  qed
qed

lemma not_digit_dot [simp]: "\<not> is_digit CHR ''.''" "\<not> is_digit CHR '':''" "\<not> is_digit CHR ''%''"
  by (simp_all add: is_digit_def)

lemma last_itoa_not_dot [simp]: "last (itoa n) \<noteq> CHR ''.''"
  using itoa_digits [of "last (itoa n)" n] by (metis itoa_nonempty last_in_set not_digit_dot(1))

lemma parse4_string4: "parse4 None 0 0 [] (string4 [a, b, c, d]) = Some [a, b, c, d]"
proof -
  have lt: "unat x < 256" for x :: byte
    using unsigned_less [of x, where 'a = nat] by simp
  show ?thesis by (simp add: string4_def parse4_itoa lt parse4_itoa [where cs = "[]", simplified])
qed

lemma parseAddr_at_digits:
  "(\<And>c. c \<in> set ds \<Longrightarrow> is_digit c) \<Longrightarrow>
     parseAddr_at s (ds @ CHR ''.'' # t) = map_option IP4 (parse4 None 0 0 [] s)"
proof (induction ds)
  case (Cons c ds)
  then have "c \<notin> {CHR ''.'', CHR '':'', CHR ''%''}" using not_digit_dot by fastforce
  with Cons show ?case by simp
qed simp

lemma parseAddr_string4:
  assumes "length b = 4"
  shows "parseAddr (string4 b) = Some (IP4 b)"
proof -
  obtain w x y z where b: "b = [w, x, y, z]"
    using assms by (auto simp: length_Suc_conv eval_nat_numeral)
  have s: "string4 b = itoa (unat w) @ CHR ''.'' # strings_Join ''.''
      [itoa (unat x), itoa (unat y), itoa (unat z)]"
    by (simp add: b string4_def)
  have "parseAddr_at (string4 b) (string4 b) = map_option IP4 (parse4 None 0 0 [] (string4 b))"
    by (subst (2) s, rule parseAddr_at_digits) (rule itoa_digits)
  then show ?thesis by (simp add: parseAddr_def b parse4_string4)
qed

text \<open>The text read so far, printed back from the loop state of \<open>parse4\<close>.\<close>

definition shown4 :: "bytes \<Rightarrow> nat \<Rightarrow> nat \<Rightarrow> string" where
  "shown4 fs val digLen =
     concat (map (\<lambda>x. itoa (unat x) @ ''.'') fs) @ (if digLen = 0 then [] else itoa val)"

lemma string4_snoc: "string4 (fs @ [x]) = concat (map (\<lambda>x. itoa (unat x) @ ''.'') fs) @ itoa (unat x)"
proof (induction fs)
  case (Cons f fs)
  then show ?case by (cases fs) (simp_all add: string4_def)
qed (simp add: string4_def)

lemma parse4_shown:
  "parse4 p v d fs s = Some b \<Longrightarrow> v < 256 \<Longrightarrow> (d = 0 \<longleftrightarrow> p = None \<or> p = Some CHR ''.'') \<Longrightarrow>
     (d = 0 \<longrightarrow> v = 0) \<Longrightarrow> (v = 0 \<longrightarrow> d \<le> 1) \<Longrightarrow> (p = None \<longrightarrow> fs = []) \<Longrightarrow> (s = [] \<longrightarrow> 0 < d \<or> p = None) \<Longrightarrow>
     string4 b = shown4 fs v d @ s"
proof (induction p v d fs s rule: parse4.induct)
  case (1 prev val digLen fs)
  then have "digLen \<noteq> 0" by (auto split: if_splits)
  with 1 show ?case by (auto simp: shown4_def string4_snoc unat_of_nat_u8 split: if_splits)
next
  case (2 prev val digLen fs c cs)
  show ?case
  proof (cases "is_digit c")
    case True
    let ?v = "val * 10 + digit_val c"
    from 2(3) True have guard: "\<not> (digLen = 1 \<and> val = 0)" and le: "\<not> 255 < ?v"
      and rec: "parse4 (Some c) ?v (Suc digLen) fs cs = Some b"
      by (auto simp: Let_def split: if_splits)
    have shown: "shown4 fs ?v (Suc digLen) = shown4 fs val digLen @ [c]"
      using guard 2(6,7) True by (cases "digLen = 0")
        (auto simp: shown4_def itoa_single itoa_snoc)
    have "c \<noteq> CHR ''.''" using True by auto
    have "?v = 0 \<longrightarrow> digLen = 0"
      using guard 2(7) by (cases digLen) auto
    with 2(1) [OF True guard refl le rec] le \<open>c \<noteq> CHR ''.''\<close>
    have "string4 b = shown4 fs ?v (Suc digLen) @ cs" by simp
    then show ?thesis by (simp add: shown)
  next
    case False
    with 2(3) have c: "c = CHR ''.''" and p: "prev \<noteq> None" "prev \<noteq> Some CHR ''.''" "cs \<noteq> []"
      and l: "length fs \<noteq> 3"
      and rec: "parse4 (Some c) 0 0 (fs @ [word_of_nat val]) cs = Some b"
      by (auto split: if_splits)
    have "string4 b = shown4 (fs @ [word_of_nat val]) 0 0 @ cs"
      using 2(2) [OF False c _ l rec] p c by auto
    also have "\<dots> = shown4 fs val digLen @ c # cs"
      using 2(4,5) p c by (auto simp: shown4_def unat_of_nat_u8)
    finally show ?thesis .
  qed
qed

lemma parseAddr_at_IP4:
  "parseAddr_at s t = Some (IP4 b) \<Longrightarrow> parse4 None 0 0 [] s = Some b"
proof (induction s t rule: parseAddr_at.induct)
  case (2 s c cs)
  have "parseIPv6 s \<noteq> Some (IP4 b)"
    by (auto simp: parseIPv6_def Let_def split: prod.splits option.splits)
  with 2 show ?case by (auto split: if_splits)
qed simp

text \<open>A text that parses to an IPv4 address is the text the address prints to.\<close>

lemma parseAddr_IP4_canonical: "parseAddr s = Some (IP4 b) \<Longrightarrow> string4 b = s"
  using parse4_shown [of None 0 0 "[]" s b] parseAddr_at_IP4 [of s s b]
  by (simp add: parseAddr_def shown4_def)

end
