(* ===== verification/Anytls_Addr.thy ===== *)
theory Anytls_Addr
  imports Wire Go_Netip
begin

text \<open>
  SOCKS addresses on the wire (\<open>server/anytls/addr.go\<close>): an address type, the address or a
  domain name with its length, and the port. An IP literal is written as its bytes and read
  back as the text the address prints to, a domain name is carried as it is.
\<close>

definition socksAddrIPv4 :: byte where "socksAddrIPv4 = 1"
definition socksAddrDomain :: byte where "socksAddrDomain = 3"
definition socksAddrIPv6 :: byte where "socksAddrIPv6 = 4"

lemmas socks_type_defs = socksAddrIPv4_def socksAddrDomain_def socksAddrIPv6_def

record socksAddr =
  sa_Host :: string
  sa_Port :: u16

definition socksAddr_String :: "socksAddr \<Rightarrow> string" where
  "socksAddr_String a = joinHostPort (sa_Host a) (itoa (unat (sa_Port a)))"

definition splitHostPort :: "string \<Rightarrow> go_err + string \<times> u16" where
  "splitHostPort addr =
     (case net_SplitHostPort addr of
        Inl e \<Rightarrow> Inl (Errorf (addr_err_msg e))
      | Inr (host, strPort) \<Rightarrow>
          (case parseUint 16 strPort of
             (port, Some e) \<Rightarrow> Inl (Errorf (num_err_msg e))
           | (port, None) \<Rightarrow> Inr (host, word_of_nat port)))"

definition parseSocksAddr :: "string \<Rightarrow> go_err + socksAddr" where
  "parseSocksAddr addr =
     ebind (splitHostPort addr) (\<lambda>(host, port). Inr \<lparr>sa_Host = host, sa_Port = port\<rparr>)"

text \<open>The bytes built for a host, before the port: the buffer \<open>buf\<close> of \<open>writeSocksAddr\<close>.\<close>

definition host_bytes :: "string \<Rightarrow> go_err + bytes" where
  "host_bytes host =
     (case parseAddr host of
        Some ip \<Rightarrow>
          if addr_Is4 ip then Inr (socksAddrIPv4 # addr_AsSlice ip)
          else Inr (socksAddrIPv6 # addr_AsSlice ip)
      | None \<Rightarrow>
          if 255 < length host then Inl (Errorf ''domain name too long'')
          else Inr (socksAddrDomain # word_of_nat (length host) # to_bytes host))"

definition writeSocksAddr :: "writer \<Rightarrow> string \<Rightarrow> writer \<times> go_err option" where
  "writeSocksAddr w addr =
     (case splitHostPort addr of
        Inl e \<Rightarrow> (w, Some e)
      | Inr (host, port) \<Rightarrow>
          (case host_bytes host of
             Inl e \<Rightarrow> (w, Some e)
           | Inr buf \<Rightarrow> goWrite w (buf @ putUint16 port)))"

text \<open>The switch on the address type.\<close>

definition read_host :: "byte \<Rightarrow> bytes \<Rightarrow> go_err + string \<times> bytes" where
  "read_host ty r =
     (if ty = socksAddrIPv4
      then ebind (readFull 4 r) (\<lambda>(b, r1). Inr (addr_String (IP4 b), r1))
      else if ty = socksAddrIPv6
      then ebind (readFull 16 r) (\<lambda>(b, r1). Inr (addr_String (IP6 b []), r1))
      else if ty = socksAddrDomain
      then ebind (readFull 1 r) (\<lambda>(l, r1).
             ebind (readFull (unat (l ! 0)) r1) (\<lambda>(b, r2). Inr (of_bytes b, r2)))
      else Inl (Errorf ''unsupported socks addr type''))"

definition readSocksAddr :: "bytes \<Rightarrow> go_err + socksAddr \<times> bytes" where
  "readSocksAddr r =
     ebind (readFull 1 r) (\<lambda>(ty, r1).
     ebind (read_host (ty ! 0) r1) (\<lambda>(host, r2).
     ebind (readFull 2 r2) (\<lambda>(port, r3).
       Inr (\<lparr>sa_Host = host, sa_Port = uint16 port\<rparr>, r3))))"

section \<open>The address that arrives\<close>

text \<open>The host the reader sees for a host that was written: the canonical text of an IP
  literal without its zone, any other host unchanged.\<close>

definition wire_host :: "string \<Rightarrow> string" where
  "wire_host host =
     (case parseAddr host of
        Some ip \<Rightarrow> addr_String (if addr_Is4 ip then IP4 (addr_AsSlice ip) else IP6 (addr_AsSlice ip) [])
      | None \<Rightarrow> host)"

definition socks_valid :: "string \<Rightarrow> bool" where
  "socks_valid addr \<longleftrightarrow>
     (case splitHostPort addr of
        Inl e \<Rightarrow> False
      | Inr (host, port) \<Rightarrow> (case host_bytes host of Inl e \<Rightarrow> False | Inr b \<Rightarrow> True))"

definition socks_enc :: "string \<Rightarrow> bytes" where
  "socks_enc addr =
     (case splitHostPort addr of
        Inl e \<Rightarrow> []
      | Inr (host, port) \<Rightarrow>
          (case host_bytes host of Inl e \<Rightarrow> [] | Inr b \<Rightarrow> b @ putUint16 port))"

definition socks_norm :: "string \<Rightarrow> socksAddr" where
  "socks_norm addr =
     (case splitHostPort addr of
        Inl e \<Rightarrow> \<lparr>sa_Host = [], sa_Port = 0\<rparr>
      | Inr (host, port) \<Rightarrow> \<lparr>sa_Host = wire_host host, sa_Port = port\<rparr>)"

lemma host_bytes_read:
  assumes "host_bytes host = Inr b"
  shows "\<exists>ty. \<exists>c. b = ty # c \<and> (\<forall>s. read_host ty (c @ s) = Inr (wire_host host, s))"
proof (cases "parseAddr host")
  case None
  with assms have l: "length host \<le> 255"
    and b: "b = socksAddrDomain # word_of_nat (length host) # to_bytes host"
    by (auto simp: host_bytes_def split: if_splits)
  have "read_host socksAddrDomain ((word_of_nat (length host) # to_bytes host) @ s) =
    Inr (wire_host host, s)" for s
    using l None readFull_append [of 1 "[word_of_nat (length host)]" "to_bytes host @ s"]
    by (simp add: read_host_def socks_type_defs wire_host_def unat_of_nat_u8 del: unat_of_nat)
  with b show ?thesis by blast
next
  case (Some ip)
  note wf = parseAddr_wf [OF this]
  with Some assms show ?thesis
    by (cases ip) (auto simp: host_bytes_def read_host_def socks_type_defs wire_host_def)
qed

lemma readSocksAddr_enc:
  assumes "socks_valid addr"
  shows "readSocksAddr (socks_enc addr @ s) = Inr (socks_norm addr, s)"
proof -
  from assms obtain host port b where h: "splitHostPort addr = Inr (host, port)"
    and b: "host_bytes host = Inr b"
    by (auto simp: socks_valid_def split: sum.splits prod.splits)
  from host_bytes_read [OF b] obtain ty c where c: "b = ty # c"
    and r: "\<And>s. read_host ty (c @ s) = Inr (wire_host host, s)" by blast
  show ?thesis
    by (simp add: socks_enc_def socks_norm_def h b c r readSocksAddr_def)
qed

lemma read_host_consumes:
  "read_host ty s = Inr (h, r) \<Longrightarrow> \<exists>p. s = p @ r \<and> (\<forall>z. read_host ty (s @ z) = Inr (h, r @ z))"
  by (auto simp: read_host_def result_simps split: if_splits dest!: readFull_InrD)

lemma readSocksAddr_consumes:
  assumes "readSocksAddr s = Inr (a, r)"
  shows "length r < length s" and "readSocksAddr (s @ z) = Inr (a, r @ z)"
proof -
  from assms obtain ty r1 host r2 port where t: "readFull 1 s = Inr (ty, r1)"
    and h: "read_host (ty ! 0) r1 = Inr (host, r2)" and p: "readFull 2 r2 = Inr (port, r)"
    and a: "a = \<lparr>sa_Host = host, sa_Port = uint16 port\<rparr>"
    by (auto simp: readSocksAddr_def result_simps)
  from read_host_consumes [OF h] obtain q where q: "r1 = q @ r2"
    and m: "read_host (ty ! 0) (r1 @ z) = Inr (host, r2 @ z)" by blast
  show "length r < length s"
    using readFull_InrD [OF t] readFull_InrD [OF p] q by simp
  show "readSocksAddr (s @ z) = Inr (a, r @ z)"
    by (simp add: readSocksAddr_def readFull_mono [OF t, simplified] readFull_mono [OF p] m a)
qed

interpretation socks: stream_codec writeSocksAddr readSocksAddr socks_enc socks_valid socks_norm
proof
  show "writeSocksAddr w x = (w\<lparr>w_out := w_out w @ socks_enc x\<rparr>, None)"
    if "socks_valid x" "w_budget w = None" for x w
    using that by (auto simp: socks_valid_def writeSocksAddr_def socks_enc_def
        split: sum.splits prod.splits)
  show "readSocksAddr [] = Inl IoEOF"
    by (simp add: readSocksAddr_def readFull_def)
qed (simp_all add: readSocksAddr_enc readSocksAddr_consumes)

section \<open>Which hosts arrive unchanged\<close>

lemma wire_host_domain: "parseAddr host = None \<Longrightarrow> wire_host host = host"
  by (simp add: wire_host_def)

lemma wire_host_v4: "parseAddr host = Some (IP4 b) \<Longrightarrow> wire_host host = host"
  by (simp add: wire_host_def parseAddr_IP4_canonical)

lemma itoa_not_special [simp]:
  "CHR '':'' \<notin> set (itoa n)" "CHR ''['' \<notin> set (itoa n)" "CHR '']'' \<notin> set (itoa n)"
  using itoa_digits [of _ n] by (auto simp: is_digit_def dest: itoa_digits)

lemma splitHostPort_String:
  assumes "CHR ''['' \<notin> set (sa_Host a)" and "CHR '']'' \<notin> set (sa_Host a)"
  shows "splitHostPort (socksAddr_String a) = Inr (sa_Host a, sa_Port a)"
proof -
  have "unat (sa_Port a) < 2 ^ 16" using unsigned_less [of "sa_Port a", where 'a = nat] by simp
  then have "parseUint 16 (itoa (unat (sa_Port a))) = (unat (sa_Port a), None)"
    by (rule parseUint_itoa)
  then show ?thesis
    using assms by (simp add: splitHostPort_def socksAddr_String_def split_joinHostPort)
qed

lemma splitHostPort_port:
  "splitHostPort addr = Inr (host, port) \<Longrightarrow>
     \<exists>s. net_SplitHostPort addr = Inr (host, s) \<and> parseUint 16 s = (unat port, None)"
proof -
  assume a: "splitHostPort addr = Inr (host, port)"
  then obtain s v where s: "net_SplitHostPort addr = Inr (host, s)"
    and v: "parseUint 16 s = (v, None)" "port = word_of_nat v"
    by (auto simp: splitHostPort_def split: sum.splits prod.splits option.splits)
  have "v < 65536" using parseUint_bound [of 16 s] v by simp
  with s v show ?thesis by (simp add: unat_of_nat_u16)
qed

end
