(* ===== verification/Anytls_Uot.thy ===== *)
theory Anytls_Uot
  imports Anytls_Addr Anytls_Frame
begin

text \<open>
  UDP over TCP (\<open>server/anytls/uot.go\<close>): the request that opens a packet connection, the
  length-prefixed payloads, the packet connection over a stream, and the two relay loops.
  A stream is its incoming bytes up to the end of the stream, and a writer.
\<close>

definition uotMagicAddress :: string where
  "uotMagicAddress = ''sp.v2.udp-over-tcp.arpa''"

record uotRequest =
  uot_IsConnect :: bool
  uot_Destination :: socksAddr

definition writeUOTRequest :: "writer \<Rightarrow> uotRequest \<Rightarrow> writer \<times> go_err option" where
  "writeUOTRequest w req =
     (let isConnect = (if uot_IsConnect req then 1 else 0)
      in case goWrite w [isConnect] of
           (w1, Some e) \<Rightarrow> (w1, Some e)
         | (w1, None) \<Rightarrow> writeSocksAddr w1 (socksAddr_String (uot_Destination req)))"

definition readUOTRequest :: "bytes \<Rightarrow> go_err + uotRequest \<times> bytes" where
  "readUOTRequest r =
     ebind (readFull 1 r) (\<lambda>(isConnect, r1).
     ebind (readSocksAddr r1) (\<lambda>(destination, r2).
       Inr (\<lparr>uot_IsConnect = (isConnect ! 0 \<noteq> 0), uot_Destination = destination\<rparr>, r2)))"

definition writeUOTPayload :: "writer \<Rightarrow> bytes \<Rightarrow> writer \<times> go_err option" where
  "writeUOTPayload w payload =
     (if maxFrameData < length payload then (w, Some (Errorf ''uot payload too large''))
      else goWrite w (putUint16 (word_of_nat (length payload)) @ payload))"

text \<open>The first argument is \<open>len(buf)\<close>. A payload that does not fit is an error that leaves
  the payload in the stream, so the rest of the stream is part of every result; the count beside
  an error of \<open>ReadFull\<close> is used by no caller and left out.\<close>

definition readUOTPayload :: "nat \<Rightarrow> bytes \<Rightarrow> (go_err + bytes) \<times> bytes" where
  "readUOTPayload n r =
     (case readFull 2 r of
        Inl e \<Rightarrow> (Inl e, [])
      | Inr (lenBuf, r1) \<Rightarrow>
          let len = unat (uint16 lenBuf)
          in if n < len then (Inl IoShortBuffer, r1)
             else (case readFull len r1 of
                     Inl e \<Rightarrow> (Inl e, [])
                   | Inr (b, r2) \<Rightarrow> (Inr b, r2)))"

section \<open>The packet connection\<close>

record packet_conn =
  pc_in :: bytes
  pc_out :: writer
  pc_target :: socksAddr

definition udpConn_writePayload :: "packet_conn \<Rightarrow> bytes \<Rightarrow> packet_conn \<times> go_err option" where
  "udpConn_writePayload c b =
     (case writeUOTPayload (pc_out c) b of (w, e) \<Rightarrow> (c\<lparr>pc_out := w\<rparr>, e))"

definition udpConn_Write :: "packet_conn \<Rightarrow> bytes \<Rightarrow> packet_conn \<times> (go_err + nat)" where
  "udpConn_Write c b =
     (case udpConn_writePayload c b of
        (c', Some e) \<Rightarrow> (c', Inl e)
      | (c', None) \<Rightarrow> (c', Inr (length b)))"

definition udpConn_WriteTo :: "packet_conn \<Rightarrow> bytes \<Rightarrow> string \<Rightarrow> packet_conn \<times> (go_err + nat)" where
  "udpConn_WriteTo c b addr =
     (if addr \<noteq> [] \<and> addr \<noteq> socksAddr_String (pc_target c)
      then (c, Inl (Errorf ''anytls uot packet conn is connected to another address''))
      else udpConn_Write c b)"

definition udpConn_ReadFrom :: "packet_conn \<Rightarrow> nat \<Rightarrow> packet_conn \<times> (go_err + bytes)" where
  "udpConn_ReadFrom c n =
     (case readUOTPayload n (pc_in c) of (res, rest) \<Rightarrow> (c\<lparr>pc_in := rest\<rparr>, res))"

text \<open>\<open>netip.ParseAddrPort\<close>\<close>

definition parseAddrPort :: "string \<Rightarrow> (ipaddr \<times> u16) option" where
  "parseAddrPort s =
     (case last_index_of CHR '':'' s of
        None \<Rightarrow> None
      | Some i \<Rightarrow>
          let ip = take i s; port = drop (Suc i) s;
              v6 = (ip \<noteq> [] \<and> hd ip = CHR ''['')
          in if ip = [] \<or> port = [] then None
             else if v6 \<and> (length ip < 2 \<or> last ip \<noteq> CHR '']'') then None
             else (case parseUint 16 port of
                     (p, Some e) \<Rightarrow> None
                   | (p, None) \<Rightarrow>
                       (case parseAddr (if v6 then butlast (tl ip) else ip) of
                          None \<Rightarrow> None
                        | Some a \<Rightarrow>
                            if v6 \<and> addr_Is4 a then None
                            else if \<not> v6 \<and> addr_Is6 a then None
                            else Some (a, word_of_nat p))))"

text \<open>\<open>netip.AddrFromSlice\<close> and \<open>Unmap\<close>\<close>

definition addrFromSlice :: "bytes \<Rightarrow> ipaddr option" where
  "addrFromSlice b =
     (if length b = 4 then Some (IP4 b) else if length b = 16 then Some (IP6 b []) else None)"

fun addr_Unmap :: "ipaddr \<Rightarrow> ipaddr" where
  "addr_Unmap (IP6 b z) = (if take 12 b = replicate 10 0 @ [255, 255] then IP4 (drop 12 b) else IP6 b z)"
| "addr_Unmap a = a"

text \<open>The resolver of \<open>net.ResolveUDPAddr\<close> is an argument; \<open>None\<close> is the zero \<open>AddrPort\<close>.\<close>

definition resolveTargetAddr :: "(string \<Rightarrow> (bytes \<times> u16) option) \<Rightarrow> socksAddr \<Rightarrow> (ipaddr \<times> u16) option" where
  "resolveTargetAddr resolveUDP target =
     (case parseAddrPort (socksAddr_String target) of
        Some ap \<Rightarrow> Some ap
      | None \<Rightarrow>
          (case resolveUDP (socksAddr_String target) of
             None \<Rightarrow> None
           | Some (ip, port) \<Rightarrow>
               (case addrFromSlice ip of
                  None \<Rightarrow> None
                | Some a \<Rightarrow> Some (addr_Unmap a, port))))"

section \<open>The relay loops\<close>

text \<open>\<open>relayUOTToPacketConn\<close>: every payload of the stream is sent to the target until an error
  of the stream or of the connection. \<open>writeTo\<close> is the connection's \<open>WriteTo\<close>; deadlines
  are not modelled. The fuel counts payloads.\<close>

fun relayUOTToPacketConn :: "('d \<Rightarrow> bytes \<Rightarrow> string \<Rightarrow> 'd \<times> go_err option) \<Rightarrow> nat \<Rightarrow>
    'd \<Rightarrow> bytes \<Rightarrow> string \<Rightarrow> ('d \<times> go_err) option" where
  "relayUOTToPacketConn writeTo 0 dst src target = None"
| "relayUOTToPacketConn writeTo (Suc k) dst src target =
     (case readUOTPayload maxFrameData src of
        (Inl e, src') \<Rightarrow> Some (dst, e)
      | (Inr b, src') \<Rightarrow>
          (case writeTo dst b target of
             (dst', Some e) \<Rightarrow> Some (dst', e)
           | (dst', None) \<Rightarrow> relayUOTToPacketConn writeTo k dst' src' target))"

text \<open>\<open>relayPacketConnToUOT\<close>: the packets the connection delivers, then the error it fails
  with; \<open>ReadFrom\<close> fills a buffer of \<open>maxFrameData\<close> bytes, a longer packet is cut.\<close>

fun relayPacketConnToUOT :: "writer \<Rightarrow> bytes list \<Rightarrow> go_err \<Rightarrow> writer \<times> go_err" where
  "relayPacketConnToUOT dst [] err = (dst, err)"
| "relayPacketConnToUOT dst (p # ps) err =
     (case writeUOTPayload dst (take maxFrameData p) of
        (dst', Some e) \<Rightarrow> (dst', e)
      | (dst', None) \<Rightarrow> relayPacketConnToUOT dst' ps err)"

definition isIgnorableUOTError :: "go_err option \<Rightarrow> bool" where
  "isIgnorableUOTError err =
     (case err of
        None \<Rightarrow> True
      | Some e \<Rightarrow> e = IoEOF \<or> e = NetErrClosed \<or> is_net_timeout e)"

section \<open>Payloads and requests as stream codecs\<close>

definition uot_read :: "nat \<Rightarrow> bytes \<Rightarrow> go_err + bytes \<times> bytes" where
  "uot_read n r = (case readUOTPayload n r of (Inl e, _) \<Rightarrow> Inl e | (Inr b, r') \<Rightarrow> Inr (b, r'))"

definition uot_enc :: "bytes \<Rightarrow> bytes" where
  "uot_enc p = putUint16 (word_of_nat (length p)) @ p"

lemma readUOTPayload_enc:
  assumes "length p \<le> maxFrameData" and "length p \<le> n"
  shows "readUOTPayload n (uot_enc p @ s) = (Inr p, s)"
proof -
  have "unat (word_of_nat (length p) :: u16) = length p"
    using assms(1) by (intro unat_of_nat_u16) (simp add: maxFrameData_def)
  with assms show ?thesis by (simp add: readUOTPayload_def uot_enc_def del: unat_of_nat)
qed

text \<open>A payload longer than the buffer: its length is gone from the stream, its bytes are not.\<close>

lemma readUOTPayload_short:
  assumes "length p \<le> maxFrameData" and "n < length p"
  shows "readUOTPayload n (uot_enc p @ s) = (Inl IoShortBuffer, p @ s)"
proof -
  have "unat (word_of_nat (length p) :: u16) = length p"
    using assms(1) by (intro unat_of_nat_u16) (simp add: maxFrameData_def)
  with assms show ?thesis by (simp add: readUOTPayload_def uot_enc_def del: unat_of_nat)
qed

lemma readUOTPayload_InrD:
  assumes "readUOTPayload n s = (Inr p, r)"
  shows "s = uot_enc p @ r \<and> length p \<le> n \<and> length p \<le> maxFrameData"
proof -
  from assms obtain l r1 where l: "readFull 2 s = Inr (l, r1)"
    by (cases "readFull 2 s") (auto simp: readUOTPayload_def)
  from assms l have le: "unat (uint16 l) \<le> n" and p: "readFull (unat (uint16 l)) r1 = Inr (p, r)"
    by (auto simp: readUOTPayload_def Let_def split: if_splits sum.splits prod.splits)
  have "unat (uint16 l) < 65536" using unsigned_less [of "uint16 l", where 'a = nat] by simp
  moreover have "putUint16 (uint16 l) = l" using readFull_InrD [OF l] by (simp add: put_uint16)
  ultimately show ?thesis
    using readFull_InrD [OF l] readFull_InrD [OF p] le
    by (auto simp: uot_enc_def maxFrameData_def)
qed

interpretation payloads: stream_codec writeUOTPayload "uot_read n" uot_enc
    "\<lambda>p. length p \<le> maxFrameData \<and> length p \<le> n" "\<lambda>p. p" for n
proof
  show "writeUOTPayload w x = (w\<lparr>w_out := w_out w @ uot_enc x\<rparr>, None)"
    if "length x \<le> maxFrameData \<and> length x \<le> n" "w_budget w = None" for x w
    using that by (simp add: writeUOTPayload_def uot_enc_def)
  show "uot_read n [] = Inl IoEOF" by (simp add: uot_read_def readUOTPayload_def readFull_def)
  show "length r < length s" "uot_read n (s @ z) = Inr (y, r @ z)"
    if "uot_read n s = Inr (y, r)" for s y r z
  proof -
    from that have "readUOTPayload n s = (Inr y, r)"
      by (auto simp: uot_read_def split: prod.splits sum.splits)
    note d = readUOTPayload_InrD [OF this]
    then show "length r < length s" by (auto simp: uot_enc_def simp del: length_0_conv
          dest: arg_cong [where f = length])
    from d show "uot_read n (s @ z) = Inr (y, r @ z)"
      by (auto simp: uot_read_def readUOTPayload_enc)
  qed
qed (auto simp: uot_read_def readUOTPayload_enc)

text \<open>Requests, with the destination's text as the socks codec carries it.\<close>

definition uot_req_enc :: "uotRequest \<Rightarrow> bytes" where
  "uot_req_enc q =
     (if uot_IsConnect q then 1 else 0) # socks_enc (socksAddr_String (uot_Destination q))"

definition uot_req_valid :: "uotRequest \<Rightarrow> bool" where
  "uot_req_valid q \<longleftrightarrow> socks_valid (socksAddr_String (uot_Destination q))"

definition uot_req_norm :: "uotRequest \<Rightarrow> uotRequest" where
  "uot_req_norm q = q\<lparr>uot_Destination := socks_norm (socksAddr_String (uot_Destination q))\<rparr>"

interpretation uot_requests: stream_codec writeUOTRequest readUOTRequest uot_req_enc uot_req_valid
    uot_req_norm
proof
  show "writeUOTRequest w q = (w\<lparr>w_out := w_out w @ uot_req_enc q\<rparr>, None)"
    if "uot_req_valid q" "w_budget w = None" for q w
    using that by (simp add: writeUOTRequest_def uot_req_valid_def uot_req_enc_def socks.wr_enc)
  show "readUOTRequest (uot_req_enc q @ s) = Inr (uot_req_norm q, s)" if "uot_req_valid q" for q s
    using that by (simp add: readUOTRequest_def uot_req_enc_def uot_req_valid_def uot_req_norm_def
        socks.rd_enc)
  show "readUOTRequest [] = Inl IoEOF"
    by (simp add: readUOTRequest_def readFull_def)
  show "length r < length s" "readUOTRequest (s @ z) = Inr (y, r @ z)"
    if "readUOTRequest s = Inr (y, r)" for s y r z
  proof -
    from that obtain c r1 d where c: "readFull 1 s = Inr (c, r1)" and d: "readSocksAddr r1 = Inr (d, r)"
      and y: "y = \<lparr>uot_IsConnect = (c ! 0 \<noteq> 0), uot_Destination = d\<rparr>"
      by (auto simp: readUOTRequest_def result_simps)
    show "length r < length s"
      using readFull_InrD [OF c] socks.rd_consumes [OF d] by simp
    show "readUOTRequest (s @ z) = Inr (y, r @ z)"
      by (simp add: readUOTRequest_def readFull_mono [OF c, simplified] socks.rd_mono [OF d] y)
  qed
qed

section \<open>Datagrams through both relays\<close>

text \<open>The destination's \<open>WriteTo\<close> that records what it is given.\<close>

definition collect :: "(bytes \<times> string) list \<Rightarrow> bytes \<Rightarrow> string \<Rightarrow> (bytes \<times> string) list \<times> go_err option" where
  "collect d b target = (d @ [(b, target)], None)"

lemma relayPacketConnToUOT_ok:
  "w_budget w = None \<Longrightarrow>
     relayPacketConnToUOT w ps err =
       (w\<lparr>w_out := w_out w @ concat (map (\<lambda>p. uot_enc (take maxFrameData p)) ps)\<rparr>, err)"
  by (induction ps arbitrary: w) (simp_all add: writeUOTPayload_def uot_enc_def)

lemma relayUOTToPacketConn_enc:
  "list_all (\<lambda>p. length p \<le> maxFrameData) ps \<Longrightarrow> length ps < k \<Longrightarrow>
     relayUOTToPacketConn collect k d (concat (map uot_enc ps)) target =
       Some (d @ map (\<lambda>p. (p, target)) ps, IoEOF)"
proof (induction ps arbitrary: k d)
  case Nil
  then show ?case by (cases k) (simp_all add: readUOTPayload_def readFull_def)
next
  case (Cons p ps)
  then show ?case by (cases k) (simp_all add: readUOTPayload_enc collect_def)
qed

text \<open>The relay to the packet connection ends on every stream.\<close>

lemma relayUOTToPacketConn_terminates:
  "length s < k \<Longrightarrow> \<exists>r. relayUOTToPacketConn wt k d s target = Some r"
proof (induction k arbitrary: s d)
  case (Suc k)
  obtain res s' where rd: "readUOTPayload maxFrameData s = (res, s')" by fastforce
  show ?case
  proof (cases res)
    case (Inr b)
    then have "length s' < k"
      using readUOTPayload_InrD [of maxFrameData s b s'] rd Suc.prems by (simp add: uot_enc_def)
    then show ?thesis using rd Inr Suc.IH [of s']
      by (auto split: prod.splits option.splits)
  qed (simp add: rd)
qed simp

end
