(* ===== verification/Common.thy ===== *)
theory Common
  imports Go_Netip
begin

text \<open>
  The helpers of \<open>common/common.go\<close> and \<open>common/net.go\<close>. Hash functions, the PEM and base64
  codecs, the seeded random source and the CIDR ranger are arguments.
\<close>

section \<open>Counters and numbers\<close>

text \<open>The loop from the last byte: \<open>i\<close> bytes are still to visit.\<close>

fun inc_be :: "nat \<Rightarrow> bytes \<Rightarrow> bytes" where
  "inc_be 0 b = b"
| "inc_be (Suc i) b =
     (let b' = b[i := b ! i + 1] in if b' ! i \<noteq> 0 then b' else inc_be i b')"

definition BytesIncBigEndian :: "bytes \<Rightarrow> bytes" where
  "BytesIncBigEndian b = inc_be (length b) b"

fun BytesIncLittleEndian :: "bytes \<Rightarrow> bytes" where
  "BytesIncLittleEndian [] = []"
| "BytesIncLittleEndian (x # xs) = (if x + 1 \<noteq> 0 then (x + 1) # xs else (x + 1) # BytesIncLittleEndian xs)"

text \<open>\<open>int64\<close> negation wraps: the smallest number is its own negative.\<close>

definition Abs64 :: "64 word \<Rightarrow> 64 word" where
  "Abs64 a = (if a <s 0 then - a else a)"

definition Min :: "int \<Rightarrow> int \<Rightarrow> int" where "Min a b = (if a < b then a else b)"
definition Max :: "int \<Rightarrow> int \<Rightarrow> int" where "Max a b = (if b < a then a else b)"

definition ShouldParseInt64 :: "string \<Rightarrow> int" where
  "ShouldParseInt64 a = fst (parseInt64 a)"

definition ShouldParseUint8 :: "string \<Rightarrow> byte" where
  "ShouldParseUint8 a = word_of_nat (fst (parseUint 8 a))"

section \<open>Lists\<close>

text \<open>\<open>Change\<close>: three loops over a set of keys.\<close>

definition Change :: "'a list \<Rightarrow> 'a list \<Rightarrow> ('a \<Rightarrow> string) \<Rightarrow> 'a list \<times> 'a list" where
  "Change from to keyFunc =
     (let m = foldl (\<lambda>m x. insert (keyFunc x) m) {} to;
          toRemove = foldl (\<lambda>acc x. if keyFunc x \<notin> m then acc @ [x] else acc) [] from;
          m1 = foldl (\<lambda>m x. if keyFunc x \<in> m then m - {keyFunc x} else m) m from;
          toAdd = foldl (\<lambda>acc x. if keyFunc x \<in> m1 then acc @ [x] else acc) [] to
      in (toRemove, toAdd))"

fun dedup_loop :: "string set \<Rightarrow> string list \<Rightarrow> string list \<Rightarrow> string list" where
  "dedup_loop m res [] = res"
| "dedup_loop m res (v # vs) =
     (if v \<in> m then dedup_loop m res vs else dedup_loop (insert v m) (res @ [v]) vs)"

definition Deduplicate :: "string list \<Rightarrow> string list" where
  "Deduplicate list = dedup_loop {} [] list"

text \<open>The compaction in place: reading at \<open>i\<close>, writing at \<open>j\<close>.\<close>

function compact :: "nat \<Rightarrow> nat \<Rightarrow> string list \<Rightarrow> string list \<times> nat" where
  "compact i j list =
     (if i < length list
      then (if list ! i \<noteq> [] then compact (Suc i) (Suc j) (list[j := list ! i]) else compact (Suc i) j list)
      else (list, j))"
  by pat_completeness auto
termination by (relation "measure (\<lambda>(i, j, l). length l - i)") auto

declare compact.simps [simp del]

definition RemoveEmpty :: "string list \<Rightarrow> string list" where
  "RemoveEmpty list = (case compact 0 0 list of (l, j) \<Rightarrow> take j l)"

fun StringsHas :: "string list \<Rightarrow> string \<Rightarrow> bool" where
  "StringsHas [] str = False"
| "StringsHas (s # ss) str = (if s = str then True else StringsHas ss str)"

text \<open>\<open>StarMatch\<close>: the quoted expression with \<open>.*\<close> for each star, matched anywhere in the
  text; \<open>.\<close> does not match a newline.\<close>

fun glob :: "string \<Rightarrow> string \<Rightarrow> bool" where
  "glob [] s = True"
| "glob (c # p) s =
     (if c = CHR ''*''
      then glob p s \<or> (case s of [] \<Rightarrow> False | x # xs \<Rightarrow> x \<noteq> CHR ''\<newline>'' \<and> glob (c # p) xs)
      else (case s of [] \<Rightarrow> False | x # xs \<Rightarrow> x = c \<and> glob p xs))"

definition StarMatch :: "string \<Rightarrow> string \<Rightarrow> bool" where
  "StarMatch expr str = list_ex (\<lambda>i. glob expr (drop i str)) [0..<Suc (length str)]"

text \<open>\<open>SplitN(field, "=", 2)\<close> has two parts exactly when \<open>Cut\<close> finds the separator.\<close>

definition SimplyGetParam :: "string \<Rightarrow> string \<Rightarrow> string" where
  "SimplyGetParam source key =
     (case find (\<lambda>f. case strings_Cut CHR ''='' f of None \<Rightarrow> False | Some (k, v) \<Rightarrow> key = k)
             (strings_Split CHR '';'' source) of
        None \<Rightarrow> []
      | Some f \<Rightarrow> (case strings_Cut CHR ''='' f of None \<Rightarrow> [] | Some (k, v) \<Rightarrow> v))"

section \<open>Names and hashes\<close>

definition hex_lower :: "bytes \<Rightarrow> string" where
  "hex_lower b = concat (map (\<lambda>x. [digit_char (unat x div 16), digit_char (unat x mod 16)]) b)"

definition StringToUUID5 :: "(bytes \<Rightarrow> bytes) \<Rightarrow> string \<Rightarrow> string" where
  "StringToUUID5 sha1 str =
     (let u = take 16 (sha1 (replicate 16 0 @ to_bytes str));
          u1 = u[6 := (u ! 6 AND 0x0f) OR push_bit 4 5];
          u2 = u1[8 := (u1 ! 8 AND drop_bit 2 0xff) OR push_bit 6 2]
      in hex_lower (take 4 u2) @ ''-'' @ hex_lower (take 2 (drop 4 u2)) @ ''-'' @
         hex_lower (take 2 (drop 6 u2)) @ ''-'' @ hex_lower (take 2 (drop 8 u2)) @ ''-'' @
         hex_lower (drop 10 u2))"

definition not_ipv4 :: string where
  "not_ipv4 = ''the first hostname is not ipv4 format''"

definition HostToSNI :: "string \<Rightarrow> string \<Rightarrow> go_err + string" where
  "HostToSNI host rootDomain =
     (case parseAddr host of
        None \<Rightarrow> Inr host
      | Some ip \<Rightarrow>
          if addr_Is6 ip then Inl (Errorf not_ipv4)
          else Inr (strings_ReplaceByte CHR ''.'' ''-'' host @ ''.'' @ rootDomain))"

text \<open>\<open>strings.Split\<close> has at least one field.\<close>

definition HostsToSNI :: "string \<Rightarrow> string \<Rightarrow> go_err + string" where
  "HostsToSNI hosts rootDomain =
     (let h = hd (strings_Split CHR '','' hosts)
      in case parseAddr h of
           None \<Rightarrow> Inr h
         | Some ip \<Rightarrow>
             if \<not> addr_Is4 ip then Inl (Errorf not_ipv4)
             else Inr (strings_ReplaceByte CHR ''.'' ''-'' h @ ''.'' @ rootDomain))"

text \<open>\<open>fnv.New64\<close> over the input.\<close>

definition fnv64 :: "bytes \<Rightarrow> 64 word" where
  "fnv64 b = foldl (\<lambda>h x. (h * 1099511628211) XOR ucast x) 14695981039346656037 b"

text \<open>Go's \<open>%\<close> takes the sign of the dividend.\<close>

definition goRem :: "int \<Rightarrow> int \<Rightarrow> int" where
  "goRem a b = sgn a * (\<bar>a\<bar> mod \<bar>b\<bar>)"

definition hash_length :: "64 word \<Rightarrow> int \<Rightarrow> int \<Rightarrow> int" where
  "hash_length seed minlength maxlength =
     (let mn = (if maxlength < minlength then maxlength else minlength)
      in mn + goRem (sint seed) (maxlength - mn + 1))"

text \<open>\<open>rnd seed n\<close> are the first \<open>n\<close> bytes of the random source; a negative length is a
  panic of \<open>make\<close>.\<close>

definition RangeHash :: "(64 word \<Rightarrow> nat \<Rightarrow> bytes) \<Rightarrow> bytes \<Rightarrow> int \<Rightarrow> int \<Rightarrow> bytes option" where
  "RangeHash rnd inp minlength maxlength =
     (let seed = Abs64 (fnv64 inp); len = hash_length seed minlength maxlength
      in if len < 0 then None else Some (rnd seed (nat len)))"

definition GenServiceName :: "(64 word \<Rightarrow> nat \<Rightarrow> bytes) \<Rightarrow> (bytes \<Rightarrow> string) \<Rightarrow> bytes \<Rightarrow> string option" where
  "GenServiceName rnd encode b =
     (if b = [] then Some ''GunService'' else map_option encode (RangeHash rnd b 3 12))"

text \<open>The nil hash is \<open>None\<close>.\<close>

definition chain_step :: "(bytes \<Rightarrow> bytes) \<Rightarrow> bytes option \<Rightarrow> bytes \<Rightarrow> bytes option" where
  "chain_step sha256 chainHash cert =
     (let certHash = sha256 cert
      in case chainHash of
           None \<Rightarrow> Some certHash
         | Some h \<Rightarrow> Some (sha256 (h @ certHash)))"

definition GenerateCertChainHash :: "(bytes \<Rightarrow> bytes) \<Rightarrow> bytes list \<Rightarrow> bytes option" where
  "GenerateCertChainHash sha256 rawCerts = foldl (chain_step sha256) None rawCerts"

text \<open>The loop over the PEM blocks; the fuel counts blocks.\<close>

fun pem_blocks :: "(bytes \<Rightarrow> (bytes \<times> bytes) option) \<Rightarrow> nat \<Rightarrow> bytes \<Rightarrow> bytes list option" where
  "pem_blocks decode 0 b = None"
| "pem_blocks decode (Suc n) b =
     (case decode b of
        None \<Rightarrow> Some []
      | Some (block, rest) \<Rightarrow> map_option (\<lambda>bs. block # bs) (pem_blocks decode n rest))"

definition GenerateCertChainHashFromBytes ::
    "(bytes \<Rightarrow> bytes) \<Rightarrow> (bytes \<Rightarrow> (bytes \<times> bytes) option) \<Rightarrow> (bytes \<Rightarrow> string) \<Rightarrow> bytes \<Rightarrow>
       (go_err + string) option" where
  "GenerateCertChainHashFromBytes sha256 decode base64url b =
     map_option (\<lambda>rawCerts.
         if rawCerts = [] then Inl (Errorf ''not a valid certificate'')
         else Inr (base64url (case GenerateCertChainHash sha256 rawCerts of None \<Rightarrow> [] | Some h \<Rightarrow> h)))
       (pem_blocks decode (Suc (length b)) b)"

section \<open>Private addresses\<close>

definition privateCIDR :: "string list" where
  "privateCIDR =
     [''0.0.0.0/32'', ''10.0.0.0/8'', ''100.64.0.0/10'', ''127.0.0.0/8'', ''169.254.0.0/16'',
      ''172.16.0.0/12'', ''192.0.0.0/24'', ''192.0.2.0/24'', ''192.88.99.0/24'', ''192.168.0.0/16'',
      ''198.18.0.0/15'', ''198.51.100.0/24'', ''203.0.113.0/24'', ''224.0.0.0/4'', ''240.0.0.0/4'',
      ''::/128'', ''::1/128'', ''64:ff9b:1::/48'', ''100::/64'', ''2001::/32'', ''2001:20::/28'',
      ''2001:db8::/32'', ''fc00::/7'', ''fe80::/10'', ''ff00::/8'']"

text \<open>The package's \<open>init\<close>: a panic (\<open>None\<close>) if an entry does not parse or is refused.\<close>

fun ranger_init :: "(string \<Rightarrow> 'n option) \<Rightarrow> ('n \<Rightarrow> 'r \<Rightarrow> 'r option) \<Rightarrow> string list \<Rightarrow> 'r \<Rightarrow> 'r option" where
  "ranger_init parseCIDR ins [] r = Some r"
| "ranger_init parseCIDR ins (c # cs) r =
     (case parseCIDR c of
        None \<Rightarrow> None
      | Some n \<Rightarrow> Option.bind (ins n r) (ranger_init parseCIDR ins cs))"

text \<open>\<open>contains\<close> is the ranger's answer, \<open>None\<close> its error.\<close>

definition IsPrivate :: "(bytes \<Rightarrow> bool option) \<Rightarrow> bytes \<Rightarrow> bool" where
  "IsPrivate contains ip = (case contains ip of None \<Rightarrow> False | Some ok \<Rightarrow> ok)"

definition IsPrivateHostname :: "(bytes \<Rightarrow> bool option) \<Rightarrow> (string \<Rightarrow> bytes list option) \<Rightarrow> string \<Rightarrow> bool option" where
  "IsPrivateHostname contains lookupIP hostname =
     map_option (\<lambda>ips. list_ex (IsPrivate contains) ips) (lookupIP hostname)"

section \<open>Lemmas\<close>

subsection \<open>Counters\<close>

definition be_val :: "bytes \<Rightarrow> nat" where
  "be_val b = foldl (\<lambda>a x. a * 256 + unat x) 0 b"

fun le_val :: "bytes \<Rightarrow> nat" where
  "le_val [] = 0"
| "le_val (x # xs) = unat x + 256 * le_val xs"

lemma be_val_snoc [simp]: "be_val (b @ [x]) = be_val b * 256 + unat x"
  by (simp add: be_val_def)

lemma be_val_Nil [simp]: "be_val [] = 0"
  by (simp add: be_val_def)

lemma unat_byte_less: "unat (x :: byte) < 256"
  using unsigned_less [of x, where 'a = nat] by simp

lemma unat_succ: "unat (x + 1 :: byte) = (unat x + 1) mod 256"
  by (simp add: unat_word_ariths)

lemma byte_wraps: "(x :: byte) + 1 = 0 \<longleftrightarrow> unat x = 255"
proof -
  have "(x + 1 = 0) = ((unat x + 1) mod 256 = 0)"
    unfolding unat_succ [symmetric] by (simp only: unat_eq_zero)
  then show ?thesis using unat_byte_less [of x] by (auto simp: mod_Suc)
qed

lemma byte_succ: "x + 1 \<noteq> 0 \<Longrightarrow> unat (x + 1 :: byte) = unat x + 1"
  using unat_byte_less [of x] by (simp add: byte_wraps unat_succ)

lemma be_val_bound: "be_val b < 256 ^ length b"
proof (induction b rule: rev_induct)
  case (snoc x b)
  then have "be_val b * 256 + 256 \<le> 256 ^ length b * 256"
    by (metis Suc_leI add.commute mult_Suc mult_le_mono1)
  with unat_byte_less [of x] show ?case by simp
qed simp

lemma inc_be_append: "i \<le> length a \<Longrightarrow> inc_be i (a @ b) = inc_be i a @ b"
proof (induction i arbitrary: a)
  case (Suc i)
  then show ?case by (simp add: Let_def list_update_append nth_append)
qed simp

lemma length_inc_be [simp]: "length (inc_be i b) = length b"
  by (induction i arbitrary: b) (simp_all add: Let_def)

lemma length_BytesInc [simp]: "length (BytesIncBigEndian b) = length b"
  by (simp add: BytesIncBigEndian_def)

lemma inc_be_snoc:
  "BytesIncBigEndian (b @ [x]) = (if x + 1 \<noteq> 0 then b @ [x + 1] else BytesIncBigEndian b @ [0])"
  by (simp add: BytesIncBigEndian_def Let_def nth_append list_update_append inc_be_append)

lemma be_val_inc: "be_val (BytesIncBigEndian b) = (be_val b + 1) mod 256 ^ length b"
proof (induction b rule: rev_induct)
  case Nil
  show ?case by (simp add: BytesIncBigEndian_def)
next
  case (snoc x b)
  show ?case
  proof (cases "x + 1 = 0")
    case False
    have "be_val (b @ [x + 1]) < 256 ^ length (b @ [x + 1])" by (rule be_val_bound)
    with False byte_succ [OF False] show ?thesis by (simp add: inc_be_snoc)
  next
    case True
    then have x: "unat x = 255" by (simp only: byte_wraps)
    have m: "((be_val b + 1) * 256) mod (256 ^ length b * 256) = (be_val b + 1) mod 256 ^ length b * 256"
      by (rule mult_mod_left [symmetric])
    have "be_val (BytesIncBigEndian (b @ [x])) = (be_val b + 1) mod 256 ^ length b * 256"
      using True snoc by (simp add: inc_be_snoc)
    also have "\<dots> = (be_val (b @ [x]) + 1) mod 256 ^ length (b @ [x])"
      unfolding m [symmetric] by (simp add: x add.commute mult.commute)
    finally show ?thesis .
  qed
qed

lemma length_inc_le [simp]: "length (BytesIncLittleEndian b) = length b"
  by (induction b) auto

lemma le_val_inc: "le_val (BytesIncLittleEndian b) = (le_val b + 1) mod 256 ^ length b"
proof (induction b)
  case (Cons x xs)
  have bound: "le_val ys < 256 ^ length ys" for ys
  proof (induction ys)
    case (Cons y ys)
    then have "256 * le_val ys + 256 \<le> 256 * 256 ^ length ys"
      by (metis Suc_leI add.commute mult_Suc_right mult_le_mono2)
    with unat_byte_less [of y] show ?case by simp
  qed simp
  show ?case
  proof (cases "x + 1 = 0")
    case False
    have "le_val ((x + 1) # xs) < 256 ^ length ((x + 1) # xs)" by (rule bound)
    with False byte_succ [OF False] show ?thesis by simp
  next
    case True
    then have x: "unat x = 255" by (simp only: byte_wraps)
    have m: "256 * ((le_val xs + 1) mod 256 ^ length xs) = (256 * (le_val xs + 1)) mod (256 * 256 ^ length xs)"
      by (rule mult_mod_right)
    have "le_val (BytesIncLittleEndian (x # xs)) = 256 * ((le_val xs + 1) mod 256 ^ length xs)"
      using True Cons by simp
    also have "\<dots> = (le_val (x # xs) + 1) mod 256 ^ length (x # xs)"
      unfolding m by (simp add: x)
    finally show ?thesis .
  qed
qed simp

subsection \<open>Lists\<close>

lemma dedup_loop_spec: "dedup_loop m res vs = res @ rev (remdups (rev (filter (\<lambda>v. v \<notin> m) vs)))"
proof (induction m res vs rule: dedup_loop.induct)
  case (2 m res v vs)
  have snoc: "rev (remdups (rev (v # ws))) = v # rev (remdups (rev (filter (\<lambda>w. w \<noteq> v) ws)))" for ws :: "string list"
  proof -
    have "remdups (xs @ [v]) = remdups (filter (\<lambda>w. w \<noteq> v) xs) @ [v]" for xs :: "string list"
      by (induction xs) auto
    from this [of "rev ws"] show ?thesis by (simp add: rev_filter)
  qed
  show ?case
  proof (cases "v \<in> m")
    case False
    with 2 have "dedup_loop m res (v # vs) =
      res @ v # rev (remdups (rev (filter (\<lambda>w. w \<notin> insert v m) vs)))" by simp
    also have "filter (\<lambda>w. w \<notin> insert v m) vs = filter (\<lambda>w. w \<noteq> v) (filter (\<lambda>w. w \<notin> m) vs)"
      by (auto intro: filter_cong)
    finally show ?thesis using False snoc by simp
  qed (use 2 in simp)
qed simp

lemma Deduplicate_spec: "Deduplicate xs = rev (remdups (rev xs))"
  by (simp add: Deduplicate_def dedup_loop_spec)

lemma compact_spec:
  "j \<le> i \<Longrightarrow> i \<le> length l \<Longrightarrow> (case compact i j l of (l', k) \<Rightarrow> take k l') =
     take j l @ filter (\<lambda>s. s \<noteq> []) (drop i l)"
proof (induction i j l rule: compact.induct)
  case (1 i j l)
  show ?case
  proof (cases "i < length l")
    case True
    have d: "drop i l = l ! i # drop (Suc i) l" using True by (simp add: Cons_nth_drop_Suc)
    show ?thesis
    proof (cases "l ! i = []")
      case False
      have "(case compact i j l of (l', k) \<Rightarrow> take k l') =
        (case compact (Suc i) (Suc j) (l[j := l ! i]) of (l', k) \<Rightarrow> take k l')"
        using True False by (subst compact.simps) simp
      also have "\<dots> = take (Suc j) (l[j := l ! i]) @ filter (\<lambda>s. s \<noteq> []) (drop (Suc i) (l[j := l ! i]))"
        using 1(1) [OF True False] 1(3,4) True by simp
      also have "take (Suc j) (l[j := l ! i]) = take j l @ [l ! i]"
        using True 1(3) by (simp add: take_Suc_conv_app_nth)
      finally show ?thesis using d False 1(3) by simp
    next
      case e: True
      have "(case compact i j l of (l', k) \<Rightarrow> take k l') = (case compact (Suc i) j l of (l', k) \<Rightarrow> take k l')"
        using True e by (subst compact.simps) simp
      with 1(2) [OF True] e 1(3) True d show ?thesis by simp
    qed
  next
    case False
    with 1(3,4) show ?thesis by (simp add: compact.simps)
  qed
qed

lemma foldl_insert: "foldl (\<lambda>m x. insert (f x) m) S xs = f ` set xs \<union> S"
  by (induction xs arbitrary: S) auto

lemma foldl_append_filter: "foldl (\<lambda>acc x. if P x then acc @ [x] else acc) ys xs = ys @ filter P xs"
  by (induction xs arbitrary: ys) auto

lemma foldl_remove: "foldl (\<lambda>m x. if f x \<in> m then m - {f x} else m) S xs = S - f ` set xs"
  by (induction xs arbitrary: S) auto

lemma Change_spec:
  "Change from to key = (filter (\<lambda>x. key x \<notin> key ` set to) from, filter (\<lambda>x. key x \<notin> key ` set from) to)"
  by (auto simp: Change_def Let_def foldl_insert foldl_append_filter foldl_remove intro!: filter_cong)

subsection \<open>The hash length\<close>

lemma goRem_bounds: "0 \<le> a \<Longrightarrow> 0 < b \<Longrightarrow> 0 \<le> goRem a b \<and> goRem a b < b"
  by (cases "a = 0") (simp_all add: goRem_def)

lemma sint_range64: "- (2 ^ 63) \<le> sint (a :: 64 word)" "sint (a :: 64 word) < 2 ^ 63"
  using sint_range_size [of a] by (simp_all add: word_size)

lemma Abs64_sint: "(a :: 64 word) \<noteq> - (2 ^ 63) \<Longrightarrow> sint (Abs64 a) = \<bar>sint a\<bar>"
proof -
  assume a: "a \<noteq> - (2 ^ 63)"
  have "sint a \<noteq> - (2 ^ 63)"
  proof
    assume "sint a = - (2 ^ 63)"
    then have "word_of_int (sint a) = (word_of_int (- (2 ^ 63)) :: 64 word)" by simp
    with a show False by simp
  qed
  with sint_range64 [of a] have r: "- (2 ^ 63) \<le> - sint a" "- sint a < 2 ^ 63" by auto
  have "sint (- a) = - sint a"
  proof -
    have "- a = word_of_int (- sint a)" by simp
    then have "sint (- a) = signed_take_bit 63 (- sint a)" by (simp only: sint_sbintrunc') simp
    also have "\<dots> = - sint a" using r by (intro signed_take_bit_int_eq_self) simp_all
    finally show ?thesis .
  qed
  then show ?thesis by (simp add: Abs64_def word_sless_alt)
qed

lemma hash_length_bounds:
  assumes "0 \<le> sint seed" and "mn \<le> mx"
  shows "mn \<le> hash_length seed mn mx \<and> hash_length seed mn mx \<le> mx"
  using goRem_bounds [OF assms(1), of "mx - mn + 1"] assms(2) by (simp add: hash_length_def)

section \<open>Properties\<close>

text \<open>The two counters add one to the number their bytes spell, wrapping at the width, and
  keep the width.\<close>

theorem bytes_increment:
  "be_val (BytesIncBigEndian b) = (be_val b + 1) mod 256 ^ length b \<and>
   le_val (BytesIncLittleEndian b) = (le_val b + 1) mod 256 ^ length b \<and>
   length (BytesIncBigEndian b) = length b \<and> length (BytesIncLittleEndian b) = length b"
  by (simp add: be_val_inc le_val_inc)

text \<open>The loops over lists compute their reference functions: \<open>Change\<close> removes the elements
  whose key the target lacks and adds the target's elements whose key the source lacks,
  \<open>Deduplicate\<close> keeps the first occurrence of every text, \<open>RemoveEmpty\<close> (compacting in
  place) keeps the non-empty texts in order.\<close>

theorem list_helpers:
  "Change from to key = (filter (\<lambda>x. key x \<notin> key ` set to) from, filter (\<lambda>x. key x \<notin> key ` set from) to) \<and>
   Deduplicate xs = rev (remdups (rev xs)) \<and>
   RemoveEmpty xs = filter (\<lambda>s. s \<noteq> []) xs"
proof -
  have "RemoveEmpty xs = filter (\<lambda>s. s \<noteq> []) xs"
    using compact_spec [of 0 0 xs] by (simp add: RemoveEmpty_def)
  then show ?thesis by (simp add: Change_spec Deduplicate_spec)
qed

text \<open>C14: The hash of a text as bytes has a length between the two limits whenever the 64-bit hash
  of the input is not the smallest \<open>int64\<close>; for that one hash \<open>Abs64\<close> stays negative, so the
  length can be below the minimum.\<close>

theorem range_hash_length:
  assumes "fnv64 inp \<noteq> - (2 ^ 63)" and "0 \<le> mn" and "mn \<le> mx"
    and "\<And>s n. length (rnd s n) = n"
  shows "\<exists>b. RangeHash rnd inp mn mx = Some b \<and> mn \<le> int (length b) \<and> int (length b) \<le> mx"
proof -
  have "0 \<le> sint (Abs64 (fnv64 inp))" using Abs64_sint [OF assms(1)] by simp
  from hash_length_bounds [OF this assms(3)] assms(2,4) show ?thesis
    by (simp add: RangeHash_def Let_def)
qed

theorem range_hash_length_witness:
  "\<exists>b. RangeHash (\<lambda>s n. replicate n 0) [] 3 12 = Some b \<and> 3 \<le> int (length b) \<and> int (length b) \<le> 12"
  by (rule range_hash_length) (simp_all add: fnv64_def)

end
