(* ===== verification/Passages.thy ===== *)
theory Passages
  imports Common
begin

text \<open>
  Passages (\<open>server/user.go\<close>), the contention check (\<open>contention.go\<close>), the registry of
  servers (\<open>server.go\<close>) and the synchronisation with the passages SweetLisa sends
  (\<open>SyncPassages\<close> of \<open>sync.go\<close>). The records hold the fields of \<open>model.Passage\<close> the
  program uses; \<open>hash\<close> is \<open>model.Argument.Hash\<close>. The locale is the interface
  \<open>server.Server\<close> as the synchronisation relies on it.
\<close>

section \<open>Passages\<close>

record argument =
  arg_Protocol :: string
  arg_Username :: string
  arg_Password :: string
  arg_Method :: string

record out_node =
  out_Host :: string
  out_Port :: string
  out_Argument :: argument

record passage =
  pa_From :: string
  pa_In :: argument
  pa_Out :: "out_node option"
  pa_Manager :: bool

definition zero_argument :: argument where
  "zero_argument = \<lparr>arg_Protocol = [], arg_Username = [], arg_Password = [], arg_Method = []\<rparr>"

definition zero_passage :: passage where
  "zero_passage = \<lparr>pa_From = [], pa_In = zero_argument, pa_Out = None, pa_Manager = False\<rparr>"

text \<open>\<open>server.Passage{Manager: true}\<close>\<close>

definition manager_passage :: passage where
  "manager_passage = zero_passage\<lparr>pa_Manager := True\<rparr>"

datatype PassageUse = PassageUseUser | PassageUseRelay | PassageUseManager

definition passage_Use :: "'a passage_scheme \<Rightarrow> PassageUse" where
  "passage_Use p =
     (if pa_Manager p then PassageUseManager
      else if pa_From p = [] then PassageUseUser
      else PassageUseRelay)"

text \<open>Durations are nanoseconds.\<close>

definition seconds :: "int \<Rightarrow> int" where
  "seconds n = n * 1000000000"

fun ProtectTime :: "PassageUse \<Rightarrow> int" where
  "ProtectTime PassageUseUser = 0"
| "ProtectTime PassageUseRelay = seconds 90"
| "ProtectTime PassageUseManager = seconds 90"

text \<open>\<open>ContentionCache.Check\<close> accepts every address.\<close>

definition contention_Check :: "string \<Rightarrow> int \<Rightarrow> bytes \<Rightarrow> bool \<times> bytes option" where
  "contention_Check key protectTime ip = (True, None)"

section \<open>The registry of servers\<close>

record server_argument =
  sarg_Ticket :: string
  sarg_ServerName :: string
  sarg_Hostnames :: string
  sarg_Port :: int
  sarg_NoRelay :: bool

definition server_Register :: "string \<Rightarrow> 'c \<Rightarrow> (string \<rightharpoonup> 'c) \<Rightarrow> (string \<rightharpoonup> 'c)" where
  "server_Register name c mapper = mapper(name \<mapsto> c)"

definition NewServer :: "(string \<rightharpoonup> 'a \<Rightarrow> go_err + 's) \<Rightarrow> string \<Rightarrow> 'a \<Rightarrow> go_err + 's" where
  "NewServer mapper proto a =
     (case mapper proto of
        None \<Rightarrow> Inl (Errorf (''no server creator registered for '' @ proto))
      | Some creator \<Rightarrow> creator a)"

lemma truncate_sel [simp]:
  "pa_Manager (passage.truncate p) = pa_Manager p" "pa_In (passage.truncate p) = pa_In p"
  "pa_Out (passage.truncate p) = pa_Out p" "pa_From (passage.truncate p) = pa_From p"
  by (simp_all add: passage.truncate_def)

lemma filter_truncate: "filter P (map passage.truncate xs) = map passage.truncate (filter (\<lambda>x. P (passage.truncate x)) xs)"
  by (simp add: filter_map comp_def)

lemma collect_Cons:
  "{q \<in> set (x # xs). P q} = (if P x then insert x {q \<in> set xs. P q} else {q \<in> set xs. P q})"
  by auto

section \<open>Synchronisation\<close>

definition passage_key :: "(argument \<Rightarrow> string) \<Rightarrow> 'a passage_scheme \<Rightarrow> string" where
  "passage_key hash p =
     (let h = hash (pa_In p)
      in case pa_Out p of None \<Rightarrow> h | Some out \<Rightarrow> h @ ''|'' @ hash (out_Argument out))"

text \<open>The operations of the server, \<open>None\<close> is a panic.\<close>

definition SyncPassages :: "(argument \<Rightarrow> string) \<Rightarrow> ('s \<Rightarrow> passage list) \<Rightarrow>
    (passage list \<Rightarrow> bool \<Rightarrow> 's \<Rightarrow> ('s \<times> go_err option) option) \<Rightarrow>
    (passage list \<Rightarrow> 's \<Rightarrow> ('s \<times> go_err option) option) \<Rightarrow>
    passage list \<Rightarrow> 's \<Rightarrow> ('s \<times> go_err option) option" where
  "SyncPassages hash stored remove add passages s =
     (let (toRemove, toAdd) = Change (stored s) passages (passage_key hash)
      in Option.bind (remove toRemove False s) (\<lambda>(s1, err).
           case err of Some e \<Rightarrow> Some (s1, Some e) | None \<Rightarrow> add toAdd s1))"

text \<open>The passages a removal is about: all but the managers, and these too on request. The set of
  hashes is built by a loop.\<close>

definition removal_keys :: "(argument \<Rightarrow> string) \<Rightarrow> 'a passage_scheme list \<Rightarrow> bool \<Rightarrow> string set" where
  "removal_keys hash psgs alsoManager =
     foldl (\<lambda>keySet p. if pa_Manager p \<and> \<not> alsoManager then keySet else insert (hash (pa_In p)) keySet)
       {} psgs"

lemma removal_keys_set:
  "removal_keys hash psgs am = (\<lambda>p. hash (pa_In p)) ` {p \<in> set psgs. \<not> pa_Manager p \<or> am}"
proof -
  have "foldl (\<lambda>keySet p. if pa_Manager p \<and> \<not> am then keySet else insert (hash (pa_In p)) keySet) S psgs =
    S \<union> (\<lambda>p. hash (pa_In p)) ` {p \<in> set psgs. \<not> pa_Manager p \<or> am}" for S
    by (induction psgs arbitrary: S) auto
  then show ?thesis by (simp add: removal_keys_def)
qed

text \<open>The users among the stored passages that the target lacks.\<close>

definition outdated :: "(argument \<Rightarrow> string) \<Rightarrow> passage list \<Rightarrow> passage list \<Rightarrow> passage set" where
  "outdated hash target ps =
     {p \<in> set ps. \<not> pa_Manager p \<and> passage_key hash p \<notin> passage_key hash ` set target}"

text \<open>\<open>valid\<close> are the passages a server can make its own without a panic. The parameter of type
  \<open>'r\<close> is what the server takes from its surroundings.\<close>

locale passage_store =
  fixes ok :: "'s \<Rightarrow> bool"
    and stored :: "'s \<Rightarrow> passage list"
    and remove :: "'r \<Rightarrow> passage list \<Rightarrow> bool \<Rightarrow> 's \<Rightarrow> ('s \<times> go_err option) option"
    and add :: "'r \<Rightarrow> passage list \<Rightarrow> 's \<Rightarrow> ('s \<times> go_err option) option"
    and hash :: "argument \<Rightarrow> string"
    and valid :: "passage \<Rightarrow> bool"
  assumes remove_users: "ok s \<Longrightarrow> length (filter pa_Manager ps) \<le> 1 \<Longrightarrow> list_all valid ps \<Longrightarrow>
      \<exists>s'. remove r ps False s = Some (s', None) \<and> ok s' \<and>
        stored s' = filter (\<lambda>p. hash (pa_In p) \<notin> (\<lambda>p. hash (pa_In p)) ` {p \<in> set ps. \<not> pa_Manager p}) (stored s)"
    and add_users: "ok s \<Longrightarrow> list_all (\<lambda>p. \<not> pa_Manager p) ps \<Longrightarrow> list_all valid ps \<Longrightarrow>
      \<exists>s'. add r ps s = Some (s', None) \<and> ok s' \<and> stored s' = stored s @ ps"
    and valid_stored: "ok s \<Longrightarrow> list_all valid (stored s)"
    and one_manager: "ok s \<Longrightarrow> length (filter pa_Manager (stored s)) \<le> 1"
begin

lemma sync:
  assumes ok: "ok s" and users: "list_all (\<lambda>p. \<not> pa_Manager p) target" and valid: "list_all valid target"
  shows "\<exists>s'. SyncPassages hash stored (remove r1) (add r2) target s = Some (s', None) \<and> ok s' \<and>
    stored s' = filter (\<lambda>p. hash (pa_In p) \<notin> (\<lambda>p. hash (pa_In p)) ` outdated hash target (stored s)) (stored s) @
      filter (\<lambda>p. passage_key hash p \<notin> passage_key hash ` set (stored s)) target"
proof -
  let ?k = "passage_key hash"
  let ?rm = "filter (\<lambda>p. ?k p \<notin> ?k ` set target) (stored s)"
  have "length (filter pa_Manager ?rm) \<le> length (filter pa_Manager (stored s))"
    by (simp add: filter_filter conj_commute) (metis filter_filter length_filter_le)
  with one_manager [OF ok] have one: "length (filter pa_Manager ?rm) \<le> 1" by simp
  have "list_all valid ?rm" using valid_stored [OF ok] by (simp add: list_all_iff)
  from remove_users [OF ok one this, of r1] obtain s1 where
    s1: "remove r1 ?rm False s = Some (s1, None)" "ok s1"
      "stored s1 = filter (\<lambda>p. hash (pa_In p) \<notin>
        (\<lambda>p. hash (pa_In p)) ` {p \<in> set ?rm. \<not> pa_Manager p}) (stored s)" by blast
  have "{p \<in> set ?rm. \<not> pa_Manager p} = outdated hash target (stored s)" by (auto simp: outdated_def)
  then have st: "stored s1 =
      filter (\<lambda>p. hash (pa_In p) \<notin> (\<lambda>p. hash (pa_In p)) ` outdated hash target (stored s)) (stored s)"
    using s1(3) by simp
  let ?add = "filter (\<lambda>p. ?k p \<notin> ?k ` set (stored s)) target"
  have "list_all (\<lambda>p. \<not> pa_Manager p) ?add" "list_all valid ?add"
    using users valid by (simp_all add: list_all_iff)
  from add_users [OF s1(2) this, of r2] s1(1) st show ?thesis
    by (auto simp: SyncPassages_def Change_spec)
qed

text \<open>Where the hashes of the stored passages differ, the users afterwards are those of the target.\<close>

lemma sync_users:
  assumes ok: "ok s" and users: "list_all (\<lambda>p. \<not> pa_Manager p) target" and valid: "list_all valid target"
    and inj: "inj_on (\<lambda>p. hash (pa_In p)) (set (stored s))"
    and man: "\<And>p. p \<in> set (stored s) \<Longrightarrow> pa_Manager p \<Longrightarrow> passage_key hash p \<notin> passage_key hash ` set target"
  shows "\<exists>s'. SyncPassages hash stored (remove r1) (add r2) target s = Some (s', None) \<and> ok s' \<and>
    passage_key hash ` {p \<in> set (stored s'). \<not> pa_Manager p} = passage_key hash ` set target \<and>
    filter pa_Manager (stored s') = filter pa_Manager (stored s)"
proof -
  let ?k = "passage_key hash" and ?h = "\<lambda>p. hash (pa_In p)"
  from sync [OF ok users valid, of r1 r2] obtain s' where
    s': "SyncPassages hash stored (remove r1) (add r2) target s = Some (s', None)" "ok s'"
      "stored s' = filter (\<lambda>p. ?h p \<notin> ?h ` outdated hash target (stored s)) (stored s) @
         filter (\<lambda>p. ?k p \<notin> ?k ` set (stored s)) target" by blast
  have kept: "?h p \<notin> ?h ` outdated hash target (stored s) \<longleftrightarrow> p \<notin> outdated hash target (stored s)" if "p \<in> set (stored s)" for p
    using inj_onD [OF inj _ that] by (auto simp: outdated_def)
  have st: "stored s' = filter (\<lambda>p. p \<notin> outdated hash target (stored s)) (stored s) @
      filter (\<lambda>p. ?k p \<notin> ?k ` set (stored s)) target"
    using s'(3) kept by (simp cong: filter_cong)
  have "?k ` {p \<in> set (stored s'). \<not> pa_Manager p} = ?k ` set target"
  proof
    show "?k ` {p \<in> set (stored s'). \<not> pa_Manager p} \<subseteq> ?k ` set target"
      by (auto simp: st outdated_def)
    show "?k ` set target \<subseteq> ?k ` {p \<in> set (stored s'). \<not> pa_Manager p}"
    proof
      fix k
      assume "k \<in> ?k ` set target"
      then obtain t where t: "t \<in> set target" "k = ?k t" by blast
      show "k \<in> ?k ` {p \<in> set (stored s'). \<not> pa_Manager p}"
      proof (cases "?k t \<in> ?k ` set (stored s)")
        case True
        then obtain p where p: "p \<in> set (stored s)" "?k p = ?k t" by force
        with man [OF p(1)] t(1) have "\<not> pa_Manager p" by force
        moreover from p t(1) have "p \<notin> outdated hash target (stored s)" by (force simp: outdated_def)
        ultimately have "p \<in> {p \<in> set (stored s'). \<not> pa_Manager p}" using p(1) by (simp add: st)
        with p(2) t(2) show ?thesis by (metis imageI)
      next
        case False
        with t users show ?thesis by (auto simp: st list_all_iff)
      qed
    qed
  qed
  moreover have "filter pa_Manager (stored s') = filter pa_Manager (stored s)"
  proof -
    have "filter pa_Manager (filter (\<lambda>p. p \<notin> outdated hash target (stored s)) (stored s)) =
        filter pa_Manager (stored s)"
      unfolding filter_filter by (rule filter_cong) (auto simp: outdated_def)
    moreover have "filter pa_Manager (filter P target) = []" for P
      using users by (auto simp: filter_empty_conv list_all_iff)
    ultimately show ?thesis by (simp add: st)
  qed
  ultimately show ?thesis using s'(1,2) by blast
qed

text \<open>Removal goes by the hash of the inner argument alone: a passage that is still wanted goes too
  if it shares that hash with an outdated one, and this synchronisation does not bring it again.\<close>

lemma sync_drops:
  assumes ok: "ok s" and users: "list_all (\<lambda>p. \<not> pa_Manager p) target" and valid: "list_all valid target"
    and q: "q \<in> set (stored s)" and p: "p \<in> outdated hash target (stored s)" and same: "hash (pa_In p) = hash (pa_In q)"
  shows "\<exists>s'. SyncPassages hash stored (remove r1) (add r2) target s = Some (s', None) \<and> q \<notin> set (stored s')"
proof -
  from sync [OF ok users valid, of r1 r2] obtain s' where
    s': "SyncPassages hash stored (remove r1) (add r2) target s = Some (s', None)"
      "stored s' = filter (\<lambda>p. hash (pa_In p) \<notin> (\<lambda>p. hash (pa_In p)) ` outdated hash target (stored s)) (stored s) @
         filter (\<lambda>p. passage_key hash p \<notin> passage_key hash ` set (stored s)) target" by blast
  have "q \<notin> {t \<in> set target. passage_key hash t \<notin> passage_key hash ` set (stored s)}"
    using q by force
  moreover have "hash (pa_In q) \<in> (\<lambda>p. hash (pa_In p)) ` outdated hash target (stored s)"
    using p same by (metis (no_types, lifting) imageI)
  ultimately show ?thesis using s' by auto
qed

end

end
