(* ===== verification/Config.thy ===== *)
theory Config
  imports Go_Net
begin

text \<open>
  The configuration (\<open>config/config.go\<close>, \<open>config/datadir.go\<close>) and the functions of Go's
  \<open>path\<close> package its users need. A field of a Go \<open>int\<close> type is an \<open>int\<close> here; the
  readers of the configuration bound it.
\<close>

section \<open>\<open>path.Clean\<close> and \<open>path.Join\<close>\<close>

text \<open>The elements of a path, empty ones and dots dropped and \<open>..\<close> resolved; \<open>rooted\<close> paths
  have nothing above their root. The accumulator is reversed.\<close>

fun clean_elems :: "bool \<Rightarrow> string list \<Rightarrow> string list \<Rightarrow> string list" where
  "clean_elems rooted acc [] = rev acc"
| "clean_elems rooted acc (e # es) =
     (if e = [] \<or> e = ''.'' then clean_elems rooted acc es
      else if e = ''..'' then
        (case acc of
           a # as \<Rightarrow> if a = ''..'' then clean_elems rooted (e # acc) es else clean_elems rooted as es
         | [] \<Rightarrow> clean_elems rooted (if rooted then [] else [e]) es)
      else clean_elems rooted (e # acc) es)"

definition path_Clean :: "string \<Rightarrow> string" where
  "path_Clean p =
     (if p = [] then ''.''
      else let rooted = (hd p = CHR ''/'');
               s = strings_Join ''/'' (clean_elems rooted [] (strings_Split CHR ''/'' p))
           in if rooted then CHR ''/'' # s else if s = [] then ''.'' else s)"

definition path_Join :: "string list \<Rightarrow> string" where
  "path_Join es =
     (case filter (\<lambda>e. e \<noteq> []) es of
        [] \<Rightarrow> []
      | fs \<Rightarrow> path_Clean (strings_Join ''/'' fs))"

text \<open>Plain elements are joined as they are.\<close>

definition plain_elem :: "string \<Rightarrow> bool" where
  "plain_elem e \<longleftrightarrow> e \<noteq> [] \<and> CHR ''/'' \<notin> set e \<and> e \<noteq> ''.'' \<and> e \<noteq> ''..''"

lemma clean_plain: "list_all plain_elem es \<Longrightarrow> clean_elems r acc es = rev acc @ es"
  by (induction es arbitrary: acc) (simp_all add: plain_elem_def)

lemma split_join:
  "list_all plain_elem es \<Longrightarrow> es \<noteq> [] \<Longrightarrow> strings_Split CHR ''/'' (strings_Join ''/'' es) = es"
proof (induction es)
  case (Cons x xs)
  then show ?case
    by (cases xs) (simp_all add: plain_elem_def strings_Split_no_sep strings_Split_Cons_sep)
qed simp

lemma path_Join_plain:
  assumes "list_all plain_elem es" and "es \<noteq> []"
  shows "path_Join es = strings_Join ''/'' es"
proof -
  have "filter (\<lambda>e. e \<noteq> []) es = es"
    using assms(1) by (induction es) (simp_all add: plain_elem_def)
  moreover obtain c s where cs: "strings_Join ''/'' es = c # s" "c \<noteq> CHR ''/''"
  proof -
    obtain e fs where e: "es = e # fs" using assms(2) by (cases es) auto
    with assms(1) obtain c r where "e = c # r" "c \<noteq> CHR ''/''" by (cases e) (auto simp: plain_elem_def)
    with e that show ?thesis by (cases fs) auto
  qed
  ultimately show ?thesis
    using assms split_join [OF assms] clean_plain [OF assms(1), of False "[]"]
    by (cases es) (simp_all add: path_Join_def path_Clean_def)
qed

section \<open>The parameters\<close>

record Lisa =
  lisa_Host :: string

record Log =
  log_Level :: string
  log_File :: string
  log_MaxDays :: int
  log_DisableColor :: bool
  log_DisableTimestamp :: bool

record BandwidthLimit =
  bl_Enable :: bool
  bl_ResetDay :: byte
  bl_UplinkLimitGiB :: int
  bl_DownlinkLimitGiB :: int
  bl_TotalLimitGiB :: int

record John =
  john_Listen :: string
  john_Log :: Log
  john_Protocol :: string
  john_Name :: string
  john_Hostname :: string
  john_Port :: int
  john_Ticket :: string
  john_BandwidthLimit :: BandwidthLimit
  john_NoRelay :: bool
  john_MaxDrainN :: int
  john_DoNotValidateCDN :: bool
  john_Only4 :: bool

record Params =
  params_Lisa :: Lisa
  params_John :: John

text \<open>\<open>DataFile\<close>: \<open>search\<close> and \<open>create\<close> are \<open>xdg.SearchDataFile\<close> and
  \<open>xdg.DataFile\<close>, \<open>euid\<close> the effective user.\<close>

definition DataFile :: "(string \<Rightarrow> 'e + string) \<Rightarrow> (string \<Rightarrow> 'e + string) \<Rightarrow> nat \<Rightarrow> string \<Rightarrow> 'e + string" where
  "DataFile search create euid filename =
     (let relPath = path_Join [''BitterJohn'', filename]
      in case search relPath of
           Inr fullPath \<Rightarrow> Inr fullPath
         | Inl e \<Rightarrow> if euid = 0 then Inr (path_Join [''/etc/BitterJohn'', filename]) else create relPath)"

end
