(* ===== verification/Procfs.thy ===== *)
theory Procfs
  imports Config Common
begin

text \<open>
  The traffic counters of the network interfaces (\<open>common/procfs/network_usage.go\<close>) and the
  bandwidth limit the server reports (\<open>GenerateBandwidthLimit\<close> of \<open>server/sync.go\<close>).
\<close>

section \<open>Reading \<open>/proc/net/dev\<close>\<close>

record TxRx =
  tr_InterfaceName :: string
  tr_RxBytes :: int
  tr_RxPackets :: int
  tr_RxErrs :: int
  tr_RxDropMiss :: int
  tr_RxFifoErrs :: int
  tr_RxFrameErrs :: int
  tr_RxCompressed :: int
  tr_TxBytes :: int
  tr_TxPackets :: int
  tr_TxErrs :: int
  tr_TxDropMiss :: int
  tr_TxFifoErrs :: int
  tr_TxCarrierErrs :: int
  tr_TxCompressed :: int
  tr_Collisions :: int
  tr_Multicast :: int

definition parse_fields :: "string list \<Rightarrow> TxRx" where
  "parse_fields f =
     \<lparr>tr_InterfaceName = strings_TrimSuffix (f ! 0) '':'',
      tr_RxBytes = ShouldParseInt64 (f ! 1), tr_RxPackets = ShouldParseInt64 (f ! 2),
      tr_RxErrs = ShouldParseInt64 (f ! 3), tr_RxDropMiss = ShouldParseInt64 (f ! 4),
      tr_RxFifoErrs = ShouldParseInt64 (f ! 5), tr_RxFrameErrs = ShouldParseInt64 (f ! 6),
      tr_RxCompressed = ShouldParseInt64 (f ! 7),
      tr_TxBytes = ShouldParseInt64 (f ! 9), tr_TxPackets = ShouldParseInt64 (f ! 10),
      tr_TxErrs = ShouldParseInt64 (f ! 11), tr_TxDropMiss = ShouldParseInt64 (f ! 12),
      tr_TxFifoErrs = ShouldParseInt64 (f ! 13), tr_TxCarrierErrs = ShouldParseInt64 (f ! 15),
      tr_TxCompressed = ShouldParseInt64 (f ! 16), tr_Collisions = ShouldParseInt64 (f ! 14),
      tr_Multicast = ShouldParseInt64 (f ! 8)\<rparr>"

definition parse_failed :: string where
  "parse_failed = ''failed to parse /proc/net/dev''"

fun parse_lines :: "string list \<Rightarrow> TxRx list \<Rightarrow> go_err + TxRx list" where
  "parse_lines [] txRxes = Inr txRxes"
| "parse_lines (line # ls) txRxes =
     (if length line = 0 then parse_lines ls txRxes
      else let f = strings_Fields (strings_TrimSpace line)
           in if length f \<noteq> 17 then Inl (Errorf parse_failed)
              else parse_lines ls (txRxes @ [parse_fields f]))"

text \<open>\<open>contents\<close> is what \<open>os.ReadFile\<close> returns; \<open>[2:]\<close> of fewer than two lines is a
  panic, the result \<open>None\<close>.\<close>

definition InterfacesTxRx :: "go_err + string \<Rightarrow> (go_err + TxRx list) option" where
  "InterfacesTxRx contents =
     (case contents of
        Inl e \<Rightarrow> Some (Inl e)
      | Inr b \<Rightarrow>
          (let ls = strings_Split CHR ''\<newline>'' b
           in if length ls < 2 then None else Some (parse_lines (drop 2 ls) [])))"

section \<open>The reported limit\<close>

text \<open>\<open>model.BandwidthLimit\<close> as the server fills it. \<open>ResetDay\<close> is the day number of the
  date, the rest of which is fixed (July 2000); the zero value stands for the zero time.\<close>

record reported_limit =
  rl_ResetDay :: "nat option"
  rl_UplinkLimitGiB :: int
  rl_DownlinkLimitGiB :: int
  rl_TotalLimitGiB :: int
  rl_UplinkKiB :: int
  rl_DownlinkKiB :: int

definition zero_limit :: reported_limit where
  "zero_limit = \<lparr>rl_ResetDay = None, rl_UplinkLimitGiB = 0, rl_DownlinkLimitGiB = 0,
     rl_TotalLimitGiB = 0, rl_UplinkKiB = 0, rl_DownlinkKiB = 0\<rparr>"

text \<open>Go's division truncates.\<close>

definition goQuot :: "int \<Rightarrow> int \<Rightarrow> int" where
  "goQuot a b = sgn a * sgn b * (\<bar>a\<bar> div \<bar>b\<bar>)"

fun max_usage :: "TxRx list \<Rightarrow> int \<Rightarrow> int \<Rightarrow> int \<times> int" where
  "max_usage [] maxRxKiB maxTxKib = (maxRxKiB, maxTxKib)"
| "max_usage (t # ts) maxRxKiB maxTxKib =
     max_usage ts
       (if maxRxKiB < goQuot (tr_RxBytes t) 1024 then goQuot (tr_RxBytes t) 1024 else maxRxKiB)
       (if maxTxKib < goQuot (tr_TxBytes t) 1024 then goQuot (tr_TxBytes t) 1024 else maxTxKib)"

definition GenerateBandwidthLimit :: "BandwidthLimit \<Rightarrow> go_err + string \<Rightarrow> (go_err + reported_limit) option" where
  "GenerateBandwidthLimit limit contents =
     (if \<not> bl_Enable limit then Some (Inr zero_limit)
      else case InterfacesTxRx contents of
             None \<Rightarrow> None
           | Some (Inl e) \<Rightarrow> Some (Inl e)
           | Some (Inr txRxes) \<Rightarrow>
               (let (maxRxKiB, maxTxKib) = max_usage txRxes 0 0
                in Some (Inr \<lparr>rl_ResetDay = Some (unat (bl_ResetDay limit)),
                     rl_UplinkLimitGiB = bl_UplinkLimitGiB limit,
                     rl_DownlinkLimitGiB = bl_DownlinkLimitGiB limit,
                     rl_TotalLimitGiB = bl_TotalLimitGiB limit,
                     rl_UplinkKiB = maxTxKib, rl_DownlinkKiB = maxRxKiB\<rparr>)))"

section \<open>What is reported\<close>

lemma max_usage_Max:
  "max_usage ts r t = (linorder_class.Max (insert r ((\<lambda>x. goQuot (tr_RxBytes x) 1024) ` set ts)),
                       linorder_class.Max (insert t ((\<lambda>x. goQuot (tr_TxBytes x) 1024) ` set ts)))"
proof (induction ts arbitrary: r t)
  case (Cons x ts)
  have m: "linorder_class.Max (insert (if a < b then b else a) S) = linorder_class.Max (insert a (insert b S))"
    if "finite S" for a b :: int and S
    using that by (cases "S = {}") (auto simp: max_def)
  show ?case by (simp add: Cons.IH m insert_commute)
qed simp

text \<open>A line of the table as the kernel prints it: words, each after some blanks.\<close>

definition word_ok :: "string \<Rightarrow> bool" where
  "word_ok w \<longleftrightarrow> w \<noteq> [] \<and> list_all (\<lambda>c. \<not> is_space c) w"

definition blank :: "string \<Rightarrow> bool" where
  "blank b \<longleftrightarrow> list_all (\<lambda>c. c = CHR '' '') b"

fun spaced :: "(string \<times> string) list \<Rightarrow> string" where
  "spaced [] = []"
| "spaced ((b, w) # ws) = b @ w @ spaced ws"

definition line_ok :: "(string \<times> string) list \<Rightarrow> bool" where
  "line_ok ws \<longleftrightarrow> list_all (\<lambda>(b, w). word_ok w \<and> blank b) ws \<and> list_all (\<lambda>(b, w). b \<noteq> []) (tl ws)"

lemma blank_space: "blank b \<Longrightarrow> list_all is_space b"
  by (auto simp: blank_def is_space_def list_all_iff)

lemma dropWhile_blank: "list_all P b \<Longrightarrow> dropWhile P (b @ s) = dropWhile P s"
  by (induction b) simp_all

lemma drop_spaces_word: "word_ok w \<Longrightarrow> dropWhile is_space (w @ s) = w @ s"
  by (cases w) (simp_all add: word_ok_def)

lemma Fields_word:
  assumes "word_ok w" and "s = [] \<or> is_space (hd s)" and "list_all is_space b"
  shows "strings_Fields (b @ w @ s) = w # strings_Fields s"
proof -
  have t: "takeWhile (\<lambda>c. \<not> is_space c) (w @ s) = w \<and> dropWhile (\<lambda>c. \<not> is_space c) (w @ s) = s"
    using assms(1,2) by (cases s) (auto simp: word_ok_def list_all_iff takeWhile_append2 dropWhile_append2)
  have "w \<noteq> []" using assms(1) by (simp add: word_ok_def)
  with t show ?thesis
    using dropWhile_blank [OF assms(3), of "w @ s"] drop_spaces_word [OF assms(1), of s]
    by (subst strings_Fields.simps) simp
qed

lemma line_ok_Cons:
  "line_ok ((b, w) # ws) \<Longrightarrow>
     word_ok w \<and> list_all is_space b \<and> line_ok ws \<and> (spaced ws = [] \<or> is_space (hd (spaced ws)))"
proof -
  assume l: "line_ok ((b, w) # ws)"
  then have "line_ok ws" by (cases ws) (auto simp: line_ok_def)
  moreover have "spaced ws = [] \<or> is_space (hd (spaced ws))"
  proof (cases ws)
    case (Cons x xs)
    obtain b' w' where x: "x = (b', w')" by (cases x)
    with l Cons have "b' \<noteq> []" "blank b'" by (auto simp: line_ok_def)
    with x Cons show ?thesis by (cases b') (auto simp: blank_def is_space_def)
  qed simp
  ultimately show ?thesis using l blank_space [of b] by (auto simp: line_ok_def)
qed

lemma Fields_spaced: "line_ok ws \<Longrightarrow> strings_Fields (spaced ws) = map snd ws"
proof (induction ws rule: spaced.induct)
  case 1
  then show ?case by (subst strings_Fields.simps) simp
next
  case (2 b w ws)
  from line_ok_Cons [OF "2.prems"] "2.IH" show ?case by (simp add: Fields_word)
qed

lemma spaced_last: "line_ok ws \<Longrightarrow> ws \<noteq> [] \<Longrightarrow> spaced ws \<noteq> [] \<and> \<not> is_space (last (spaced ws))"
proof (induction ws rule: spaced.induct)
  case (2 b w ws)
  from line_ok_Cons [OF "2.prems"(1)] have w: "word_ok w" "line_ok ws" by auto
  from w(1) have "w \<noteq> [] \<and> \<not> is_space (last w)" by (auto simp: word_ok_def list_all_iff)
  with w(2) "2.IH" show ?case by (cases "ws = []") auto
qed simp

lemma Fields_Trim_spaced:
  assumes "line_ok ws"
  shows "strings_Fields (strings_TrimSpace (spaced ws)) = map snd ws"
proof (cases ws)
  case Nil
  then show ?thesis by (simp add: strings_TrimSpace_def) (subst strings_Fields.simps, simp)
next
  case (Cons x xs)
  obtain b w where x: "x = (b, w)" by (cases x)
  note c = line_ok_Cons [OF assms [unfolded Cons x]]
  let ?t = "w @ spaced xs"
  have "dropWhile is_space (spaced ws) = ?t"
    using c dropWhile_blank [of is_space b ?t] drop_spaces_word [of w "spaced xs"] by (simp add: Cons x)
  moreover have "dropWhile is_space (rev ?t) = rev ?t"
  proof -
    have t: "?t \<noteq> [] \<and> \<not> is_space (last ?t)"
      using c spaced_last [of xs] by (cases "xs = []") (auto simp: word_ok_def list_all_iff)
    then obtain ys y where "?t = ys @ [y]" "\<not> is_space y" by (metis append_butlast_last_id)
    then show ?thesis by (simp only: rev_append rev.simps append.simps) simp
  qed
  ultimately have "strings_TrimSpace (spaced ws) = [] @ w @ spaced xs"
    by (simp add: strings_TrimSpace_def)
  moreover have "strings_Fields ([] @ w @ spaced xs) = w # map snd xs"
    using c Fields_spaced [of xs] by (subst Fields_word) auto
  ultimately show ?thesis by (simp add: Cons x)
qed

text \<open>The table: two header lines, then a line for each interface, every line ended by a newline.\<close>

definition table :: "string \<Rightarrow> string \<Rightarrow> (string \<times> string) list list \<Rightarrow> string" where
  "table h1 h2 rows =
     h1 @ CHR ''\<newline>'' # h2 @ CHR ''\<newline>'' # concat (map (\<lambda>r. spaced r @ ''\<newline>'') rows)"

lemma spaced_no_newline: "line_ok r \<Longrightarrow> CHR ''\<newline>'' \<notin> set (spaced r)"
proof (induction r rule: spaced.induct)
  case (2 b w r)
  from "2.prems" have "word_ok w" "blank b" by (simp_all add: line_ok_def)
  then have "\<forall>c \<in> set w. \<not> is_space c" "\<forall>c \<in> set b. c = CHR '' ''"
    by (simp_all add: word_ok_def blank_def list_all_iff)
  moreover have "is_space CHR ''\<newline>''" "CHR ''\<newline>'' \<noteq> CHR '' ''" by (simp_all add: is_space_def)
  ultimately have "CHR ''\<newline>'' \<notin> set w" "CHR ''\<newline>'' \<notin> set b" by metis+
  with line_ok_Cons [OF "2.prems"] "2.IH" show ?case by simp
qed simp

lemma table_lines:
  assumes "list_all line_ok rows"
  shows "strings_Split CHR ''\<newline>'' (concat (map (\<lambda>r. spaced r @ ''\<newline>'') rows)) = map spaced rows @ [[]]"
  using assms
proof (induction rows)
  case (Cons r rows)
  let ?rest = "concat (map (\<lambda>r. spaced r @ ''\<newline>'') rows)"
  have "CHR ''\<newline>'' \<notin> set (spaced r)" using Cons.prems spaced_no_newline [of r] by simp
  from strings_Split_Cons_sep [OF this, of ?rest] Cons show ?case by simp
qed simp

lemma parse_lines_rows:
  "list_all (\<lambda>r. line_ok r \<and> length r = 17) rows \<Longrightarrow>
     parse_lines (map spaced rows @ [[]]) acc = Inr (acc @ map (\<lambda>r. parse_fields (map snd r)) rows)"
proof (induction rows arbitrary: acc)
  case (Cons r rows)
  then have "r \<noteq> []" by auto
  with Cons.prems have "spaced r \<noteq> []" using spaced_last [of r] by simp
  with Cons show ?case by (simp add: Fields_Trim_spaced Let_def)
qed simp

lemma InterfacesTxRx_table:
  assumes "CHR ''\<newline>'' \<notin> set h1" and "CHR ''\<newline>'' \<notin> set h2"
    and "list_all (\<lambda>r. line_ok r \<and> length r = 17) rows"
  shows "InterfacesTxRx (Inr (table h1 h2 rows)) = Some (Inr (map (\<lambda>r. parse_fields (map snd r)) rows))"
proof -
  have "list_all line_ok rows" using assms(3) by (simp add: list_all_iff)
  from table_lines [OF this] have
    "strings_Split CHR ''\<newline>'' (table h1 h2 rows) = h1 # h2 # map spaced rows @ [[]]"
    using assms(1,2) by (simp add: table_def strings_Split_Cons_sep)
  with parse_lines_rows [OF assms(3), of "[]"] show ?thesis by (simp add: InterfacesTxRx_def)
qed

section \<open>Properties\<close>

text \<open>From a well-formed \<open>/proc/net/dev\<close> (two header lines, seventeen blank-separated
  columns in every other line) the server reports as its traffic the largest received and the largest
  transmitted byte count of an interface, columns 1 and 9, in KiB, beside the configured limits.\<close>

theorem bandwidth_report:
  assumes "bl_Enable limit" and "CHR ''\<newline>'' \<notin> set h1" and "CHR ''\<newline>'' \<notin> set h2"
    and "list_all (\<lambda>r. line_ok r \<and> length r = 17) rows"
  shows "GenerateBandwidthLimit limit (Inr (table h1 h2 rows)) =
    Some (Inr \<lparr>rl_ResetDay = Some (unat (bl_ResetDay limit)), rl_UplinkLimitGiB = bl_UplinkLimitGiB limit,
      rl_DownlinkLimitGiB = bl_DownlinkLimitGiB limit, rl_TotalLimitGiB = bl_TotalLimitGiB limit,
      rl_UplinkKiB = linorder_class.Max (insert 0 ((\<lambda>r. goQuot (ShouldParseInt64 (snd (r ! 9))) 1024) ` set rows)),
      rl_DownlinkKiB = linorder_class.Max (insert 0 ((\<lambda>r. goQuot (ShouldParseInt64 (snd (r ! 1))) 1024) ` set rows))\<rparr>)"
proof -
  let ?ts = "map (\<lambda>r. parse_fields (map snd r)) rows"
  have l: "length r = 17" if "r \<in> set rows" for r using assms(4) that by (simp add: list_all_iff)
  have "(\<lambda>x. goQuot (tr_RxBytes x) 1024) ` set ?ts = (\<lambda>r. goQuot (ShouldParseInt64 (snd (r ! 1))) 1024) ` set rows"
    "(\<lambda>x. goQuot (tr_TxBytes x) 1024) ` set ?ts = (\<lambda>r. goQuot (ShouldParseInt64 (snd (r ! 9))) 1024) ` set rows"
    unfolding set_map image_image by (rule image_cong [OF refl], simp add: parse_fields_def l)+
  then show ?thesis
    using InterfacesTxRx_table [OF assms(2-4)] assms(1)
    by (simp only: GenerateBandwidthLimit_def max_usage_Max) simp
qed

definition demo_row :: "(string \<times> string) list" where
  "demo_row = ('' '', ''eth0:'') # map (\<lambda>n. ('' '', n)) ([''4096'', ''7''] @ replicate 6 ''0'' @ [''10240''] @ replicate 7 ''0'')"

definition demo_limit :: BandwidthLimit where
  "demo_limit = \<lparr>bl_Enable = True, bl_ResetDay = 3, bl_UplinkLimitGiB = 1, bl_DownlinkLimitGiB = 2,
     bl_TotalLimitGiB = 3\<rparr>"

theorem bandwidth_report_witness:
  "GenerateBandwidthLimit demo_limit (Inr (table ''Inter'' ''face'' [demo_row])) =
     Some (Inr \<lparr>rl_ResetDay = Some 3, rl_UplinkLimitGiB = 1, rl_DownlinkLimitGiB = 2, rl_TotalLimitGiB = 3,
       rl_UplinkKiB = 10, rl_DownlinkKiB = 4\<rparr>)"
proof -
  have row: "list_all (\<lambda>r. line_ok r \<and> length r = 17) [demo_row]"
    by (simp add: demo_row_def line_ok_def word_ok_def blank_def is_space_def numeral_eq_Suc)
  have at: "snd (demo_row ! 9) = ''10240''" "snd (demo_row ! 1) = ''4096''" by code_simp+
  have "ShouldParseInt64 ''10240'' = 10240" "ShouldParseInt64 ''4096'' = 4096"
    by (simp_all add: ShouldParseInt64_def parseInt64_def parseUint_def is_digit_def digit_val_def)
  then have val: "goQuot (ShouldParseInt64 (snd (demo_row ! 9))) 1024 = 10"
    "goQuot (ShouldParseInt64 (snd (demo_row ! 1))) 1024 = 4" by (simp_all only: at goQuot_def) simp_all
  have lim: "bl_Enable demo_limit" "unat (bl_ResetDay demo_limit) = 3" "bl_UplinkLimitGiB demo_limit = 1"
    "bl_DownlinkLimitGiB demo_limit = 2" "bl_TotalLimitGiB demo_limit = 3" by (simp_all add: demo_limit_def)
  have "CHR ''\<newline>'' \<notin> set ''Inter''" "CHR ''\<newline>'' \<notin> set ''face''" by simp_all
  from bandwidth_report [OF lim(1) this row]
  have "GenerateBandwidthLimit demo_limit (Inr (table ''Inter'' ''face'' [demo_row])) =
     Some (Inr \<lparr>rl_ResetDay = Some 3, rl_UplinkLimitGiB = 1, rl_DownlinkLimitGiB = 2, rl_TotalLimitGiB = 3,
       rl_UplinkKiB = linorder_class.Max (insert 0 {10}), rl_DownlinkKiB = linorder_class.Max (insert 0 {4})\<rparr>)"
    by (simp only: lim list.set image_insert image_empty val)
  moreover have "linorder_class.Max (insert (0::int) {10}) = 10" "linorder_class.Max (insert (0::int) {4}) = 4"
    by simp_all
  ultimately show ?thesis by (simp only:)
qed

end
