(* ===== verification/Trie.thy ===== *)
theory Trie
  imports Prelude "HOL-Library.AList"
begin

text \<open>
  The static trie with jump strings (\<open>infra/trie/trie.go\<close>) over texts of one-byte runes. A
  child is its rune, the jump string (\<open>str\<close>, nil in a plain trie) and its node. The order of
  Go's map iteration does not matter: where there are several children each is handled alone.
\<close>

datatype node = Node (node_end: bool) (node_c: "(char \<times> string option \<times> node) list")

section \<open>Building\<close>

fun set_end :: "node \<Rightarrow> node" where
  "set_end (Node e cs) = Node True cs"

text \<open>The loop over the runes of one word.\<close>

fun insert_word :: "string \<Rightarrow> node \<Rightarrow> node" where
  "insert_word [] p = p"
| "insert_word (r # rs) (Node e cs) =
     (let (s, n) = (case map_of cs r of None \<Rightarrow> (None, Node False []) | Some x \<Rightarrow> x);
          n' = (if rs = [] then set_end n else n)
      in Node e (AList.update r (s, insert_word rs n') cs))"

lemma size_child [termination_simp]:
  "(k, s, n) \<in> set cs \<Longrightarrow> size n < Suc (size_list (size_prod (\<lambda>_. 0) (size_prod (\<lambda>_. 0) size)) cs)"
  by (induction cs) auto

text \<open>\<open>_makeJump(cur, from, builder)\<close>: what becomes of \<open>from\<close>. A node that ends a word or
  branches takes the jump, and each of its children starts a jump of its own; otherwise the only
  child is passed through.\<close>

function makeJump_at :: "string option \<times> node \<Rightarrow> node \<Rightarrow> string \<Rightarrow> string option \<times> node" where
  "makeJump_at frm (Node e cs) builder =
     (if e \<or> 1 < length cs
      then (if 1 < length builder then Some builder else fst frm,
            Node e (map (\<lambda>(k, x). (k, makeJump_at x (snd x) [k])) cs))
      else (case cs of
              [] \<Rightarrow> frm
            | (k, x) # _ \<Rightarrow> makeJump_at frm (snd x) (builder @ [k])))"
  by pat_completeness auto
termination
  by (relation "measure (\<lambda>(frm, cur, b). size cur)") (auto dest: size_child)

declare makeJump_at.simps [simp del]

fun makeJump :: "node \<Rightarrow> node" where
  "makeJump (Node e cs) = Node e (map (\<lambda>(k, x). (k, makeJump_at x (snd x) [k])) cs)"

definition New :: "string list \<Rightarrow> node" where
  "New dict = makeJump (foldl (\<lambda>root d. insert_word d root) (Node False []) dict)"

section \<open>Matching\<close>

text \<open>The loop of \<open>Match\<close>: \<open>rest\<close> is \<open>runes[i:]\<close>. A jump string that does not fit
  behind the builder is skipped without being compared. A slice that would reach beyond the text
  counts as different (Go panics when it reaches beyond the capacity).\<close>

definition match_step :: "nat \<Rightarrow> string \<Rightarrow> char \<Rightarrow> string \<Rightarrow> string option \<Rightarrow> (string \<times> string) option" where
  "match_step len builder r rs str =
     (case str of
        None \<Rightarrow> Some (builder @ [r], rs)
      | Some s \<Rightarrow>
          if length builder + length s \<le> len
          then (if take (length s) (r # rs) = s
                then Some (builder @ s, drop (length s - 1) rs) else None)
          else Some (builder, rs))"

lemma match_step_shorter:
  "match_step len b r rs str = Some (b', rest') \<Longrightarrow> length rest' < Suc (length rs)"
  by (auto simp: match_step_def split: option.splits if_splits)

function match_loop :: "nat \<Rightarrow> node \<Rightarrow> string \<Rightarrow> string \<Rightarrow> string \<Rightarrow> string" where
  "match_loop len p [] builder pre = pre"
| "match_loop len p (r # rs) builder pre =
     (case map_of (node_c p) r of
        None \<Rightarrow> pre
      | Some (str, n) \<Rightarrow>
          (case match_step len builder r rs str of
             None \<Rightarrow> pre
           | Some (b', rest') \<Rightarrow>
               if node_end n
               then (if length b' \<le> len
                     then (if length b' = len then b' else match_loop len n rest' b' b')
                     else pre)
               else match_loop len n rest' b' pre))"
  by pat_completeness auto
termination
  by (relation "measure (\<lambda>(len, p, rest, b, pre). length rest)") (auto dest: match_step_shorter)

definition Match :: "node \<Rightarrow> string \<Rightarrow> string" where
  "Match t str = match_loop (length str) t str [] []"

section \<open>The words of a trie\<close>

definition label :: "char \<Rightarrow> string option \<Rightarrow> string" where
  "label k s = (case s of None \<Rightarrow> [k] | Some s \<Rightarrow> s)"

fun words :: "node \<Rightarrow> string set" where
  "words (Node e cs) =
     (if e then {[]} else {}) \<union> (\<Union>(k, s, n) \<in> set cs. (\<lambda>w. label k s @ w) ` words n)"

declare words.simps [simp del]

text \<open>Every child's label starts with its rune, the runes are distinct, and every child leads to
  a word.\<close>

fun wf_node :: "node \<Rightarrow> bool" where
  "wf_node (Node e cs) \<longleftrightarrow> distinct (map fst cs) \<and>
     (\<forall>(k, s, n) \<in> set cs. hd (label k s) = k \<and> label k s \<noteq> [] \<and> words n \<noteq> {} \<and> wf_node n)"

declare wf_node.simps [simp del]

text \<open>A plain trie has no jump strings.\<close>

fun plain :: "node \<Rightarrow> bool" where
  "plain (Node e cs) \<longleftrightarrow> (\<forall>(k, s, n) \<in> set cs. s = None \<and> plain n)"

declare plain.simps [simp del]

section \<open>Inserting a word\<close>

lemma set_update_distinct:
  "distinct (map fst al) \<Longrightarrow> set (AList.update k v al) = insert (k, v) {p \<in> set al. fst p \<noteq> k}"
  by (induction al) (auto, metis fst_conv image_eqI)

lemma words_set_end [simp]: "words (set_end n) = insert [] (words n)"
  by (cases n) (auto simp: words.simps)

lemma wf_set_end [simp]: "wf_node (set_end n) = wf_node n"
  by (cases n) (simp add: wf_node.simps)

lemma plain_set_end [simp]: "plain (set_end n) = plain n"
  by (cases n) (simp add: plain.simps)

lemma words_empty [simp]: "words (Node False []) = {}"
  by (simp add: words.simps)

lemma plain_wf_empty [simp]: "plain (Node e [])" "wf_node (Node e [])"
  by (simp_all add: plain.simps wf_node.simps)

lemma insert_word_spec:
  "plain p \<Longrightarrow> wf_node p \<Longrightarrow>
     plain (insert_word w p) \<and> wf_node (insert_word w p) \<and>
     words (insert_word w p) = words p \<union> (if w = [] then {} else {w})"
proof (induction w p rule: insert_word.induct)
  case (2 r rs e cs)
  obtain s n where sn: "(case map_of cs r of None \<Rightarrow> (None, Node False []) | Some x \<Rightarrow> x) = (s, n)"
    by fastforce
  define n' where "n' = (if rs = [] then set_end n else n)"
  let ?others = "{p \<in> set cs. fst p \<noteq> r}"
  have dist: "distinct (map fst cs)" using 2(3) by (simp add: wf_node.simps)
  have lookup: "s = None \<and> plain n \<and> wf_node n \<and>
    words (Node e cs) = (if e then {[]} else {}) \<union> (\<lambda>w. r # w) ` words n \<union>
      (\<Union>(k, s, n) \<in> ?others. (\<lambda>w. label k s @ w) ` words n)"
  proof (cases "map_of cs r")
    case None
    then have "?others = set cs" by (auto simp: map_of_eq_None_iff)
    moreover from None sn have "s = None" "n = Node False []" by auto
    ultimately show ?thesis by (simp add: words.simps)
  next
    case (Some x)
    with sn have m: "(r, s, n) \<in> set cs" by (auto dest: map_of_SomeD)
    have same: "x = (s, n)" if "(r, x) \<in> set cs" for x
      using eq_key_imp_eq_value [OF dist that m] .
    have "set cs = insert (r, s, n) ?others"
      using m by (auto dest: same)
    moreover have "s = None" "plain n" "wf_node n"
      using m 2(2,3) by (auto simp: plain.simps wf_node.simps)
    ultimately show ?thesis
      unfolding words.simps [of e cs] by (metis (no_types, lifting) UN_insert Un_assoc append_Cons append_Nil
          case_prod_conv image_cong label_def option.simps(4))
  qed
  have ih: "plain (insert_word rs n') \<and> wf_node (insert_word rs n') \<and>
    words (insert_word rs n') = insert rs (words n)"
  proof (cases "rs = []")
    case False
    with 2(1) [OF sn [symmetric] refl n'_def] lookup show ?thesis
      by (simp add: n'_def)
  qed (use lookup in \<open>simp add: n'_def\<close>)
  have ins: "insert_word (r # rs) (Node e cs) = Node e (AList.update r (s, insert_word rs n') cs)"
    by (simp add: sn n'_def)
  note up = set_update_distinct [OF dist, of r "(s, insert_word rs n')"]
  have "words (insert_word (r # rs) (Node e cs)) = words (Node e cs) \<union> {r # rs}"
    unfolding ins words.simps [of e "AList.update r (s, insert_word rs n') cs"] up
    using lookup ih by (auto simp: label_def)
  moreover have "plain (insert_word (r # rs) (Node e cs))"
    unfolding ins plain.simps up using 2(2) lookup ih by (auto simp: plain.simps)
  moreover have "wf_node (insert_word (r # rs) (Node e cs))"
    unfolding ins wf_node.simps up using 2(3) lookup ih AList.distinct_update [OF dist]
    by (auto simp: wf_node.simps label_def)
  ultimately show ?case by simp
qed simp

lemma build_plain:
  "plain p \<Longrightarrow> wf_node p \<Longrightarrow> (let t = foldl (\<lambda>root d. insert_word d root) p dict
     in plain t \<and> wf_node t \<and> words t = words p \<union> (set dict - {[]}))"
proof (induction dict arbitrary: p)
  case (Cons d dict)
  with insert_word_spec [OF Cons.prems, of d] show ?case by (auto simp: Let_def)
qed simp

section \<open>Jumps keep the words\<close>

text \<open>The children of a node, each given a jump.\<close>

abbreviation jump_children :: "(char \<times> string option \<times> node) list \<Rightarrow> (char \<times> string option \<times> node) list" where
  "jump_children cs \<equiv> map (\<lambda>(k, x). (k, makeJump_at x (snd x) [k])) cs"

definition jumped :: "char \<Rightarrow> string \<Rightarrow> node \<Rightarrow> string option \<times> node \<Rightarrow> bool" where
  "jumped k b cur x \<longleftrightarrow> hd (label k (fst x)) = k \<and> label k (fst x) \<noteq> [] \<and> words (snd x) \<noteq> {} \<and>
     wf_node (snd x) \<and> (\<lambda>w. label k (fst x) @ w) ` words (snd x) = (\<lambda>w. b @ w) ` words cur"

lemma jump_children_words:
  assumes "plain (Node e cs)" and "wf_node (Node e cs)"
    and ih: "\<And>k x. (k, x) \<in> set cs \<Longrightarrow> jumped k [k] (snd x) (makeJump_at x (snd x) [k])"
  shows "words (Node e (jump_children cs)) = words (Node e cs)" and "wf_node (Node e (jump_children cs))"
proof -
  have none: "s = None" if "(k, s, n) \<in> set cs" for k s n
    using assms(1) that by (auto simp: plain.simps)
  have child: "(\<Union>(k, s, n) \<in> set (jump_children cs). (\<lambda>w. label k s @ w) ` words n) =
    (\<Union>(k, s, n) \<in> set cs. (\<lambda>w. label k s @ w) ` words n)"
  proof -
    have "(\<Union>(k, s, n) \<in> set (jump_children cs). (\<lambda>w. label k s @ w) ` words n) =
      (\<Union>(k, x) \<in> set cs. (\<lambda>w. label k (fst (makeJump_at x (snd x) [k])) @ w) `
        words (snd (makeJump_at x (snd x) [k])))"
      by (auto simp: split_beta)
    also have "\<dots> = (\<Union>(k, s, n) \<in> set cs. (\<lambda>w. label k s @ w) ` words n)"
    proof (rule SUP_cong [OF refl])
      fix y
      assume y: "y \<in> set cs"
      obtain k s n where k: "y = (k, s, n)" by (cases y)
      with y none have "s = None" by blast
      with ih [of k "(s, n)"] y k
      show "(case y of (k, x) \<Rightarrow> (\<lambda>w. label k (fst (makeJump_at x (snd x) [k])) @ w) `
          words (snd (makeJump_at x (snd x) [k]))) = (case y of (k, s, n) \<Rightarrow> (\<lambda>w. label k s @ w) ` words n)"
        by (simp add: jumped_def label_def)
    qed
    finally show ?thesis .
  qed
  then show "words (Node e (jump_children cs)) = words (Node e cs)"
    unfolding words.simps by simp
  have "map fst (jump_children cs) = map fst cs" by (auto simp: split_beta)
  then show "wf_node (Node e (jump_children cs))"
    unfolding wf_node.simps
  proof (intro conjI ballI)
    show "distinct (map fst (jump_children cs))"
      using assms(2) \<open>map fst (jump_children cs) = map fst cs\<close> by (simp only: wf_node.simps)
    fix y
    assume "y \<in> set (jump_children cs)"
    then obtain k x where y: "(k, x) \<in> set cs" "y = (k, makeJump_at x (snd x) [k])" by auto
    with ih [OF y(1)] show "case y of (k, s, n) \<Rightarrow>
        hd (label k s) = k \<and> label k s \<noteq> [] \<and> words n \<noteq> {} \<and> wf_node n"
      by (cases "makeJump_at x (snd x) [k]") (simp add: jumped_def)
  qed
qed

lemma makeJump_at_spec:
  "plain cur \<Longrightarrow> wf_node cur \<Longrightarrow> words cur \<noteq> {} \<Longrightarrow> fst frm = None \<Longrightarrow> b \<noteq> [] \<Longrightarrow> hd b = k \<Longrightarrow>
     jumped k b cur (makeJump_at frm cur b)"
proof (induction frm cur b arbitrary: k rule: makeJump_at.induct)
  case (1 frm e cs b)
  have child: "plain (snd x)" "wf_node (snd x)" "words (snd x) \<noteq> {}" "fst x = None"
    if "(k', x) \<in> set cs" for k' x
    using that 1(3,4) by (auto simp: plain.simps wf_node.simps)
  show ?case
  proof (cases "e \<or> 1 < length cs")
    case True
    have ih: "jumped k' [k'] (snd x) (makeJump_at x (snd x) [k'])" if "(k', x) \<in> set cs" for k' x
      using 1(1) [OF True that refl] child [OF that] by simp
    note w = jump_children_words [OF 1(3,4) ih]
    have "label k (if 1 < length b then Some b else fst frm) = b"
      using 1(6,7,8) by (cases b) (auto simp: label_def)
    then show ?thesis
      using True w 1(5,7,8) unfolding makeJump_at.simps [of frm e cs b] by (simp add: jumped_def)
  next
    case False
    then have e: "\<not> e" and l: "length cs \<le> 1" by auto
    have "cs \<noteq> []" using 1(5) e by (auto simp: words.simps)
    with l obtain k2 x where cs: "cs = [(k2, x)]" by (cases cs) auto
    then have x: "(k2, x) \<in> set cs" by simp
    note c = child [OF x]
    have "jumped k (b @ [k2]) (snd x) (makeJump_at frm (snd x) (b @ [k2]))"
      using 1(2) [OF False cs] c 1(6,7,8) by simp
    moreover have "(\<lambda>w. (b @ [k2]) @ w) ` words (snd x) = (\<lambda>w. b @ w) ` words (Node e cs)"
      using c e by (cases x) (auto simp: cs words.simps label_def image_image)
    moreover have "makeJump_at frm (Node e cs) b = makeJump_at frm (snd x) (b @ [k2])"
      using False by (subst makeJump_at.simps) (simp add: cs)
    ultimately show ?thesis by (simp add: jumped_def)
  qed
qed

lemma makeJump_spec:
  assumes "plain p" and "wf_node p"
  shows "words (makeJump p) = words p \<and> wf_node (makeJump p)"
proof (cases p)
  case (Node e cs)
  have "jumped k [k] (snd x) (makeJump_at x (snd x) [k])" if "(k, x) \<in> set cs" for k x
    using that assms Node by (intro makeJump_at_spec) (auto simp: plain.simps wf_node.simps)
  with jump_children_words [of e cs] assms Node show ?thesis by simp
qed

lemma New_words: "words (New dict) = set dict - {[]} \<and> wf_node (New dict)"
  using build_plain [of "Node False []" dict] makeJump_spec by (simp add: New_def Let_def)

section \<open>Matching finds the longest word\<close>

definition longest_in :: "string set \<Rightarrow> string \<Rightarrow> string \<Rightarrow> bool" where
  "longest_in S rest w \<longleftrightarrow> w \<in> S \<and> prefix w rest \<and> (\<forall>v \<in> S. prefix v rest \<longrightarrow> length v \<le> length w)"

lemma match_loop_spec:
  assumes "wf_node p" and "\<And>w. w \<in> words p \<Longrightarrow> length builder + length w \<le> len"
    and "length builder + length rest = len"
  shows "(match_loop len p rest builder pre = pre \<and> (\<forall>w \<in> words p - {[]}. \<not> prefix w rest)) \<or>
    (\<exists>w. match_loop len p rest builder pre = builder @ w \<and> longest_in (words p - {[]}) rest w)"
  using assms
proof (induction len p rest builder pre rule: match_loop.induct)
  case (2 len p r rs builder pre)
  obtain e cs where p: "p = Node e cs" by (cases p)
  have first: "\<exists>s n v. (r, s, n) \<in> set cs \<and> w = label r s @ v \<and> v \<in> words n"
    if w: "w \<in> words p" "w \<noteq> []" "prefix w (r # rs)" for w
  proof -
    from w(1,2) obtain k s n v where c: "(k, s, n) \<in> set cs" "w = label k s @ v" "v \<in> words n"
      by (auto simp: p words.simps split: if_splits)
    moreover have "label k s \<noteq> []" "hd (label k s) = k" using c(1) "2.prems"(1) by (auto simp: p wf_node.simps)
    moreover have "hd w = r" using w(2,3) by (cases w) auto
    ultimately show ?thesis by (metis hd_append2)
  qed
  show ?case
  proof (cases "map_of cs r")
    case None
    have "\<not> prefix w (r # rs)" if w: "w \<in> words p - {[]}" for w
    proof
      assume "prefix w (r # rs)"
      with w first [of w] obtain s n where "(r, s, n) \<in> set cs" by blast
      with None show False by (force simp: map_of_eq_None_iff)
    qed
    with None show ?thesis by (simp add: p)
  next
    case (Some x)
    obtain s n where x: "x = (s, n)" by (cases x)
    with Some have m: "(r, s, n) \<in> set cs" by (auto dest: map_of_SomeD)
    have uniq: "x' = (s, n)" if "(r, x') \<in> set cs" for x'
      using eq_key_imp_eq_value [OF _ that m] "2.prems"(1) by (simp add: p wf_node.simps)
    let ?lab = "label r s"
    have n: "wf_node n" "words n \<noteq> {}" "?lab \<noteq> []" "hd ?lab = r"
      using m "2.prems"(1) by (auto simp: p wf_node.simps)
    have sub: "?lab @ v \<in> words p" if "v \<in> words n" for v
      using m that by (force simp: p words.simps)
    have all: "\<exists>v \<in> words n. w = ?lab @ v" if "w \<in> words p - {[]}" "prefix w (r # rs)" for w
      using first [of w] that uniq by blast
    have fits: "length builder + length ?lab \<le> len"
      using n(2) sub "2.prems"(2) by fastforce
    show ?thesis
    proof (cases "take (length ?lab) (r # rs) = ?lab")
      case False
      then have "match_step len builder r rs s = None"
        using fits n(4) by (auto simp: match_step_def label_def split: option.splits)
      moreover have "\<not> prefix w (r # rs)" if "w \<in> words p - {[]}" for w
        using all [OF that] False by (auto simp: prefix_def)
      ultimately show ?thesis using Some x by (simp add: p)
    next
      case True
      let ?b = "builder @ ?lab"
      let ?rest = "drop (length ?lab - 1) rs"
      have split: "r # rs = ?lab @ ?rest"
        using True n(3) by (metis append_take_drop_id drop_Cons' length_0_conv)
      have step: "match_step len builder r rs s = Some (?b, ?rest)"
        using True fits by (auto simp: match_step_def label_def split: option.splits)
      have len: "length ?b + length ?rest = len"
      proof -
        have "length (r # rs) = length (?lab @ ?rest)" by (rule arg_cong [OF split])
        with "2.prems"(3) show ?thesis by (simp only: length_append)
      qed
      have inner: "length ?b + length w \<le> len" if "w \<in> words n" for w
        using "2.prems"(2) [OF sub [OF that]] by simp
      have pre: "prefix (?lab @ v) (r # rs) \<longleftrightarrow> prefix v ?rest" for v
        unfolding split by simp
      have longer: "longest_in (words p - {[]}) (r # rs) (?lab @ v)"
        if "longest_in (words n - {[]}) ?rest v \<or>
            (v = [] \<and> [] \<in> words n \<and> (\<forall>w \<in> words n - {[]}. \<not> prefix w ?rest))" for v
        unfolding longest_in_def
      proof (intro conjI ballI impI)
        show "?lab @ v \<in> words p - {[]}"
          using that sub n(3) by (auto simp: longest_in_def)
        show "prefix (?lab @ v) (r # rs)" unfolding pre using that by (auto simp: longest_in_def)
        fix w
        assume w: "w \<in> words p - {[]}" "prefix w (r # rs)"
        from all [OF w] obtain u where u: "u \<in> words n" "w = ?lab @ u" by blast
        then have "prefix u ?rest" using w(2) pre by simp
        with that u show "length w \<le> length (?lab @ v)" by (cases "u = []") (auto simp: longest_in_def)
      qed
      have none: "\<forall>w \<in> words p - {[]}. \<not> prefix w (r # rs)"
        if "[] \<notin> words n" "\<forall>w \<in> words n - {[]}. \<not> prefix w ?rest"
      proof
        fix w
        assume w: "w \<in> words p - {[]}"
        show "\<not> prefix w (r # rs)"
        proof
          assume "prefix w (r # rs)"
          with all [OF w] pre that show False by blast
        qed
      qed
      have ended: "[] \<in> words n \<longleftrightarrow> node_end n"
      proof (cases n)
        case (Node e' cs')
        then show ?thesis using n(1) by (auto simp: words.simps wf_node.simps)
      qed
      have result: "match_loop len p (r # rs) builder pre =
        (if node_end n then (if length ?b = len then ?b else match_loop len n ?rest ?b ?b)
         else match_loop len n ?rest ?b pre)"
        using Some x step len by (simp add: p)
      have goal: ?thesis
        if "match_loop len p (r # rs) builder pre = ?b @ v"
          "longest_in (words n - {[]}) ?rest v \<or>
            (v = [] \<and> [] \<in> words n \<and> (\<forall>w \<in> words n - {[]}. \<not> prefix w ?rest))" for v
        using longer [OF that(2)] that(1) by (intro disjI2 exI [of _ "?lab @ v"]) simp
      have sn: "map_of (node_c p) r = Some (s, n)" using Some x by (simp add: p)
      show ?thesis
      proof (cases "node_end n")
        case True
        show ?thesis
        proof (cases "length ?b = len")
          case full: True
          with len have "?rest = []" by simp
          then have "\<forall>w \<in> words n - {[]}. \<not> prefix w ?rest" by simp
          with goal [of "[]"] result True full ended show ?thesis by simp
        next
          case False
          have "length ?b \<le> len" using len by simp
          with "2.IH"(1) [OF sn refl step refl True _ False n(1) inner len] goal result True False ended
          show ?thesis by fastforce
        qed
      next
        case False
        with "2.IH"(2) [OF sn refl step refl False n(1) inner len] goal result none ended
        show ?thesis by fastforce
      qed
    qed
  qed
qed simp

lemma trie_match_longest:
  assumes "\<And>w. w \<in> set dict \<Longrightarrow> length w \<le> length str"
  shows "longest_match (set dict) str (Match (New dict) str)"
proof -
  have w: "words (New dict) = set dict - {[]}" and wf: "wf_node (New dict)"
    using New_words by simp_all
  have "(Match (New dict) str = [] \<and> (\<forall>w \<in> words (New dict) - {[]}. \<not> prefix w str)) \<or>
    (\<exists>w. Match (New dict) str = [] @ w \<and> longest_in (words (New dict) - {[]}) str w)"
    unfolding Match_def by (rule match_loop_spec [OF wf]) (use assms w in auto)
  then show ?thesis
    unfolding w longest_match_def longest_in_def prefixes_in_def by fastforce
qed



end
