(* ===== verification/Ip_Mtu.thy ===== *)
theory Ip_Mtu
  imports Trie Go_Netip
begin

text \<open>
  The MTU of the interface an address belongs to (\<open>infra/ip_mtu_trie/ip_mtu_trie.go\<close>): one trie
  of binary prefixes for IPv4 and one for IPv6, built from the interfaces' networks. A \<open>net.IP\<close>
  is its bytes; an interface is its MTU and its networks, each the address and the \<open>ones\<close> and
  \<open>bits\<close> of its mask.
\<close>

definition MTU :: int where "MTU = 65535"

text \<open>\<open>net.IP.To4\<close> and \<open>To16\<close>\<close>

definition ip_To4 :: "bytes \<Rightarrow> bytes option" where
  "ip_To4 ip =
     (if length ip = 4 then Some ip
      else if length ip = 16 \<and> take 12 ip = replicate 10 0 @ [255, 255] then Some (drop 12 ip)
      else None)"

definition ip_To16 :: "bytes \<Rightarrow> bytes" where
  "ip_To16 ip =
     (if length ip = 4 then replicate 10 0 @ [255, 255] @ ip
      else if length ip = 16 then ip else [])"

definition IPToBin :: "bytes \<Rightarrow> string" where
  "IPToBin ip =
     (let b = (case ip_To4 ip of Some b \<Rightarrow> b | None \<Rightarrow> ip_To16 ip)
      in concat (map (\<lambda>x. let tmp = fmt_base 2 (unat x) in replicate (8 - length tmp) CHR ''0'' @ tmp) b))"

record interface =
  if_MTU :: int
  if_addrs :: "(bytes \<times> nat \<times> nat) list"

record mtu_trie =
  v4Trie :: "node option"
  v4Prefix2MTU :: "string \<rightharpoonup> int"
  v6Trie :: "node option"
  v6Prefix2MTU :: "string \<rightharpoonup> int"

text \<open>The lookup of one family: nil trie, then the MTU stored for the longest prefix.\<close>

definition lookup_mtu :: "node option \<Rightarrow> (string \<rightharpoonup> int) \<Rightarrow> bytes \<Rightarrow> int" where
  "lookup_mtu t m ip =
     (case t of
        None \<Rightarrow> MTU
      | Some tr \<Rightarrow>
          (case m (Match tr (IPToBin ip)) of
             None \<Rightarrow> MTU
           | Some v \<Rightarrow> if v < MTU then v else MTU))"

definition GetMTU :: "mtu_trie \<Rightarrow> bytes \<Rightarrow> int" where
  "GetMTU t ip =
     (case ip_To4 ip of
        Some ip4 \<Rightarrow> lookup_mtu (v4Trie t) (v4Prefix2MTU t) ip4
      | None \<Rightarrow> lookup_mtu (v6Trie t) (v6Prefix2MTU t) ip)"

text \<open>The dictionaries and the maps while the loops run. Slicing beyond the text is Go's panic,
  the result \<open>None\<close>.\<close>

type_synonym mtu_acc = "string list \<times> (string \<rightharpoonup> int) \<times> string list \<times> (string \<rightharpoonup> int)"

fun add_addr :: "int \<Rightarrow> bytes \<times> nat \<times> nat \<Rightarrow> mtu_acc \<Rightarrow> mtu_acc option" where
  "add_addr mtu (ip, ones, bits) (d4, m4, d6, m6) =
     (if length (IPToBin ip) < ones then None
      else let p = take ones (IPToBin ip)
           in if bits = 32 then Some (d4 @ [p], m4(p \<mapsto> mtu), d6, m6)
              else if bits = 128 then Some (d4, m4, d6 @ [p], m6(p \<mapsto> mtu))
              else Some (d4, m4, d6, m6))"

fun add_addrs :: "int \<Rightarrow> (bytes \<times> nat \<times> nat) list \<Rightarrow> mtu_acc \<Rightarrow> mtu_acc option" where
  "add_addrs mtu [] acc = Some acc"
| "add_addrs mtu (a # as) acc = Option.bind (add_addr mtu a acc) (add_addrs mtu as)"

fun add_ifaces :: "interface list \<Rightarrow> mtu_acc \<Rightarrow> mtu_acc option" where
  "add_ifaces [] acc = Some acc"
| "add_ifaces (i # is) acc = Option.bind (add_addrs (if_MTU i) (if_addrs i) acc) (add_ifaces is)"

text \<open>\<open>NewIPMTUTrieFromInterfaces\<close>; \<open>None\<close> as argument is the error of \<open>net.Interfaces\<close>,
  for which the package's \<open>init\<close> uses the empty trie.\<close>

definition NewIPMTUTrieFromInterfaces :: "interface list \<Rightarrow> mtu_trie option" where
  "NewIPMTUTrieFromInterfaces ifces =
     map_option (\<lambda>(d4, m4, d6, m6).
         \<lparr>v4Trie = Some (New d4), v4Prefix2MTU = m4, v6Trie = Some (New d6), v6Prefix2MTU = m6\<rparr>)
       (add_ifaces ifces ([], Map.empty, [], Map.empty))"

definition mtu_init :: "interface list option \<Rightarrow> mtu_trie option" where
  "mtu_init ifces =
     (case ifces of
        None \<Rightarrow> Some \<lparr>v4Trie = None, v4Prefix2MTU = Map.empty, v6Trie = None, v6Prefix2MTU = Map.empty\<rparr>
      | Some is \<Rightarrow> NewIPMTUTrieFromInterfaces is)"

section \<open>Binary texts\<close>

lemma fmt2_length: "n < 2 ^ k \<Longrightarrow> 0 < k \<Longrightarrow> length (fmt_base 2 n) \<le> k"
proof (induction k arbitrary: n)
  case (Suc k)
  show ?case
  proof (cases "n < 2")
    case True
    then show ?thesis by (subst fmt_base.simps) simp
  next
    case False
    then have "0 < k" using Suc.prems(1) by (cases k) auto
    with Suc False have "length (fmt_base 2 (n div 2)) \<le> k" by simp
    with False show ?thesis by (subst fmt_base.simps) simp
  qed
qed simp

lemma length_concat_8: "(\<And>x. x \<in> set xs \<Longrightarrow> length (f x) = 8) \<Longrightarrow> length (concat (map f xs)) = 8 * length xs"
  by (induction xs) auto

lemma length_bits8:
  fixes x :: byte
  shows "length (let tmp = fmt_base 2 (unat x) in replicate (8 - length tmp) CHR ''0'' @ tmp) = 8"
proof -
  have "unat x < 2 ^ 8" using unsigned_less [of x, where 'a = nat] by simp
  then have "length (fmt_base 2 (unat x)) \<le> 8" by (intro fmt2_length) simp_all
  then show ?thesis by (simp add: Let_def)
qed

lemma length_IPToBin:
  "length (IPToBin ip) =
     8 * length (case ip_To4 ip of Some b \<Rightarrow> b | None \<Rightarrow> ip_To16 ip)"
  unfolding IPToBin_def Let_def [of "case_option _ _ _"] by (rule length_concat_8) (rule length_bits8)

lemma length_IPToBin_v4: "ip_To4 ip = Some b \<Longrightarrow> length (IPToBin ip) = 32"
  by (auto simp: length_IPToBin ip_To4_def split: if_splits)

lemma length_IPToBin_v6: "ip_To4 ip = None \<Longrightarrow> length ip = 16 \<Longrightarrow> length (IPToBin ip) = 128"
  by (simp add: length_IPToBin ip_To16_def)

lemma IPToBin_To4: "ip_To4 ip = Some b \<Longrightarrow> IPToBin b = IPToBin ip"
  by (auto simp: IPToBin_def ip_To4_def split: if_splits)

section \<open>What the loops collect\<close>

text \<open>The networks of the interfaces with the given mask width, in order, with their MTUs.\<close>

definition networks :: "nat \<Rightarrow> interface list \<Rightarrow> (string \<times> int) list" where
  "networks w ifces =
     concat (map (\<lambda>i. map (\<lambda>(ip, ones, bits). (take ones (IPToBin ip), if_MTU i))
       (filter (\<lambda>(ip, ones, bits). bits = w) (if_addrs i))) ifces)"

text \<open>The masks fit the addresses.\<close>

definition fits :: "interface \<Rightarrow> bool" where
  "fits i \<longleftrightarrow> (\<forall>(ip, ones, bits) \<in> set (if_addrs i). ones \<le> length (IPToBin ip) \<and> ones \<le> bits)"

definition nets1 :: "nat \<Rightarrow> int \<Rightarrow> (bytes \<times> nat \<times> nat) list \<Rightarrow> (string \<times> int) list" where
  "nets1 w mtu as = map (\<lambda>(ip, ones, bits). (take ones (IPToBin ip), mtu))
       (filter (\<lambda>(ip, ones, bits). bits = w) as)"

lemma add_addrs_spec:
  "\<forall>(ip, ones, bits) \<in> set as. ones \<le> length (IPToBin ip) \<Longrightarrow>
     add_addrs mtu as (d4, m4, d6, m6) =
       Some (d4 @ map fst (nets1 32 mtu as), store_all fst snd (nets1 32 mtu as) m4,
             d6 @ map fst (nets1 128 mtu as), store_all fst snd (nets1 128 mtu as) m6)"
proof (induction as arbitrary: d4 m4 d6 m6)
  case (Cons a as)
  obtain ip ones bits where a: "a = (ip, ones, bits)" by (cases a)
  with Cons.prems have "\<not> length (IPToBin ip) < ones" by auto
  with Cons a show ?case by (auto simp: nets1_def Let_def)
qed (simp add: nets1_def)

lemma networks_Cons: "networks w (i # is) = nets1 w (if_MTU i) (if_addrs i) @ networks w is"
  by (simp add: networks_def nets1_def)

lemma add_ifaces_spec:
  "list_all fits is \<Longrightarrow>
     add_ifaces is (d4, m4, d6, m6) =
       Some (d4 @ map fst (networks 32 is), store_all fst snd (networks 32 is) m4,
             d6 @ map fst (networks 128 is), store_all fst snd (networks 128 is) m6)"
proof (induction "is" arbitrary: d4 m4 d6 m6)
  case (Cons i "is")
  have "add_addrs (if_MTU i) (if_addrs i) (d4, m4, d6, m6) =
    Some (d4 @ map fst (nets1 32 (if_MTU i) (if_addrs i)), store_all fst snd (nets1 32 (if_MTU i) (if_addrs i)) m4,
          d6 @ map fst (nets1 128 (if_MTU i) (if_addrs i)), store_all fst snd (nets1 128 (if_MTU i) (if_addrs i)) m6)"
    by (rule add_addrs_spec) (use Cons.prems in \<open>auto simp: fits_def\<close>)
  with Cons show ?case by (simp add: networks_Cons store_all_append)
qed (simp add: networks_def)

text \<open>The MTU stored last for a prefix.\<close>

lemma store_all_map_of: "store_all fst snd xs Map.empty = map_of (rev xs)"
proof -
  have "store_all fst snd xs m = m ++ map_of (rev xs)" for m :: "'a \<rightharpoonup> 'b"
    by (induction xs arbitrary: m) (auto simp: map_add_def fun_eq_iff split: option.split)
  from this [of Map.empty] show ?thesis by simp
qed

lemma networks_short: "list_all fits is \<Longrightarrow> w \<in> fst ` set (networks k is) \<Longrightarrow> length w \<le> k"
  by (fastforce simp: networks_def list_all_iff fits_def)

lemma lookup_longest:
  assumes "\<And>w. w \<in> fst ` set ns \<Longrightarrow> length w \<le> length (IPToBin ip)"
  shows "\<exists>p. longest_match (fst ` set ns) (IPToBin ip) p \<and>
    lookup_mtu (Some (New (map fst ns))) (map_of (rev ns)) ip =
      (case map_of (rev ns) p of None \<Rightarrow> MTU | Some m \<Rightarrow> min m MTU)"
proof -
  have "longest_match (set (map fst ns)) (IPToBin ip) (Match (New (map fst ns)) (IPToBin ip))"
    by (rule trie_match_longest) (use assms in simp)
  then show ?thesis
    by (intro exI [of _ "Match (New (map fst ns)) (IPToBin ip)"])
      (auto simp: lookup_mtu_def min_def split: option.split)
qed

text \<open>C13: Built from interfaces whose masks fit their addresses, the tries give for every address
  the MTU of the most specific network that contains it (of the last interface that has this
  network), at most 65535, and 65535 where no network contains it; IPv4-mapped addresses are looked
  up among the IPv4 networks.\<close>

theorem mtu_most_specific:
  assumes "list_all fits ifces" and "length ip = 4 \<or> length ip = 16"
  shows "\<exists>t p. NewIPMTUTrieFromInterfaces ifces = Some t \<and>
    (let ns = networks (if ip_To4 ip = None then 128 else 32) ifces
     in longest_match (fst ` set ns) (IPToBin ip) p \<and>
        GetMTU t ip = (case map_of (rev ns) p of None \<Rightarrow> MTU | Some m \<Rightarrow> min m MTU))"
proof -
  let ?t = "\<lparr>v4Trie = Some (New (map fst (networks 32 ifces))), v4Prefix2MTU = map_of (rev (networks 32 ifces)),
    v6Trie = Some (New (map fst (networks 128 ifces))), v6Prefix2MTU = map_of (rev (networks 128 ifces))\<rparr>"
  have t: "NewIPMTUTrieFromInterfaces ifces = Some ?t"
    by (simp add: NewIPMTUTrieFromInterfaces_def add_ifaces_spec [OF assms(1)] store_all_map_of)
  show ?thesis
  proof (cases "ip_To4 ip")
    case None
    with assms(2) have "length ip = 16" by (auto simp: ip_To4_def)
    with None have l: "length (IPToBin ip) = 128" by (simp add: length_IPToBin_v6)
    from lookup_longest [of "networks 128 ifces" ip] networks_short [OF assms(1)] l None t
    show ?thesis by (auto simp: GetMTU_def Let_def)
  next
    case (Some b)
    have l: "length (IPToBin b) = 32" using length_IPToBin_v4 [OF Some] IPToBin_To4 [OF Some] by simp
    from lookup_longest [of "networks 32 ifces" b] networks_short [OF assms(1)] l Some t
      IPToBin_To4 [OF Some]
    show ?thesis by (auto simp: GetMTU_def Let_def)
  qed
qed

definition demo_ifaces :: "interface list" where
  "demo_ifaces = [\<lparr>if_MTU = 1500, if_addrs = [([10, 0, 0, 1], 8, 32)]\<rparr>]"

theorem mtu_most_specific_witness:
  "\<exists>t p. NewIPMTUTrieFromInterfaces demo_ifaces = Some t \<and>
    (let ns = networks (if ip_To4 [10, 9, 8, 7] = None then 128 else 32) demo_ifaces
     in longest_match (fst ` set ns) (IPToBin [10, 9, 8, 7]) p \<and>
        GetMTU t [10, 9, 8, 7] = (case map_of (rev ns) p of None \<Rightarrow> MTU | Some m \<Rightarrow> min m MTU))"
proof (rule mtu_most_specific)
  have "length (IPToBin [10, 0, 0, 1]) = 32" by (rule length_IPToBin_v4) (simp add: ip_To4_def)
  then show "list_all fits demo_ifaces" by (simp add: demo_ifaces_def fits_def)
qed simp

end
