(* ===== verification/Cdn.thy ===== *)
theory Cdn
  imports Ip_Mtu Common Config
begin

text \<open>
  Validation that the host of SweetLisa hides the clients' addresses: the registry of CDNs
  (\<open>pkg/cdn_validator\<close>), the Cloudflare validator and \<open>ToIPNets\<close> of \<open>common\<close>. The
  resolver and the Cloudflare API are arguments; a \<open>net.IPNet\<close> is its network and its mask.
\<close>

section \<open>Networks\<close>

type_synonym ipnet = "bytes \<times> bytes"

text \<open>\<open>net.CIDRMask(ones, 8 * k)\<close> and \<open>net.ParseCIDR\<close>; the length of the prefix is a
  decimal number of any number of digits.\<close>

definition cidrMask :: "nat \<Rightarrow> nat \<Rightarrow> bytes" where
  "cidrMask ones k = map (\<lambda>i. word_of_nat (255 - (2 ^ (8 - min 8 (ones - 8 * i)) - 1))) [0..<k]"

definition mask_ip :: "bytes \<Rightarrow> bytes \<Rightarrow> bytes" where
  "mask_ip ip m = map2 (AND) ip m"

definition parseCIDR :: "string \<Rightarrow> ipnet option" where
  "parseCIDR s =
     (case strings_Cut CHR ''/'' s of
        None \<Rightarrow> None
      | Some (addr, ones) \<Rightarrow>
          (case parseAddr addr of
             None \<Rightarrow> None
           | Some ip \<Rightarrow>
               if (case ip of IP4 _ \<Rightarrow> False | IP6 _ zone \<Rightarrow> zone \<noteq> []) then None
               else let b = addr_AsSlice ip; (n, e) = parseUint 24 ones
                    in if e \<noteq> None \<or> 8 * length b < n then None
                       else Some (mask_ip b (cidrMask n (length b)), cidrMask n (length b))))"

fun to_nets :: "string list \<Rightarrow> ipnet list \<Rightarrow> ipnet list option" where
  "to_nets [] nets = Some nets"
| "to_nets (c # cs) nets = (case parseCIDR c of None \<Rightarrow> None | Some n \<Rightarrow> to_nets cs (nets @ [n]))"

definition ToIPNets :: "string list \<Rightarrow> ipnet list option" where
  "ToIPNets cidr = to_nets cidr []"

text \<open>\<open>(*net.IPNet).Contains\<close>\<close>

definition net_Contains :: "ipnet \<Rightarrow> bytes \<Rightarrow> bool" where
  "net_Contains n ip =
     (let x = (case ip_To4 ip of Some y \<Rightarrow> y | None \<Rightarrow> ip)
      in length x = length (fst n) \<and> mask_ip (fst n) (snd n) = mask_ip x (snd n))"

section \<open>The registry\<close>

text \<open>A validator is its function \<open>Validate\<close> on domains, a creator makes one from a token.\<close>

type_synonym validator = "string \<Rightarrow> go_err + bool"
type_synonym creator = "string \<Rightarrow> go_err + validator"

record registry =
  validatorMapping :: "string \<rightharpoonup> creator"
  cdnNets :: "(string \<times> ipnet list) list"

definition no_cdns :: registry where
  "no_cdns = \<lparr>validatorMapping = Map.empty, cdnNets = []\<rparr>"

definition cdn_Register :: "string \<Rightarrow> creator \<Rightarrow> ipnet list \<Rightarrow> registry \<Rightarrow> registry" where
  "cdn_Register name c cidrs r =
     r\<lparr>validatorMapping := (validatorMapping r)(name \<mapsto> c), cdnNets := cdnNets r @ [(name, cidrs)]\<rparr>"

fun creator_by_ip :: "registry \<Rightarrow> (string \<times> ipnet list) list \<Rightarrow> bytes \<Rightarrow> string \<times> creator option" where
  "creator_by_ip r [] ip = ([], None)"
| "creator_by_ip r (n # ns) ip =
     (if list_ex (\<lambda>c. net_Contains c ip) (snd n) then (fst n, validatorMapping r (fst n))
      else creator_by_ip r ns ip)"

definition CreatorByIP :: "registry \<Rightarrow> bytes \<Rightarrow> string \<times> creator option" where
  "CreatorByIP r ip = creator_by_ip r (cdnNets r) ip"

definition cdn_ErrNotFound :: go_err where
  "cdn_ErrNotFound = Errorf ''this IP is not in our known CDN list''"

definition ErrCanStealIP :: go_err where
  "ErrCanStealIP = Errorf ''this domain's setting can steal your IP information''"

text \<open>The loop that collects the names, and the loop that asks the validators; calling a creator
  that is not registered would be a panic, the result \<open>None\<close>.\<close>

fun collect_names :: "registry \<Rightarrow> bytes list \<Rightarrow> string list \<Rightarrow> (string \<times> go_err) + string list" where
  "collect_names r [] names = Inr names"
| "collect_names r (ip # ips) names =
     (case CreatorByIP r ip of
        (name, None) \<Rightarrow> Inl (name, Wrapped [] cdn_ErrNotFound)
      | (name, Some _) \<Rightarrow> collect_names r ips (names @ [name]))"

fun ask_validators :: "registry \<Rightarrow> string \<Rightarrow> string \<Rightarrow> string list \<Rightarrow> (string \<times> go_err) option option" where
  "ask_validators r token domain [] = Some None"
| "ask_validators r token domain (name # names) =
     (case validatorMapping r name of
        None \<Rightarrow> None
      | Some c \<Rightarrow>
          (case c token of
             Inl e \<Rightarrow> Some (Some (name, e))
           | Inr cdn \<Rightarrow>
               (case cdn domain of
                  Inl e \<Rightarrow> Some (Some (name, e))
                | Inr ok \<Rightarrow> if \<not> ok then Some (Some (name, ErrCanStealIP))
                            else ask_validators r token domain names)))"

definition wrap_cdn :: "string \<times> go_err \<Rightarrow> string \<times> go_err option" where
  "wrap_cdn ne = (fst ne, Some (Wrapped ''failed to validate cdn'' (snd ne)))"

definition cdn_Validate :: "registry \<Rightarrow> (string \<Rightarrow> go_err + bytes list) \<Rightarrow> string \<Rightarrow> string \<Rightarrow>
    (string \<times> go_err option) option" where
  "cdn_Validate r lookupIP domain token =
     (case lookupIP domain of
        Inl e \<Rightarrow> Some (wrap_cdn ([], e))
      | Inr ips \<Rightarrow>
          (case collect_names r ips [] of
             Inl ne \<Rightarrow> Some (wrap_cdn ne)
           | Inr ns \<Rightarrow>
               let cdnNames = Deduplicate ns
               in map_option (\<lambda>res. case res of Some ne \<Rightarrow> wrap_cdn ne
                                              | None \<Rightarrow> (strings_Join '', '' cdnNames, None))
                    (ask_validators r token domain cdnNames)))"

section \<open>What validation decides\<close>

text \<open>The CDN an address belongs to: the first registered one with a network that contains it.\<close>

definition cdn_of :: "registry \<Rightarrow> bytes \<Rightarrow> string option" where
  "cdn_of r ip = map_option fst (find (\<lambda>n. list_ex (\<lambda>c. net_Contains c ip) (snd n)) (cdnNets r))"

definition approves :: "registry \<Rightarrow> string \<Rightarrow> string \<Rightarrow> string \<Rightarrow> bool" where
  "approves r token domain name \<longleftrightarrow>
     (\<exists>c v. validatorMapping r name = Some c \<and> c token = Inr v \<and> v domain = Inr True)"

text \<open>A registry built by \<open>Register\<close> has a creator for every network.\<close>

definition reg_ok :: "registry \<Rightarrow> bool" where
  "reg_ok r \<longleftrightarrow> list_all (\<lambda>n. validatorMapping r (fst n) \<noteq> None) (cdnNets r)"

lemma reg_ok_Register: "reg_ok r \<Longrightarrow> reg_ok (cdn_Register name c cidrs r)"
  by (auto simp: reg_ok_def cdn_Register_def list_all_iff)

lemma reg_ok_none: "reg_ok no_cdns"
  by (simp add: reg_ok_def no_cdns_def)

lemma creator_by_ip_find:
  "creator_by_ip r ns ip =
     (case find (\<lambda>n. list_ex (\<lambda>c. net_Contains c ip) (snd n)) ns of
        None \<Rightarrow> ([], None) | Some n \<Rightarrow> (fst n, validatorMapping r (fst n)))"
  by (induction ns) simp_all

lemma CreatorByIP_cdn_of:
  "CreatorByIP r ip = (case cdn_of r ip of None \<Rightarrow> ([], None) | Some name \<Rightarrow> (name, validatorMapping r name))"
  by (simp add: CreatorByIP_def cdn_of_def creator_by_ip_find split: option.split)

lemma cdn_of_registered:
  assumes "reg_ok r" and "cdn_of r ip = Some name"
  shows "\<exists>c. validatorMapping r name = Some c"
proof -
  from assms(2) obtain n where
    "find (\<lambda>n. list_ex (\<lambda>c. net_Contains c ip) (snd n)) (cdnNets r) = Some n" "name = fst n"
    by (auto simp: cdn_of_def)
  then have "n \<in> set (cdnNets r)" by (metis find_Some_iff nth_mem)
  with assms(1) \<open>name = fst n\<close> show ?thesis by (auto simp: reg_ok_def list_all_iff)
qed

lemma collect_names_spec:
  assumes "reg_ok r"
  shows "(case collect_names r ips acc of
      Inr ns \<Rightarrow> list_all (\<lambda>ip. cdn_of r ip \<noteq> None) ips \<and> ns = acc @ map (\<lambda>ip. the (cdn_of r ip)) ips
    | Inl ne \<Rightarrow> \<not> list_all (\<lambda>ip. cdn_of r ip \<noteq> None) ips)"
proof (induction ips arbitrary: acc)
  case (Cons ip ips)
  show ?case
  proof (cases "cdn_of r ip")
    case (Some name)
    with cdn_of_registered [OF assms Some] Cons.IH [of "acc @ [name]"] show ?thesis
      by (auto simp: CreatorByIP_cdn_of split: sum.splits)
  qed (simp add: CreatorByIP_cdn_of)
qed simp

lemma ask_validators_spec:
  "\<forall>n \<in> set names. validatorMapping r n \<noteq> None \<Longrightarrow>
     \<exists>res. ask_validators r token domain names = Some res \<and>
       (res = None \<longleftrightarrow> list_all (approves r token domain) names)"
proof (induction names)
  case (Cons n names)
  then obtain c where c: "validatorMapping r n = Some c" by auto
  show ?case
  proof (cases "\<exists>v. c token = Inr v \<and> v domain = Inr True")
    case True
    with Cons c show ?thesis by (auto simp: approves_def)
  next
    case False
    with c show ?thesis by (auto simp: approves_def split: sum.split bool.split)
  qed
qed simp

lemma set_Deduplicate [simp]: "set (Deduplicate xs) = set xs"
  by (simp add: Deduplicate_spec)

section \<open>Cloudflare\<close>

text \<open>The data of the API, as far as the validator looks at it.\<close>

datatype pr_value = PRString string | PRMap "(string \<times> pr_value) list" | PROther

record rule =
  r_Enabled :: bool
  r_Action :: string
  r_Path :: string
  r_Query :: string
  r_Expression :: string

record ruleset =
  rs_ID :: string
  rs_Phase :: string
  rs_Rules :: "rule list"

record page_target =
  pt_Target :: string
  pt_Operator :: string
  pt_Value :: string

record page_rule =
  pr_Status :: string
  pr_Targets :: "page_target list"
  pr_Actions :: "(string \<times> pr_value) list"

record cf_api =
  ZoneIDByName :: "string \<Rightarrow> go_err + string"
  FirewallRules :: "string \<Rightarrow> string list \<times> go_err option"
  ListZoneRulesets :: "string \<Rightarrow> go_err + ruleset list"
  GetZoneRuleset :: "string \<Rightarrow> string \<Rightarrow> go_err + ruleset"
  ListPageRules :: "string \<Rightarrow> go_err + page_rule list"

definition CIDRs :: "string list" where
  "CIDRs =
     [''173.245.48.0/20'', ''103.21.244.0/22'', ''103.22.200.0/22'', ''103.31.4.0/22'',
      ''141.101.64.0/18'', ''108.162.192.0/18'', ''190.93.240.0/20'', ''188.114.96.0/20'',
      ''197.234.240.0/22'', ''198.41.128.0/17'', ''162.158.0.0/15'', ''104.16.0.0/13'',
      ''104.24.0.0/14'', ''172.64.0.0/13'', ''131.0.72.0/22'', ''2400:cb00::/32'',
      ''2606:4700::/32'', ''2803:f800::/32'', ''2405:b500::/32'', ''2405:8100::/32'',
      ''2a06:98c0::/29'', ''2c0f:f248::/32'']"

text \<open>\<open>strings.ReplaceAll(s, "\/", "/")\<close>\<close>

fun unescape_slashes :: "string \<Rightarrow> string" where
  "unescape_slashes (a # b # s) =
     (if a = CHR 0x5C \<and> b = CHR ''/'' then CHR ''/'' # unescape_slashes s
      else a # unescape_slashes (b # s))"
| "unescape_slashes s = s"

definition github_io :: string where
  "github_io = ''https://e14914c0-6759-480d-be89-66b7b7676451.github.io/''"

definition ValidPageRule :: "page_rule \<Rightarrow> string \<Rightarrow> string \<Rightarrow> bool" where
  "ValidPageRule pageRule hostname path =
     (if pr_Status pageRule = ''active'' \<and> length (pr_Targets pageRule) = 1 \<and>
         pt_Target (pr_Targets pageRule ! 0) = ''url'' \<and>
         pt_Operator (pr_Targets pageRule ! 0) = ''matches'' \<and>
         unescape_slashes (pt_Value (pr_Targets pageRule ! 0)) = path_Join [hostname, path] \<and>
         length (pr_Actions pageRule) = 1 \<and> fst (pr_Actions pageRule ! 0) = ''forwarding_url''
      then (case snd (pr_Actions pageRule ! 0) of
              PRMap m \<Rightarrow> (case map_of m ''url'' of
                            Some (PRString u) \<Rightarrow> strings_HasPrefix (unescape_slashes u) github_io
                          | _ \<Rightarrow> False)
            | _ \<Rightarrow> False)
      else False)"

definition api_expression :: "string \<Rightarrow> string" where
  "api_expression hostname =
     ''(ip.geoip.country eq \"CN\" and http.user_agent ne \"BitterJohn\" and http.host eq \"'' @ hostname @ ''\")''"

definition validApiRule :: "rule \<Rightarrow> string \<Rightarrow> bool" where
  "validApiRule r hostname \<longleftrightarrow>
     r_Enabled r \<and> r_Action r = ''rewrite'' \<and> r_Path r = ''/block-cn'' \<and> r_Query r = [] \<and>
     r_Expression r = api_expression hostname"

definition html_expression :: "string \<Rightarrow> string" where
  "html_expression hostname =
     ''(ip.geoip.country eq \"CN\" and http.user_agent ne \"BitterJohn\" and http.host eq \"'' @ hostname @
     ''\" and not http.request.uri.path contains \"/api/\")''"

definition validHtmlRule :: "rule \<Rightarrow> string \<Rightarrow> bool" where
  "validHtmlRule r hostname \<longleftrightarrow>
     r_Enabled r \<and> r_Action r = ''rewrite'' \<and> r_Path r = ''/block-cn-html'' \<and> r_Query r = [] \<and>
     r_Expression r = html_expression hostname"

definition ValidTransformRuleset :: "ruleset \<Rightarrow> string \<Rightarrow> bool" where
  "ValidTransformRuleset rs hostname =
     (let rules = rs_Rules rs
      in if length rules \<noteq> 2 then False
         else (validApiRule (rules ! 0) hostname \<and> validHtmlRule (rules ! 1) hostname) \<or>
              (validApiRule (rules ! 1) hostname \<and> validHtmlRule (rules ! 0) hostname))"

text \<open>The loop over the rulesets of the zone; it stops at the first valid one.\<close>

fun any_transform :: "cf_api \<Rightarrow> string \<Rightarrow> string \<Rightarrow> ruleset list \<Rightarrow> bool" where
  "any_transform api zoneID domain [] = False"
| "any_transform api zoneID domain (rs # rss) =
     (if rs_Phase rs \<noteq> ''http_request_transform'' then any_transform api zoneID domain rss
      else case GetZoneRuleset api zoneID (rs_ID rs) of
             Inl e \<Rightarrow> any_transform api zoneID domain rss
           | Inr full \<Rightarrow> if ValidTransformRuleset full domain then True
                         else any_transform api zoneID domain rss)"

fun page_flags :: "string \<Rightarrow> page_rule list \<Rightarrow> bool \<times> bool \<Rightarrow> bool \<times> bool" where
  "page_flags domain [] okk = okk"
| "page_flags domain (p # ps) okk =
     page_flags domain ps
       (if ValidPageRule p domain ''block-cn'' then (True, snd okk)
        else if ValidPageRule p domain ''block-cn-html'' then (fst okk, True)
        else okk)"

text \<open>The error of \<open>FirewallRules\<close> is overwritten by the next call.\<close>

definition cf_Validate :: "cf_api \<Rightarrow> string \<Rightarrow> go_err + bool" where
  "cf_Validate api domain =
     (let fs = strings_Split CHR ''.'' domain
      in if length fs < 2 then Inl (Errorf ''invalid domain'')
         else case ZoneIDByName api (strings_Join ''.'' (drop (length fs - 2) fs)) of
                Inl e \<Rightarrow> Inl e
              | Inr zoneID \<Rightarrow>
                  (let (rules, err) = FirewallRules api zoneID
                   in if 0 < length rules then Inl (Errorf ''sweetlisa's cloudflare firewall has rules'')
                      else case ListZoneRulesets api zoneID of
                             Inl e \<Rightarrow> Inl e
                           | Inr rulesets \<Rightarrow>
                               if \<not> any_transform api zoneID domain rulesets then Inr False
                               else case ListPageRules api zoneID of
                                      Inl e \<Rightarrow> Inl e
                                    | Inr pageRules \<Rightarrow>
                                        let okk = page_flags domain pageRules (False, False)
                                        in Inr (fst okk \<and> snd okk)))"

text \<open>\<open>New\<close>: \<open>connect\<close> is \<open>cloudflare.NewWithAPIToken\<close>, \<open>verify\<close> the status
  \<open>VerifyAPIToken\<close> reports.\<close>

definition cf_New :: "(string \<Rightarrow> go_err + cf_api) \<Rightarrow> (cf_api \<Rightarrow> go_err + string) \<Rightarrow> creator" where
  "cf_New connect verify token =
     (case connect token of
        Inl e \<Rightarrow> Inl e
      | Inr api \<Rightarrow>
          (case verify api of
             Inl e \<Rightarrow> Inl e
           | Inr status \<Rightarrow> if status \<noteq> ''active'' then Inl (Errorf ''invalid token'')
                           else Inr (cf_Validate api)))"

definition cf_init :: "(string \<Rightarrow> go_err + cf_api) \<Rightarrow> (cf_api \<Rightarrow> go_err + string) \<Rightarrow> registry \<Rightarrow> registry" where
  "cf_init connect verify r =
     cdn_Register ''cloudflare'' (cf_New connect verify)
       (case ToIPNets CIDRs of None \<Rightarrow> [] | Some nets \<Rightarrow> nets) r"

lemma pair_mset: "mset xs = {#a, b#} \<longleftrightarrow> xs = [a, b] \<or> xs = [b, a]"
proof
  assume e: "mset xs = {#a, b#}"
  then have "size (mset xs) = 2" by simp
  then obtain c d where "xs = [c, d]" by (auto simp: numeral_2_eq_2 length_Suc_conv)
  with e show "xs = [a, b] \<or> xs = [b, a]" by (auto simp: add_eq_conv_ex)
qed auto

lemma transform_two:
  "ValidTransformRuleset rs domain \<longleftrightarrow>
     (\<exists>a b. mset (rs_Rules rs) = {#a, b#} \<and> validApiRule a domain \<and> validHtmlRule b domain)"
proof (cases "length (rs_Rules rs) = 2")
  case True
  then obtain c d where "rs_Rules rs = [c, d]" by (auto simp: numeral_2_eq_2 length_Suc_conv)
  then show ?thesis unfolding pair_mset by (auto simp: ValidTransformRuleset_def)
next
  case False
  then have "rs_Rules rs \<noteq> [a, b]" for a b by auto
  with False show ?thesis by (simp add: ValidTransformRuleset_def pair_mset)
qed

lemma any_transform_ex:
  "any_transform api z d rss \<longleftrightarrow>
     (\<exists>rs \<in> set rss. rs_Phase rs = ''http_request_transform'' \<and>
        (\<exists>full. GetZoneRuleset api z (rs_ID rs) = Inr full \<and> ValidTransformRuleset full d))"
  by (induction rss) (auto split: sum.splits)

lemma ValidPageRule_target:
  "ValidPageRule p h path \<Longrightarrow> unescape_slashes (pt_Value (pr_Targets p ! 0)) = path_Join [h, path]"
  by (simp add: ValidPageRule_def split: if_splits)

lemma page_rules_exclusive:
  assumes "plain_elem domain" and "ValidPageRule p domain ''block-cn''"
  shows "\<not> ValidPageRule p domain ''block-cn-html''"
proof
  assume "ValidPageRule p domain ''block-cn-html''"
  with ValidPageRule_target [OF assms(2)] ValidPageRule_target [OF this]
  have "path_Join [domain, ''block-cn''] = path_Join [domain, ''block-cn-html'']" by simp
  with assms(1) show False by (simp add: path_Join_plain plain_elem_def)
qed

lemma page_flags_ex:
  assumes "plain_elem domain"
  shows "page_flags domain ps (a, b) =
    (a \<or> list_ex (\<lambda>p. ValidPageRule p domain ''block-cn'') ps,
     b \<or> list_ex (\<lambda>p. ValidPageRule p domain ''block-cn-html'') ps)"
  by (induction ps arbitrary: a b) (auto dest: page_rules_exclusive [OF assms])

lemma cdn_validate_exact:
  assumes "reg_ok r"
  shows "\<exists>res. cdn_Validate r lookupIP domain token = Some res \<and>
    (snd res = None \<longleftrightarrow> (\<exists>ips. lookupIP domain = Inr ips \<and>
       list_all (\<lambda>ip. \<exists>name. cdn_of r ip = Some name \<and> approves r token domain name) ips))"
proof (cases "lookupIP domain")
  case (Inr ips)
  note names = collect_names_spec [OF assms, of ips "[]"]
  show ?thesis
  proof (cases "collect_names r ips []")
    case (Inl ne)
    with names obtain ip where "ip \<in> set ips" "cdn_of r ip = None" by (auto simp: list_all_iff)
    then have "\<not> list_all (\<lambda>ip. \<exists>name. cdn_of r ip = Some name \<and> approves r token domain name) ips"
      by (auto simp: list_all_iff intro!: bexI [of _ ip])
    with Inl Inr show ?thesis by (simp add: cdn_Validate_def wrap_cdn_def)
  next
    case (Inr ns)
    with names have ns: "list_all (\<lambda>ip. cdn_of r ip \<noteq> None) ips" "ns = map (\<lambda>ip. the (cdn_of r ip)) ips"
      by simp_all
    have "\<forall>n \<in> set (Deduplicate ns). validatorMapping r n \<noteq> None"
      using ns cdn_of_registered [OF assms] by (auto simp: list_all_iff)
    from ask_validators_spec [OF this, of token domain] obtain res where
      res: "ask_validators r token domain (Deduplicate ns) = Some res"
        "res = None \<longleftrightarrow> list_all (approves r token domain) (Deduplicate ns)" by blast
    have "(\<exists>name. cdn_of r ip = Some name \<and> approves r token domain name) \<longleftrightarrow>
      approves r token domain (the (cdn_of r ip))" if "ip \<in> set ips" for ip
      using ns(1) that by (cases "cdn_of r ip") (auto simp: list_all_iff)
    then have "list_all (approves r token domain) (Deduplicate ns) \<longleftrightarrow>
      list_all (\<lambda>ip. \<exists>name. cdn_of r ip = Some name \<and> approves r token domain name) ips"
      by (simp add: list_all_iff ns(2))
    with res Inr \<open>lookupIP domain = Inr ips\<close> show ?thesis
      by (auto simp: cdn_Validate_def wrap_cdn_def split: option.split)
  qed
qed (simp add: cdn_Validate_def wrap_cdn_def)

definition cf_nets :: "ipnet list" where
  "cf_nets = (case ToIPNets CIDRs of None \<Rightarrow> [] | Some nets \<Rightarrow> nets)"

lemma cdn_of_program:
  "cdn_of (cf_init connect verify no_cdns) ip =
     (if list_ex (\<lambda>c. net_Contains c ip) cf_nets then Some ''cloudflare'' else None)"
  by (simp add: cdn_of_def cf_init_def cdn_Register_def no_cdns_def cf_nets_def)

lemma approves_program:
  "approves (cf_init connect verify no_cdns) token domain ''cloudflare'' \<longleftrightarrow>
     (\<exists>api. connect token = Inr api \<and> verify api = Inr ''active'' \<and> cf_Validate api domain = Inr True)"
  by (auto simp: approves_def cf_init_def cdn_Register_def cf_New_def split: sum.splits if_splits)

section \<open>Properties\<close>

text \<open>C22: With the CDNs the program registers, a domain is accepted exactly if it resolves, every
  one of its addresses lies in a range of Cloudflare, and the token is active and gives access to a
  configuration the Cloudflare validator accepts; validation never calls a missing validator.\<close>

theorem cdn_validate_program:
  "\<exists>res. cdn_Validate (cf_init connect verify no_cdns) lookupIP domain token = Some res \<and>
    (snd res = None \<longleftrightarrow> (\<exists>ips. lookupIP domain = Inr ips \<and>
       list_all (\<lambda>ip. list_ex (\<lambda>c. net_Contains c ip) cf_nets) ips \<and>
       (ips = [] \<or> (\<exists>api. connect token = Inr api \<and> verify api = Inr ''active'' \<and>
                      cf_Validate api domain = Inr True))))"
proof -
  let ?r = "cf_init connect verify no_cdns"
  have "reg_ok ?r" unfolding cf_init_def by (intro reg_ok_Register reg_ok_none)
  from cdn_validate_exact [OF this, of lookupIP domain token] obtain res where
    r: "cdn_Validate ?r lookupIP domain token = Some res" "snd res = None \<longleftrightarrow> (\<exists>ips. lookupIP domain = Inr ips \<and>
       list_all (\<lambda>ip. \<exists>name. cdn_of ?r ip = Some name \<and> approves ?r token domain name) ips)"
    by (elim exE conjE) (rule that)
  have "list_all (\<lambda>ip. \<exists>name. cdn_of ?r ip = Some name \<and> approves ?r token domain name) ips \<longleftrightarrow>
      list_all (\<lambda>ip. list_ex (\<lambda>c. net_Contains c ip) cf_nets) ips \<and>
      (ips = [] \<or> approves ?r token domain ''cloudflare'')" for ips
    by (cases ips) (auto simp: cdn_of_program list_all_iff)
  with r show ?thesis by (simp add: approves_program)
qed

text \<open>C23: The Cloudflare validator accepts a domain exactly if its zone exists, the firewall call
  yields no rules (also because it failed: its error is not looked at), a transform ruleset consists
  of the two prescribed rules in either order, and both page rules are there.\<close>

theorem cloudflare_accepts:
  assumes "plain_elem domain"
  shows "cf_Validate api domain = Inr True \<longleftrightarrow>
    (let fs = strings_Split CHR ''.'' domain
     in 2 \<le> length fs \<and>
        (\<exists>z rss prs. ZoneIDByName api (strings_Join ''.'' (drop (length fs - 2) fs)) = Inr z \<and>
           fst (FirewallRules api z) = [] \<and> ListZoneRulesets api z = Inr rss \<and> ListPageRules api z = Inr prs \<and>
           (\<exists>rs \<in> set rss. rs_Phase rs = ''http_request_transform'' \<and>
              (\<exists>a b full. GetZoneRuleset api z (rs_ID rs) = Inr full \<and> mset (rs_Rules full) = {#a, b#} \<and>
                 validApiRule a domain \<and> validHtmlRule b domain)) \<and>
           list_ex (\<lambda>p. ValidPageRule p domain ''block-cn'') prs \<and>
           list_ex (\<lambda>p. ValidPageRule p domain ''block-cn-html'') prs))"
proof -
  show ?thesis
    by (auto simp: cf_Validate_def Let_def page_flags_ex [OF assms] any_transform_ex transform_two not_less
        split: sum.splits prod.splits if_splits)
qed

definition demo_api :: cf_api where
  "demo_api =
     \<lparr>ZoneIDByName = (\<lambda>zn. if zn = ''b.c'' then Inr ''z'' else Inl (Errorf ''no zone'')),
      FirewallRules = (\<lambda>z. ([], Some (Errorf ''forbidden''))),
      ListZoneRulesets = (\<lambda>z. Inr [\<lparr>rs_ID = ''r'', rs_Phase = ''http_request_transform'', rs_Rules = []\<rparr>]),
      GetZoneRuleset = (\<lambda>z r. Inr \<lparr>rs_ID = ''r'', rs_Phase = ''http_request_transform'', rs_Rules =
        [\<lparr>r_Enabled = True, r_Action = ''rewrite'', r_Path = ''/block-cn-html'', r_Query = [],
          r_Expression = html_expression ''a.b.c''\<rparr>,
         \<lparr>r_Enabled = True, r_Action = ''rewrite'', r_Path = ''/block-cn'', r_Query = [],
          r_Expression = api_expression ''a.b.c''\<rparr>]\<rparr>),
      ListPageRules = (\<lambda>z. Inr (map (\<lambda>p. \<lparr>pr_Status = ''active'',
        pr_Targets = [\<lparr>pt_Target = ''url'', pt_Operator = ''matches'', pt_Value = ''a.b.c/'' @ p\<rparr>],
        pr_Actions = [(''forwarding_url'', PRMap [(''url'', PRString github_io)])]\<rparr>) [''block-cn'', ''block-cn-html'']))\<rparr>"

theorem cloudflare_accepts_witness: "cf_Validate demo_api ''a.b.c'' = Inr True"
proof -
  have p: "plain_elem ''a.b.c''" by (simp add: plain_elem_def)
  have j: "path_Join [''a.b.c'', ''block-cn''] = ''a.b.c/block-cn''"
    "path_Join [''a.b.c'', ''block-cn-html''] = ''a.b.c/block-cn-html''"
    by (simp_all add: path_Join_plain plain_elem_def)
  have g: "strings_HasPrefix (unescape_slashes github_io) github_io"
    by (simp add: github_io_def strings_HasPrefix_def)
  show ?thesis
    unfolding cloudflare_accepts [OF p]
    by (simp add: demo_api_def validApiRule_def validHtmlRule_def ValidPageRule_def j g pair_mset ex_disj_distrib conj_disj_distribR)
qed

end
