(* ===== verification/Api.thy ===== *)
theory Api
  imports Passages Procfs Cdn
begin

text \<open>
  Registration at SweetLisa (\<open>api/host.go\<close>, \<open>api/api.go\<close>), and the part of
  \<open>register\<close> and \<open>registerBackground\<close> the four servers share. The network, the JSON codec, the
  contents of \<open>/proc/net/dev\<close>, the clock and the configuration are one record of the
  environment; a result \<open>None\<close> is a panic.
\<close>

section \<open>Requests\<close>

record registration =
  rg_Ticket :: string
  rg_Name :: string
  rg_Hosts :: string
  rg_Port :: int
  rg_Argument :: argument
  rg_BandwidthLimit :: reported_limit
  rg_NoRelay :: bool

record http_request =
  rq_Method :: string
  rq_Host :: string
  rq_Path :: string
  rq_Header :: "(string \<times> string) list"
  rq_Body :: bytes

record http_response =
  rs_StatusCode :: int
  rs_Status :: string
  rs_Body :: bytes

text \<open>The body of the answer: code, data and message.\<close>

type_synonym resp_body = "string \<times> passage list \<times> string"

record env =
  env_cdns :: registry
  env_lookupIP :: "string \<Rightarrow> go_err + bytes list"
  env_lookupTXT :: "string \<Rightarrow> string list"
  env_marshal :: "registration \<Rightarrow> go_err + bytes"
  env_newRequest :: "string \<Rightarrow> string \<Rightarrow> go_err option"
  env_http :: "http_request \<Rightarrow> go_err + http_response"
  env_decode :: "bytes \<Rightarrow> go_err + resp_body"
  env_procfs :: "go_err + string"
  env_now :: int
  env_params :: Params

definition TrustedHost :: "env \<Rightarrow> string \<Rightarrow> string \<Rightarrow> (string \<times> go_err option) option" where
  "TrustedHost w host validateToken =
     (if john_DoNotValidateCDN (params_John (env_params w)) then Some (''<DoNotValidateCDN=true>'', None)
      else let host1 = strings_TrimSuffix host ''.''
           in if CHR '':'' \<in> set host1
              then (case net_SplitHostPort host1 of
                      Inl e \<Rightarrow> Some ([], Some (Errorf (addr_err_msg e)))
                    | Inr (h, _) \<Rightarrow> cdn_Validate (env_cdns w) (env_lookupIP w) h validateToken)
              else cdn_Validate (env_cdns w) (env_lookupIP w) host1 validateToken)"

text \<open>What \<open>Register\<close> asks SweetLisa, and what it takes from the answer.\<close>

definition register_request :: "string \<Rightarrow> registration \<Rightarrow> bytes \<Rightarrow> http_request" where
  "register_request endpointHost info b =
     \<lparr>rq_Method = ''POST'', rq_Host = endpointHost,
      rq_Path = path_Join [''api'', ''ticket'', rg_Ticket info, ''register''],
      rq_Header = [(''Content-Type'', ''application/json''), (''User-Agent'', ''BitterJohn'')], rq_Body = b\<rparr>"

definition register_answer :: "env \<Rightarrow> string \<Rightarrow> http_response \<Rightarrow> string \<times> passage list \<times> go_err option" where
  "register_answer w cdnNames resp =
     (if rs_StatusCode resp \<noteq> 200 then
        ([], [], Some (Errorf (''SweetLisa responsed with '' @ rs_Status resp @ '': '' @ of_bytes (rs_Body resp))))
      else case env_decode w (rs_Body resp) of
             Inl e \<Rightarrow> (cdnNames, [], Some e)
           | Inr (code, data, message) \<Rightarrow>
               if code \<noteq> ''SUCCESS'' then (cdnNames, [], Some (Errorf message))
               else (cdnNames, map (\<lambda>p. p\<lparr>pa_Manager := False\<rparr>) data, None))"

definition api_Register :: "env \<Rightarrow> string \<Rightarrow> string \<Rightarrow> registration \<Rightarrow>
    (string \<times> passage list \<times> go_err option) option" where
  "api_Register w endpointHost validateToken info =
     Option.bind (TrustedHost w endpointHost validateToken) (\<lambda>(cdnNames, err).
       Some (case err of
         Some e \<Rightarrow> (cdnNames, [], Some e)
       | None \<Rightarrow>
           (case env_marshal w info of
              Inl e \<Rightarrow> (cdnNames, [], Some e)
            | Inr b \<Rightarrow>
                let req = register_request endpointHost info b
                in case env_newRequest w (rq_Host req) (rq_Path req) of
                     Some e \<Rightarrow> (cdnNames, [], Some e)
                   | None \<Rightarrow>
                       (case env_http w req of
                          Inl e \<Rightarrow> (cdnNames, [], Some e)
                        | Inr resp \<Rightarrow> register_answer w cdnNames resp))))"

section \<open>Registering and keeping registered\<close>

text \<open>The first passage of a manager, the zero passage if there is none.\<close>

definition the_manager :: "passage list \<Rightarrow> passage" where
  "the_manager users = (case find pa_Manager users of None \<Rightarrow> zero_passage | Some u \<Rightarrow> u)"

text \<open>\<open>register\<close> up to the point where the answer is used: the token from the DNS, the
  bandwidth limit, the request.\<close>

definition register_call :: "env \<Rightarrow> server_argument \<Rightarrow> argument \<Rightarrow> (go_err + passage list) option" where
  "register_call w arg a =
     (let host = lisa_Host (params_Lisa (env_params w));
          t = env_lookupTXT w (''cdn-validate.'' @ host);
          validateToken = (if 0 < length t then t ! 0 else [])
      in Option.bind (GenerateBandwidthLimit (john_BandwidthLimit (params_John (env_params w))) (env_procfs w)) (\<lambda>bw.
         case bw of
           Inl e \<Rightarrow> Some (Inl e)
         | Inr limit \<Rightarrow>
             map_option (\<lambda>(cdnNames, users, err). case err of Some e \<Rightarrow> Inl e | None \<Rightarrow> Inr users)
               (api_Register w host validateToken
                  \<lparr>rg_Ticket = sarg_Ticket arg, rg_Name = sarg_ServerName arg, rg_Hosts = sarg_Hostnames arg,
                   rg_Port = sarg_Port arg, rg_Argument = a, rg_BandwidthLimit = limit,
                   rg_NoRelay = sarg_NoRelay arg\<rparr>)))"

definition LostThreshold :: int where
  "LostThreshold = seconds 300"

definition minInterval :: int where
  "minInterval = seconds 2"

text \<open>The interval after an attempt to register.\<close>

definition next_interval :: "bool \<Rightarrow> int \<Rightarrow> int" where
  "next_interval failed interval =
     (if failed then (let i = interval * 2 in if seconds 600 < i then seconds 600 else i)
      else seconds 2)"

end
