(* ===== verification/Dial.thy ===== *)
theory Dial
  imports Passages Ip_Mtu
begin

text \<open>
  Reaching the next hop: the header for the protocol of an outgoing argument
  (\<open>server/header.go\<close>), the dialer cache (\<open>server/protocol.go\<close>) and the relays
  (\<open>server/tcp.go\<close>, \<open>server/udp.go\<close>). The names and flags the protocol library defines, the
  base64 decoder, the hash and the dialers of the library are arguments.
\<close>

section \<open>The header\<close>

record proto_names =
  pn_Shadowsocks :: string
  pn_VMessTCP :: string
  pn_VMessTlsGrpc :: string
  pn_Juicity :: string
  pn_UsePacketAddr :: int
  pn_CmdPing :: byte
  pn_CmdSyncPassages :: byte

definition ProtocolAnyTLS :: string where
  "ProtocolAnyTLS = ''anytls''"

definition JuicityDomain :: string where
  "JuicityDomain = ''software.download.prss.microsoft.com''"

text \<open>The fields of \<open>tls.Config\<close> the program sets; the peer verification of the juicity header
  is given by the hash it pins.\<close>

record tls_config =
  tc_NextProtos :: "string list"
  tc_MinVersion :: nat
  tc_ServerName :: string
  tc_InsecureSkipVerify :: bool
  tc_Pinned :: "bytes option"

definition VersionTLS12 :: nat where "VersionTLS12 = 0x0303"
definition VersionTLS13 :: nat where "VersionTLS13 = 0x0304"

record header =
  hd_ProxyAddress :: string
  hd_SNI :: string
  hd_Feature1 :: string
  hd_Cipher :: string
  hd_User :: string
  hd_Password :: string
  hd_IsClient :: bool
  hd_TlsConfig :: "tls_config option"
  hd_Flags :: int

text \<open>\<open>VerifyPeerCertificate\<close>: \<open>bytes.Equal\<close> takes nil for the empty slice.\<close>

definition verify_pinned :: "(bytes \<Rightarrow> bytes) \<Rightarrow> bytes \<Rightarrow> bytes list \<Rightarrow> go_err option" where
  "verify_pinned sha256 pinnedHash rawCerts =
     (if (case GenerateCertChainHash sha256 rawCerts of None \<Rightarrow> [] | Some h \<Rightarrow> h) \<noteq> pinnedHash
      then Some (Errorf ''pinned hash of cert chain does not match'') else None)"

definition make_header :: "out_node \<Rightarrow> string \<Rightarrow> string \<Rightarrow> tls_config option \<Rightarrow> int \<Rightarrow> header" where
  "make_header out sni feature1 tlsConfig flags =
     \<lparr>hd_ProxyAddress = joinHostPort (out_Host out) (out_Port out), hd_SNI = sni, hd_Feature1 = feature1,
      hd_Cipher = arg_Method (out_Argument out), hd_User = arg_Username (out_Argument out),
      hd_Password = arg_Password (out_Argument out), hd_IsClient = True, hd_TlsConfig = tlsConfig,
      hd_Flags = flags\<rparr>"

definition anytls_header :: "out_node \<Rightarrow> string \<Rightarrow> header" where
  "anytls_header out sni =
     make_header out sni []
       (Some \<lparr>tc_NextProtos = [], tc_MinVersion = VersionTLS12, tc_ServerName = sni,
              tc_InsecureSkipVerify = True, tc_Pinned = None\<rparr>) 0"

text \<open>The error of \<open>HostToSNI\<close> is dropped for vmess over gRPC, and with it the SNI.\<close>

definition GetHeader :: "proto_names \<Rightarrow> (string \<Rightarrow> go_err + bytes) \<Rightarrow> out_node \<Rightarrow> string \<Rightarrow> go_err + header" where
  "GetHeader pn b64 out lisaHost =
     (let proto = arg_Protocol (out_Argument out); method = arg_Method (out_Argument out)
      in if proto = pn_VMessTlsGrpc pn then
           Inr (make_header out (case HostToSNI (out_Host out) lisaHost of Inl e \<Rightarrow> [] | Inr s \<Rightarrow> s)
                  (SimplyGetParam method ''serviceName'') None (pn_UsePacketAddr pn))
         else if proto = pn_VMessTCP pn then
           Inr (make_header out [] [] None (pn_UsePacketAddr pn))
         else if proto = pn_Juicity pn then
           (case b64 (SimplyGetParam method ''pinned_certchain_sha256'') of
              Inl e \<Rightarrow> Inl (Wrapped ''decode pinned_certchain_sha256'' e)
            | Inr pinnedHash \<Rightarrow>
                Inr (make_header out JuicityDomain ''bbr''
                  (Some \<lparr>tc_NextProtos = [''h3''], tc_MinVersion = VersionTLS13, tc_ServerName = JuicityDomain,
                         tc_InsecureSkipVerify = True, tc_Pinned = Some pinnedHash\<rparr>) 0))
         else if proto = ProtocolAnyTLS then
           (let sni = SimplyGetParam method ''sni''
            in if sni = [] then
                 (case HostToSNI (out_Host out) lisaHost of
                    Inl e \<Rightarrow> Inl e
                  | Inr s \<Rightarrow> Inr (anytls_header out s))
               else Inr (anytls_header out sni))
         else Inr (make_header out [] [] None 0))"

section \<open>The dialer cache\<close>

definition ProtocolValid :: "(string \<Rightarrow> bool) \<Rightarrow> string \<Rightarrow> bool" where
  "ProtocolValid valid p \<longleftrightarrow> valid p \<or> p = ProtocolAnyTLS"

text \<open>An interface value of type \<open>netproxy.Dialer\<close>: a dialer of the library, or the wrapper
  object with an address in the heap of wrappers.\<close>

datatype 'd dialer_value = Library 'd | Wrapper nat

record 'd evictableDialer =
  ed_Dialer :: 'd
  ed_deadline :: int

text \<open>\<open>dialerMap\<close> holds addresses of wrappers; the timers are the deadlines of the wrappers.\<close>

record 'd dialers =
  dl_map :: "(string \<times> nat) list"
  dl_heap :: "'d evictableDialer list"

definition no_dialers :: "'d dialers" where
  "no_dialers = \<lparr>dl_map = [], dl_heap = []\<rparr>"

definition evictLifeWindow :: int where
  "evictLifeWindow = seconds 600"

text \<open>\<open>strconv.Itoa\<close> of the flags; \<open>fmt.Sprint\<close> of a text is the text.\<close>

definition itoa_int :: "int \<Rightarrow> string" where
  "itoa_int n = (if n < 0 then CHR ''-'' # itoa (nat (- n)) else itoa (nat n))"

definition dialer_key :: "header \<Rightarrow> string" where
  "dialer_key h =
     strings_Join '':''
       [hd_ProxyAddress h, hd_User h, hd_Password h, hd_Cipher h, hd_SNI h, itoa_int (hd_Flags h), hd_Feature1 h]"

text \<open>\<open>mk\<close> is \<open>protocol.NewDialer\<close> of the library.\<close>

definition NewDialer :: "(string \<Rightarrow> 'd \<Rightarrow> header \<Rightarrow> go_err + 'd) \<Rightarrow> int \<Rightarrow> string \<Rightarrow> 'd \<Rightarrow> header \<Rightarrow>
    'd dialers \<Rightarrow> 'd dialers \<times> (go_err + 'd)" where
  "NewDialer mk now name nextDialer h s =
     (if name = ''juicity'' then
        let key = dialer_key h
        in case map_of (dl_map s) key of
             Some a \<Rightarrow>
               (s\<lparr>dl_heap := (dl_heap s)[a := (dl_heap s ! a)\<lparr>ed_deadline := now + evictLifeWindow\<rparr>]\<rparr>,
                Inr (ed_Dialer (dl_heap s ! a)))
           | None \<Rightarrow>
               (case mk name nextDialer h of
                  Inl e \<Rightarrow> (s, Inl e)
                | Inr d \<Rightarrow>
                    (s\<lparr>dl_map := (key, length (dl_heap s)) # dl_map s,
                       dl_heap := dl_heap s @ [\<lparr>ed_Dialer = d, ed_deadline = now + evictLifeWindow\<rparr>]\<rparr>,
                     Inr d))
      else (s, mk name nextDialer h))"

text \<open>The timer of the wrapper made for \<open>key\<close> and \<open>dialer\<close> runs out: \<open>ed == dialer\<close>
  compares the wrapper with the dialer of the library inside it.\<close>

definition evict_timer :: "string \<Rightarrow> 'd \<Rightarrow> 'd dialers \<Rightarrow> 'd dialers" where
  "evict_timer key dialer s =
     (case map_of (dl_map s) key of
        Some a \<Rightarrow> if Wrapper a = Library dialer
                  then s\<lparr>dl_map := filter (\<lambda>e. fst e \<noteq> key) (dl_map s)\<rparr> else s
      | None \<Rightarrow> s)"

section \<open>Relays\<close>

text \<open>\<open>RelayTCP\<close>, given the results of the two copies (from the remote to the local side, and
  back): the error of the first counts first, and both are waited for.\<close>

definition RelayTCP :: "go_err option \<Rightarrow> go_err option \<Rightarrow> go_err option" where
  "RelayTCP e eCh = (if e \<noteq> None then e else eCh)"

definition DefaultNatTimeout :: int where "DefaultNatTimeout = seconds 180"
definition DnsQueryTimeout :: int where "DnsQueryTimeout = seconds 17"

definition SelectTimeout :: "(bytes \<Rightarrow> bool) \<Rightarrow> bytes \<Rightarrow> int" where
  "SelectTimeout isDns packet = (if \<not> isDns packet then DefaultNatTimeout else DnsQueryTimeout)"

text \<open>The buffer of \<open>RelayUDP\<close> has the MTU of the local address; a packet that is longer is cut
  off by the read. \<open>src\<close> is the packets the source yields before its error, \<open>wr\<close> the write to
  the destination.\<close>

definition relay_mtu :: "mtu_trie \<Rightarrow> bytes option \<Rightarrow> int" where
  "relay_mtu t laddr = (case laddr of Some ip \<Rightarrow> GetMTU t ip | None \<Rightarrow> 1500)"

fun relay_packets :: "('w \<Rightarrow> bytes \<Rightarrow> 'a \<Rightarrow> 'w \<times> go_err option) \<Rightarrow> nat \<Rightarrow> 'w \<Rightarrow> (bytes \<times> 'a) list \<Rightarrow> go_err \<Rightarrow> 'w \<times> go_err" where
  "relay_packets wr n w [] end_err = (w, end_err)"
| "relay_packets wr n w ((p, a) # ps) end_err =
     (case wr w (take n p) a of
        (w', Some e) \<Rightarrow> (w', e)
      | (w', None) \<Rightarrow> relay_packets wr n w' ps end_err)"

definition RelayUDP :: "mtu_trie \<Rightarrow> bytes option \<Rightarrow> ('w \<Rightarrow> bytes \<Rightarrow> 'l \<Rightarrow> 'w \<times> go_err option) \<Rightarrow> 'l \<Rightarrow>
    'w \<Rightarrow> (bytes \<times> 'a) list \<Rightarrow> go_err \<Rightarrow> 'w \<times> go_err" where
  "RelayUDP t localAddr wr laddr w src end_err =
     relay_packets (\<lambda>w p a. wr w p laddr) (nat (relay_mtu t localAddr)) w src end_err"

definition RelayUDPToConn :: "('w \<Rightarrow> bytes \<Rightarrow> string \<Rightarrow> 'w \<times> go_err option) \<Rightarrow> ('a \<Rightarrow> string) \<Rightarrow> nat \<Rightarrow>
    'w \<Rightarrow> (bytes \<times> 'a) list \<Rightarrow> go_err \<Rightarrow> 'w \<times> go_err" where
  "RelayUDPToConn wr show bufSize w src end_err =
     relay_packets (\<lambda>w p a. wr w p (show a)) bufSize w src end_err"

section \<open>What the cache returns\<close>

text \<open>The cache is used by calls of \<open>NewDialer\<close> and by timers that run out.\<close>

datatype 'd cache_event = Call int string 'd header | TimerFires string 'd

fun cache_step :: "(string \<Rightarrow> 'd \<Rightarrow> header \<Rightarrow> go_err + 'd) \<Rightarrow> 'd cache_event \<Rightarrow> 'd dialers \<Rightarrow> 'd dialers" where
  "cache_step mk (Call now name nx h) s = fst (NewDialer mk now name nx h s)"
| "cache_step mk (TimerFires key d) s = evict_timer key d s"

definition cache_run :: "(string \<Rightarrow> 'd \<Rightarrow> header \<Rightarrow> go_err + 'd) \<Rightarrow> 'd cache_event list \<Rightarrow> 'd dialers \<Rightarrow> 'd dialers" where
  "cache_run mk es s = foldl (\<lambda>s e. cache_step mk e s) s es"

lemma evict_timer_keeps [simp]: "evict_timer key d s = s"
  by (simp add: evict_timer_def split: option.split)

text \<open>Every entry is a dialer the library made for a header with this key.\<close>

definition cache_inv :: "(string \<Rightarrow> 'd \<Rightarrow> header \<Rightarrow> go_err + 'd) \<Rightarrow> header set \<Rightarrow> 'd dialers \<Rightarrow> bool" where
  "cache_inv mk H s \<longleftrightarrow>
     (\<forall>k a. map_of (dl_map s) k = Some a \<longrightarrow> a < length (dl_heap s) \<and>
        (\<exists>nx h. h \<in> H \<and> dialer_key h = k \<and> mk ''juicity'' nx h = Inr (ed_Dialer (dl_heap s ! a))))"

lemma cache_inv_call:
  assumes "cache_inv mk H s" and "h \<in> H"
  shows "cache_inv mk H (fst (NewDialer mk now name nx h s))"
proof (cases "name = ''juicity''")
  case True
  show ?thesis
  proof (cases "map_of (dl_map s) (dialer_key h)")
    case (Some a)
    have "ed_Dialer ((dl_heap s)[a := (dl_heap s ! a)\<lparr>ed_deadline := t\<rparr>] ! b) = ed_Dialer (dl_heap s ! b)" for b t
      by (cases "a < length (dl_heap s)"; cases "a = b") (simp_all add: list_update_beyond)
    with assms Some True show ?thesis by (simp add: NewDialer_def cache_inv_def)
  next
    case None
    show ?thesis
    proof (cases "mk name nx h")
      case (Inr d)
      have "\<exists>nx h'. h' \<in> H \<and> dialer_key h' = dialer_key h \<and> mk ''juicity'' nx h' = Inr d"
        using Inr True assms(2) by blast
      with None Inr True assms(1) show ?thesis
        by (fastforce simp: NewDialer_def cache_inv_def nth_append)
    qed (use assms None True in \<open>simp add: NewDialer_def\<close>)
  qed
qed (use assms in \<open>simp add: NewDialer_def\<close>)

definition headers_of :: "'d cache_event list \<Rightarrow> header set" where
  "headers_of es = {h. \<exists>now name nx. Call now name nx h \<in> set es}"

lemma cache_inv_run:
  "cache_inv mk H s \<Longrightarrow> headers_of es \<subseteq> H \<Longrightarrow> cache_inv mk H (cache_run mk es s)"
proof (induction es arbitrary: s)
  case (Cons e es)
  have "cache_inv mk H (cache_step mk e s)"
  proof (cases e)
    case (Call now name nx h)
    with Cons.prems(2) have "h \<in> H" unfolding headers_of_def by (metis (mono_tags, lifting) list.set_intros(1) mem_Collect_eq subsetD)
    with Cons.prems(1) Call show ?thesis by (simp add: cache_inv_call)
  qed (use Cons.prems(1) in simp)
  moreover have "headers_of es \<subseteq> H" using Cons.prems(2) by (auto simp: headers_of_def)
  ultimately show ?case using Cons.IH by (simp add: cache_run_def)
qed (simp add: cache_run_def)

lemma cache_step_keeps:
  assumes "map_of (dl_map s) k = Some a" and "a < length (dl_heap s)"
  shows "map_of (dl_map (cache_step mk e s)) k = Some a \<and> a < length (dl_heap (cache_step mk e s)) \<and>
    ed_Dialer (dl_heap (cache_step mk e s) ! a) = ed_Dialer (dl_heap s ! a)"
proof (cases e)
  case (Call now name nx h)
  show ?thesis
  proof (cases "map_of (dl_map s) (dialer_key h)")
    case (Some b)
    have "ed_Dialer ((dl_heap s)[b := (dl_heap s ! b)\<lparr>ed_deadline := t\<rparr>] ! a) = ed_Dialer (dl_heap s ! a)" for t
      using assms(2) by (cases "a = b") simp_all
    with assms Some Call show ?thesis by (simp add: NewDialer_def)
  next
    case None
    with assms Call show ?thesis
      by (auto simp: NewDialer_def nth_append split: sum.split)
  qed
qed (use assms in simp)

lemma cache_run_keeps:
  assumes "map_of (dl_map s) k = Some a" and "a < length (dl_heap s)"
  shows "map_of (dl_map (cache_run mk es s)) k = Some a \<and>
    ed_Dialer (dl_heap (cache_run mk es s) ! a) = ed_Dialer (dl_heap s ! a)"
  using assms
proof (induction es arbitrary: s)
  case (Cons e es)
  from cache_step_keeps [OF Cons.prems, of mk e] Cons.IH [of "cache_step mk e s"]
  show ?case by (simp add: cache_run_def)
qed (simp add: cache_run_def)

text \<open>Texts without colons can be read off the end of a joined text.\<close>

lemma append_colon_inject:
  assumes "CHR '':'' \<notin> set a" and "CHR '':'' \<notin> set b" and "x @ CHR '':'' # a = y @ CHR '':'' # b"
  shows "x = y \<and> a = b"
proof -
  from arg_cong [OF assms(3), of "strings_Cut CHR '':'' \<circ> rev"]
  have "strings_Cut CHR '':'' (rev a @ CHR '':'' # rev x) = strings_Cut CHR '':'' (rev b @ CHR '':'' # rev y)"
    by simp
  moreover have "strings_Cut CHR '':'' (rev a @ CHR '':'' # rev x) = Some (rev a, rev x)"
    "strings_Cut CHR '':'' (rev b @ CHR '':'' # rev y) = Some (rev b, rev y)"
    using assms(1,2) by (simp_all add: strings_Cut_Some)
  ultimately show ?thesis by simp
qed

definition colon_free :: "header \<Rightarrow> bool" where
  "colon_free h \<longleftrightarrow> list_all (\<lambda>s. CHR '':'' \<notin> set s) [hd_User h, hd_Password h, hd_Cipher h, hd_SNI h, hd_Feature1 h]"

lemma itoa_int_no_colon: "CHR '':'' \<notin> set (itoa_int n)"
proof -
  have "CHR '':'' \<notin> set (itoa m)" for m
    using itoa_digits [of _ m] by (auto simp: is_digit_def dest: itoa_digits)
  then show ?thesis by (simp add: itoa_int_def)
qed

lemma dialer_key_inject:
  assumes "colon_free h" and "colon_free h'" and "dialer_key h = dialer_key h'"
  shows "hd_ProxyAddress h = hd_ProxyAddress h' \<and> hd_User h = hd_User h' \<and> hd_Password h = hd_Password h' \<and>
    hd_Cipher h = hd_Cipher h' \<and> hd_SNI h = hd_SNI h' \<and> itoa_int (hd_Flags h) = itoa_int (hd_Flags h') \<and>
    hd_Feature1 h = hd_Feature1 h'"
proof -
  have k: "dialer_key h =
    (((((hd_ProxyAddress h @ CHR '':'' # hd_User h) @ CHR '':'' # hd_Password h) @ CHR '':'' # hd_Cipher h) @
      CHR '':'' # hd_SNI h) @ CHR '':'' # itoa_int (hd_Flags h)) @ CHR '':'' # hd_Feature1 h" for h
    by (simp add: dialer_key_def)
  have c: "CHR '':'' \<notin> set (hd_User g) \<and> CHR '':'' \<notin> set (hd_Password g) \<and> CHR '':'' \<notin> set (hd_Cipher g) \<and>
      CHR '':'' \<notin> set (hd_SNI g) \<and> CHR '':'' \<notin> set (hd_Feature1 g)" if "g = h \<or> g = h'" for g
    using that assms(1,2) by (auto simp: colon_free_def)
  note c = c [of h, simplified] c [of h', simplified]
  have 1: "hd_Feature1 h = hd_Feature1 h'" and e1: "((((hd_ProxyAddress h @ CHR '':'' # hd_User h) @
      CHR '':'' # hd_Password h) @ CHR '':'' # hd_Cipher h) @ CHR '':'' # hd_SNI h) @ CHR '':'' # itoa_int (hd_Flags h) =
    ((((hd_ProxyAddress h' @ CHR '':'' # hd_User h') @
      CHR '':'' # hd_Password h') @ CHR '':'' # hd_Cipher h') @ CHR '':'' # hd_SNI h') @ CHR '':'' # itoa_int (hd_Flags h')"
    using append_colon_inject [OF _ _ assms(3) [unfolded k]] c by blast+
  note e2 = append_colon_inject [OF itoa_int_no_colon itoa_int_no_colon e1]
  note e3 = append_colon_inject [OF _ _ conjunct1 [OF e2]]
  note e4 = append_colon_inject [OF _ _ conjunct1 [OF e3]]
  note e5 = append_colon_inject [OF _ _ conjunct1 [OF e4]]
  note e6 = append_colon_inject [OF _ _ conjunct1 [OF e5]]
  show ?thesis using "1" e2 e3 e4 e5 e6 c by blast
qed

lemma cached_call:
  assumes "map_of (dl_map s) (dialer_key h) = Some a"
  shows "snd (NewDialer mk now ''juicity'' nx h s) = Inr (ed_Dialer (dl_heap s ! a))"
  using assms by (simp add: NewDialer_def)

lemma call_caches:
  assumes "cache_inv mk H s" and "h \<in> H" and "NewDialer mk now ''juicity'' nx h s = (s', Inr d)"
  shows "\<exists>a. map_of (dl_map s') (dialer_key h) = Some a \<and> a < length (dl_heap s') \<and> ed_Dialer (dl_heap s' ! a) = d"
proof (cases "map_of (dl_map s) (dialer_key h)")
  case (Some a)
  then have "a < length (dl_heap s)" using assms(1) by (simp add: cache_inv_def)
  with Some assms(3) show ?thesis by (auto simp: NewDialer_def)
qed (use assms(3) in \<open>auto simp: NewDialer_def nth_append split: sum.splits\<close>)

lemma cache_inv_empty: "cache_inv mk H no_dialers"
  by (simp add: cache_inv_def no_dialers_def)

section \<open>Properties\<close>


definition demo_header :: header where
  "demo_header = \<lparr>hd_ProxyAddress = ''a:1'', hd_SNI = ''s'', hd_Feature1 = ''bbr'', hd_Cipher = ''c'', hd_User = ''u'',
     hd_Password = ''p'', hd_IsClient = True, hd_TlsConfig = None, hd_Flags = 0\<rparr>"

definition demo_mk :: "string \<Rightarrow> nat \<Rightarrow> header \<Rightarrow> go_err + nat" where
  "demo_mk name nx h = Inr (nx + length (hd_Password h))"


text \<open>The eviction window has no effect: once a dialer is cached it is returned for its header
  after every further use of the cache, however many timers have run out in between (the timer compares
  the wrapper it should evict with the dialer inside it).\<close>

theorem dialer_never_evicted:
  assumes "NewDialer mk now ''juicity'' nx h (cache_run mk es no_dialers) = (s', Inr d)"
  shows "snd (NewDialer mk now' ''juicity'' nx' h (cache_run mk (fs @ [TimerFires (dialer_key h) d]) s')) = Inr d"
proof -
  let ?H = "insert h (headers_of es)"
  have inv: "cache_inv mk ?H (cache_run mk es no_dialers)"
    by (rule cache_inv_run [OF cache_inv_empty]) blast
  from call_caches [OF inv _ assms] obtain a where
    a: "map_of (dl_map s') (dialer_key h) = Some a" "a < length (dl_heap s')" "ed_Dialer (dl_heap s' ! a) = d" by blast
  from cache_run_keeps [OF a(1,2), of mk "fs @ [TimerFires (dialer_key h) d]"] a(3) show ?thesis
    by (simp add: cached_call)
qed

theorem dialer_never_evicted_witness:
  "snd (NewDialer demo_mk 700000000000 ''juicity'' 9 demo_header
     (cache_run demo_mk ([] @ [TimerFires (dialer_key demo_header) 6])
        (fst (NewDialer demo_mk 0 ''juicity'' 5 demo_header no_dialers)))) = Inr 6"
proof (rule dialer_never_evicted)
  show "NewDialer demo_mk 0 ''juicity'' 5 demo_header (cache_run demo_mk [] no_dialers) =
      (fst (NewDialer demo_mk 0 ''juicity'' 5 demo_header no_dialers), Inr 6)"
    by (simp add: cache_run_def NewDialer_def no_dialers_def demo_mk_def) (simp add: demo_header_def)
qed

end
