(* ===== verification/Handler.thy ===== *)
theory Handler
  imports Wire Api Dial
begin

text \<open>
  What the handlers of the four servers share: the choice of the dialer for a passage, the body of a
  manager's message, and the results of dialing and relaying. The environment is extended by the
  codecs of the messages and the dialers of the protocol library; \<open>gen\<close> yields the random
  texts a server generates, one for each position. The locale is the background registration as every
  server has it.
\<close>

record 'd world = env +
  wd_names :: proto_names
  wd_b64 :: "string \<Rightarrow> go_err + bytes"
  wd_mk :: "string \<Rightarrow> 'd \<Rightarrow> header \<Rightarrow> go_err + 'd"
  wd_hash :: "argument \<Rightarrow> string"
  wd_gen :: "nat \<Rightarrow> string"
  wd_marshalPing :: "reported_limit \<Rightarrow> go_err + bytes"
  wd_passages :: "bytes \<Rightarrow> go_err + passage list"

text \<open>The dialer of the server, or the one for the outgoing argument of the passage over it.\<close>

definition passage_dialer :: "'d world \<Rightarrow> 'd \<Rightarrow> 'a passage_scheme \<Rightarrow> 'd dialers \<Rightarrow> 'd dialers \<times> (go_err + 'd)" where
  "passage_dialer w dialer p cache =
     (case pa_Out p of
        None \<Rightarrow> (cache, Inr dialer)
      | Some out \<Rightarrow>
          (case GetHeader (wd_names w) (wd_b64 w) out (lisa_Host (params_Lisa (env_params w))) of
             Inl e \<Rightarrow> (cache, Inl e)
           | Inr h \<Rightarrow> NewDialer (wd_mk w) (env_now w) (arg_Protocol (out_Argument out)) dialer h cache))"

text \<open>The passages of a message are users.\<close>

definition user_passages :: "passage list \<Rightarrow> passage list" where
  "user_passages ps = map (\<lambda>p. p\<lparr>pa_Manager := False\<rparr>) ps"

text \<open>The answer to a ping.\<close>

definition ping_answer :: "'d world \<Rightarrow> (go_err + bytes) option" where
  "ping_answer w =
     map_option (\<lambda>r. case r of Inl e \<Rightarrow> Inl e | Inr limit \<Rightarrow> wd_marshalPing w limit)
       (GenerateBandwidthLimit (john_BandwidthLimit (params_John (env_params w))) (env_procfs w))"

definition illegal_message :: go_err where
  "illegal_message = Errorf ''handleMsg: illegal message received from a non-manager passage''"

definition manager_abuse :: go_err where
  "manager_abuse = Wrapped ''manager key is abused for a non-cmd connection'' ErrPassageAbuse"

definition unexpected_cmd :: go_err where
  "unexpected_cmd = Wrapped ''unexpected metadata cmd type'' ErrFailAuth"

text \<open>What is left of a connection that failed to authenticate once \<open>MaxDrainN\<close> bytes of it were
  discarded, all for \<open>-1\<close>.\<close>

definition drain :: "'d world \<Rightarrow> bytes \<Rightarrow> bytes" where
  "drain w conn =
     (let n = john_MaxDrainN (params_John (env_params w)) in if n = - 1 then [] else drop (nat n) conn)"

text \<open>The command of a manager, in the servers that read its body from the stream of the message:
  a ping stamps the contact, a list of passages is synchronised. The answer is bytes.\<close>

definition manager_command :: "'d world \<Rightarrow> (int \<Rightarrow> 's \<Rightarrow> 's) \<Rightarrow>
    (passage list \<Rightarrow> 's \<Rightarrow> ('s \<times> go_err option) option) \<Rightarrow> byte \<Rightarrow> bytes \<Rightarrow> 's \<Rightarrow>
    ('s \<times> (go_err + bytes)) option" where
  "manager_command w setLastAlive sync cmd reqBody s =
     (if cmd = pn_CmdPing (wd_names w) then
        (case readFull 4 reqBody of
           Inl e \<Rightarrow> Some (s, Inl e)
         | Inr _ \<Rightarrow> map_option (\<lambda>resp. (setLastAlive (env_now w) s, resp)) (ping_answer w))
      else if cmd = pn_CmdSyncPassages (wd_names w) then
        (case wd_passages w reqBody of
           Inl e \<Rightarrow> Some (s, Inl e)
         | Inr ps \<Rightarrow> map_option (\<lambda>(s1, err). (s1, case err of Some e \<Rightarrow> Inl e | None \<Rightarrow> Inr (to_bytes ''OK'')))
                       (sync (user_passages ps) s))
      else Some (s, Inl unexpected_cmd))"

text \<open>The metadata the protocol library decodes from the head of a connection.\<close>

record metadata =
  md_IsMsg :: bool
  md_Cmd :: byte
  md_LenMsgBody :: nat
  md_Network :: string
  md_Hostname :: string
  md_Port :: u16

definition md_target :: "metadata \<Rightarrow> string" where
  "md_target m = joinHostPort (md_Hostname m) (itoa (unat (md_Port m)))"

definition not_for_message :: go_err where
  "not_for_message = Errorf ''handleMsg: this connection is not for message''"

text \<open>\<open>handleMsg\<close> where the body and the answer are preceded by their length.\<close>

definition framed_handleMsg :: "'d world \<Rightarrow> (int \<Rightarrow> 's \<Rightarrow> 's) \<Rightarrow>
    (passage list \<Rightarrow> 's \<Rightarrow> ('s \<times> go_err option) option) \<Rightarrow> metadata \<Rightarrow> bool \<Rightarrow> bytes \<Rightarrow> writer \<Rightarrow> 's \<Rightarrow>
    ('s \<times> writer \<times> go_err option) option" where
  "framed_handleMsg w setLastAlive sync reqMetadata isManager conn out s =
     (if \<not> isManager then Some (s, out, Some illegal_message)
      else if \<not> md_IsMsg reqMetadata then Some (s, out, Some not_for_message)
      else case readFull 4 conn of
             Inl e \<Rightarrow> Some (s, out, Some e)
           | Inr (bufLen, r1) \<Rightarrow>
               map_option (\<lambda>(s1, r).
                   case r of
                     Inl e \<Rightarrow> (s1, out, Some e)
                   | Inr resp \<Rightarrow>
                       (case goWrite out (putUint32 (word_of_nat (length resp)) @ resp) of (out', err) \<Rightarrow> (s1, out', err)))
                 (manager_command w setLastAlive sync (md_Cmd reqMetadata) (take (unat (uint32 bufLen)) r1) s))"

text \<open>What the stamp and the synchronisation keep, every message keeps.\<close>

lemma framed_handleMsg_keeps:
  assumes "framed_handleMsg w setLastAlive sync m isManager conn out s = Some (s', out', e)" and "P s"
    and "\<And>t s. P s \<Longrightarrow> P (setLastAlive t s)"
    and "\<And>ps s s' e. P s \<Longrightarrow> sync ps s = Some (s', e) \<Longrightarrow> P s'"
  shows "P s'"
proof -
  have "P s1" if "manager_command w setLastAlive sync cmd body s = Some (s1, r)" for cmd body s1 r
    using that assms(2-4) by (auto simp: manager_command_def split: if_splits sum.splits)
  with assms(1,2) show ?thesis
    by (auto simp: framed_handleMsg_def split: if_splits sum.split_asm prod.split_asm) (metis old.sum.exhaust)
qed

section \<open>Message bodies\<close>

text \<open>A body is its length in four bytes and its bytes (\<open>readManagerBody\<close> and
  \<open>writeManagerBody\<close> of the anytls server).\<close>

definition readManagerBody :: "bytes \<Rightarrow> go_err + bytes \<times> bytes" where
  "readManagerBody r =
     ebind (readFull 4 r) (\<lambda>(lenBuf, r1). readFull (unat (uint32 lenBuf)) r1)"

definition writeManagerBody :: "writer \<Rightarrow> bytes \<Rightarrow> writer \<times> go_err option" where
  "writeManagerBody w body =
     (case goWrite w (putUint32 (word_of_nat (length body))) of
        (w1, Some e) \<Rightarrow> (w1, Some e)
      | (w1, None) \<Rightarrow> goWrite w1 body)"

definition body_enc :: "bytes \<Rightarrow> bytes" where
  "body_enc body = putUint32 (word_of_nat (length body)) @ body"

interpretation bodies: stream_codec writeManagerBody readManagerBody body_enc
  "\<lambda>b. length b < 2 ^ 32" "\<lambda>b. b"
proof unfold_locales
  fix x s :: bytes and w :: writer
  assume x: "length x < 2 ^ 32"
  show "readManagerBody (body_enc x @ s) = Inr (x, s)"
    using x by (simp add: readManagerBody_def body_enc_def unat_of_nat_u32)
  assume "w_budget w = None"
  then show "writeManagerBody w x = (w\<lparr>w_out := w_out w @ body_enc x\<rparr>, None)"
    by (simp add: writeManagerBody_def body_enc_def)
next
  fix s y r z :: bytes
  assume "readManagerBody s = Inr (y, r)"
  then obtain l r1 where l: "readFull 4 s = Inr (l, r1)" "readFull (unat (uint32 l)) r1 = Inr (y, r)"
    by (auto simp: readManagerBody_def ebind_eq_Inr)
  from readFull_mono [OF l(1)] readFull_mono [OF l(2)]
  show "readManagerBody (s @ z) = Inr (y, r @ z)" by (simp add: readManagerBody_def)
  from readFull_InrD [OF l(1)] readFull_InrD [OF l(2)] show "length r < length s" by auto
qed (simp add: readManagerBody_def readFull_def)

section \<open>Dialing and relaying\<close>

text \<open>A handler that gets as far as dialing says what it dials and for which stream.\<close>

datatype 'd handled = Returned "go_err option" | Relay 'd string string

text \<open>The result of the dial and, if it succeeded, of the two copies. A time-out is no error of the
  handler, and where \<open>eof_ok\<close> neither is the end of the stream.\<close>

definition relay_result :: "bool \<Rightarrow> string \<Rightarrow> go_err + (go_err option \<times> go_err option) \<Rightarrow> go_err option" where
  "relay_result eof_ok msg r =
     (case r of
        Inl e \<Rightarrow> if is_net_timeout e then None else Some e
      | Inr (e1, e2) \<Rightarrow>
          (case RelayTCP e1 e2 of
             None \<Rightarrow> None
           | Some e \<Rightarrow> if (eof_ok \<and> errors_Is e IoEOF) \<or> is_net_timeout e then None
                       else Some (Wrapped msg e)))"

section \<open>Registration in the background\<close>

text \<open>The zero time is long ago.\<close>

definition zeroTime :: int where
  "zeroTime = - seconds (2 ^ 33)"

text \<open>The ticks of the ticker of \<open>registerBackground\<close>, each with the world it finds; the state
  is the current interval and the server.\<close>

fun run_ticks :: "('w \<Rightarrow> 'st \<Rightarrow> 'st option) \<Rightarrow> 'w list \<Rightarrow> 'st \<Rightarrow> 'st option" where
  "run_ticks tick [] st = Some st"
| "run_ticks tick (w # ws) st = Option.bind (tick w st) (run_ticks tick ws)"

lemma run_ticks_append: "run_ticks tick (ws @ vs) st = Option.bind (run_ticks tick ws st) (run_ticks tick vs)"
proof (induction ws arbitrary: st)
  case (Cons w ws)
  then show ?case by (cases "tick w st") simp_all
qed simp

locale keepalive =
  fixes tick :: "'w \<Rightarrow> int \<times> 's \<Rightarrow> (int \<times> 's) option"
    and register :: "'w \<Rightarrow> 's \<Rightarrow> ('s \<times> go_err option) option"
    and alive :: "'s \<Rightarrow> int"
    and time_of :: "'w \<Rightarrow> int"
  assumes tick_alive: "time_of w - alive s < LostThreshold \<Longrightarrow> tick w (i, s) = Some (i, s)"
    and tick_lost: "\<not> time_of w - alive s < LostThreshold \<Longrightarrow>
      tick w (i, s) = map_option (\<lambda>(s', e). (next_interval (e \<noteq> None) i, s')) (register w s)"
begin

lemma interval_bounds:
  assumes "tick w (i, s) = Some (i', s')" and "seconds 2 \<le> i" and "i \<le> seconds 600"
  shows "seconds 2 \<le> i' \<and> i' \<le> seconds 600"
proof (cases "time_of w - alive s < LostThreshold")
  case True
  with assms tick_alive show ?thesis by auto
next
  case False
  from assms(1) tick_lost [OF False] obtain e where "i' = next_interval e i" by auto
  with assms(2,3) show ?thesis by (simp add: next_interval_def seconds_def Let_def)
qed

text \<open>While every registration fails and leaves the last contact as it was, the interval doubles up
  to ten minutes.\<close>

lemma backoff:
  assumes "\<forall>w \<in> set ws. LostThreshold \<le> time_of w - t"
    and "\<forall>w \<in> set ws. \<forall>s. P s \<longrightarrow> alive s = t \<longrightarrow>
      (\<exists>s' e. register w s = Some (s', Some e) \<and> P s' \<and> alive s' = t)"
    and "P s" and "alive s = t"
  shows "\<exists>s'. run_ticks tick ws (min (seconds 600) (seconds (2 ^ k)), s) =
      Some (min (seconds 600) (seconds (2 ^ (k + length ws))), s') \<and> P s' \<and> alive s' = t"
  using assms
proof (induction ws arbitrary: s k)
  case (Cons w ws)
  then obtain s' e where s': "register w s = Some (s', Some e)" "P s'" "alive s' = t" by auto
  have "next_interval True (min (seconds 600) (seconds (2 ^ k))) = min (seconds 600) (seconds (2 ^ Suc k))"
    by (auto simp: next_interval_def seconds_def Let_def min_def)
  moreover have "\<not> time_of w - alive s < LostThreshold" using Cons.prems(1,4) by auto
  ultimately have "tick w (min (seconds 600) (seconds (2 ^ k)), s) =
      Some (min (seconds 600) (seconds (2 ^ Suc k)), s')"
    using tick_lost s'(1) by simp
  with Cons.IH [OF _ _ s'(2,3), of "Suc k"] Cons.prems(1,2) show ?case by simp
qed simp

text \<open>The first registration that succeeds brings the interval back.\<close>

lemma recovers:
  assumes "LostThreshold \<le> time_of w - alive s" and "register w s = Some (s', None)"
  shows "tick w (i, s) = Some (seconds 2, s')"
  using assms tick_lost [of w s i] by (auto simp: next_interval_def)

end

end
