(* ===== verification/Demo_World.thy ===== *)
theory Demo_World
  imports Handler
begin

text \<open>
  One environment, with SweetLisa answering and no validation of CDNs, for the examples of the
  servers.
\<close>

definition demo_user :: "string \<Rightarrow> passage" where
  "demo_user pw = zero_passage\<lparr>pa_In := zero_argument\<lparr>arg_Password := pw\<rparr>\<rparr>"

definition demo_world :: "nat world" where
  "demo_world =
     \<lparr>env_cdns = no_cdns, env_lookupIP = (\<lambda>d. Inr []), env_lookupTXT = (\<lambda>d. []),
      env_marshal = (\<lambda>r. Inr []), env_newRequest = (\<lambda>h p. None),
      env_http = (\<lambda>r. Inr \<lparr>rs_StatusCode = 200, rs_Status = ''200 OK'', rs_Body = []\<rparr>),
      env_decode = (\<lambda>b. Inr (''SUCCESS'', [demo_user ''b''], [])),
      env_procfs = Inl IoEOF, env_now = 10 ^ 12,
      env_params = \<lparr>params_Lisa = \<lparr>lisa_Host = ''l.c''\<rparr>,
        params_John = \<lparr>john_Listen = [], john_Log = \<lparr>log_Level = [], log_File = [], log_MaxDays = 0,
             log_DisableColor = False, log_DisableTimestamp = False\<rparr>,
           john_Protocol = ''anytls'', john_Name = [], john_Hostname = [], john_Port = 0, john_Ticket = [],
           john_BandwidthLimit = \<lparr>bl_Enable = False, bl_ResetDay = 0, bl_UplinkLimitGiB = 0,
             bl_DownlinkLimitGiB = 0, bl_TotalLimitGiB = 0\<rparr>,
           john_NoRelay = False, john_MaxDrainN = -1, john_DoNotValidateCDN = True, john_Only4 = False\<rparr>\<rparr>,
      wd_names = \<lparr>pn_Shadowsocks = ''shadowsocks'', pn_VMessTCP = ''vmess'', pn_VMessTlsGrpc = ''vmess+tls+grpc'',
        pn_Juicity = ''juicity'', pn_UsePacketAddr = 1, pn_CmdPing = 0, pn_CmdSyncPassages = 1\<rparr>,
      wd_b64 = (\<lambda>s. Inr []), wd_mk = demo_mk, wd_hash = arg_Password, wd_gen = (\<lambda>i. ''m''),
      wd_marshalPing = (\<lambda>l. Inr []), wd_passages = (\<lambda>b. Inr [demo_user ''b''])\<rparr>"

lemma demo_user_sel [simp]:
  "pa_Manager (demo_user pw) = False" "arg_Password (pa_In (demo_user pw)) = pw" "pa_Out (demo_user pw) = None"
  by (simp_all add: demo_user_def zero_passage_def)

lemma demo_call: "register_call (env.truncate demo_world) arg a = Some (Inr [demo_user ''b''])"
proof -
  have "p\<lparr>pa_Manager := False\<rparr> = p" if "p = demo_user ''b''" for p
    using that by (simp add: demo_user_def zero_passage_def)
  then show ?thesis
    by (simp add: register_call_def demo_world_def env.truncate_def Let_def GenerateBandwidthLimit_def api_Register_def
        TrustedHost_def register_answer_def)
qed

end
