(* ===== verification/Anytls_Server.thy ===== *)
theory Anytls_Server
  imports Anytls_Uot Demo_World
begin

text \<open>
  The anytls server (\<open>server/anytls/server.go\<close>, \<open>handleUOT\<close> of \<open>uot.go\<close>): the store of
  passages with the map of password hashes, authentication, the handler of a stream, the manager's
  messages, registration, and the life cycle of listener and connections. A stream is the bytes it
  delivers and a writer for the answer; \<open>sha\<close> is SHA-256.
\<close>

section \<open>The server\<close>

record anytls_passage = passage +
  ap_passwordHash :: bytes

record anytls_server =
  as_passages :: "anytls_passage list"
  as_users :: "bytes \<rightharpoonup> anytls_passage"
  as_arg :: server_argument
  as_contention :: bool
  as_lastAlive :: int

text \<open>\<open>NewJohn\<close> sets the argument and the cache of contentions.\<close>

definition anytls_newServer :: anytls_server where
  "anytls_newServer =
     \<lparr>as_passages = [], as_users = Map.empty,
      as_arg = \<lparr>sarg_Ticket = [], sarg_ServerName = [], sarg_Hostnames = [], sarg_Port = 0, sarg_NoRelay = False\<rparr>,
      as_contention = False, as_lastAlive = zeroTime\<rparr>"

section \<open>The store of passages\<close>

text \<open>\<open>LocalizePassages\<close>: every manager gets a random password, all but the first are turned into
  users; the second result is whether there was a manager.\<close>

fun localize_from :: "(nat \<Rightarrow> string) \<Rightarrow> (bytes \<Rightarrow> bytes) \<Rightarrow> nat \<Rightarrow> bool \<Rightarrow> passage list \<Rightarrow>
    anytls_passage list \<times> bool" where
  "localize_from gen sha i found [] = ([], found)"
| "localize_from gen sha i found (p # ps) =
     (let p1 = (if pa_Manager p
                then p\<lparr>pa_In := (pa_In p)\<lparr>arg_Password := gen i\<rparr>, pa_Manager := \<not> found\<rparr> else p);
          (psgs, m) = localize_from gen sha (Suc i) (found \<or> pa_Manager p) ps
      in (passage.extend p1 (anytls_passage.fields (sha (to_bytes (arg_Password (pa_In p1))))) # psgs, m))"

definition LocalizePassages :: "(nat \<Rightarrow> string) \<Rightarrow> (bytes \<Rightarrow> bytes) \<Rightarrow> passage list \<Rightarrow> anytls_passage list \<times> bool" where
  "LocalizePassages gen sha passages = localize_from gen sha 0 False passages"

definition removePassagesFuncLocked :: "(anytls_passage \<Rightarrow> bool) \<Rightarrow> anytls_server \<Rightarrow> anytls_server" where
  "removePassagesFuncLocked f s =
     s\<lparr>as_passages := remove_desc f (length (as_passages s)) (as_passages s)\<rparr>"

definition rebuildUsersLocked :: "anytls_server \<Rightarrow> anytls_server" where
  "rebuildUsersLocked s = s\<lparr>as_users := store_all ap_passwordHash (\<lambda>p. p) (as_passages s) Map.empty\<rparr>"

fun add_local :: "anytls_passage list \<Rightarrow> anytls_server \<Rightarrow> anytls_server" where
  "add_local [] s = s"
| "add_local (p # ps) s =
     (let s1 = (if pa_Manager p then removePassagesFuncLocked pa_Manager s else s)
      in add_local ps (s1\<lparr>as_passages := as_passages s1 @ [p]\<rparr>))"

definition anytls_AddPassages :: "(bytes \<Rightarrow> bytes) \<Rightarrow> (nat \<Rightarrow> string) \<Rightarrow> passage list \<Rightarrow> anytls_server \<Rightarrow>
    (anytls_server \<times> go_err option) option" where
  "anytls_AddPassages sha gen passages s =
     Some (rebuildUsersLocked (add_local (fst (LocalizePassages gen sha passages)) s), None)"

definition anytls_RemovePassages :: "(argument \<Rightarrow> string) \<Rightarrow> (bytes \<Rightarrow> bytes) \<Rightarrow> (nat \<Rightarrow> string) \<Rightarrow> passage list \<Rightarrow> bool \<Rightarrow>
    anytls_server \<Rightarrow> (anytls_server \<times> go_err option) option" where
  "anytls_RemovePassages hash sha gen passages alsoManager s =
     (let keySet = removal_keys hash (fst (LocalizePassages gen sha passages)) alsoManager
      in Some (rebuildUsersLocked (removePassagesFuncLocked (\<lambda>p. hash (pa_In p) \<in> keySet) s), None))"

definition anytls_Passages :: "anytls_server \<Rightarrow> passage list" where
  "anytls_Passages s = map passage.truncate (as_passages s)"

definition anytls_SyncPassages :: "(bytes \<Rightarrow> bytes) \<Rightarrow> 'd world \<Rightarrow> passage list \<Rightarrow> anytls_server \<Rightarrow>
    (anytls_server \<times> go_err option) option" where
  "anytls_SyncPassages sha w passages s =
     SyncPassages (wd_hash w) anytls_Passages (anytls_RemovePassages (wd_hash w) sha (wd_gen w))
       (anytls_AddPassages sha (wd_gen w)) passages s"

section \<open>Registration\<close>

definition anytls_register :: "(bytes \<Rightarrow> bytes) \<Rightarrow> 'd world \<Rightarrow> anytls_server \<Rightarrow> (anytls_server \<times> go_err option) option" where
  "anytls_register sha w s =
     (let manager = the_manager (anytls_Passages s)
      in Option.bind (register_call (env.truncate w) (as_arg s)
             (zero_argument\<lparr>arg_Protocol := ''anytls'', arg_Password := arg_Password (pa_In manager)\<rparr>)) (\<lambda>r.
         case r of
           Inl e \<Rightarrow> Some (s, Some e)
         | Inr users \<Rightarrow> anytls_SyncPassages sha w users (s\<lparr>as_lastAlive := env_now w\<rparr>)))"

definition anytls_reRegister :: "anytls_server \<Rightarrow> anytls_server" where
  "anytls_reRegister s = s\<lparr>as_lastAlive := zeroTime\<rparr>"

text \<open>A tick of \<open>registerBackground\<close>.\<close>

definition anytls_tick :: "(bytes \<Rightarrow> bytes) \<Rightarrow> 'd world \<Rightarrow> int \<times> anytls_server \<Rightarrow> (int \<times> anytls_server) option" where
  "anytls_tick sha w st =
     (let (interval, s) = st
      in if env_now w - as_lastAlive s < LostThreshold then Some (interval, s)
         else map_option (\<lambda>(s', err). (next_interval (err \<noteq> None) interval, s')) (anytls_register sha w s))"

text \<open>\<open>NewJohn\<close>, after the TLS resources were made.\<close>

definition anytls_NewJohn :: "(bytes \<Rightarrow> bytes) \<Rightarrow> 'd world \<Rightarrow> server_argument \<Rightarrow> (go_err + anytls_server) option" where
  "anytls_NewJohn sha w arg =
     (case HostsToSNI (sarg_Hostnames arg) (lisa_Host (params_Lisa (env_params w))) of
        Inl e \<Rightarrow> Some (Inl e)
      | Inr sni \<Rightarrow>
          if strings_TrimSpace sni = [] then Some (Inl (Errorf ''empty anytls TLS SNI''))
          else Option.bind (anytls_AddPassages sha (wd_gen w) [manager_passage]
                  (anytls_newServer\<lparr>as_arg := arg, as_contention := True\<rparr>)) (\<lambda>(s, err).
               case err of Some e \<Rightarrow> Some (Inl e)
               | None \<Rightarrow> map_option (\<lambda>(s', err'). case err' of Some e \<Rightarrow> Inl e | None \<Rightarrow> Inr s')
                           (anytls_register sha w s)))"

section \<open>Connections\<close>

definition anytls_ContentionCheck :: "(argument \<Rightarrow> string) \<Rightarrow> bool \<Rightarrow> bytes \<Rightarrow> anytls_passage \<Rightarrow> go_err option" where
  "anytls_ContentionCheck hash cache thisIP p =
     (if \<not> cache then None
      else let contentionDuration = ProtectTime (passage_Use p)
           in if 0 < contentionDuration \<and> \<not> fst (contention_Check (hash (pa_In p)) contentionDuration thisIP)
              then Some (Wrapped ''contention detected'' ErrPassageAbuse) else None)"

text \<open>\<open>auth\<close>; \<open>io.CopyN\<close> of more bytes than there are is \<open>EOF\<close>.\<close>

definition anytls_auth :: "anytls_server \<Rightarrow> bytes \<Rightarrow> go_err + anytls_passage \<times> bytes" where
  "anytls_auth s conn =
     ebind (readFull 32 conn) (\<lambda>(key, r1).
     ebind (readFull 2 r1) (\<lambda>(lenBuf, r2).
       let paddingLen = unat (uint16 lenBuf)
       in if length r2 < paddingLen then Inl IoEOF
          else case as_users s key of
                 None \<Rightarrow> Inl ErrFailAuth
               | Some p \<Rightarrow> Inr (p, drop paddingLen r2)))"

text \<open>\<open>handleConn\<close> after the TLS handshake, up to the session.\<close>

definition anytls_handleConn :: "(argument \<Rightarrow> string) \<Rightarrow> anytls_server \<Rightarrow> bytes option \<Rightarrow> bytes \<Rightarrow>
    go_err + anytls_passage \<times> bytes" where
  "anytls_handleConn hash s tcpIP conn =
     ebind (anytls_auth s conn) (\<lambda>(p, rest).
       case tcpIP of
         None \<Rightarrow> Inr (p, rest)
       | Some ip \<Rightarrow> (case anytls_ContentionCheck hash (as_contention s) ip p of
                       Some e \<Rightarrow> Inl e | None \<Rightarrow> Inr (p, rest)))"

definition managerHost :: string where
  "managerHost = ''bitterjohn.anytls.manager.arpa''"

definition managerPort :: u16 where
  "managerPort = 0"

definition anytls_handleMsg :: "(bytes \<Rightarrow> bytes) \<Rightarrow> 'd world \<Rightarrow> anytls_passage \<Rightarrow> bytes \<Rightarrow> writer \<Rightarrow> anytls_server \<Rightarrow>
    (anytls_server \<times> writer \<times> go_err option) option" where
  "anytls_handleMsg sha w p conn out s =
     (if \<not> pa_Manager p then Some (s, out, Some illegal_message)
      else case ebind (readFull 1 conn) (\<lambda>(cmd, r1).
                ebind (readManagerBody r1) (\<lambda>(reqBody, r2). Inr (cmd, reqBody))) of
             Inl e \<Rightarrow> Some (s, out, Some e)
           | Inr (cmd, reqBody) \<Rightarrow>
               if cmd ! 0 = pn_CmdPing (wd_names w) then
                 (let s1 = s\<lparr>as_lastAlive := env_now w\<rparr>
                  in Option.bind (ping_answer w) (\<lambda>resp.
                       case resp of
                         Inl e \<Rightarrow> Some (s1, out, Some e)
                       | Inr b \<Rightarrow> (case writeManagerBody out b of (out', err) \<Rightarrow> Some (s1, out', err))))
               else if cmd ! 0 = pn_CmdSyncPassages (wd_names w) then
                 (case wd_passages w reqBody of
                    Inl e \<Rightarrow> Some (s, out, Some e)
                  | Inr ps \<Rightarrow>
                      Option.bind (anytls_SyncPassages sha w (user_passages ps) s) (\<lambda>(s1, err).
                        case err of
                          Some e \<Rightarrow> Some (s1, out, Some e)
                        | None \<Rightarrow> (case writeManagerBody out (to_bytes ''OK'') of (out', err') \<Rightarrow> Some (s1, out', err'))))
               else Some (s, out, Some unexpected_cmd))"

text \<open>\<open>handleUOT\<close>, up to the dialing.\<close>

definition anytls_handleUOT :: "'d world \<Rightarrow> 'd \<Rightarrow> anytls_passage \<Rightarrow> bytes \<Rightarrow> 'd dialers \<Rightarrow> 'd dialers \<times> 'd handled" where
  "anytls_handleUOT w dialer p conn cache =
     (case readUOTRequest conn of
        Inl e \<Rightarrow> (cache, Returned (Some e))
      | Inr (req, rest) \<Rightarrow>
          if \<not> uot_IsConnect req then (cache, Returned (Some (Errorf ''anytls uot packet mode is not supported'')))
          else (case passage_dialer w dialer p cache of
                  (cache', Inl e) \<Rightarrow> (cache', Returned (Some e))
                | (cache', Inr d) \<Rightarrow> (cache', Relay d ''udp'' (socksAddr_String (uot_Destination req)))))"

definition anytls_handleStream :: "(bytes \<Rightarrow> bytes) \<Rightarrow> 'd world \<Rightarrow> 'd \<Rightarrow> anytls_passage \<Rightarrow> bytes \<Rightarrow> writer \<Rightarrow>
    'd dialers \<times> anytls_server \<Rightarrow> (('d dialers \<times> anytls_server) \<times> writer \<times> 'd handled) option" where
  "anytls_handleStream sha w dialer p conn out st =
     (let (cache, s) = st
      in case readSocksAddr conn of
           Inl e \<Rightarrow> Some (st, out, Returned (Some e))
         | Inr (destination, rest) \<Rightarrow>
             if sa_Host destination = managerHost \<and> sa_Port destination = managerPort then
               map_option (\<lambda>(s', out', err). ((cache, s'), out', Returned err)) (anytls_handleMsg sha w p rest out s)
             else if pa_Manager p then Some (st, out, Returned (Some manager_abuse))
             else if sa_Host destination = uotMagicAddress then
               (case anytls_handleUOT w dialer p rest cache of (cache', h) \<Rightarrow> Some ((cache', s), out, h))
             else (case passage_dialer w dialer p cache of
                     (cache', Inl e) \<Rightarrow> Some ((cache', s), out, Returned (Some e))
                   | (cache', Inr d) \<Rightarrow> Some ((cache', s), out, Relay d ''tcp'' (socksAddr_String destination))))"

text \<open>The error of the handler once the dial and the relay are over; the relay of packets ends with
  the first of its two loops.\<close>

definition anytls_relayResult :: "go_err + (go_err option \<times> go_err option) \<Rightarrow> go_err option" where
  "anytls_relayResult r = relay_result True ''relay tcp error'' r"

definition anytls_uotResult :: "go_err + (bool \<times> go_err option) \<Rightarrow> go_err option" where
  "anytls_uotResult r =
     (case r of
        Inl e \<Rightarrow> Some e
      | Inr (isPacketConn, err) \<Rightarrow>
          if \<not> isPacketConn then Some (Errorf ''dialer returned no packet conn for udp'')
          else if isIgnorableUOTError err then None else err)"

section \<open>The store keeps its promises\<close>

lemma truncate_extend [simp]: "passage.truncate (passage.extend p (anytls_passage.fields h)) = p"
  by (cases p) (simp add: passage.truncate_def passage.extend_def anytls_passage.fields_def)

lemma extend_sel [simp]:
  "pa_Manager (passage.extend p (anytls_passage.fields h)) = pa_Manager p"
  "pa_In (passage.extend p (anytls_passage.fields h)) = pa_In p"
  "ap_passwordHash (passage.extend p (anytls_passage.fields h)) = h"
  by (simp_all add: passage.extend_def anytls_passage.fields_def)

definition hash_ok :: "(bytes \<Rightarrow> bytes) \<Rightarrow> anytls_passage \<Rightarrow> bool" where
  "hash_ok sha p \<longleftrightarrow> ap_passwordHash p = sha (to_bytes (arg_Password (pa_In p)))"

definition anytls_ok :: "(bytes \<Rightarrow> bytes) \<Rightarrow> anytls_server \<Rightarrow> bool" where
  "anytls_ok sha s \<longleftrightarrow> length (filter pa_Manager (as_passages s)) \<le> 1 \<and> list_all (hash_ok sha) (as_passages s) \<and>
     as_users s = store_all ap_passwordHash (\<lambda>p. p) (as_passages s) Map.empty"

lemma localize_Cons:
  "fst (localize_from gen sha i found (p # ps)) =
     (let p1 = (if pa_Manager p
                then p\<lparr>pa_In := (pa_In p)\<lparr>arg_Password := gen i\<rparr>, pa_Manager := \<not> found\<rparr> else p)
      in passage.extend p1 (anytls_passage.fields (sha (to_bytes (arg_Password (pa_In p1)))))) #
     fst (localize_from gen sha (Suc i) (found \<or> pa_Manager p) ps)"
  by (simp add: Let_def split: prod.split)

lemma localize_users:
  "list_all (\<lambda>p. \<not> pa_Manager p) ps \<Longrightarrow>
     map passage.truncate (fst (localize_from gen sha i found ps)) = ps \<and>
     list_all (\<lambda>p. \<not> pa_Manager p) (fst (localize_from gen sha i found ps))"
  by (induction ps arbitrary: i found) (simp_all add: localize_Cons del: localize_from.simps(2))

lemma localize_hash: "list_all (hash_ok sha) (fst (localize_from gen sha i found ps))"
  by (induction ps arbitrary: i found) (simp_all add: localize_Cons Let_def hash_ok_def del: localize_from.simps(2))

lemma localize_managers:
  "length (filter pa_Manager ps) \<le> (if found then 0 else 1) \<Longrightarrow>
     pa_In ` {p \<in> set (fst (localize_from gen sha i found ps)). \<not> pa_Manager p} =
     pa_In ` {p \<in> set ps. \<not> pa_Manager p}"
proof (induction ps arbitrary: i found)
  case (Cons p ps)
  have "length (filter pa_Manager ps) \<le> (if found \<or> pa_Manager p then 0 else 1)"
    using Cons.prems by (cases found; cases "pa_Manager p") simp_all
  note ih = Cons.IH [OF this, of "Suc i"]
  show ?case
  proof (cases "pa_Manager p")
    case True
    with Cons.prems have "\<not> found" by (cases found) simp_all
    with True ih show ?thesis
      unfolding localize_Cons Let_def collect_Cons by simp
  next
    case False
    with ih show ?thesis unfolding localize_Cons Let_def collect_Cons by simp
  qed
qed simp

lemma remove_passages [simp]:
  "as_passages (removePassagesFuncLocked f s) = filter (\<lambda>p. \<not> f p) (as_passages s)"
  by (simp add: removePassagesFuncLocked_def remove_desc_all)

lemma rebuild_sel [simp]:
  "as_passages (rebuildUsersLocked s) = as_passages s"
  "as_users (rebuildUsersLocked s) = store_all ap_passwordHash (\<lambda>p. p) (as_passages s) Map.empty"
  "as_lastAlive (rebuildUsersLocked s) = as_lastAlive s"
  by (simp_all add: rebuildUsersLocked_def)

lemma add_local_users:
  "list_all (\<lambda>p. \<not> pa_Manager p) ps \<Longrightarrow> as_passages (add_local ps s) = as_passages s @ ps"
  by (induction ps arbitrary: s) simp_all

lemma add_local_managers:
  "length (filter pa_Manager (as_passages s)) \<le> 1 \<Longrightarrow>
     length (filter pa_Manager (as_passages (add_local ps s))) \<le> 1"
proof (induction ps arbitrary: s)
  case (Cons p ps)
  then show ?case by (auto simp: Let_def intro!: Cons.IH)
qed simp

lemma add_local_hash:
  "list_all (hash_ok sha) (as_passages s) \<Longrightarrow> list_all (hash_ok sha) ps \<Longrightarrow>
     list_all (hash_ok sha) (as_passages (add_local ps s))"
proof (induction ps arbitrary: s)
  case (Cons p ps)
  let ?s1 = "if pa_Manager p then removePassagesFuncLocked pa_Manager s else s"
  have "list_all (hash_ok sha) (as_passages ?s1)"
    using Cons.prems(1) by (simp add: list_all_iff)
  then have "list_all (hash_ok sha) (as_passages (?s1\<lparr>as_passages := as_passages ?s1 @ [p]\<rparr>))"
    using Cons.prems(2) by simp
  from Cons.IH [OF this] Cons.prems(2) show ?case by (simp only: add_local.simps Let_def list.pred_inject)
qed simp

lemma anytls_add:
  assumes "anytls_ok sha s"
  shows "\<exists>s'. anytls_AddPassages sha gen ps s = Some (s', None) \<and> anytls_ok sha s' \<and>
    (list_all (\<lambda>p. \<not> pa_Manager p) ps \<longrightarrow> anytls_Passages s' = anytls_Passages s @ ps)"
proof -
  let ?l = "fst (LocalizePassages gen sha ps)"
  let ?s = "rebuildUsersLocked (add_local ?l s)"
  have "list_all (hash_ok sha) ?l" by (simp add: LocalizePassages_def localize_hash)
  then have "anytls_ok sha ?s"
    using assms add_local_managers [of s ?l] add_local_hash [of sha s ?l] by (simp add: anytls_ok_def)
  moreover have "anytls_Passages ?s = anytls_Passages s @ ps" if "list_all (\<lambda>p. \<not> pa_Manager p) ps"
    using localize_users [OF that, of gen sha 0 False]
    by (simp add: anytls_Passages_def LocalizePassages_def add_local_users)
  ultimately show ?thesis by (simp add: anytls_AddPassages_def)
qed

lemma anytls_remove:
  assumes "length (filter pa_Manager ps) \<le> 1" and "anytls_ok sha s"
  shows "\<exists>s'. anytls_RemovePassages hash sha gen ps False s = Some (s', None) \<and> anytls_ok sha s' \<and>
    anytls_Passages s' = filter (\<lambda>p. hash (pa_In p) \<notin> (\<lambda>p. hash (pa_In p)) ` {p \<in> set ps. \<not> pa_Manager p})
      (anytls_Passages s)"
proof -
  let ?l = "fst (LocalizePassages gen sha ps)"
  let ?keys = "(\<lambda>p. hash (pa_In p)) ` {p \<in> set ps. \<not> pa_Manager p}"
  have "removal_keys hash ?l False = ?keys"
    using arg_cong [OF localize_managers [of ps False gen sha 0], of "image hash"] assms(1)
    by (simp add: LocalizePassages_def image_image removal_keys_set)
  then have r: "anytls_RemovePassages hash sha gen ps False s =
      Some (rebuildUsersLocked (removePassagesFuncLocked (\<lambda>p. hash (pa_In p) \<in> ?keys) s), None)"
    by (simp add: anytls_RemovePassages_def)
  let ?s = "rebuildUsersLocked (removePassagesFuncLocked (\<lambda>p. hash (pa_In p) \<in> ?keys) s)"
  have "anytls_ok sha ?s"
    using assms(2) le_trans [OF filter_filter_le [of pa_Manager _ "as_passages s"]]
    by (simp add: anytls_ok_def list_all_iff)
  moreover have "anytls_Passages ?s = filter (\<lambda>p. hash (pa_In p) \<notin> ?keys) (anytls_Passages s)"
    by (simp only: anytls_Passages_def rebuild_sel remove_passages filter_truncate truncate_sel)
  ultimately show ?thesis using r by blast
qed

interpretation anytls_store: passage_store "anytls_ok sha" anytls_Passages "anytls_RemovePassages hash sha"
  "anytls_AddPassages sha" hash "\<lambda>_. True" for hash sha
proof unfold_locales
  fix s and ps :: "passage list" and r :: "nat \<Rightarrow> string"
  assume "anytls_ok sha s" "length (filter pa_Manager ps) \<le> 1"
  from anytls_remove [OF this(2,1), where hash = hash and gen = r] show "\<exists>s'. anytls_RemovePassages hash sha r ps False s = Some (s', None) \<and>
    anytls_ok sha s' \<and> anytls_Passages s' =
      filter (\<lambda>p. hash (pa_In p) \<notin> (\<lambda>p. hash (pa_In p)) ` {p \<in> set ps. \<not> pa_Manager p}) (anytls_Passages s)"
    by blast
next
  fix s and ps :: "passage list" and r :: "nat \<Rightarrow> string"
  assume "anytls_ok sha s" "list_all (\<lambda>p. \<not> pa_Manager p) ps"
  with anytls_add [of sha s r ps] show "\<exists>s'. anytls_AddPassages sha r ps s = Some (s', None) \<and> anytls_ok sha s' \<and>
    anytls_Passages s' = anytls_Passages s @ ps" by auto
next
  fix s
  assume "anytls_ok sha s"
  then show "length (filter pa_Manager (anytls_Passages s)) \<le> 1"
    by (simp add: anytls_ok_def anytls_Passages_def filter_truncate)
qed (rule list_all_any)

interpretation anytls_alive: keepalive "anytls_tick sha" "anytls_register sha" as_lastAlive env_now for sha
  by unfold_locales (simp_all add: anytls_tick_def)

lemma remove_keeps_alive [simp]: "as_lastAlive (removePassagesFuncLocked f s) = as_lastAlive s"
  by (simp add: removePassagesFuncLocked_def)

lemma add_local_keeps_alive: "as_lastAlive (add_local ps s) = as_lastAlive s"
  by (induction ps arbitrary: s) (simp_all add: Let_def)

lemma sync_keeps_alive: "anytls_SyncPassages sha w ps s = Some (s', e) \<Longrightarrow> as_lastAlive s' = as_lastAlive s"
  by (auto simp: anytls_SyncPassages_def SyncPassages_def anytls_RemovePassages_def anytls_AddPassages_def
      Let_def add_local_keeps_alive split: prod.splits)

lemma anytls_registers:
  assumes "register_call (env.truncate w) (as_arg s)
      (zero_argument\<lparr>arg_Protocol := ''anytls'', arg_Password := arg_Password (pa_In (the_manager (anytls_Passages s)))\<rparr>) =
      Some (Inr users)"
    and "anytls_ok sha s" and "list_all (\<lambda>p. \<not> pa_Manager p) users"
  shows "\<exists>s'. anytls_register sha w s = Some (s', None) \<and> as_lastAlive s' = env_now w"
proof -
  have "anytls_ok sha (s\<lparr>as_lastAlive := env_now w\<rparr>)" using assms(2) by (simp add: anytls_ok_def)
  from anytls_store.sync [OF this assms(3) list_all_any, of "wd_hash w" "wd_gen w" "wd_gen w"] obtain s' where
    s': "anytls_SyncPassages sha w users (s\<lparr>as_lastAlive := env_now w\<rparr>) = Some (s', None)"
    by (auto simp: anytls_SyncPassages_def)
  with sync_keeps_alive [OF s'] assms(1) show ?thesis by (simp add: anytls_register_def)
qed

lemma users_find:
  assumes "anytls_ok sha s"
  shows "as_users s key = find (\<lambda>p. sha (to_bytes (arg_Password (pa_In p))) = key) (rev (as_passages s))"
proof -
  have "find (\<lambda>p. ap_passwordHash p = key) xs = find (\<lambda>p. sha (to_bytes (arg_Password (pa_In p))) = key) xs"
    if "set xs \<subseteq> set (as_passages s)" for xs
    using that assms by (induction xs) (auto simp: anytls_ok_def list_all_iff hash_ok_def)
  then show ?thesis using assms by (simp add: anytls_ok_def store_all_find split: option.split)
qed

section \<open>Properties\<close>

text \<open>C15: A connection is authenticated exactly if it starts with a key of 32 bytes, a length and so
  many bytes of padding, and the key is the hash of the password of a stored passage; of several such
  passages it is the one stored last, and what follows the padding is left for the session.\<close>

theorem anytls_auth_exact:
  assumes "anytls_ok sha s"
  shows "anytls_auth s conn = Inr (p, rest) \<longleftrightarrow>
    (\<exists>key pad. length key = 32 \<and> length pad < 2 ^ 16 \<and>
       conn = key @ putUint16 (word_of_nat (length pad)) @ pad @ rest \<and>
       find (\<lambda>p. sha (to_bytes (arg_Password (pa_In p))) = key) (rev (as_passages s)) = Some p)"
proof
  assume "anytls_auth s conn = Inr (p, rest)"
  then obtain key r1 lenBuf r2 where r: "readFull 32 conn = Inr (key, r1)" "readFull 2 r1 = Inr (lenBuf, r2)"
    "unat (uint16 lenBuf) \<le> length r2" "as_users s key = Some p" "rest = drop (unat (uint16 lenBuf)) r2"
    by (auto simp: anytls_auth_def ebind_eq_Inr Let_def split: if_splits option.splits)
  let ?pad = "take (unat (uint16 lenBuf)) r2"
  from readFull_InrD [OF r(1)] readFull_InrD [OF r(2)]
  have c: "length key = 32" "length lenBuf = 2" "conn = key @ lenBuf @ ?pad @ rest" using r(5) by auto
  moreover have l: "length ?pad = unat (uint16 lenBuf)" using r(3) by simp
  moreover have "unat (uint16 lenBuf) < 2 ^ 16" using unsigned_less [of "uint16 lenBuf", where 'a = nat] by simp
  moreover have "putUint16 (word_of_nat (length ?pad)) = lenBuf" using c(2) l by (simp add: put_uint16)
  ultimately show "\<exists>key pad. length key = 32 \<and> length pad < 2 ^ 16 \<and>
       conn = key @ putUint16 (word_of_nat (length pad)) @ pad @ rest \<and>
       find (\<lambda>p. sha (to_bytes (arg_Password (pa_In p))) = key) (rev (as_passages s)) = Some p"
    using r(4) users_find [OF assms, of key] by (intro exI [of _ key] exI [of _ ?pad]) simp
next
  assume "\<exists>key pad. length key = 32 \<and> length pad < 2 ^ 16 \<and>
       conn = key @ putUint16 (word_of_nat (length pad)) @ pad @ rest \<and>
       find (\<lambda>p. sha (to_bytes (arg_Password (pa_In p))) = key) (rev (as_passages s)) = Some p"
  then show "anytls_auth s conn = Inr (p, rest)"
    using users_find [OF assms] by (auto simp: anytls_auth_def unat_of_nat_u16)
qed

definition demo_sha :: "bytes \<Rightarrow> bytes" where
  "demo_sha b = take 32 (b @ replicate 32 0)"

definition demo_server :: anytls_server where
  "demo_server = fst (the (anytls_AddPassages demo_sha (\<lambda>i. ''m'') [demo_user ''a'', manager_passage] anytls_newServer))"

lemma demo_server_ok: "anytls_ok demo_sha demo_server"
proof -
  have "anytls_ok demo_sha anytls_newServer" by (simp add: anytls_ok_def anytls_newServer_def)
  from anytls_add [OF this, of "\<lambda>i. ''m''" "[demo_user ''a'', manager_passage]"]
  show ?thesis by (auto simp: demo_server_def)
qed

lemma demo_passages:
  "as_passages demo_server = [passage.extend (demo_user ''a'') (anytls_passage.fields (demo_sha (to_bytes ''a''))),
     passage.extend (manager_passage\<lparr>pa_In := zero_argument\<lparr>arg_Password := ''m''\<rparr>\<rparr>)
       (anytls_passage.fields (demo_sha (to_bytes ''m'')))]"
  by (simp add: demo_server_def anytls_AddPassages_def LocalizePassages_def Let_def anytls_newServer_def
      manager_passage_def zero_passage_def demo_user_def)

theorem anytls_auth_exact_witness:
  "\<exists>p. anytls_auth demo_server (demo_sha (to_bytes ''a'') @ [0, 2, 9, 9, 7]) = Inr (p, [7]) \<and>
     passage.truncate p = demo_user ''a''"
proof -
  let ?p = "passage.extend (demo_user ''a'') (anytls_passage.fields (demo_sha (to_bytes ''a'')))"
  have "to_bytes ''m'' \<noteq> to_bytes ''a''" by simp
  then have ne: "demo_sha (to_bytes ''m'') \<noteq> demo_sha (to_bytes ''a'')"
    by (simp add: demo_sha_def to_bytes_def)
  have "find (\<lambda>p. demo_sha (to_bytes (arg_Password (pa_In p))) = demo_sha (to_bytes ''a'')) (rev (as_passages demo_server)) =
      Some ?p"
    using ne by (simp add: demo_passages demo_user_def)
  moreover have "length (demo_sha (to_bytes ''a'')) = 32" by (simp add: demo_sha_def)
  moreover have "putUint16 (word_of_nat (length [9, 9 :: byte])) = [0, 2]" by (simp add: putUint16_def)
  ultimately have "anytls_auth demo_server (demo_sha (to_bytes ''a'') @ [0, 2, 9, 9, 7]) = Inr (?p, [7])"
    by (subst anytls_auth_exact [OF demo_server_ok])
       (intro exI [of _ "demo_sha (to_bytes ''a'')"] exI [of _ "[9, 9]"], simp)
  then show ?thesis by auto
qed


lemma demo_stored: "anytls_Passages demo_server =
    [demo_user ''a'', manager_passage\<lparr>pa_In := zero_argument\<lparr>arg_Password := ''m''\<rparr>\<rparr>]"
  by (simp add: anytls_Passages_def demo_passages)


text \<open>C17: A passage that the list still names is removed nevertheless, and not added again, when it
  shares the inner argument with a stored passage the list does not name (as two passages of one user
  with different outgoing arguments do).\<close>

theorem anytls_sync_drops_shared:
  assumes "anytls_ok sha s" and "list_all (\<lambda>p. \<not> pa_Manager p) target"
    and "q \<in> set (anytls_Passages s)" and "q \<in> set target"
    and "p \<in> outdated (wd_hash w) target (anytls_Passages s)" and "pa_In p = pa_In q"
  shows "\<exists>s'. anytls_SyncPassages sha w target s = Some (s', None) \<and> q \<notin> set (anytls_Passages s')"
  unfolding anytls_SyncPassages_def
  using anytls_store.sync_drops [OF assms(1,2) list_all_any assms(3,5), of "wd_gen w" "wd_gen w"] assms(6) by simp

definition demo_relay :: "string \<Rightarrow> passage" where
  "demo_relay pw = (demo_user ''a'')\<lparr>pa_Out := Some \<lparr>out_Host = ''h'', out_Port = ''1'',
     out_Argument = zero_argument\<lparr>arg_Password := pw\<rparr>\<rparr>\<rparr>"

theorem anytls_sync_drops_shared_witness:
  "\<exists>s s'. anytls_AddPassages demo_sha (\<lambda>i. ''m'') [demo_relay ''1'', demo_relay ''2''] anytls_newServer = Some (s, None) \<and>
     anytls_SyncPassages demo_sha demo_world [demo_relay ''2''] s = Some (s', None) \<and>
     demo_relay ''2'' \<notin> set (anytls_Passages s')"
proof -
  let ?ps = "[demo_relay ''1'', demo_relay ''2'']"
  have "anytls_ok demo_sha anytls_newServer" "anytls_Passages anytls_newServer = []"
    by (simp_all add: anytls_ok_def anytls_newServer_def anytls_Passages_def)
  with anytls_add [of demo_sha anytls_newServer "\<lambda>i. ''m''" ?ps] obtain s where
    s: "anytls_AddPassages demo_sha (\<lambda>i. ''m'') ?ps anytls_newServer = Some (s, None)" "anytls_ok demo_sha s"
      "anytls_Passages s = ?ps" by (auto simp: demo_relay_def)
  have out: "demo_relay ''1'' \<in> outdated (wd_hash demo_world) [demo_relay ''2''] (anytls_Passages s)"
    by (simp add: outdated_def s(3) demo_relay_def passage_key_def demo_world_def Let_def)
  have "list_all (\<lambda>p. \<not> pa_Manager p) [demo_relay ''2'']" "demo_relay ''2'' \<in> set (anytls_Passages s)"
    "demo_relay ''2'' \<in> set [demo_relay ''2'']" "pa_In (demo_relay ''1'') = pa_In (demo_relay ''2'')"
    by (simp_all add: s(3) demo_relay_def)
  from anytls_sync_drops_shared [OF s(2) this(1-3) out this(4)] s(1) show ?thesis by blast
qed

text \<open>C18: On a stream of a user nothing changes the server and nothing is answered by it, whatever the
  stream says; the manager, conversely, never gets a connection dialed.\<close>

theorem anytls_stream_authority:
  assumes "anytls_handleStream sha w dialer p conn out (cache, s) = Some ((cache', s'), out', h)"
  shows "if pa_Manager p then (\<exists>e. h = Returned e) \<and> cache' = cache else s' = s \<and> out' = out"
proof (cases "readSocksAddr conn")
  case (Inr x)
  obtain destination rest where x: "x = (destination, rest)" by (cases x)
  show ?thesis
  proof (cases "sa_Host destination = managerHost \<and> sa_Port destination = managerPort")
    case True
    with assms Inr x show ?thesis by (auto simp: anytls_handleStream_def anytls_handleMsg_def)
  next
    case False
    with assms Inr x show ?thesis
      by (auto simp: anytls_handleStream_def split: if_splits sum.splits prod.splits)
  qed
qed (use assms in \<open>auto simp: anytls_handleStream_def\<close>)

theorem anytls_stream_authority_witness:
  "\<exists>c' s' out' h. anytls_handleStream demo_sha demo_world 1 (hd (as_passages demo_server)) [] \<lparr>w_out = [], w_budget = None\<rparr>
     (no_dialers, demo_server) = Some ((c', s'), out', h) \<and> s' = demo_server"
proof -
  obtain c' s' out' h where r: "anytls_handleStream demo_sha demo_world 1 (hd (as_passages demo_server)) []
      \<lparr>w_out = [], w_budget = None\<rparr> (no_dialers, demo_server) = Some ((c', s'), out', h)"
    by (simp add: anytls_handleStream_def readSocksAddr_def readFull_def)
  from anytls_stream_authority [OF r] have "s' = demo_server" by (simp add: demo_passages)
  with r show ?thesis by blast
qed

text \<open>C19: While SweetLisa cannot be reached, the server tries again with intervals that double from
  two seconds up to ten minutes and stays as it is; the first tick at which it can be reached registers
  the server, stamps the contact and brings the interval back to two seconds.\<close>

theorem anytls_keepalive:
  assumes "anytls_ok sha s" and "\<forall>w \<in> set ws. LostThreshold \<le> env_now w - as_lastAlive s"
    and "\<forall>w \<in> set ws. \<exists>e. \<forall>arg a. register_call (env.truncate w) arg a = Some (Inl e)"
    and "LostThreshold \<le> env_now w' - as_lastAlive s"
    and "\<forall>arg a. register_call (env.truncate w') arg a = Some (Inr users)"
    and "list_all (\<lambda>p. \<not> pa_Manager p) users"
  shows "run_ticks (anytls_tick sha) ws (seconds 2, s) = Some (min (seconds 600) (seconds (2 ^ (1 + length ws))), s) \<and>
    (\<exists>s'. run_ticks (anytls_tick sha) (ws @ [w']) (seconds 2, s) = Some (seconds 2, s') \<and> as_lastAlive s' = env_now w')"
proof -
  have fails: "\<forall>w \<in> set ws. \<forall>t. t = s \<longrightarrow> as_lastAlive t = as_lastAlive s \<longrightarrow>
      (\<exists>t' e. anytls_register sha w t = Some (t', Some e) \<and> t' = s \<and> as_lastAlive t' = as_lastAlive s)"
    using assms(3) by (fastforce simp: anytls_register_def)
  have two: "min (seconds 600) (seconds (2 ^ 1)) = seconds 2" by (simp add: seconds_def)
  from anytls_alive.backoff [OF assms(2) fails refl refl, of 1]
  have "run_ticks (anytls_tick sha) ws (seconds 2, s) = Some (min (seconds 600) (seconds (2 ^ (1 + length ws))), s)"
    unfolding two by blast
  moreover from anytls_registers [OF assms(5) [rule_format] assms(1,6)] obtain s' where
    "anytls_register sha w' s = Some (s', None)" "as_lastAlive s' = env_now w'" by blast
  ultimately show ?thesis
    using anytls_alive.recovers [OF assms(4), of sha s'] by (simp add: run_ticks_append)
qed

theorem anytls_keepalive_witness:
  "\<exists>s'. run_ticks (anytls_tick demo_sha) [demo_world\<lparr>env_http := \<lambda>r. Inl NetTimeout\<rparr>, demo_world]
      (seconds 2, demo_server) = Some (seconds 2, s') \<and> as_lastAlive s' = 10 ^ 12"
proof -
  let ?w = "demo_world\<lparr>env_http := \<lambda>r. Inl NetTimeout\<rparr>"
  have f: "\<forall>w \<in> set [?w]. \<exists>e. \<forall>arg a. register_call (env.truncate w) arg a = Some (Inl e)"
    by (auto simp: register_call_def demo_world_def env.truncate_def Let_def GenerateBandwidthLimit_def api_Register_def
        TrustedHost_def)
  have now: "env_now demo_world = 10 ^ 12" "env_now ?w = 10 ^ 12" by (simp_all add: demo_world_def)
  have alive: "as_lastAlive demo_server = zeroTime"
    by (simp add: demo_server_def anytls_AddPassages_def add_local_keeps_alive anytls_newServer_def)
  have lost: "\<forall>w \<in> set [?w]. LostThreshold \<le> env_now w - as_lastAlive demo_server"
    "LostThreshold \<le> env_now demo_world - as_lastAlive demo_server"
    by (simp_all add: now alive LostThreshold_def seconds_def zeroTime_def)
  have "\<forall>arg a. register_call (env.truncate demo_world) arg a = Some (Inr [demo_user ''b''])"
    by (simp add: demo_call)
  from anytls_keepalive [OF demo_server_ok lost(1) f lost(2) this] show ?thesis
    by (simp add: now)
qed

end
