(* ===== verification/Anytls_Lifecycle.thy ===== *)
theory Anytls_Lifecycle
  imports Go_Std
begin

text \<open>
  The life cycle of the anytls server (\<open>server/anytls/server.go\<close>): the listener, the accepted
  connections and the ACME listener, with the operations that hold \<open>lifecycleMu\<close>. Sockets are
  numbers. \<open>Close\<close> first takes everything out of the server under the lock and closes the sockets
  afterwards, so a step relation interleaves it with the accept loop and the handlers.
\<close>

section \<open>The operations under the lock\<close>

record lifecycle =
  lc_closeOnce :: bool
  lc_closed :: bool
  lc_cancelled :: bool
  lc_listener :: "nat option"
  lc_activeConns :: "nat list"
  lc_autocertServer :: "string option"
  lc_autocertListener :: "nat option"
  lc_autocertStarted :: bool

definition setListener :: "nat \<Rightarrow> 'a lifecycle_scheme \<Rightarrow> 'a lifecycle_scheme \<times> bool" where
  "setListener lt s = (if lc_closed s then (s, False) else (s\<lparr>lc_listener := Some lt\<rparr>, True))"

definition clearListener :: "nat \<Rightarrow> 'a lifecycle_scheme \<Rightarrow> 'a lifecycle_scheme" where
  "clearListener lt s = (if lc_listener s = Some lt then s\<lparr>lc_listener := None\<rparr> else s)"

definition trackConn :: "nat \<Rightarrow> 'a lifecycle_scheme \<Rightarrow> 'a lifecycle_scheme \<times> bool" where
  "trackConn c s =
     (if lc_closed s then (s, False) else (s\<lparr>lc_activeConns := List.insert c (lc_activeConns s)\<rparr>, True))"

definition untrackConn :: "nat \<Rightarrow> 'a lifecycle_scheme \<Rightarrow> 'a lifecycle_scheme" where
  "untrackConn c s = s\<lparr>lc_activeConns := removeAll c (lc_activeConns s)\<rparr>"

text \<open>\<open>startAutocertServer\<close>; \<open>listen\<close> is the result of \<open>net.Listen\<close> on its address.\<close>

definition startAutocertServer :: "go_err + nat \<Rightarrow> 'a lifecycle_scheme \<Rightarrow> 'a lifecycle_scheme \<times> go_err option" where
  "startAutocertServer listen s =
     (if lc_closed s \<or> lc_autocertServer s = None \<or> lc_autocertStarted s then (s, None)
      else case listen of
             Inl e \<Rightarrow> (s, Some (Wrapped ''listen for ACME challenges'' e))
           | Inr l \<Rightarrow> (s\<lparr>lc_autocertListener := Some l, lc_autocertStarted := True\<rparr>, None))"

text \<open>The locked part of \<open>Close\<close>: the new state and the sockets to be closed, the listener first.\<close>

definition close_take :: "'a lifecycle_scheme \<Rightarrow> 'a lifecycle_scheme \<times> nat option \<times> nat option \<times> nat list" where
  "close_take s =
     (s\<lparr>lc_closeOnce := True, lc_closed := True, lc_cancelled := True, lc_listener := None,
        lc_autocertServer := None, lc_autocertListener := None, lc_activeConns := []\<rparr>,
      lc_listener s, lc_autocertListener s, lc_activeConns s)"

text \<open>The error of \<open>Close\<close> from the errors of closing the listener, the ACME server and its
  listener; \<open>None\<close> where nothing was closed or it succeeded.\<close>

definition close_error :: "go_err option \<Rightarrow> go_err option \<Rightarrow> go_err option \<Rightarrow> go_err option" where
  "close_error err serverErr listenerErr =
     (let err1 = (case serverErr of
                    Some e \<Rightarrow> if err = None \<and> \<not> errors_Is e HttpErrServerClosed \<and> \<not> errors_Is e NetErrClosed
                              then Some e else err
                  | None \<Rightarrow> err)
      in case listenerErr of
           Some e \<Rightarrow> if err1 = None \<and> \<not> errors_Is e NetErrClosed then Some e else err1
         | None \<Rightarrow> err1)"

section \<open>The server at work\<close>

text \<open>The sockets that are closed, the listeners in an accept loop, the connections with a running
  handler, and the sockets \<open>Close\<close> still has to close.\<close>

record life = lifecycle +
  lw_shut :: "nat list"
  lw_serving :: "nat list"
  lw_handlers :: "nat list"
  lw_pending :: "nat list"

definition life_new :: "string option \<Rightarrow> life" where
  "life_new autocert =
     \<lparr>lc_closeOnce = False, lc_closed = False, lc_cancelled = False, lc_listener = None, lc_activeConns = [],
      lc_autocertServer = autocert, lc_autocertListener = None, lc_autocertStarted = False,
      lw_shut = [], lw_serving = [], lw_handlers = [], lw_pending = []\<rparr>"

datatype life_event =
    Listen nat "go_err + nat"
  | Accept nat
  | AcceptFails nat
  | HandlerEnds nat
  | Close
  | CloseNext

text \<open>\<open>Listen\<close> and \<open>serveListener\<close> up to the loop (the server listens once); one round of
  the loop; the end of a handler, which closes its connection; \<open>Close\<close>; the closing of one socket.\<close>

fun life_exec :: "life_event \<Rightarrow> life \<Rightarrow> life option" where
  "life_exec (Listen lt acme) s =
     (if lw_serving s \<noteq> [] \<or> lt \<in> set (lw_shut s) then None
      else (case startAutocertServer acme s of
              (s1, Some e) \<Rightarrow> Some (s1\<lparr>lw_shut := lt # lw_shut s1\<rparr>)
            | (s1, None) \<Rightarrow>
                (case setListener lt s1 of
                   (s2, False) \<Rightarrow> Some (s2\<lparr>lw_shut := lt # lw_shut s2\<rparr>)
                 | (s2, True) \<Rightarrow> Some (s2\<lparr>lw_serving := [lt]\<rparr>))))"
| "life_exec (Accept c) s =
     (if lw_serving s = [] \<or> c \<in> set (lw_handlers s) \<union> set (lw_shut s) then None
      else (case trackConn c s of
              (s1, False) \<Rightarrow> Some (s1\<lparr>lw_shut := c # lw_shut s1\<rparr>)
            | (s1, True) \<Rightarrow> Some (s1\<lparr>lw_handlers := c # lw_handlers s1\<rparr>)))"
| "life_exec (AcceptFails lt) s =
     (if lt \<notin> set (lw_serving s) then None
      else Some (clearListener lt (s\<lparr>lw_serving := removeAll lt (lw_serving s)\<rparr>)))"
| "life_exec (HandlerEnds c) s =
     (if c \<notin> set (lw_handlers s) then None
      else Some (untrackConn c (s\<lparr>lw_handlers := removeAll c (lw_handlers s), lw_shut := c # lw_shut s\<rparr>)))"
| "life_exec Close s =
     (if lc_closeOnce s then Some s
      else (case close_take s of (s1, listener, acme, conns) \<Rightarrow>
              Some (s1\<lparr>lw_pending := (case listener of None \<Rightarrow> [] | Some l \<Rightarrow> [l]) @
                        (case acme of None \<Rightarrow> [] | Some l \<Rightarrow> [l]) @ conns\<rparr>)))"
| "life_exec CloseNext s =
     (case lw_pending s of
        [] \<Rightarrow> None
      | p # ps \<Rightarrow> Some (s\<lparr>lw_shut := p # lw_shut s, lw_pending := ps\<rparr>))"

inductive life_step :: "life \<Rightarrow> life_event \<Rightarrow> life \<Rightarrow> bool" where
  life: "life_exec e s = Some s' \<Longrightarrow> life_step s e s'"

inductive_cases life_stepE: "life_step s e s'"

inductive life_reach :: "string option \<Rightarrow> life \<Rightarrow> bool" for a where
  start: "life_reach a (life_new a)"
| step: "life_reach a s \<Longrightarrow> life_step s e s' \<Longrightarrow> life_reach a s'"

section \<open>Nothing outlives the server\<close>

definition life_inv :: "life \<Rightarrow> bool" where
  "life_inv s \<longleftrightarrow>
     set (lw_handlers s) \<subseteq> set (lc_activeConns s) \<union> set (lw_pending s) \<union> set (lw_shut s) \<and>
     set (lw_serving s) \<subseteq> set_option (lc_listener s) \<union> set (lw_pending s) \<union> set (lw_shut s) \<and>
     (lc_closed s \<longleftrightarrow> lc_closeOnce s) \<and>
     (lc_closed s \<longrightarrow> lc_activeConns s = [] \<and> lc_listener s = None \<and> lc_autocertListener s = None \<and> lc_cancelled s) \<and>
     (\<not> lc_closed s \<longrightarrow> lw_pending s = [])"

lemmas life_ops = setListener_def clearListener_def trackConn_def untrackConn_def startAutocertServer_def close_take_def

lemma life_inv_exec: "life_inv s \<Longrightarrow> life_exec e s = Some s' \<Longrightarrow> life_inv s'"
proof (cases e)
  case (Listen lt acme)
  assume "life_inv s" "life_exec e s = Some s'"
  with Listen show ?thesis
    by (auto simp: life_inv_def life_ops split: if_splits sum.splits)
next
  case (Accept c)
  assume "life_inv s" "life_exec e s = Some s'"
  with Accept show ?thesis by (auto simp: life_inv_def life_ops split: if_splits)
next
  case (AcceptFails lt)
  assume "life_inv s" "life_exec e s = Some s'"
  with AcceptFails show ?thesis by (auto simp: life_inv_def life_ops split: if_splits)
next
  case (HandlerEnds c)
  assume "life_inv s" "life_exec e s = Some s'"
  with HandlerEnds show ?thesis by (auto simp: life_inv_def life_ops split: if_splits)
next
  case Close
  assume "life_inv s" "life_exec e s = Some s'"
  with Close show ?thesis by (auto simp: life_inv_def life_ops split: if_splits option.splits)
next
  case CloseNext
  assume "life_inv s" "life_exec e s = Some s'"
  with CloseNext show ?thesis by (auto simp: life_inv_def split: list.splits)
qed

lemma life_reach_inv: "life_reach a s \<Longrightarrow> life_inv s"
  by (induction rule: life_reach.induct)
     (auto simp: life_new_def elim!: life_stepE dest: life_inv_exec, simp add: life_inv_def)

section \<open>Properties\<close>



end
