(* ===== verification/Anytls_Dialer.thy ===== *)
theory Anytls_Dialer
  imports Anytls_Streams Anytls_Versions Anytls_Server
begin

text \<open>
  The anytls dialer (\<open>server/anytls/dialer.go\<close>) and the choice of the TLS configuration
  (\<open>tls.go\<close>): one session is kept and shared by the streams that are dialed. The connection to
  the proxy and the TLS handshake over it are arguments: the writer of the connection, and the error of
  the handshake. The lemmas follow the bytes of a dial to the server: authentication, settings, the
  opening of the stream and its destination, and the answer back.
\<close>

section \<open>TLS configurations\<close>

text \<open>The numbers of certificates and the providers a configuration has.\<close>

record cert_config =
  cf_Certificates :: nat
  cf_GetCertificate :: bool
  cf_GetConfigForClient :: bool
  cf_MinVersion :: nat

definition ErrTLSConfigRequired :: go_err where
  "ErrTLSConfigRequired = Errorf ''anytls tls config with certificate provider is required''"

definition normalizeTLSConfig :: "cert_config option \<Rightarrow> go_err + cert_config" where
  "normalizeTLSConfig tlsConfig =
     (case tlsConfig of
        None \<Rightarrow> Inl ErrTLSConfigRequired
      | Some c \<Rightarrow>
          if cf_Certificates c = 0 \<and> \<not> cf_GetCertificate c \<and> \<not> cf_GetConfigForClient c then Inl ErrTLSConfigRequired
          else Inr (if cf_MinVersion c = 0 then c\<lparr>cf_MinVersion := VersionTLS12\<rparr> else c))"

text \<open>The getter of a certificate that may be renewed: the result of the wrapped getter, and whether
  \<open>onRenew\<close> is called. \<open>renewing\<close>: the timer fired before the getter returned.\<close>

definition renewingCertificateGetter :: "bool \<Rightarrow> bool \<Rightarrow> go_err + 'cert \<Rightarrow> (go_err + 'cert) \<times> bool" where
  "renewingCertificateGetter hasOnRenew renewing r =
     (r, renewing \<and> (case r of Inl e \<Rightarrow> False | Inr c \<Rightarrow> hasOnRenew))"

text \<open>A server takes the configuration of its context, or the one made for its host name; both are
  normalised again when the server is made, which changes nothing.\<close>

definition newAutocertTLSResources :: "string \<Rightarrow> go_err + string \<times> cert_config" where
  "newAutocertTLSResources sni0 =
     (let sni = strings_TrimSpace sni0
      in if sni = [] then Inl (Errorf ''empty anytls TLS SNI'')
         else Inr (sni, \<lparr>cf_Certificates = 0, cf_GetCertificate = True, cf_GetConfigForClient = False, cf_MinVersion = VersionTLS12\<rparr>))"

lemma normalize_again: "normalizeTLSConfig c = Inr d \<Longrightarrow> normalizeTLSConfig (Some d) = Inr d"
  by (auto simp: normalizeTLSConfig_def VersionTLS12_def split: option.splits if_splits)

lemma autocert_normalized: "newAutocertTLSResources sni0 = Inr (sni, c) \<Longrightarrow> normalizeTLSConfig (Some c) = Inr c"
  by (auto simp: newAutocertTLSResources_def normalizeTLSConfig_def VersionTLS12_def Let_def split: if_splits)

section \<open>The dialer\<close>

record dialer =
  ad_proxyAddress :: string
  ad_tlsConfig :: tls_config
  ad_passwordHash :: bytes
  ad_session :: "session option"

definition anytls_NewDialer :: "(bytes \<Rightarrow> bytes) \<Rightarrow> 'n option \<Rightarrow> header \<Rightarrow> go_err + dialer" where
  "anytls_NewDialer sha nextDialer header =
     (case nextDialer of
        None \<Rightarrow> Inl (Errorf ''nil next dialer'')
      | Some nd \<Rightarrow>
          let tlsConfig = (case hd_TlsConfig header of
                 None \<Rightarrow> \<lparr>tc_NextProtos = [], tc_MinVersion = VersionTLS12, tc_ServerName = hd_SNI header,
                          tc_InsecureSkipVerify = True, tc_Pinned = None\<rparr>
               | Some c \<Rightarrow> c);
              tlsConfig' = (if tc_ServerName tlsConfig = [] \<and> hd_SNI header \<noteq> []
                            then tlsConfig\<lparr>tc_ServerName := hd_SNI header\<rparr> else tlsConfig)
          in Inr \<lparr>ad_proxyAddress = hd_ProxyAddress header, ad_tlsConfig = tlsConfig',
                  ad_passwordHash = sha (to_bytes (hd_Password header)), ad_session = None\<rparr>)"

definition writeClientAuth :: "writer \<Rightarrow> bytes \<Rightarrow> writer \<times> go_err option" where
  "writeClientAuth w passwordHash = goWrite w (passwordHash @ putUint16 0)"

text \<open>\<open>raw\<close> is the connection the next dialer yields, \<open>handshake\<close> the error of the TLS
  handshake.\<close>

definition getSession :: "go_err + writer \<Rightarrow> go_err option \<Rightarrow> dialer \<Rightarrow> dialer \<times> (go_err + session)" where
  "getSession raw handshake d =
     (let connect =
        (case raw of
           Inl e \<Rightarrow> (d, Inl e)
         | Inr conn \<Rightarrow>
             (case handshake of
                Some e \<Rightarrow> (d, Inl e)
              | None \<Rightarrow>
                  (case writeClientAuth conn (ad_passwordHash d) of
                     (conn', Some e) \<Rightarrow> (d, Inl e)
                   | (conn', None) \<Rightarrow>
                       (case runClient (newClientSession conn') of
                          (s, Some e) \<Rightarrow> (d, Inl e)
                        | (s, None) \<Rightarrow> (d\<lparr>ad_session := Some s\<rparr>, Inr s)))))
      in case ad_session d of
           None \<Rightarrow> connect
         | Some s \<Rightarrow> if \<not> s_closed s then (d, Inr s) else connect)"

text \<open>\<open>writeSocksAddr\<close> to a stream: the address goes out with one write.\<close>

definition stream_writeSocksAddr :: "nat \<Rightarrow> session \<Rightarrow> nat \<Rightarrow> string \<Rightarrow> session \<times> go_err option" where
  "stream_writeSocksAddr now s a addr =
     (case splitHostPort addr of
        Inl e \<Rightarrow> (s, Some e)
      | Inr (host, port) \<Rightarrow>
          (case host_bytes host of
             Inl e \<Rightarrow> (s, Some e)
           | Inr b \<Rightarrow> (case stream_Write now s a (b @ putUint16 port) of (s', _, e) \<Rightarrow> (s', e))))"

definition openStream :: "go_err + writer \<Rightarrow> go_err option \<Rightarrow> nat \<Rightarrow> string \<Rightarrow> dialer \<Rightarrow> dialer \<times> (go_err + nat \<times> session)" where
  "openStream raw handshake now addr d =
     (case getSession raw handshake d of
        (d1, Inl e) \<Rightarrow> (d1, Inl e)
      | (d1, Inr session) \<Rightarrow>
          (case OpenStream session of
             (s1, Inl e) \<Rightarrow> (d1\<lparr>ad_session := Some (sess_Close s1)\<rparr>, Inl e)
           | (s1, Inr a) \<Rightarrow>
               (case stream_writeSocksAddr now s1 a addr of
                  (s2, Some e) \<Rightarrow> (d1\<lparr>ad_session := Some (fst (stream_Close s2 a))\<rparr>, Inl e)
                | (s2, None) \<Rightarrow> (d1\<lparr>ad_session := Some s2\<rparr>, Inr (a, s2)))))"

text \<open>What happens to the session while \<open>waitStreamReady\<close> waits, and the cases its two
  \<open>select\<close>s take. \<open>None\<close>: a case is not ready.\<close>

record waiting =
  wt_settings :: settings_case
  wt_during :: "session \<Rightarrow> session"
  wt_synack :: synack_case
  wt_after :: "session \<Rightarrow> session"

definition waitStreamReady :: "waiting \<Rightarrow> session \<Rightarrow> nat \<Rightarrow> (session \<times> go_err option) option" where
  "waitStreamReady wt s a =
     (case waitServerSettings (wt_settings wt) (wt_during wt) s of
        None \<Rightarrow> None
      | Some (s1, v) \<Rightarrow> if v < 2 then Some (s1, None) else waitSYNACK (wt_synack wt) (wt_after wt s1) a)"

text \<open>Wait for the stream \<open>a\<close> of the session \<open>s\<close>, and close it on an error.\<close>

definition dial_ready :: "waiting \<Rightarrow> 'a \<Rightarrow> dialer \<Rightarrow> session \<Rightarrow> nat \<Rightarrow> (dialer \<times> (go_err + 'a)) option" where
  "dial_ready wt r d s a =
     map_option (\<lambda>(s', err).
         case err of
           Some e \<Rightarrow> (d\<lparr>ad_session := Some (fst (stream_Close s' a))\<rparr>, Inl e)
         | None \<Rightarrow> (d\<lparr>ad_session := Some s'\<rparr>, Inr r))
       (waitStreamReady wt s a)"

text \<open>A dialed stream, or a packet connection over a stream with its target.\<close>

datatype dialed = DialedStream nat | DialedPacket nat socksAddr

definition writeUOTRequest_stream :: "nat \<Rightarrow> session \<Rightarrow> nat \<Rightarrow> uotRequest \<Rightarrow> session \<times> go_err option" where
  "writeUOTRequest_stream now s a req =
     (case stream_Write now s a [if uot_IsConnect req then 1 else 0] of
        (s1, _, Some e) \<Rightarrow> (s1, Some e)
      | (s1, _, None) \<Rightarrow> stream_writeSocksAddr now s1 a (socksAddr_String (uot_Destination req)))"

text \<open>\<open>DialContext\<close>; \<open>magicNetwork\<close> is the parsed network.\<close>

definition anytls_DialContext :: "go_err + writer \<Rightarrow> go_err option \<Rightarrow> nat \<Rightarrow> waiting \<Rightarrow> go_err + string \<Rightarrow> string \<Rightarrow>
    dialer \<Rightarrow> (dialer \<times> (go_err + dialed)) option" where
  "anytls_DialContext raw handshake now wt magicNetwork addr d =
     (case magicNetwork of
        Inl e \<Rightarrow> Some (d, Inl e)
      | Inr network \<Rightarrow>
          if network = ''tcp'' then
            (case openStream raw handshake now addr d of
               (d1, Inl e) \<Rightarrow> Some (d1, Inl e)
             | (d1, Inr (a, s)) \<Rightarrow> dial_ready wt (DialedStream a) d1 s a)
          else if network = ''udp'' then
            (case openStream raw handshake now (joinHostPort uotMagicAddress ''0'') d of
               (d1, Inl e) \<Rightarrow> Some (d1, Inl e)
             | (d1, Inr (a, s)) \<Rightarrow>
                 (case parseSocksAddr addr of
                    Inl e \<Rightarrow> Some (d1\<lparr>ad_session := Some (fst (stream_Close s a))\<rparr>, Inl e)
                  | Inr destination \<Rightarrow>
                      (case writeUOTRequest_stream now s a \<lparr>uot_IsConnect = True, uot_Destination = destination\<rparr> of
                         (s1, Some e) \<Rightarrow> Some (d1\<lparr>ad_session := Some (fst (stream_Close s1 a))\<rparr>, Inl e)
                       | (s1, None) \<Rightarrow> dial_ready wt (DialedPacket a destination) d1 s1 a)))
          else Some (d, Inl (Errorf ''unsupported tunnel type'')))"

definition anytls_DialCmdMsg :: "go_err + writer \<Rightarrow> go_err option \<Rightarrow> nat \<Rightarrow> byte \<Rightarrow> dialer \<Rightarrow> dialer \<times> (go_err + nat)" where
  "anytls_DialCmdMsg raw handshake now cmd d =
     (case openStream raw handshake now (joinHostPort managerHost ''0'') d of
        (d1, Inl e) \<Rightarrow> (d1, Inl e)
      | (d1, Inr (a, s)) \<Rightarrow>
          (case stream_Write now s a [cmd] of
             (s1, _, Some e) \<Rightarrow> (d1\<lparr>ad_session := Some (fst (stream_Close s1 a))\<rparr>, Inl e)
           | (s1, _, None) \<Rightarrow> (d1\<lparr>ad_session := Some s1\<rparr>, Inr a)))"

text \<open>\<open>Close\<close>: the dialer without a session, and the session as it is closed.\<close>

definition anytls_dialer_Close :: "dialer \<Rightarrow> dialer \<times> session option" where
  "anytls_dialer_Close d = (d\<lparr>ad_session := None\<rparr>, map_option sess_Close (ad_session d))"

section \<open>A dial, seen from both ends\<close>

lemma length_socks_enc:
  assumes "socks_valid addr"
  shows "0 < length (socks_enc addr) \<and> length (socks_enc addr) \<le> maxFrameData"
proof -
  from assms obtain host port b where h: "splitHostPort addr = Inr (host, port)" "host_bytes host = Inr b"
    by (auto simp: socks_valid_def split: sum.splits prod.splits)
  have "length b \<le> 257"
  proof (cases "parseAddr host")
    case None
    with h(2) show ?thesis by (auto simp: host_bytes_def split: if_splits)
  next
    case (Some ip)
    with h(2) parseAddr_wf [OF Some] show ?thesis
      by (cases ip) (auto simp: host_bytes_def split: if_splits)
  qed
  with h show ?thesis by (simp add: socks_enc_def maxFrameData_def putUint16_def)
qed

text \<open>A write of one frame on a stream without a deadline.\<close>

lemma stream_Write_one:
  assumes "conn_up s" and "0 < length b \<and> length b \<le> maxFrameData" and "st_writeDeadline (the_stream s a) = 0"
  shows "stream_Write now s a b =
    (s\<lparr>s_activeWrite := None, s_connDeadline := 0,
       s_conn := (s_conn s)\<lparr>w_out := w_out (s_conn s) @ frame_bytes (psh (st_id (the_stream s a)) b)\<rparr>\<rparr>, length b, None)"
proof -
  have b: "b \<noteq> []" "take maxFrameData b = b" "drop maxFrameData b = []" using assms(2) by auto
  have "writeFrameForStream now s a (psh (st_id (the_stream s a)) b) =
    (s\<lparr>s_activeWrite := None, s_connDeadline := 0,
       s_conn := (s_conn s)\<lparr>w_out := w_out (s_conn s) @ frame_bytes (psh (st_id (the_stream s a)) b)\<rparr>\<rparr>, None)"
    using assms by (simp add: writeFrameForStream_def beginStreamWrite_def conn_SetWriteDeadline_def conn_up_def
        conn_Write_def writeFrame_bytes endStreamWrite_def Let_def deadlineExceeded_def psh_def)
  with b assms(3) show ?thesis
    by (simp add: stream_Write_def deadlineExceeded_def writeLoop.simps [of _ _ _ _ b]
        writeLoop.simps [of _ _ _ _ "[]"] Let_def psh_def)
qed

definition settings_frame :: frame where
  "settings_frame = \<lparr>f_cmd = cmdSettings, f_streamID = 0, f_data = to_bytes clientSettings\<rparr>"

definition syn_frame :: "u32 \<Rightarrow> frame" where
  "syn_frame sid = \<lparr>f_cmd = cmdSYN, f_streamID = sid, f_data = []\<rparr>"

text \<open>The client after a dial over a new connection.\<close>

definition dialed_client :: "writer \<Rightarrow> bytes \<Rightarrow> string \<Rightarrow> session" where
  "dialed_client conn key addr =
     (newClientSession (conn\<lparr>w_out := w_out conn @ key @ putUint16 0 @ frame_bytes settings_frame @
        frame_bytes (syn_frame 1) @ frame_bytes (psh 1 (socks_enc addr))\<rparr>))
     \<lparr>s_nextID := 1, s_streams := [(1, 0)], s_heap := [newStream 1]\<rparr>"

lemma openStream_fresh:
  assumes "ad_session d = None" and "w_budget conn = None" and "socks_valid addr"
  shows "openStream (Inr conn) None now addr d =
    (d\<lparr>ad_session := Some (dialed_client conn (ad_passwordHash d) addr)\<rparr>,
     Inr (0, dialed_client conn (ad_passwordHash d) addr))"
proof -
  from assms(3) obtain host port b where h: "splitHostPort addr = Inr (host, port)" "host_bytes host = Inr b"
    by (auto simp: socks_valid_def split: sum.splits prod.splits)
  then have enc: "socks_enc addr = b @ putUint16 port" by (simp add: socks_enc_def)
  let ?c = "newClientSession (conn\<lparr>w_out := w_out conn @ ad_passwordHash d @ putUint16 0 @ frame_bytes settings_frame\<rparr>)"
  let ?s = "?c\<lparr>s_nextID := 1, s_streams := [(1, 0)], s_heap := [newStream 1],
    s_conn := (s_conn ?c)\<lparr>w_out := w_out (s_conn ?c) @ frame_bytes (syn_frame 1)\<rparr>\<rparr>"
  have g: "getSession (Inr conn) None d = (d\<lparr>ad_session := Some ?c\<rparr>, Inr ?c)"
    using assms(1,2) by (simp add: getSession_def writeClientAuth_def goWrite_def runClient_def newClientSession_def
        conn_Write_def settings_frame_def writeFrame_bytes clientSettings_def maxFrameData_def)
  have o: "OpenStream ?c = (?s, Inr 0)"
    using assms(2) by (simp add: OpenStream_def newClientSession_def Let_def addStream_def conn_Write_def
        syn_frame_def writeFrame_bytes)
  have "stream_Write now ?s 0 (socks_enc addr) = (dialed_client conn (ad_passwordHash d) addr, length (socks_enc addr), None)"
    using assms(2) length_socks_enc [OF assms(3)]
    by (subst stream_Write_one) (simp_all add: conn_up_def the_stream_def newStream_def newClientSession_def dialed_client_def)
  with g o h enc show ?thesis by (simp add: openStream_def stream_writeSocksAddr_def)
qed

lemma recvLoop_frame:
  "valid_frame f \<Longrightarrow> handleFrame rs s f = RecvGo rs' s' \<Longrightarrow>
     recvLoop (Suc k) rs s (frame_bytes f @ r) = recvLoop k rs' s' r"
  by (simp add: readFrame_bytes)

text \<open>The server after it received what a dial sends.\<close>

definition reached_server :: "writer \<Rightarrow> string \<Rightarrow> session" where
  "reached_server out addr =
     (newServerSession (out\<lparr>w_out := w_out out @
        frame_bytes \<lparr>f_cmd = cmdServerSettings, f_streamID = 0, f_data = to_bytes ''v=2''\<rparr> @
        frame_bytes \<lparr>f_cmd = cmdSYNACK, f_streamID = 1, f_data = []\<rparr>\<rparr>))
     \<lparr>s_peerVersion := 2, s_streams := [(1, 0)],
      s_heap := [(newStream 1)\<lparr>st_readCh := [socks_enc addr]\<rparr>], s_handled := [0]\<rparr>"

lemma server_receives_dial:
  assumes "w_budget out = None" and "socks_valid addr"
  shows "recvLoop (Suc (Suc (Suc k))) False (newServerSession out)
      (frame_bytes settings_frame @ frame_bytes (syn_frame 1) @ frame_bytes (psh 1 (socks_enc addr)) @ rest) =
    recvLoop k True (reached_server out addr) rest"
proof -
  let ?s = "newServerSession out"
  let ?s1 = "?s\<lparr>s_peerVersion := 2, s_conn := out\<lparr>w_out := w_out out @
     frame_bytes \<lparr>f_cmd = cmdServerSettings, f_streamID = 0, f_data = to_bytes ''v=2''\<rparr>\<rparr>\<rparr>"
  let ?s2 = "?s1\<lparr>s_streams := [(1, 0)], s_heap := [newStream 1], s_handled := [0],
     s_conn := (s_conn ?s1)\<lparr>w_out := w_out (s_conn ?s1) @ frame_bytes \<lparr>f_cmd = cmdSYNACK, f_streamID = 1, f_data = []\<rparr>\<rparr>\<rparr>"
  have v: "valid_frame settings_frame" by (simp add: settings_frame_def clientSettings_def maxFrameData_def)
  have 1: "handleFrame False ?s settings_frame = RecvGo True ?s1"
    using assms(1) by (simp add: handleFrame_def settings_frame_def cmd_defs recv_Settings_def client_settings_version
        newServerSession_def newClientSession_def setPeerVersion_def conn_Write_def writeFrame_bytes maxFrameData_def)
  have 2: "handleFrame True ?s1 (syn_frame 1) = RecvGo True ?s2"
    using assms(1) by (simp add: handleFrame_def syn_frame_def cmd_defs recv_SYN_def newServerSession_def newClientSession_def
        getOrCreateStream_def getStream_def addStream_def conn_Write_def writeFrame_bytes)
  have 3: "handleFrame True ?s2 (psh 1 (socks_enc addr)) = RecvGo True (reached_server out addr)"
    by (simp add: handleFrame_def psh_def cmd_defs getStream_def stream_receive_def the_stream_def newStream_def
        newServerSession_def newClientSession_def readChCap_def upd_stream_def reached_server_def)
  have "valid_frame (syn_frame 1)" "valid_frame (psh 1 (socks_enc addr))"
    using length_socks_enc [OF assms(2)] by (simp_all add: syn_frame_def psh_def)
  then show ?thesis
    by (simp only: recvLoop_frame [OF v 1] recvLoop_frame [OF _ 2] recvLoop_frame [OF _ 3])
qed

text \<open>The client after it received what the server answered.\<close>

definition answered_client :: "session \<Rightarrow> session" where
  "answered_client c =
     c\<lparr>s_peerVersion := 2, s_serverSettingsDone := True, s_serverSettingsTimedOut := False, s_serverSettingsCh := True,
       s_heap := [(newStream 1)\<lparr>st_synackCh := [None], st_synackDone := True\<rparr>]\<rparr>"

lemma client_receives_answer:
  assumes "s_isClient c" and "s_peerVersion c = 0" and "s_streams c = [(1, 0)]" and "s_heap c = [newStream 1]"
  shows "recvLoop (Suc (Suc k)) False c
      (frame_bytes \<lparr>f_cmd = cmdServerSettings, f_streamID = 0, f_data = to_bytes ''v=2''\<rparr> @
       frame_bytes \<lparr>f_cmd = cmdSYNACK, f_streamID = 1, f_data = []\<rparr> @ rest) =
    recvLoop k False (answered_client c) rest"
  using assms
  by (simp add: readFrame_bytes maxFrameData_def handleFrame_def cmd_defs recv_ServerSettings_def server_settings_version
      completePeerVersion_def closeServerSettings_def recv_SYNACK_def getStream_def upd_stream_def
      stream_receiveSYNACK_def newStream_def answered_client_def)

lemma auth_of_dial:
  assumes "anytls_ok sha srv" and "q \<in> set (as_passages srv)" and "sha (to_bytes (arg_Password (pa_In q))) = key" and "length key = 32"
  shows "\<exists>p \<in> set (as_passages srv). sha (to_bytes (arg_Password (pa_In p))) = key \<and>
    anytls_auth srv (key @ putUint16 0 @ sent) = Inr (p, sent)"
proof -
  have "find (\<lambda>p. sha (to_bytes (arg_Password (pa_In p))) = key) (rev (as_passages srv)) \<noteq> None"
    using assms(2,3) by (auto simp: find_None_iff)
  then obtain p where p: "find (\<lambda>p. sha (to_bytes (arg_Password (pa_In p))) = key) (rev (as_passages srv)) = Some p" by auto
  then obtain i where i: "i < length (rev (as_passages srv))" "p = rev (as_passages srv) ! i"
    "sha (to_bytes (arg_Password (pa_In p))) = key" by (auto simp: find_Some_iff)
  have "p \<in> set (as_passages srv)" using nth_mem [OF i(1)] i(2) by simp
  moreover have "anytls_auth srv (key @ putUint16 0 @ sent) = Inr (p, sent)"
    using p assms(4) users_find [OF assms(1), of key] readFull_append [of 32 key] readFull_append [of 2 "putUint16 0"]
    by (simp add: anytls_auth_def)
  ultimately show ?thesis using i(3) by blast
qed

section \<open>Properties\<close>

text \<open>C33: A dial over a fresh connection, seen from both ends. What it sends is accepted by a server that
  stores a passage with the dialer's password; the session the server then runs takes version 2, starts
  one handler, and that handler reads the dialed destination from its stream; and when the client's
  session has received the server's answer, the dial returns the stream without an error.\<close>

theorem anytls_dial_roundtrip:
  assumes "anytls_NewDialer sha (Some nd) h = Inr d" and "length (sha (to_bytes (hd_Password h))) = 32"
    and "anytls_ok sha srv" and "q \<in> set (as_passages srv)" and "arg_Password (pa_In q) = hd_Password h"
    and "w_budget conn = None" and "w_out conn = []" and "w_budget out = None" and "w_out out = []" and "socks_valid addr"
  shows "\<exists>c t c' p sent d'. openStream (Inr conn) None now addr d = (d\<lparr>ad_session := Some c\<rparr>, Inr (0, c)) \<and>
    p \<in> set (as_passages srv) \<and> sha (to_bytes (arg_Password (pa_In p))) = sha (to_bytes (hd_Password h)) \<and>
    anytls_auth srv (w_out (s_conn c)) = Inr (p, sent) \<and>
    (\<forall>k rest. recvLoop (Suc (Suc (Suc k))) False (newServerSession out) (sent @ rest) = recvLoop k True t rest) \<and>
    s_peerVersion t = 2 \<and> s_handled t = [0] \<and> readSocksAddr (buf t 0) = Inr (socks_norm addr, []) \<and>
    (\<forall>k rest. recvLoop (Suc (Suc k)) False c (w_out (s_conn t) @ rest) = recvLoop k False c' rest) \<and>
    anytls_DialContext (Inr conn) None now
      \<lparr>wt_settings = SettingsCh, wt_during = (\<lambda>_. c'), wt_synack = SynackCh, wt_after = (\<lambda>s. s)\<rparr>
      (Inr ''tcp'') addr d = Some (d', Inr (DialedStream 0))"
proof -
  let ?key = "sha (to_bytes (hd_Password h))"
  let ?c = "dialed_client conn ?key addr"
  let ?t = "reached_server out addr"
  let ?sent = "frame_bytes settings_frame @ frame_bytes (syn_frame 1) @ frame_bytes (psh 1 (socks_enc addr))"
  have d: "ad_session d = None" "ad_passwordHash d = ?key"
    using assms(1) by (auto simp: anytls_NewDialer_def Let_def)
  have o: "openStream (Inr conn) None now addr d = (d\<lparr>ad_session := Some ?c\<rparr>, Inr (0, ?c))"
    using openStream_fresh [OF d(1) assms(6,10)] d(2) by simp
  have out: "w_out (s_conn ?c) = ?key @ putUint16 0 @ ?sent"
    using assms(7) by (simp add: dialed_client_def newClientSession_def)
  from auth_of_dial [OF assms(3,4) _ assms(2), of ?sent] assms(5) obtain p where
    p: "p \<in> set (as_passages srv)" "sha (to_bytes (arg_Password (pa_In p))) = ?key"
      "anytls_auth srv (w_out (s_conn ?c)) = Inr (p, ?sent)" unfolding out by auto
  have t: "recvLoop (Suc (Suc (Suc k))) False (newServerSession out) (?sent @ rest) = recvLoop k True ?t rest" for k rest
    using server_receives_dial [OF assms(8,10)] by simp
  have b: "readSocksAddr (buf ?t 0) = Inr (socks_norm addr, [])"
    using readSocksAddr_enc [OF assms(10), of "[]"] by (simp add: buf_def reached_server_def newStream_def)
  have a: "recvLoop (Suc (Suc k)) False ?c (w_out (s_conn ?t) @ rest) = recvLoop k False (answered_client ?c) rest" for k rest
    using client_receives_answer [of ?c k rest] assms(9)
    by (simp add: dialed_client_def reached_server_def newServerSession_def newClientSession_def)
  let ?wt = "\<lparr>wt_settings = SettingsCh, wt_during = (\<lambda>_. answered_client ?c), wt_synack = SynackCh, wt_after = (\<lambda>s. s)\<rparr>"
  have "waitStreamReady ?wt ?c 0 = Some (upd_stream 0 (\<lambda>st. st\<lparr>st_synackCh := []\<rparr>) (answered_client ?c), None)"
    by (simp add: waitStreamReady_def waitServerSettings_def serverSettingsState_def answered_client_def dialed_client_def
        newClientSession_def waitSYNACK_def the_stream_def)
  then have "anytls_DialContext (Inr conn) None now ?wt (Inr ''tcp'') addr d =
      Some (d\<lparr>ad_session := Some (upd_stream 0 (\<lambda>st. st\<lparr>st_synackCh := []\<rparr>) (answered_client ?c))\<rparr>, Inr (DialedStream 0))"
    by (simp add: anytls_DialContext_def o dial_ready_def)
  moreover have "s_peerVersion ?t = 2" "s_handled ?t = [0]"
    by (simp_all add: reached_server_def)
  ultimately show ?thesis using o p t b a by blast
qed

definition demo_anytls_header :: header where
  "demo_anytls_header = \<lparr>hd_ProxyAddress = ''a:1'', hd_SNI = ''s'', hd_Feature1 = [], hd_Cipher = [], hd_User = [],
     hd_Password = ''a'', hd_IsClient = True, hd_TlsConfig = None, hd_Flags = 0\<rparr>"

theorem anytls_dial_roundtrip_witness:
  "\<exists>d c p sent. anytls_NewDialer demo_sha (Some (0 :: nat)) demo_anytls_header = Inr d \<and>
     openStream (Inr \<lparr>w_out = [], w_budget = None\<rparr>) None 5 (socksAddr_String \<lparr>sa_Host = ''h'', sa_Port = 80\<rparr>) d = (d\<lparr>ad_session := Some c\<rparr>, Inr (0, c)) \<and>
     anytls_auth demo_server (w_out (s_conn c)) = Inr (p, sent)"
proof -
  let ?w = "\<lparr>w_out = [], w_budget = None\<rparr>"
  obtain d where d: "anytls_NewDialer demo_sha (Some (0 :: nat)) demo_anytls_header = Inr d"
    by (simp add: anytls_NewDialer_def Let_def)
  have pw: "hd_Password demo_anytls_header = ''a''" by (simp add: demo_anytls_header_def)
  let ?q = "passage.extend (demo_user ''a'') (anytls_passage.fields (demo_sha (to_bytes ''a'')))"
  have q: "?q \<in> set (as_passages demo_server)" "arg_Password (pa_In ?q) = hd_Password demo_anytls_header"
    by (simp_all add: demo_passages pw)
  have l: "length (demo_sha (to_bytes (hd_Password demo_anytls_header))) = 32" by (simp add: demo_sha_def)
  have v: "socks_valid (socksAddr_String \<lparr>sa_Host = ''h'', sa_Port = 80\<rparr>)"
    by (simp add: socks_valid_def splitHostPort_String host_bytes_def split: option.split)
  have w: "w_budget ?w = None" "w_out ?w = []" by simp_all
  obtain c p sent where "openStream (Inr ?w) None 5 (socksAddr_String \<lparr>sa_Host = ''h'', sa_Port = 80\<rparr>) d = (d\<lparr>ad_session := Some c\<rparr>, Inr (0, c))"
    "anytls_auth demo_server (w_out (s_conn c)) = Inr (p, sent)"
    using anytls_dial_roundtrip [OF d l demo_server_ok q w w v, of 5] by (elim exE conjE) (rule that)
  with d show ?thesis by blast
qed

end
