(* ===== verification/Linklist.thy ===== *)
theory Linklist
  imports Prelude
begin

text \<open>
  The doubly linked list with sentinel nodes (\<open>infra/linklist/linklist.go\<close>). Nodes are
  addresses, their fields are maps from addresses (a missing entry is a nil pointer), and every
  store through a nil pointer is the result \<open>None\<close>, Go's panic. The refinement lemmas say what
  each operation does to the sequence of nodes between the sentinels.
\<close>

record 'v linklist =
  ll_prior :: "nat \<rightharpoonup> nat"
  ll_next :: "nat \<rightharpoonup> nat"
  ll_val :: "nat \<rightharpoonup> 'v"
  ll_alloc :: nat
  ll_head :: nat
  ll_tail :: nat

text \<open>Stores \<open>p.next = q\<close> and \<open>p.prior = q\<close>; both sides may be nil.\<close>

definition set_next :: "nat option \<Rightarrow> nat option \<Rightarrow> 'v linklist \<Rightarrow> 'v linklist option" where
  "set_next p q l =
     (case p of None \<Rightarrow> None | Some a \<Rightarrow> Some (l\<lparr>ll_next := (ll_next l)(a := q)\<rparr>))"

definition set_prior :: "nat option \<Rightarrow> nat option \<Rightarrow> 'v linklist \<Rightarrow> 'v linklist option" where
  "set_prior p q l =
     (case p of None \<Rightarrow> None | Some a \<Rightarrow> Some (l\<lparr>ll_prior := (ll_prior l)(a := q)\<rparr>))"

text \<open>\<open>p.next.prior\<close> and the like: reading a field of a possibly nil pointer.\<close>

definition NewLinklist :: "'v linklist" where
  "NewLinklist =
     \<lparr>ll_prior = [1 \<mapsto> 0], ll_next = [0 \<mapsto> 1], ll_val = Map.empty, ll_alloc = 2,
      ll_head = 0, ll_tail = 1\<rparr>"

definition Front :: "'v linklist \<Rightarrow> nat option" where
  "Front l = (let node = ll_next l (ll_head l) in if node = Some (ll_tail l) then None else node)"

definition Back :: "'v linklist \<Rightarrow> nat option" where
  "Back l = (let node = ll_prior l (ll_tail l) in if node = Some (ll_head l) then None else node)"

definition Empty :: "'v linklist \<Rightarrow> bool" where
  "Empty l \<longleftrightarrow> ll_next l (ll_head l) = Some (ll_tail l)"

text \<open>The outer option is the panic, the inner one the nil result.\<close>

definition InsertAfter :: "nat \<Rightarrow> 'v \<Rightarrow> 'v linklist \<Rightarrow> ('v linklist \<times> nat option) option" where
  "InsertAfter prior val l =
     (if prior = ll_tail l then Some (l, None)
      else let p = ll_alloc l;
               l1 = l\<lparr>ll_alloc := Suc p, ll_val := (ll_val l)(p \<mapsto> val),
                      ll_prior := (ll_prior l)(p \<mapsto> prior),
                      ll_next := (ll_next l)(p := ll_next l prior)\<rparr>
           in Option.bind (set_prior (ll_next l1 prior) (Some p) l1) (\<lambda>l2.
              Option.bind (set_next (Some prior) (Some p) l2) (\<lambda>l3. Some (l3, Some p))))"

definition PushFront :: "'v \<Rightarrow> 'v linklist \<Rightarrow> ('v linklist \<times> nat option) option" where
  "PushFront val l = InsertAfter (ll_head l) val l"

definition PushBack :: "'v \<Rightarrow> 'v linklist \<Rightarrow> ('v linklist \<times> nat option) option" where
  "PushBack val l =
     (case ll_prior l (ll_tail l) of None \<Rightarrow> None | Some prior \<Rightarrow> InsertAfter prior val l)"

text \<open>\<open>p.prior.next = p.next; p.next.prior = p.prior\<close>\<close>

definition unlink :: "nat \<Rightarrow> 'v linklist \<Rightarrow> 'v linklist option" where
  "unlink p l =
     Option.bind (set_next (ll_prior l p) (ll_next l p) l) (\<lambda>l1.
       set_prior (ll_next l1 p) (ll_prior l1 p) l1)"

definition Promote :: "nat \<Rightarrow> 'v linklist \<Rightarrow> 'v linklist option" where
  "Promote p l =
     (if Some p = Front l then Some l
      else Option.bind (unlink p l) (\<lambda>l1.
           Option.bind (set_prior (Some p) (Some (ll_head l1)) l1) (\<lambda>l2.
           Option.bind (set_next (Some p) (ll_next l2 (ll_head l2)) l2) (\<lambda>l3.
           Option.bind (set_prior (ll_next l3 (ll_head l3)) (Some p) l3) (\<lambda>l4.
             set_next (Some (ll_head l4)) (Some p) l4)))))"

definition Demote :: "nat \<Rightarrow> 'v linklist \<Rightarrow> 'v linklist option" where
  "Demote p l =
     (if Some p = Back l then Some l
      else Option.bind (unlink p l) (\<lambda>l1.
           Option.bind (set_prior (Some p) (ll_prior l1 (ll_tail l1)) l1) (\<lambda>l2.
           Option.bind (set_next (Some p) (Some (ll_tail l2)) l2) (\<lambda>l3.
           Option.bind (set_next (ll_prior l3 (ll_tail l3)) (Some p) l3) (\<lambda>l4.
             set_prior (Some (ll_tail l4)) (Some p) l4)))))"

definition Remove :: "nat \<Rightarrow> 'v linklist \<Rightarrow> 'v linklist option" where
  "Remove p l = (if p = ll_head l \<or> p = ll_tail l then Some l else unlink p l)"

section \<open>The nodes of a list\<close>

fun chain :: "'v linklist \<Rightarrow> nat list \<Rightarrow> bool" where
  "chain l (a # b # r) = (ll_next l a = Some b \<and> ll_prior l b = Some a \<and> chain l (b # r))"
| "chain l _ = True"

text \<open>\<open>nodes l xs\<close>: the nodes between the sentinels are \<open>xs\<close>, linked both ways, all
  allocated and all with a value.\<close>

definition nodes :: "'v linklist \<Rightarrow> nat list \<Rightarrow> bool" where
  "nodes l xs \<longleftrightarrow>
     chain l (ll_head l # xs @ [ll_tail l]) \<and> distinct (ll_head l # xs @ [ll_tail l]) \<and>
     (\<forall>a \<in> set (ll_head l # xs @ [ll_tail l]). a < ll_alloc l) \<and> (\<forall>a \<in> set xs. ll_val l a \<noteq> None)"

lemma chain_snoc: "chain l (xs @ a # ys) \<longleftrightarrow> chain l (xs @ [a]) \<and> chain l (a # ys)"
  by (induction l xs rule: chain.induct) (auto simp: neq_Nil_conv)

lemma chain_cong:
  "(\<And>a. a \<in> set (butlast xs) \<Longrightarrow> ll_next l a = ll_next l' a) \<Longrightarrow>
   (\<And>a. a \<in> set (tl xs) \<Longrightarrow> ll_prior l a = ll_prior l' a) \<Longrightarrow> chain l xs = chain l' xs"
  by (induction l xs rule: chain.induct) auto

text \<open>Cutting a node out of a chain and putting one into it.\<close>

lemma chain_unlink:
  assumes c: "chain l (xs @ a # p # b # ys)" and d: "distinct (xs @ a # p # b # ys)"
    and n: "ll_next l' = (ll_next l)(a \<mapsto> b)" and q: "ll_prior l' = (ll_prior l)(b \<mapsto> a)"
  shows "chain l' (xs @ a # b # ys)"
proof -
  have 1: "chain l (xs @ [a])" "chain l (a # p # b # ys)"
    using c chain_snoc [of l xs a "p # b # ys"] by auto
  have "chain l (xs @ [a]) = chain l' (xs @ [a])"
    using d by (cases xs; intro chain_cong) (auto simp: n q butlast_append)
  moreover have "chain l (b # ys) = chain l' (b # ys)"
    using d by (intro chain_cong) (auto simp: n q dest: in_set_butlastD split: if_splits)
  ultimately show ?thesis
    using 1 by (subst chain_snoc) (simp add: n q)
qed

lemma chain_link:
  assumes c: "chain l (xs @ a # b # ys)" and d: "distinct (xs @ a # b # ys)"
    and p: "p \<notin> set (xs @ a # b # ys)"
    and n: "ll_next l' = (ll_next l)(p \<mapsto> b, a \<mapsto> p)" and q: "ll_prior l' = (ll_prior l)(p \<mapsto> a, b \<mapsto> p)"
  shows "chain l' (xs @ a # p # b # ys)"
proof -
  have 1: "chain l (xs @ [a])" "chain l (a # b # ys)"
    using c chain_snoc [of l xs a "b # ys"] by auto
  have "chain l (xs @ [a]) = chain l' (xs @ [a])"
    using d p by (cases xs; intro chain_cong) (auto simp: n q butlast_append)
  moreover have "chain l (b # ys) = chain l' (b # ys)"
    using d p by (intro chain_cong) (auto simp: n q dest: in_set_butlastD split: if_splits)
  ultimately show ?thesis
    using 1 d p by (subst chain_snoc) (auto simp: n q)
qed

text \<open>The neighbours of a node.\<close>

lemma nodes_at:
  assumes "nodes l (ys @ p # zs)"
  obtains xs a b ws where "ll_head l # ys @ p # zs @ [ll_tail l] = xs @ a # p # b # ws"
    and "ll_head l # ys = xs @ [a]" and "zs @ [ll_tail l] = b # ws"
    and "ll_prior l p = Some a" and "ll_next l p = Some b"
proof -
  obtain xs a where xa: "ll_head l # ys = xs @ [a]" by (metis list.distinct(1) rev_exhaust)
  obtain b ws where bw: "zs @ [ll_tail l] = b # ws" by (cases "zs @ [ll_tail l]") auto
  have e: "ll_head l # ys @ p # zs @ [ll_tail l] = xs @ a # p # b # ws" using xa bw
    by (metis Cons_eq_appendI append.assoc append.simps(1))
  then have "chain l (xs @ a # p # b # ws)" using assms by (simp add: nodes_def)
  then have "chain l (a # p # b # ws)" using chain_snoc by blast
  with that [OF e xa bw] show ?thesis by simp
qed

section \<open>What the operations do to the nodes\<close>

lemma nodes_new: "nodes NewLinklist []"
  by (simp add: nodes_def NewLinklist_def)

lemma nodes_Front: "nodes l xs \<Longrightarrow> Front l = (case xs of [] \<Rightarrow> None | p # _ \<Rightarrow> Some p)"
  by (cases xs) (auto simp: nodes_def Front_def Let_def)

lemma nodes_Back: "nodes l xs \<Longrightarrow> Back l = (if xs = [] then None else Some (last xs))"
proof (cases xs rule: rev_cases)
  case (snoc ys p)
  assume n: "nodes l xs"
  then have "chain l ((ll_head l # ys) @ p # [ll_tail l])" by (simp add: nodes_def snoc)
  then have "chain l [p, ll_tail l]" using chain_snoc by blast
  with n snoc show ?thesis by (auto simp: Back_def Let_def nodes_def)
qed (auto simp: nodes_def Back_def Let_def)

lemma nodes_Empty: "nodes l xs \<Longrightarrow> Empty l \<longleftrightarrow> xs = []"
  by (cases xs) (auto simp: nodes_def Empty_def)

text \<open>Inserting after the sentinel or after a node of the list.\<close>

lemma nodes_InsertAfter:
  assumes n: "nodes l (ys @ zs)" and q: "q = last (ll_head l # ys)"
  shows "\<exists>l'. InsertAfter q v l = Some (l', Some (ll_alloc l)) \<and> nodes l' (ys @ ll_alloc l # zs) \<and>
    ll_val l' = (ll_val l)(ll_alloc l \<mapsto> v)"
proof -
  let ?p = "ll_alloc l"
  obtain xs where xs: "ll_head l # ys = xs @ [q]"
    using q by (metis append_butlast_last_id list.distinct(1))
  obtain b ws where bw: "zs @ [ll_tail l] = b # ws" by (cases "zs @ [ll_tail l]") auto
  have e: "ll_head l # (ys @ zs) @ [ll_tail l] = xs @ q # b # ws"
    using xs bw by (metis Cons_eq_appendI append.assoc append.simps(1))
  have e': "ll_head l # (ys @ ?p # zs) @ [ll_tail l] = xs @ q # ?p # b # ws"
    using xs bw by (metis Cons_eq_appendI append.assoc append.simps(1))
  have c: "chain l (xs @ q # b # ws)" and d: "distinct (xs @ q # b # ws)"
    and al: "\<forall>a \<in> set (xs @ q # b # ws). a < ?p"
    using n unfolding nodes_def e by blast+
  have qb: "ll_next l q = Some b" using c chain_snoc [of l xs q "b # ws"] by simp
  have qt: "q \<noteq> ll_tail l"
  proof -
    have "ll_tail l \<in> set (b # ws)" by (metis bw in_set_conv_decomp)
    then show ?thesis using d by auto
  qed
  have pn: "?p \<notin> set (xs @ q # b # ws)" using al by blast
  let ?l' = "l\<lparr>ll_alloc := Suc ?p, ll_val := (ll_val l)(?p \<mapsto> v),
      ll_prior := (ll_prior l)(?p \<mapsto> q, b \<mapsto> ?p), ll_next := (ll_next l)(?p \<mapsto> b, q \<mapsto> ?p)\<rparr>"
  have r: "InsertAfter q v l = Some (?l', Some ?p)"
    using qt qb pn by (auto simp: InsertAfter_def set_prior_def set_next_def Let_def)
  have "chain ?l' (xs @ q # ?p # b # ws)" by (rule chain_link [OF c d pn]) simp_all
  moreover have "distinct (xs @ q # ?p # b # ws)" using d pn by auto
  moreover have "\<forall>a \<in> set (xs @ q # ?p # b # ws). a < Suc ?p" using al by (auto intro!: less_SucI)
  ultimately have "nodes ?l' (ys @ ?p # zs)"
    using n pn e' unfolding nodes_def by simp
  with r show ?thesis by auto
qed

lemma nodes_PushFront:
  assumes "nodes l xs"
  shows "\<exists>l'. PushFront v l = Some (l', Some (ll_alloc l)) \<and> nodes l' (ll_alloc l # xs) \<and>
    ll_val l' = (ll_val l)(ll_alloc l \<mapsto> v)"
  using nodes_InsertAfter [of l "[]" xs "ll_head l" v] assms by (simp add: PushFront_def)

lemma nodes_PushBack:
  assumes "nodes l xs"
  shows "\<exists>l'. PushBack v l = Some (l', Some (ll_alloc l)) \<and> nodes l' (xs @ [ll_alloc l]) \<and>
    ll_val l' = (ll_val l)(ll_alloc l \<mapsto> v)"
proof -
  have "ll_prior l (ll_tail l) = Some (last (ll_head l # xs))"
  proof -
    have "chain l (butlast (ll_head l # xs) @ last (ll_head l # xs) # [ll_tail l])"
      using assms by (simp only: nodes_def) (metis append_Cons append_assoc append_butlast_last_id
          append.simps(1) list.distinct(1))
    then have "chain l [last (ll_head l # xs), ll_tail l]" using chain_snoc by blast
    then show ?thesis by simp
  qed
  then show ?thesis
    using nodes_InsertAfter [of l xs "[]" "last (ll_head l # xs)" v] assms by (simp add: PushBack_def)
qed

text \<open>Unlinking leaves the node's own fields as they are.\<close>

lemma nodes_unlink:
  assumes n: "nodes l (ys @ p # zs)"
  shows "\<exists>l'. unlink p l = Some l' \<and> nodes l' (ys @ zs) \<and> ll_val l' = ll_val l \<and>
    ll_alloc l' = ll_alloc l \<and> ll_head l' = ll_head l \<and> ll_tail l' = ll_tail l"
proof -
  obtain xs a b ws where e: "ll_head l # ys @ p # zs @ [ll_tail l] = xs @ a # p # b # ws"
    and xa: "ll_head l # ys = xs @ [a]" and bw: "zs @ [ll_tail l] = b # ws"
    and pr: "ll_prior l p = Some a" and nx: "ll_next l p = Some b"
    using nodes_at [OF n] by blast
  have c: "chain l (xs @ a # p # b # ws)" and d: "distinct (xs @ a # p # b # ws)"
    using n e by (simp_all add: nodes_def)
  let ?l' = "l\<lparr>ll_next := (ll_next l)(a \<mapsto> b), ll_prior := (ll_prior l)(b \<mapsto> a)\<rparr>"
  have r: "unlink p l = Some ?l'"
    using pr nx d by (auto simp: unlink_def set_next_def set_prior_def)
  have e': "ll_head l # (ys @ zs) @ [ll_tail l] = xs @ a # b # ws"
    using xa bw by (metis Cons_eq_appendI append.assoc append.simps(1))
  have "chain ?l' (xs @ a # b # ws)" by (rule chain_unlink [OF c d]) simp_all
  then have "nodes ?l' (ys @ zs)"
    using n d e' unfolding nodes_def by (auto simp flip: e')
  with r show ?thesis by auto
qed

lemma nodes_Remove:
  assumes "nodes l (ys @ p # zs)"
  shows "\<exists>l'. Remove p l = Some l' \<and> nodes l' (ys @ zs) \<and> ll_val l' = ll_val l \<and>
    ll_alloc l' = ll_alloc l"
proof -
  have "p \<noteq> ll_head l" "p \<noteq> ll_tail l" using assms by (auto simp: nodes_def)
  then show ?thesis using nodes_unlink [OF assms] by (auto simp: Remove_def)
qed

text \<open>Relinking an unlinked node between two neighbours.\<close>

lemma nodes_relink:
  assumes n: "nodes l (ys @ zs)" and p: "p \<notin> set (ll_head l # (ys @ zs) @ [ll_tail l])"
    and al: "p < ll_alloc l" and v: "ll_val l p \<noteq> None"
    and a: "a = last (ll_head l # ys)" and b: "b = hd (zs @ [ll_tail l])"
    and l': "l' = l\<lparr>ll_next := (ll_next l)(p \<mapsto> b, a \<mapsto> p), ll_prior := (ll_prior l)(p \<mapsto> a, b \<mapsto> p)\<rparr>"
  shows "nodes l' (ys @ p # zs)"
proof -
  obtain xs where xs: "ll_head l # ys = xs @ [a]"
    using a by (metis append_butlast_last_id list.distinct(1))
  obtain ws where bw: "zs @ [ll_tail l] = b # ws" using b by (cases "zs @ [ll_tail l]") auto
  have e: "ll_head l # (ys @ zs) @ [ll_tail l] = xs @ a # b # ws"
    using xs bw by (metis Cons_eq_appendI append.assoc append.simps(1))
  have e': "ll_head l # (ys @ p # zs) @ [ll_tail l] = xs @ a # p # b # ws"
    using xs bw by (metis Cons_eq_appendI append.assoc append.simps(1))
  have c: "chain l (xs @ a # b # ws)" and d: "distinct (xs @ a # b # ws)"
    using n unfolding nodes_def e by blast+
  have pn: "p \<notin> set (xs @ a # b # ws)" using p unfolding e .
  have "chain l' (xs @ a # p # b # ws)"
    unfolding l' by (rule chain_link [OF c d pn]) simp_all
  moreover have "distinct (xs @ a # p # b # ws)" using d pn by auto
  moreover have "ll_head l' = ll_head l" "ll_tail l' = ll_tail l" "ll_alloc l' = ll_alloc l"
    "ll_val l' = ll_val l" by (simp_all add: l')
  moreover have "\<forall>a \<in> set (ll_head l # (ys @ p # zs) @ [ll_tail l]). a < ll_alloc l"
    "\<forall>a \<in> set (ys @ p # zs). ll_val l a \<noteq> None"
    using n al v by (auto simp: nodes_def)
  ultimately show ?thesis
    unfolding nodes_def by (simp only: e' simp_thms)
qed

lemma nodes_Promote:
  assumes n: "nodes l (ys @ p # zs)"
  shows "\<exists>l'. Promote p l = Some l' \<and> nodes l' (p # ys @ zs) \<and> ll_val l' = ll_val l \<and>
    ll_alloc l' = ll_alloc l"
proof (cases ys)
  case Nil
  with n nodes_Front [OF n] show ?thesis by (auto simp: Promote_def)
next
  case (Cons y ys')
  have f: "Some p \<noteq> Front l"
    using nodes_Front [OF n] n Cons by (auto simp: nodes_def)
  from nodes_unlink [OF n] obtain l1 where u: "unlink p l = Some l1" and n1: "nodes l1 (ys @ zs)"
    and same: "ll_val l1 = ll_val l" "ll_alloc l1 = ll_alloc l" "ll_head l1 = ll_head l"
      "ll_tail l1 = ll_tail l" by blast
  have p: "p \<notin> set (ll_head l1 # ([] @ ys @ zs) @ [ll_tail l1])"
    using n by (auto simp: nodes_def same)
  have al: "p < ll_alloc l1" "ll_val l1 p \<noteq> None" using n by (auto simp: nodes_def same)
  have hn: "ll_next l1 (ll_head l1) = Some y" using n1 Cons by (simp add: nodes_def)
  let ?l' = "l1\<lparr>ll_next := (ll_next l1)(p \<mapsto> y, ll_head l1 \<mapsto> p),
      ll_prior := (ll_prior l1)(p \<mapsto> ll_head l1, y \<mapsto> p)\<rparr>"
  have "Promote p l = Some ?l'"
    using f u hn p by (auto simp: Promote_def set_next_def set_prior_def)
  moreover have "nodes ?l' ([] @ p # ys @ zs)"
    by (rule nodes_relink [where a = "ll_head l1" and b = y]) (use n1 p al Cons in simp_all)
  ultimately show ?thesis using same by simp
qed

lemma nodes_Demote:
  assumes n: "nodes l (ys @ p # zs)"
  shows "\<exists>l'. Demote p l = Some l' \<and> nodes l' (ys @ zs @ [p]) \<and> ll_val l' = ll_val l \<and>
    ll_alloc l' = ll_alloc l"
proof (cases zs rule: rev_cases)
  case Nil
  with n nodes_Back [OF n] show ?thesis by (auto simp: Demote_def)
next
  case (snoc zs' z)
  have f: "Some p \<noteq> Back l"
    using nodes_Back [OF n] n snoc by (auto simp: nodes_def)
  from nodes_unlink [OF n] obtain l1 where u: "unlink p l = Some l1" and n1: "nodes l1 (ys @ zs)"
    and same: "ll_val l1 = ll_val l" "ll_alloc l1 = ll_alloc l" "ll_head l1 = ll_head l"
      "ll_tail l1 = ll_tail l" by blast
  have p: "p \<notin> set (ll_head l1 # ((ys @ zs) @ []) @ [ll_tail l1])"
    using n by (auto simp: nodes_def same)
  have al: "p < ll_alloc l1" "ll_val l1 p \<noteq> None" using n by (auto simp: nodes_def same)
  have tp: "ll_prior l1 (ll_tail l1) = Some z"
  proof -
    have "chain l1 ((ll_head l1 # ys @ zs') @ z # [ll_tail l1])"
      using n1 snoc by (simp add: nodes_def)
    then have "chain l1 [z, ll_tail l1]" using chain_snoc by blast
    then show ?thesis by simp
  qed
  let ?l' = "l1\<lparr>ll_next := (ll_next l1)(p \<mapsto> ll_tail l1, z \<mapsto> p),
      ll_prior := (ll_prior l1)(p \<mapsto> z, ll_tail l1 \<mapsto> p)\<rparr>"
  have "Demote p l = Some ?l'"
    using f u tp p by (auto simp: Demote_def set_next_def set_prior_def)
  moreover have "nodes ?l' ((ys @ zs) @ p # [])"
    by (rule nodes_relink [where a = z and b = "ll_tail l1"]) (use n1 p al snoc in simp_all)
  ultimately show ?thesis using same by auto
qed

section \<open>Properties\<close>

text \<open>The values of a list, front to back.\<close>

definition contents :: "'v linklist \<Rightarrow> nat list \<Rightarrow> 'v list" where
  "contents l xs = map (\<lambda>p. the (ll_val l p)) xs"

text \<open>C7: The heap operations implement operations on the sequence of nodes, and none of them
  dereferences a nil pointer on a well-formed list: insertion puts a fresh node at its place,
  promotion moves a node to the front, demotion to the back, removal cuts it out; the other nodes
  keep their order and every node keeps its value.\<close>

theorem linklist_refines:
  assumes "nodes l (ys @ p # zs)"
  shows "(Front l = Some (hd (ys @ p # zs)) \<and> Back l = Some (last (ys @ p # zs)) \<and> \<not> Empty l) \<and>
    (\<exists>l' q. PushFront v l = Some (l', Some q) \<and> q \<notin> set (ys @ p # zs) \<and>
      nodes l' (q # ys @ p # zs) \<and> contents l' (q # ys @ p # zs) = v # contents l (ys @ p # zs)) \<and>
    (\<exists>l' q. PushBack v l = Some (l', Some q) \<and> q \<notin> set (ys @ p # zs) \<and>
      nodes l' (ys @ p # zs @ [q]) \<and> contents l' (ys @ p # zs @ [q]) = contents l (ys @ p # zs) @ [v]) \<and>
    (\<exists>l' q. InsertAfter p v l = Some (l', Some q) \<and> q \<notin> set (ys @ p # zs) \<and>
      nodes l' (ys @ p # q # zs) \<and>
      contents l' (ys @ p # q # zs) = contents l (ys @ [p]) @ v # contents l zs) \<and>
    (\<exists>l'. Promote p l = Some l' \<and> nodes l' (p # ys @ zs) \<and> ll_val l' = ll_val l) \<and>
    (\<exists>l'. Demote p l = Some l' \<and> nodes l' (ys @ zs @ [p]) \<and> ll_val l' = ll_val l) \<and>
    (\<exists>l'. Remove p l = Some l' \<and> nodes l' (ys @ zs) \<and> ll_val l' = ll_val l)"
    (is "?ends \<and> ?front \<and> ?bk \<and> ?after \<and> ?promote \<and> ?demote \<and> ?remove")
proof -
  have fresh: "ll_alloc l \<notin> set (ys @ p # zs)" using assms by (auto simp: nodes_def)
  have keep: "contents l' ws = contents l ws"
    if "ll_val l' = (ll_val l)(ll_alloc l \<mapsto> v)" "set ws \<subseteq> set (ys @ p # zs)" for l' ws
    unfolding contents_def by (rule map_cong) (use that fresh in auto)
  have e: ?ends
    using nodes_Front [OF assms] nodes_Back [OF assms] nodes_Empty [OF assms] by (cases ys) simp_all
  from nodes_PushFront [OF assms, of v] fresh have f: ?front
    using keep [of _ "ys @ p # zs"] by (fastforce simp: contents_def)
  from nodes_PushBack [OF assms, of v] fresh have b: ?bk
    using keep [of _ "ys @ p # zs"] by (fastforce simp: contents_def)
  have "nodes l ((ys @ [p]) @ zs)" using assms by simp
  from nodes_InsertAfter [OF this, of p v] fresh have a: ?after
    using keep [of _ "ys @ [p]"] keep [of _ zs] by (fastforce simp: contents_def)
  have p: ?promote and d: ?demote and r: ?remove
    using nodes_Promote [OF assms] nodes_Demote [OF assms] nodes_Remove [OF assms] by blast+
  show ?thesis by (rule conjI [OF e conjI [OF f conjI [OF b conjI [OF a conjI [OF p conjI [OF d r]]]]]])
qed

definition demo_list :: "string linklist" where
  "demo_list =
     \<lparr>ll_prior = [2 \<mapsto> 0, 3 \<mapsto> 2, 1 \<mapsto> 3], ll_next = [0 \<mapsto> 2, 2 \<mapsto> 3, 3 \<mapsto> 1],
      ll_val = [2 \<mapsto> ''a'', 3 \<mapsto> ''b''], ll_alloc = 4, ll_head = 0, ll_tail = 1\<rparr>"

theorem linklist_refines_witness:
  "\<exists>l'. Promote 3 demo_list = Some l' \<and> nodes l' [3, 2] \<and> ll_val l' = ll_val demo_list"
  using linklist_refines [of demo_list "[2]" 3 "[]"] by (simp add: demo_list_def nodes_def)

end
