(* ===== verification/Lru.thy ===== *)
theory Lru
  imports Linklist "HOL-Library.AList"
begin

text \<open>
  The LRU cache (\<open>infra/lru/lru.go\<close>): a linked list of values, most recently used first, an
  index from keys to nodes and one from nodes to keys. \<open>None\<close> is a panic, a value is \<open>None\<close>
  for Go's nil, and \<open>now\<close> is the clock. The refinement relates it to the sequence of entries,
  the locale states what the users of the cache rely on.
\<close>

datatype strategy = FixedLength | FixedTimeout

record 'v ev =
  ev_Value :: "'v option"
  ev_LastUseTime :: int

record ('k, 'v) lru =
  lru_list :: "'v ev linklist"
  lru_index :: "('k \<times> nat) list"
  lru_reverseIndex :: "(nat \<times> 'k) list"
  lru_strategy :: strategy
  lru_limit :: int

definition NewLru :: "strategy \<Rightarrow> int \<Rightarrow> ('k, 'v) lru" where
  "NewLru strategy limit =
     \<lparr>lru_list = NewLinklist, lru_index = [], lru_reverseIndex = [], lru_strategy = strategy,
      lru_limit = limit\<rparr>"

text \<open>\<open>get\<close> moves the node to the front and stamps its value in place.\<close>

definition lru_get :: "int \<Rightarrow> 'k \<Rightarrow> ('k, 'v) lru \<Rightarrow> (('k, 'v) lru \<times> 'v option) option" where
  "lru_get now key l =
     (case map_of (lru_index l) key of
        None \<Rightarrow> Some (l, None)
      | Some v \<Rightarrow>
          Option.bind (Promote v (lru_list l)) (\<lambda>ll.
          Option.bind (ll_val ll v) (\<lambda>ev.
            Some (l\<lparr>lru_list := ll\<lparr>ll_val := (ll_val ll)(v \<mapsto> ev\<lparr>ev_LastUseTime := now\<rparr>)\<rparr>\<rparr>,
                  ev_Value ev))))"

text \<open>The body both strategies share: the value, the key and the node of the last entry go.\<close>

definition lru_drop :: "nat \<Rightarrow> ('k, 'v) lru \<Rightarrow> ('k, 'v) lru option" where
  "lru_drop back l =
     Option.bind (Remove back (lru_list l)) (\<lambda>ll.
       Some (l\<lparr>lru_list := ll,
               lru_index := (case map_of (lru_reverseIndex l) back of
                               None \<Rightarrow> lru_index l
                             | Some key \<Rightarrow> AList.delete key (lru_index l)),
               lru_reverseIndex := AList.delete back (lru_reverseIndex l)\<rparr>))"

definition lru_evict_length :: "('k, 'v) lru \<Rightarrow> (('k, 'v) lru \<times> 'v ev list) option" where
  "lru_evict_length l =
     (if lru_limit l < int (length (lru_index l))
      then Option.bind (Back (lru_list l)) (\<lambda>back.
           Option.bind (ll_val (lru_list l) back) (\<lambda>ev.
             map_option (\<lambda>l'. (l', [ev])) (lru_drop back l)))
      else Some (l, []))"

text \<open>The loop of \<open>FixedTimeout\<close>; the fuel counts rounds. One more than the number of nodes is
  enough, every round but the last removes a node.\<close>

fun lru_evict_timeout :: "nat \<Rightarrow> int \<Rightarrow> ('k, 'v) lru \<Rightarrow> 'v ev list \<Rightarrow> (('k, 'v) lru \<times> 'v ev list) option" where
  "lru_evict_timeout 0 now l removed = None"
| "lru_evict_timeout (Suc n) now l removed =
     (case Back (lru_list l) of
        None \<Rightarrow> Some (l, removed)
      | Some back \<Rightarrow>
          (case ll_val (lru_list l) back of
             None \<Rightarrow> None
           | Some ev \<Rightarrow>
               if now - ev_LastUseTime ev < lru_limit l then Some (l, removed)
               else (case lru_drop back l of
                       None \<Rightarrow> None
                     | Some l' \<Rightarrow> lru_evict_timeout n now l' (removed @ [ev]))))"

text \<open>\<open>now\<close> stamps the value, \<open>now2\<close> is the later reading of the clock in \<open>FixedTimeout\<close>.\<close>

definition lru_insert :: "int \<Rightarrow> int \<Rightarrow> 'k \<Rightarrow> 'v option \<Rightarrow> ('k, 'v) lru \<Rightarrow>
    (('k, 'v) lru \<times> 'v ev list) option" where
  "lru_insert now now2 key val l =
     Option.bind (PushFront \<lparr>ev_Value = val, ev_LastUseTime = now\<rparr> (lru_list l)) (\<lambda>(ll, node).
       (case node of
          None \<Rightarrow> None
        | Some p \<Rightarrow>
            let l1 = l\<lparr>lru_list := ll, lru_index := AList.update key p (lru_index l),
                       lru_reverseIndex := AList.update p key (lru_reverseIndex l)\<rparr>
            in (case lru_strategy l1 of
                  FixedLength \<Rightarrow> lru_evict_length l1
                | FixedTimeout \<Rightarrow> lru_evict_timeout (Suc (length (lru_reverseIndex l1))) now2 l1 [])))"

definition GetOrInsert :: "int \<Rightarrow> int \<Rightarrow> 'k \<Rightarrow> 'v option \<Rightarrow> ('k, 'v) lru \<Rightarrow>
    (('k, 'v) lru \<times> 'v option \<times> 'v ev list) option" where
  "GetOrInsert now now2 key valFunc l =
     Option.bind (lru_get now key l) (\<lambda>(l1, val).
       (case val of
          None \<Rightarrow> map_option (\<lambda>(l2, removed). (l2, valFunc, removed)) (lru_insert now now2 key valFunc l1)
        | Some v \<Rightarrow> Some (l1, Some v, [])))"

definition GetKeys :: "('k, 'v) lru \<Rightarrow> 'k list" where
  "GetKeys l = map fst (lru_index l)"

section \<open>The entries of a cache\<close>

text \<open>An entry is its node, its key and its value; the list and both indexes hold exactly the
  entries, and no key has two.\<close>

type_synonym ('k, 'v) entry = "nat \<times> 'k \<times> 'v ev"

abbreviation keys_of :: "('k, 'v) entry list \<Rightarrow> 'k list" where
  "keys_of es \<equiv> map (\<lambda>x. fst (snd x)) es"

definition lru_rep :: "('k, 'v) lru \<Rightarrow> ('k, 'v) entry list \<Rightarrow> bool" where
  "lru_rep l es \<longleftrightarrow>
     nodes (lru_list l) (map fst es) \<and> (\<forall>x \<in> set es. ll_val (lru_list l) (fst x) = Some (snd (snd x))) \<and>
     distinct (keys_of es) \<and>
     distinct (map fst (lru_index l)) \<and> set (lru_index l) = (\<lambda>x. (fst (snd x), fst x)) ` set es \<and>
     distinct (map fst (lru_reverseIndex l)) \<and>
     set (lru_reverseIndex l) = (\<lambda>x. (fst x, fst (snd x))) ` set es"

lemma lru_rep_new: "lru_rep (NewLru st lim) []"
  by (simp add: lru_rep_def NewLru_def nodes_new)

lemma NewLru_sel [simp]: "lru_limit (NewLru st lim) = lim" "lru_strategy (NewLru st lim) = st"
  by (simp_all add: NewLru_def)

lemma rep_index:
  assumes "lru_rep l (xs @ (p, k, e) # ys)"
  shows "map_of (lru_index l) k = Some p" "map_of (lru_reverseIndex l) p = Some k"
    "ll_val (lru_list l) p = Some e"
  using assms by (simp_all add: lru_rep_def)

lemma rep_no_index: "lru_rep l es \<Longrightarrow> k \<notin> set (keys_of es) \<Longrightarrow> map_of (lru_index l) k = None"
  by (simp add: lru_rep_def map_of_eq_None_iff image_image)

lemma rep_distinct_nodes: "lru_rep l es \<Longrightarrow> distinct (map fst es)"
  by (simp add: lru_rep_def nodes_def)

lemma rep_length: "lru_rep l es \<Longrightarrow> length (lru_index l) = length es"
proof -
  assume r: "lru_rep l es"
  have "length (lru_index l) = card (set (map fst (lru_index l)))"
    using r distinct_card [of "map fst (lru_index l)"] by (simp add: lru_rep_def)
  also have "set (map fst (lru_index l)) = set (keys_of es)"
    using r by (simp add: lru_rep_def image_image)
  also have "card \<dots> = length es"
    using r distinct_card [of "keys_of es"] by (simp add: lru_rep_def)
  finally show ?thesis .
qed

lemma rep_length_reverse: "lru_rep l es \<Longrightarrow> length (lru_reverseIndex l) = length es"
proof -
  assume r: "lru_rep l es"
  have "length (lru_reverseIndex l) = card (set (map fst (lru_reverseIndex l)))"
    using r distinct_card [of "map fst (lru_reverseIndex l)"] by (simp add: lru_rep_def)
  also have "set (map fst (lru_reverseIndex l)) = set (map fst es)"
    using r by (simp add: lru_rep_def image_image)
  also have "card \<dots> = length es"
    using rep_distinct_nodes [OF r] distinct_card [of "map fst es"] by simp
  finally show ?thesis .
qed

lemma nodes_val:
  assumes "nodes l xs" and "\<And>a. a \<in> set xs \<Longrightarrow> f a \<noteq> None"
  shows "nodes (l\<lparr>ll_val := f\<rparr>) xs"
proof -
  have "chain (l\<lparr>ll_val := f\<rparr>) ys = chain l ys" for ys by (rule chain_cong) simp_all
  with assms show ?thesis by (simp add: nodes_def)
qed

lemma rep_get_hit:
  assumes "lru_rep l (xs @ (p, k, e) # ys)"
  shows "\<exists>l'. lru_get now k l = Some (l', ev_Value e) \<and>
    lru_rep l' ((p, k, e\<lparr>ev_LastUseTime := now\<rparr>) # xs @ ys) \<and>
    lru_strategy l' = lru_strategy l \<and> lru_limit l' = lru_limit l"
proof -
  have n: "nodes (lru_list l) (map fst xs @ p # map fst ys)" using assms by (simp add: lru_rep_def)
  from nodes_Promote [OF n] obtain ll where ll: "Promote p (lru_list l) = Some ll"
    and nn: "nodes ll (p # map fst xs @ map fst ys)" and v: "ll_val ll = ll_val (lru_list l)" by blast
  let ?e = "e\<lparr>ev_LastUseTime := now\<rparr>"
  let ?l' = "l\<lparr>lru_list := ll\<lparr>ll_val := (ll_val ll)(p \<mapsto> ?e)\<rparr>\<rparr>"
  have np: "nodes (ll\<lparr>ll_val := (ll_val ll)(p \<mapsto> ?e)\<rparr>) (p # map fst xs @ map fst ys)"
    by (rule nodes_val [OF nn]) (use nn in \<open>auto simp: nodes_def\<close>)
  have pd: "p \<notin> fst ` set xs" "p \<notin> fst ` set ys" using rep_distinct_nodes [OF assms] by auto
  have ne: "fst x \<noteq> p" if "x \<in> set xs \<union> set ys" for x using pd that by auto
  have vals: "\<forall>x \<in> set ((p, k, ?e) # xs @ ys).
      ((ll_val ll)(p \<mapsto> ?e)) (fst x) = Some (snd (snd x))"
    using assms ne v by (simp add: lru_rep_def ball_Un)
  have "lru_rep ?l' ((p, k, ?e) # xs @ ys)"
    unfolding lru_rep_def using np vals assms by (simp add: lru_rep_def)
  moreover have "lru_get now k l = Some (?l', ev_Value e)"
    using rep_index [OF assms] ll v by (simp add: lru_get_def)
  ultimately show ?thesis by auto
qed

lemma rep_get_miss:
  "lru_rep l es \<Longrightarrow> k \<notin> set (keys_of es) \<Longrightarrow> lru_get now k l = Some (l, None)"
  by (simp add: lru_get_def rep_no_index del: set_map)

lemma filter_image_pair:
  assumes "\<And>x. x \<in> S \<Longrightarrow> f x \<noteq> k"
  shows "{y \<in> insert (k, v) ((\<lambda>x. (f x, g x)) ` S). case y of (k', _) \<Rightarrow> k \<noteq> k'} = (\<lambda>x. (f x, g x)) ` S"
  using assms by auto

lemma rep_drop:
  assumes "lru_rep l (es @ [(p, k, e)])"
  shows "\<exists>l'. lru_drop p l = Some l' \<and> lru_rep l' es \<and>
    lru_strategy l' = lru_strategy l \<and> lru_limit l' = lru_limit l"
proof -
  have n: "nodes (lru_list l) (map fst es @ p # [])" using assms by (simp add: lru_rep_def)
  from nodes_Remove [OF n] obtain ll where ll: "Remove p (lru_list l) = Some ll"
    and nn: "nodes ll (map fst es)" and v: "ll_val ll = ll_val (lru_list l)" by auto
  note ix = rep_index [OF assms]
  have p: "\<And>x. x \<in> set es \<Longrightarrow> fst x \<noteq> p" using rep_distinct_nodes [OF assms] by auto
  have k: "\<And>x. x \<in> set es \<Longrightarrow> fst (snd x) \<noteq> k" using assms by (auto simp: lru_rep_def)
  have i: "set (AList.delete k (lru_index l)) = (\<lambda>x. (fst (snd x), fst x)) ` set es"
    using assms filter_image_pair [of "set es" "\<lambda>x. fst (snd x)" k p fst] k
    by (simp add: lru_rep_def AList.delete_eq)
  have j: "set (AList.delete p (lru_reverseIndex l)) = (\<lambda>x. (fst x, fst (snd x))) ` set es"
    using assms filter_image_pair [of "set es" fst p k "\<lambda>x. fst (snd x)"] p
    by (simp add: lru_rep_def AList.delete_eq)
  have "lru_rep (l\<lparr>lru_list := ll, lru_index := AList.delete k (lru_index l),
      lru_reverseIndex := AList.delete p (lru_reverseIndex l)\<rparr>) es"
    unfolding lru_rep_def using assms nn v i j
    by (simp add: lru_rep_def AList.delete_eq distinct_map_filter)
  with ll ix show ?thesis by (auto simp: lru_drop_def)
qed

lemma set_AList_update_new:
  "k \<notin> fst ` set al \<Longrightarrow> set (AList.update k v al) = insert (k, v) (set al)"
  by (induction al) auto

lemma rep_push:
  assumes r: "lru_rep l es" and k: "k \<notin> set (keys_of es)"
  shows "\<exists>ll p. PushFront e (lru_list l) = Some (ll, Some p) \<and>
    lru_rep (l\<lparr>lru_list := ll, lru_index := AList.update k p (lru_index l),
      lru_reverseIndex := AList.update p k (lru_reverseIndex l)\<rparr>) ((p, k, e) # es)"
proof -
  let ?p = "ll_alloc (lru_list l)"
  have n: "nodes (lru_list l) (map fst es)" using r by (simp add: lru_rep_def)
  from nodes_PushFront [OF n, of e] obtain ll where
    ll: "PushFront e (lru_list l) = Some (ll, Some ?p)" "nodes ll (?p # map fst es)"
      "ll_val ll = (ll_val (lru_list l))(?p \<mapsto> e)" by blast
  have p: "?p \<notin> fst ` set es" using ll(2) by (simp add: nodes_def)
  have i: "k \<notin> fst ` set (lru_index l)" "?p \<notin> fst ` set (lru_reverseIndex l)"
    using r k p by (simp_all add: lru_rep_def image_image)
  have vals: "\<forall>x \<in> set es. ll_val ll (fst x) = Some (snd (snd x))"
  proof
    fix x
    assume x: "x \<in> set es"
    then have "fst x \<noteq> ?p" using p by force
    then show "ll_val ll (fst x) = Some (snd (snd x))" using r x by (simp add: lru_rep_def ll(3))
  qed
  have "lru_rep (l\<lparr>lru_list := ll, lru_index := AList.update k ?p (lru_index l),
      lru_reverseIndex := AList.update ?p k (lru_reverseIndex l)\<rparr>) ((?p, k, e) # es)"
    unfolding lru_rep_def
    using r k ll(2,3) vals set_AList_update_new [OF i(1)] set_AList_update_new [OF i(2)]
    by (simp add: lru_rep_def AList.distinct_update)
  with ll(1) show ?thesis by blast
qed

section \<open>The cache as a list of keys, values and times\<close>

type_synonym ('k, 'v) cached = "('k \<times> 'v \<times> int) list"

definition ev_of :: "'v \<times> int \<Rightarrow> 'v ev" where
  "ev_of vt = \<lparr>ev_Value = Some (fst vt), ev_LastUseTime = snd vt\<rparr>"

lemma ev_of_sel [simp]: "ev_Value (ev_of vt) = Some (fst vt)" "ev_LastUseTime (ev_of vt) = snd vt"
  "(ev_of vt)\<lparr>ev_LastUseTime := t\<rparr> = ev_of (fst vt, t)"
  by (simp_all add: ev_of_def)

definition with_nodes :: "nat list \<Rightarrow> ('k, 'v) cached \<Rightarrow> ('k, 'v) entry list" where
  "with_nodes ps c = map (\<lambda>(p, k, vt). (p, k, ev_of vt)) (zip ps c)"

definition cache_rep :: "strategy \<Rightarrow> int \<Rightarrow> ('k, 'v) lru \<Rightarrow> ('k, 'v) cached \<Rightarrow> bool" where
  "cache_rep st lim l c \<longleftrightarrow>
     (\<exists>ps. length ps = length c \<and> lru_rep l (with_nodes ps c)) \<and> lru_strategy l = st \<and> lru_limit l = lim"

text \<open>What is kept and what is removed, the first removed first.\<close>

definition expired :: "int \<Rightarrow> int \<Rightarrow> 'k \<times> 'v \<times> int \<Rightarrow> bool" where
  "expired lim now x \<longleftrightarrow> \<not> now - snd (snd x) < lim"

fun evict :: "strategy \<Rightarrow> int \<Rightarrow> int \<Rightarrow> ('k, 'v) cached \<Rightarrow> ('k, 'v) cached \<times> ('k, 'v) cached" where
  "evict FixedLength lim now c =
     (if c \<noteq> [] \<and> lim < int (length c) then (butlast c, [last c]) else (c, []))"
| "evict FixedTimeout lim now c =
     (rev (dropWhile (expired lim now) (rev c)), takeWhile (expired lim now) (rev c))"

lemma evict_split: "fst (evict st lim now c) @ rev (snd (evict st lim now c)) = c"
proof (cases st)
  case FixedTimeout
  have "rev (dropWhile P (rev c)) @ rev (takeWhile P (rev c)) = c" for P
    by (metis rev_append rev_rev_ident takeWhile_dropWhile_id)
  then show ?thesis by (simp add: FixedTimeout)
qed simp

lemma with_nodes_keys: "length ps = length c \<Longrightarrow> keys_of (with_nodes ps c) = map fst c"
  by (auto simp: with_nodes_def list_eq_iff_nth_eq split: prod.splits)

lemma with_nodes_Cons [simp]: "with_nodes (p # ps) ((k, vt) # c) = (p, k, ev_of vt) # with_nodes ps c"
  by (simp add: with_nodes_def)

lemma with_nodes_append:
  "length ps = length c \<Longrightarrow> with_nodes (ps @ qs) (c @ d) = with_nodes ps c @ with_nodes qs d"
  by (simp add: with_nodes_def)

lemma with_nodes_Nil [simp]: "with_nodes [] c = []" "with_nodes ps [] = []"
  by (simp_all add: with_nodes_def)

lemma length_with_nodes [simp]: "length ps = length c \<Longrightarrow> length (with_nodes ps c) = length c"
  by (simp add: with_nodes_def)

lemma rep_nodes_list: "lru_rep l es \<Longrightarrow> nodes (lru_list l) (map fst es)"
  by (simp add: lru_rep_def)

lemma evict_timeout_rep:
  assumes "lru_rep l (with_nodes ps c)" and "length ps = length c" and "length c < n"
  shows "\<exists>l' qs. lru_evict_timeout n now l rm =
      Some (l', rm @ map (\<lambda>x. ev_of (snd x)) (snd (evict FixedTimeout (lru_limit l) now c))) \<and>
    lru_rep l' (with_nodes qs (fst (evict FixedTimeout (lru_limit l) now c))) \<and>
    length qs = length (fst (evict FixedTimeout (lru_limit l) now c)) \<and>
    lru_strategy l' = lru_strategy l \<and> lru_limit l' = lru_limit l"
  using assms
proof (induction n arbitrary: l ps c rm)
  case (Suc n)
  show ?case
  proof (cases c rule: rev_cases)
    case Nil
    with Suc.prems have "Back (lru_list l) = None"
      using nodes_Back [OF rep_nodes_list [OF Suc.prems(1)]] by simp
    with Nil Suc.prems show ?thesis by auto
  next
    case (snoc d x)
    obtain k vt where x: "x = (k, vt)" by (cases x)
    obtain qs p where ps: "ps = qs @ [p]" "length qs = length d"
      using Suc.prems(2) snoc by (cases ps rule: rev_cases) auto
    have es: "with_nodes ps c = with_nodes qs d @ [(p, k, ev_of vt)]"
      by (simp add: ps snoc x with_nodes_append)
    note r = Suc.prems(1) [unfolded es]
    have b: "Back (lru_list l) = Some p" using nodes_Back [OF rep_nodes_list [OF r]] by simp
    note v = rep_index(3) [OF r]
    show ?thesis
    proof (cases "now - snd vt < lru_limit l")
      case True
      with b v Suc.prems snoc x show ?thesis
        by (intro exI [of _ l] exI [of _ ps]) (simp add: expired_def)
    next
      case False
      from rep_drop [OF r] obtain l1 where l1: "lru_drop p l = Some l1" "lru_rep l1 (with_nodes qs d)"
        "lru_strategy l1 = lru_strategy l" "lru_limit l1 = lru_limit l" by blast
      have "length d < n" using Suc.prems(3) snoc by simp
      from Suc.IH [OF l1(2) ps(2) this, of "rm @ [ev_of vt]"] b v False l1 snoc x show ?thesis
        by (simp add: expired_def)
    qed
  qed
qed simp

lemma evict_length_rep:
  assumes "lru_rep l (with_nodes ps c)" and "length ps = length c" and "c \<noteq> []"
  shows "\<exists>l' qs. lru_evict_length l =
      Some (l', map (\<lambda>x. ev_of (snd x)) (snd (evict FixedLength (lru_limit l) now c))) \<and>
    lru_rep l' (with_nodes qs (fst (evict FixedLength (lru_limit l) now c))) \<and>
    length qs = length (fst (evict FixedLength (lru_limit l) now c)) \<and>
    lru_strategy l' = lru_strategy l \<and> lru_limit l' = lru_limit l"
proof -
  obtain d k vt where c: "c = d @ [(k, vt)]" using assms(3) by (metis rev_exhaust surj_pair)
  obtain qs p where ps: "ps = qs @ [p]" "length qs = length d"
    using assms(2) c by (cases ps rule: rev_cases) auto
  have es: "with_nodes ps c = with_nodes qs d @ [(p, k, ev_of vt)]"
    by (simp add: ps c with_nodes_append)
  note r = assms(1) [unfolded es]
  have b: "Back (lru_list l) = Some p" using nodes_Back [OF rep_nodes_list [OF r]] by simp
  note v = rep_index(3) [OF r]
  have len: "length (lru_index l) = length c" using rep_length [OF assms(1)] assms(2) by simp
  from rep_drop [OF r] obtain l1 where l1: "lru_drop p l = Some l1" "lru_rep l1 (with_nodes qs d)"
    "lru_strategy l1 = lru_strategy l" "lru_limit l1 = lru_limit l" by blast
  show ?thesis
  proof (cases "lru_limit l < int (length c)")
    case True
    with b v l1 ps c show ?thesis unfolding lru_evict_length_def len by auto
  next
    case False
    with assms show ?thesis unfolding lru_evict_length_def len
      by (intro exI [of _ l] exI [of _ ps]) auto
  qed
qed

section \<open>The interface of a cache\<close>

text \<open>What a user of a keyed cache calls and relies on: a lookup of a cached key returns its
  value and makes it the most recent one; a lookup of another key inserts the given value, and
  everything the policy removes is handed back.\<close>

fun run_lookups :: "(int \<Rightarrow> int \<Rightarrow> 'k \<Rightarrow> 'v \<Rightarrow> 's \<Rightarrow> ('s \<times> 'v \<times> 'v list) option) \<Rightarrow>
    (int \<times> int \<times> 'k \<times> 'v) list \<Rightarrow> 's \<Rightarrow> ('s \<times> 'v list) option" where
  "run_lookups goi [] s = Some (s, [])"
| "run_lookups goi ((now, now2, k, w) # qs) s =
     (case goi now now2 k w s of
        None \<Rightarrow> None
      | Some (s1, v, rm) \<Rightarrow> map_option (\<lambda>(s2, rs). (s2, rm @ rs)) (run_lookups goi qs s1))"

locale keyed_cache =
  fixes rep :: "'s \<Rightarrow> ('k \<times> 'v \<times> int) list \<Rightarrow> bool"
    and goi :: "int \<Rightarrow> int \<Rightarrow> 'k \<Rightarrow> 'v \<Rightarrow> 's \<Rightarrow> ('s \<times> 'v \<times> 'v list) option"
    and policy :: "int \<Rightarrow> ('k \<times> 'v \<times> int) list \<Rightarrow> ('k \<times> 'v \<times> int) list \<times> ('k \<times> 'v \<times> int) list"
  assumes rep_distinct: "rep s c \<Longrightarrow> distinct (map fst c)"
    and hit: "rep s (xs @ (k, v, t) # ys) \<Longrightarrow>
      \<exists>s'. goi now now2 k w s = Some (s', v, []) \<and> rep s' ((k, v, now) # xs @ ys)"
    and miss: "rep s c \<Longrightarrow> k \<notin> fst ` set c \<Longrightarrow>
      \<exists>s'. goi now now2 k w s =
          Some (s', w, map (\<lambda>x. fst (snd x)) (snd (policy now2 ((k, w, now) # c)))) \<and>
        rep s' (fst (policy now2 ((k, w, now) # c)))"
    and policy_split: "fst (policy now c) @ rev (snd (policy now c)) = c"
begin

lemma cases_key:
  obtains (cached) xs v t ys where "c = xs @ (k, v, t) # ys" | (absent) "k \<notin> fst ` set c"
proof (cases "k \<in> fst ` set c")
  case True
  then obtain x where x: "x \<in> set c" "fst x = k" by auto
  obtain xs ys where "c = xs @ x # ys" using split_list [OF x(1)] by blast
  with x(2) show ?thesis by (cases x) (auto intro: cached)
qed (rule absent)

text \<open>Every lookup succeeds, and the values cached afterwards and those handed back are the
  values cached before and the one inserted on a miss.\<close>

lemma lookup_conserves:
  assumes "rep s c"
  shows "\<exists>s' v rm c' new. goi now now2 k w s = Some (s', v, rm) \<and> rep s' c' \<and>
    image_mset (\<lambda>x. fst (snd x)) (mset c') + mset rm = image_mset (\<lambda>x. fst (snd x)) (mset c) + new \<and>
    new = (if k \<in> fst ` set c then {#} else {#w#})"
proof (cases rule: cases_key [of c k])
  case (cached xs v t ys)
  with hit [of s xs k v t ys now now2 w] assms show ?thesis by fastforce
next
  case absent
  let ?p = "policy now2 ((k, w, now) # c)"
  have "image_mset (\<lambda>x. fst (snd x)) (mset (fst ?p)) + mset (map (\<lambda>x. fst (snd x)) (snd ?p)) =
    image_mset (\<lambda>x. fst (snd x)) (mset (fst ?p @ rev (snd ?p)))" by simp
  also have "\<dots> = image_mset (\<lambda>x. fst (snd x)) (mset c) + {#w#}" by (simp add: policy_split)
  finally show ?thesis using miss [OF assms absent, of now now2 w] absent by fastforce
qed

lemma lookups_succeed: "rep s c \<Longrightarrow> \<exists>s' rm c'. run_lookups goi qs s = Some (s', rm) \<and> rep s' c'"
proof (induction qs arbitrary: s c)
  case (Cons q qs)
  obtain now now2 k w where q: "q = (now, now2, k, w)" by (cases q)
  from lookup_conserves [OF Cons.prems] obtain s1 v rm c1 where
    "goi now now2 k w s = Some (s1, v, rm)" "rep s1 c1" by blast
  with Cons.IH [of s1 c1] q show ?case by auto
qed auto

text \<open>Over a sequence of lookups nothing is dropped without being handed back, and nothing is
  handed back twice.\<close>

lemma lookups_conserve:
  "rep s c \<Longrightarrow> run_lookups goi qs s = Some (s', rm) \<Longrightarrow>
     \<exists>c' new. rep s' c' \<and>
       image_mset (\<lambda>x. fst (snd x)) (mset c') + mset rm = image_mset (\<lambda>x. fst (snd x)) (mset c) + new \<and>
       new \<subseteq># mset (map (\<lambda>q. snd (snd (snd q))) qs)"
proof (induction qs arbitrary: s c rm)
  case (Cons q qs)
  obtain now now2 k w where q: "q = (now, now2, k, w)" by (cases q)
  from lookup_conserves [OF Cons.prems(1), of now now2 k w] obtain s1 v r1 c1 n1 where
    g: "goi now now2 k w s = Some (s1, v, r1)" and c1: "rep s1 c1"
    and m1: "image_mset (\<lambda>x. fst (snd x)) (mset c1) + mset r1 =
      image_mset (\<lambda>x. fst (snd x)) (mset c) + n1" and n1: "n1 \<subseteq># {#w#}"
    by (metis (mono_tags) empty_le subset_mset.order_refl)
  from Cons.prems(2) g q obtain rs where rs: "run_lookups goi qs s1 = Some (s', rs)" "rm = r1 @ rs"
    by (auto split: option.splits)
  from Cons.IH [OF c1 rs(1)] obtain c' new where c': "rep s' c'"
    and m: "image_mset (\<lambda>x. fst (snd x)) (mset c') + mset rs =
      image_mset (\<lambda>x. fst (snd x)) (mset c1) + new"
    and n: "new \<subseteq># mset (map (\<lambda>q. snd (snd (snd q))) qs)" by blast
  have "image_mset (\<lambda>x. fst (snd x)) (mset c') + mset rm =
    image_mset (\<lambda>x. fst (snd x)) (mset c) + (n1 + new)"
  proof -
    have "image_mset (\<lambda>x. fst (snd x)) (mset c') + mset rm =
      (image_mset (\<lambda>x. fst (snd x)) (mset c') + mset rs) + mset r1"
      by (simp add: rs(2) ac_simps)
    also have "\<dots> = (image_mset (\<lambda>x. fst (snd x)) (mset c1) + mset r1) + new"
      unfolding m by (simp add: ac_simps)
    finally show ?thesis unfolding m1 by (simp add: ac_simps)
  qed
  moreover have "n1 + new \<subseteq># mset (map (\<lambda>q. snd (snd (snd q))) (q # qs))"
    using subset_mset.add_mono [OF n1 n] q by simp
  ultimately show ?case using c' by blast
qed auto

text \<open>A value the policy keeps is found again.\<close>

lemma found_again:
  assumes "rep s c" and "goi now now2 k w s = Some (s', v, rm)"
    and "fst (policy now2 ((k, w, now) # c)) \<noteq> []"
  shows "\<exists>s''. goi now' now2' k w' s' = Some (s'', v, [])"
proof (cases rule: cases_key [of c k])
  case (cached xs v' t ys)
  with hit [of s xs k v' t ys now now2 w] assms have "v = v'" "rep s' ([] @ (k, v', now) # xs @ ys)"
    by auto
  with hit [of s' "[]" k v' now "xs @ ys"] show ?thesis by fastforce
next
  case absent
  obtain d where d: "fst (policy now2 ((k, w, now) # c)) = (k, w, now) # d"
    using assms(3) policy_split [of now2 "(k, w, now) # c"]
    by (cases "fst (policy now2 ((k, w, now) # c))") auto
  with miss [OF assms(1) absent, of now now2 w] assms(2) have "v = w" "rep s' ([] @ (k, w, now) # d)"
    by auto
  with hit [of s' "[]" k w now d] show ?thesis by fastforce
qed

end

section \<open>The LRU cache provides it\<close>

definition lru_goi :: "int \<Rightarrow> int \<Rightarrow> 'k \<Rightarrow> 'v \<Rightarrow> ('k, 'v) lru \<Rightarrow> (('k, 'v) lru \<times> 'v \<times> 'v list) option" where
  "lru_goi now now2 k w l =
     map_option (\<lambda>(l', v, rm). (l', the v, map (\<lambda>e. the (ev_Value e)) rm))
       (GetOrInsert now now2 k (Some w) l)"

lemma cache_get:
  assumes "cache_rep st lim l (xs @ (k, v, t) # ys)"
  shows "\<exists>l'. lru_get now k l = Some (l', Some v) \<and> cache_rep st lim l' ((k, v, now) # xs @ ys)"
proof -
  from assms obtain ps where ps: "length ps = length (xs @ (k, v, t) # ys)"
    and r: "lru_rep l (with_nodes ps (xs @ (k, v, t) # ys))" and sl: "lru_strategy l = st" "lru_limit l = lim"
    by (auto simp: cache_rep_def)
  obtain as p bs where q: "ps = as @ p # bs" "length as = length xs" "length bs = length ys"
  proof
    show "ps = take (length xs) ps @ ps ! length xs # drop (Suc (length xs)) ps"
      using ps by (simp add: id_take_nth_drop)
  qed (use ps in simp_all)
  have "with_nodes ps (xs @ (k, v, t) # ys) = with_nodes as xs @ (p, k, ev_of (v, t)) # with_nodes bs ys"
    by (simp add: q with_nodes_append)
  from rep_get_hit [OF r [unfolded this], of now] obtain l' where
    l': "lru_get now k l = Some (l', Some v)"
      "lru_rep l' ((p, k, ev_of (v, now)) # with_nodes as xs @ with_nodes bs ys)"
      "lru_strategy l' = lru_strategy l" "lru_limit l' = lru_limit l" by auto
  then have "lru_rep l' (with_nodes (p # as @ bs) ((k, v, now) # xs @ ys))"
    by (simp add: q with_nodes_append)
  then have "cache_rep st lim l' ((k, v, now) # xs @ ys)"
    unfolding cache_rep_def using l' sl q by (auto intro!: exI [of _ "p # as @ bs"])
  with l' show ?thesis by simp
qed

lemma goi_hit:
  assumes "cache_rep st lim l (xs @ (k, v, t) # ys)"
  shows "\<exists>l'. lru_goi now now2 k w l = Some (l', v, []) \<and> cache_rep st lim l' ((k, v, now) # xs @ ys)"
  using cache_get [OF assms, of now] by (auto simp: lru_goi_def GetOrInsert_def)

lemma cache_keys:
  assumes "cache_rep st lim l c"
  shows "distinct (GetKeys l) \<and> set (GetKeys l) = fst ` set c"
proof -
  from assms obtain ps where ps: "length ps = length c" and r: "lru_rep l (with_nodes ps c)"
    by (auto simp: cache_rep_def)
  have "set (GetKeys l) = set (keys_of (with_nodes ps c))"
    using r by (simp add: GetKeys_def lru_rep_def image_image)
  with r show ?thesis unfolding with_nodes_keys [OF ps] by (simp add: GetKeys_def lru_rep_def)
qed

lemma goi_miss:
  assumes "cache_rep st lim l c" and "k \<notin> fst ` set c"
  shows "\<exists>l'. lru_goi now now2 k w l =
      Some (l', w, map (\<lambda>x. fst (snd x)) (snd (evict st lim now2 ((k, w, now) # c)))) \<and>
    cache_rep st lim l' (fst (evict st lim now2 ((k, w, now) # c)))"
proof -
  from assms(1) obtain ps where ps: "length ps = length c" and r: "lru_rep l (with_nodes ps c)"
    and sl: "lru_strategy l = st" "lru_limit l = lim" by (auto simp: cache_rep_def)
  have k: "k \<notin> set (keys_of (with_nodes ps c))" 
    unfolding with_nodes_keys [OF ps] using assms(2) by simp
  from rep_push [OF r k, of "ev_of (w, now)"] obtain ll p where
    push: "PushFront (ev_of (w, now)) (lru_list l) = Some (ll, Some p)"
    and r1: "lru_rep (l\<lparr>lru_list := ll, lru_index := AList.update k p (lru_index l),
      lru_reverseIndex := AList.update p k (lru_reverseIndex l)\<rparr>) ((p, k, ev_of (w, now)) # with_nodes ps c)"
    by blast
  let ?l1 = "l\<lparr>lru_list := ll, lru_index := AList.update k p (lru_index l),
      lru_reverseIndex := AList.update p k (lru_reverseIndex l)\<rparr>"
  let ?c1 = "(k, w, now) # c"
  have r2: "lru_rep ?l1 (with_nodes (p # ps) ?c1)" and len: "length (p # ps) = length ?c1"
    using r1 ps by simp_all
  have fuel: "length ?c1 < Suc (length (lru_reverseIndex ?l1))"
    using rep_length_reverse [OF r2] len by simp
  have ins: "lru_insert now now2 k (Some w) l =
    (case lru_strategy ?l1 of FixedLength \<Rightarrow> lru_evict_length ?l1
     | FixedTimeout \<Rightarrow> lru_evict_timeout (Suc (length (lru_reverseIndex ?l1))) now2 ?l1 [])"
    using push by (simp add: lru_insert_def ev_of_def Let_def)
  have "\<exists>l' qs. lru_insert now now2 k (Some w) l =
      Some (l', map (\<lambda>x. ev_of (snd x)) (snd (evict st lim now2 ?c1))) \<and>
    lru_rep l' (with_nodes qs (fst (evict st lim now2 ?c1))) \<and>
    length qs = length (fst (evict st lim now2 ?c1)) \<and> lru_strategy l' = st \<and> lru_limit l' = lim"
    using evict_length_rep [OF r2 len, of now2] evict_timeout_rep [OF r2 len fuel, of now2 "[]"] sl
    unfolding ins by (cases st) (simp_all del: evict.simps)
  moreover have "lru_get now k l = Some (l, None)" using rep_get_miss [OF r k] .
  ultimately show ?thesis
    unfolding lru_goi_def GetOrInsert_def cache_rep_def by (auto simp: comp_def)
qed

lemma cache_rep_new: "cache_rep st lim (NewLru st lim) []"
  using lru_rep_new by (auto simp: cache_rep_def NewLru_def)

interpretation lru_cache: keyed_cache "cache_rep st lim" lru_goi "evict st lim" for st lim
proof
  show "distinct (map fst c)" if "cache_rep st lim s c" for s c
    using that with_nodes_keys [of _ c] by (auto simp: cache_rep_def lru_rep_def)
qed (rule goi_hit, assumption, rule goi_miss, assumption, assumption, rule evict_split)

section \<open>Properties\<close>

text \<open>Time runs forward: the entries' times do not increase from the front to the back.\<close>

abbreviation by_recency :: "('k, 'v) cached \<Rightarrow> bool" where
  "by_recency c \<equiv> sorted_wrt (\<lambda>x y. snd (snd y) \<le> snd (snd x)) c"

lemma drop_expired:
  "sorted_wrt (\<lambda>x y. snd (snd x) \<le> snd (snd y)) c \<Longrightarrow>
     dropWhile (expired lim now) c = filter (\<lambda>x. \<not> expired lim now x) c \<and>
     takeWhile (expired lim now) c = filter (expired lim now) c"
proof (induction c)
  case (Cons x c)
  show ?case
  proof (cases "expired lim now x")
    case False
    then have "\<not> expired lim now y" if "y \<in> set c" for y
      using Cons.prems that by (fastforce simp: expired_def)
    then show ?thesis using False by (auto simp: filter_empty_conv filter_id_conv)
  qed (use Cons in simp)
qed simp

text \<open>C8: Under the timeout strategy, with a clock that does not run backwards, a lookup of a key
  that is not cached inserts it as the most recent entry and removes exactly the entries whose last
  use is at least the limit ago, handing their values back; a lookup of a cached key returns its
  value, makes it the most recent entry and removes nothing.\<close>

theorem lru_timeout_lookup:
  fixes c :: "('k, 'v) cached"
  assumes "cache_rep FixedTimeout lim l c" and "by_recency c"
    and "\<forall>x \<in> set c. snd (snd x) \<le> now" and "now \<le> now2"
  shows "\<exists>l' c' v. lru_goi now now2 k w l = Some (l', v,
      if k \<in> fst ` set c then []
      else map (\<lambda>x. fst (snd x)) (rev (filter (expired lim now2) ((k, w, now) # c)))) \<and>
    cache_rep FixedTimeout lim l' c' \<and> by_recency c' \<and>
    (if k \<in> fst ` set c
     then (\<exists>t. (k, v, t) \<in> set c) \<and> c' = (k, v, now) # filter (\<lambda>x. fst x \<noteq> k) c
     else v = w \<and> c' = filter (\<lambda>x. \<not> expired lim now2 x) ((k, w, now) # c))"
proof (cases "k \<in> fst ` set c")
  case True
  obtain xs v t ys where c: "c = xs @ (k, v, t) # ys"
    using True lru_cache.cases_key [of c k] by blast
  have "distinct (map fst c)" using lru_cache.rep_distinct [OF assms(1)] .
  then have d: "k \<notin> fst ` set xs" "k \<notin> fst ` set ys" unfolding c by auto
  then have f: "filter (\<lambda>x. fst x \<noteq> k) c = xs @ ys"
  proof -
    have "filter (\<lambda>x. fst x \<noteq> k) zs = zs" if "k \<notin> fst ` set zs" for zs :: "('k, 'v) cached"
      by (rule filter_True) (use that in force)
    with d show ?thesis unfolding c by simp
  qed
  from lru_cache.hit [OF assms(1) [unfolded c], of now now2 w] obtain l' where
    "lru_goi now now2 k w l = Some (l', v, [])" "cache_rep FixedTimeout lim l' ((k, v, now) # xs @ ys)"
    by blast
  moreover have "by_recency ((k, v, now) # xs @ ys)"
    using assms(2,3) unfolding c by (auto simp: sorted_wrt_append)
  ultimately show ?thesis using True f c by auto
next
  case False
  let ?c = "(k, w, now) # c"
  have s: "by_recency ?c" using assms(2,3) by simp
  then have "sorted_wrt (\<lambda>x y. snd (snd x) \<le> snd (snd y)) (rev ?c)" by (simp only: sorted_wrt_rev)
  from drop_expired [OF this, of lim now2]
  have e: "evict FixedTimeout lim now2 ?c =
    (filter (\<lambda>x. \<not> expired lim now2 x) ?c, rev (filter (expired lim now2) ?c))"
    by (simp only: evict.simps rev_filter rev_rev_ident)
  have "by_recency (filter (\<lambda>x. \<not> expired lim now2 x) ?c)"
    by (rule sorted_wrt_filter [OF s])
  then show ?thesis
    using lru_cache.miss [OF assms(1) False, of now now2 w] False unfolding e by auto
qed

theorem lru_timeout_lookup_witness:
  "\<exists>l' c' v. lru_goi 5 6 ''k'' (7 :: int) (NewLru FixedTimeout 10) = Some (l', v, []) \<and>
     cache_rep FixedTimeout 10 l' c' \<and> v = 7 \<and> c' = [(''k'', 7, 5)]"
  using lru_timeout_lookup [of 10 "NewLru FixedTimeout 10" "[]" 5 6 "''k''" "7 :: int"]
  by (simp add: expired_def cache_rep_new)


end
