(* ===== verification/LruList.thy ===== *)
theory LruList
  imports Prelude
begin

text \<open>
  The lazily sorted list of weighted nodes (\<open>infra/lrulist\<close>): a slice of node pointers with its
  backing array, the pool the arrays come from, and the periodic update that sorts the slice by
  weight and halves the weights. Nodes are addresses into \<open>ls_nodes\<close>, because slices and their
  copies share them; \<open>None\<close> in an array is a nil pointer, and a result \<open>None\<close> a panic.
  The pool's size class \<open>GetClosestN\<close> is an argument.
\<close>

section \<open>The pool of arrays\<close>

type_synonym arr = "nat option list"

record growingPool =
  gp_size :: nat
  gp_free :: "arr list"

definition newGrowingPool :: "(nat \<Rightarrow> nat) \<Rightarrow> nat \<Rightarrow> growingPool" where
  "newGrowingPool getClosestN n = \<lparr>gp_size = 2 ^ getClosestN n, gp_free = []\<rparr>"

text \<open>\<open>sync.Pool.Get\<close> returns some free array or a new one: \<open>pick\<close> is the choice. The slice
  \<open>[:need]\<close> is the array with its length; \<open>None\<close> where the array is too short.\<close>

definition gp_Get :: "(nat \<Rightarrow> nat) \<Rightarrow> bool \<Rightarrow> nat \<Rightarrow> growingPool \<Rightarrow> (growingPool \<times> arr) option" where
  "gp_Get getClosestN pick need p =
     (let p1 = (if gp_size p < need
                then \<lparr>gp_size = 2 ^ getClosestN need, gp_free = []\<rparr> else p);
          (p2, a) = (if pick \<and> gp_free p1 \<noteq> []
                     then (p1\<lparr>gp_free := tl (gp_free p1)\<rparr>, hd (gp_free p1))
                     else (p1, replicate (gp_size p1) None))
      in if need \<le> length a then Some (p2, a) else None)"

definition gp_Put :: "arr \<Rightarrow> growingPool \<Rightarrow> growingPool" where
  "gp_Put l p = (if length l \<noteq> gp_size p then p else p\<lparr>gp_free := l # gp_free p\<rparr>)"

definition pool_ok :: "growingPool \<Rightarrow> bool" where
  "pool_ok p \<longleftrightarrow> (\<forall>a \<in> set (gp_free p). length a = gp_size p)"

lemma gp_Get_ok:
  assumes "pool_ok p" and "need \<le> 2 ^ f need"
  shows "\<exists>p' a. gp_Get f pick need p = Some (p', a) \<and> pool_ok p' \<and> length a = gp_size p' \<and> need \<le> length a"
proof -
  define p1 where "p1 = (if gp_size p < need then \<lparr>gp_size = 2 ^ f need, gp_free = []\<rparr> else p)"
  have ok: "pool_ok p1" "need \<le> gp_size p1" using assms by (auto simp: p1_def pool_ok_def)
  show ?thesis
  proof (cases "pick \<and> gp_free p1 \<noteq> []")
    case True
    then obtain a r where "gp_free p1 = a # r" by (cases "gp_free p1") auto
    with True ok show ?thesis
      unfolding gp_Get_def p1_def [symmetric] by (simp add: pool_ok_def)
  next
    case False
    with ok show ?thesis unfolding gp_Get_def p1_def [symmetric] by (auto simp: pool_ok_def)
  qed
qed

lemma gp_Put_ok: "pool_ok p \<Longrightarrow> pool_ok (gp_Put l p)"
  by (simp add: gp_Put_def pool_ok_def)

section \<open>The list\<close>

record 'v wnode =
  wn_Val :: 'v
  wn_weight :: u32

datatype InsertStrategy = InsertFront | InsertAverage

record 'v lrulist =
  ls_nodes :: "'v wnode list"
  ls_arr :: arr
  ls_len :: nat
  ls_avg :: u32
  ls_max :: u32
  ls_strategy :: InsertStrategy
  ls_pool :: growingPool
  ls_stopped :: bool

text \<open>\<open>l.list\<close> is the first \<open>ls_len\<close> entries of its array.\<close>

definition ls_list :: "'v lrulist \<Rightarrow> arr" where
  "ls_list l = take (ls_len l) (ls_arr l)"

text \<open>\<open>NewWithList\<close>: the loop stores a new node for each value; \<open>updateDone\<close> is closed and no
  updater is started.\<close>

definition NewWithList :: "(nat \<Rightarrow> nat) \<Rightarrow> InsertStrategy \<Rightarrow> 'v list \<Rightarrow> 'v lrulist option" where
  "NewWithList getClosestN st vs =
     Option.bind (gp_Get getClosestN False (length vs) (newGrowingPool getClosestN (length vs))) (\<lambda>(p, a).
       Some \<lparr>ls_nodes = map (\<lambda>v. \<lparr>wn_Val = v, wn_weight = 0\<rparr>) vs,
             ls_arr = map Some [0..<length vs] @ drop (length vs) a, ls_len = length vs,
             ls_avg = 0, ls_max = 0, ls_strategy = st, ls_pool = p, ls_stopped = False\<rparr>)"

text \<open>\<open>New\<close>: the list starts as \<open>pool.Get(1)\<close>, one nil pointer; the updater is started.\<close>

definition NewList :: "(nat \<Rightarrow> nat) \<Rightarrow> InsertStrategy \<Rightarrow> 'v lrulist option" where
  "NewList getClosestN st =
     Option.bind (gp_Get getClosestN False 1 (newGrowingPool getClosestN 1)) (\<lambda>(p, a).
       Some \<lparr>ls_nodes = [], ls_arr = a, ls_len = 1, ls_avg = 0, ls_max = 0, ls_strategy = st,
             ls_pool = p, ls_stopped = False\<rparr>)"

definition ls_Close :: "'v lrulist \<Rightarrow> 'v lrulist" where
  "ls_Close l = l\<lparr>ls_stopped := True\<rparr>"

text \<open>\<open>GetListCopy\<close> and \<open>DestroyListCopy\<close>: the copy is the array with the entries of the
  list in front, and the length.\<close>

definition GetListCopy :: "(nat \<Rightarrow> nat) \<Rightarrow> bool \<Rightarrow> 'v lrulist \<Rightarrow> ('v lrulist \<times> arr \<times> nat) option" where
  "GetListCopy getClosestN pick l =
     Option.bind (gp_Get getClosestN pick (ls_len l) (ls_pool l)) (\<lambda>(p, a).
       Some (l\<lparr>ls_pool := p\<rparr>, ls_list l @ drop (ls_len l) a, ls_len l))"

definition DestroyListCopy :: "arr \<Rightarrow> 'v lrulist \<Rightarrow> 'v lrulist" where
  "DestroyListCopy a l = l\<lparr>ls_pool := gp_Put a (ls_pool l)\<rparr>"

text \<open>\<open>atomic.AddUint32(&node.weight, 1)\<close>\<close>

definition ls_Promote :: "nat \<Rightarrow> 'v lrulist \<Rightarrow> 'v lrulist" where
  "ls_Promote p l =
     l\<lparr>ls_nodes := (ls_nodes l)[p := (ls_nodes l ! p)\<lparr>wn_weight := wn_weight (ls_nodes l ! p) + 1\<rparr>]\<rparr>"

definition weight_at :: "'v lrulist \<Rightarrow> nat option \<Rightarrow> u32 option" where
  "weight_at l x =
     (case x of None \<Rightarrow> None
      | Some p \<Rightarrow> if p < length (ls_nodes l) then Some (wn_weight (ls_nodes l ! p)) else None)"

text \<open>The loop that looks for \<open>insertBefore\<close>: the first index whose weight is below
  \<open>newWeight\<close>, else the length.\<close>

fun find_before :: "'v lrulist \<Rightarrow> u32 \<Rightarrow> nat \<Rightarrow> arr \<Rightarrow> nat option" where
  "find_before l w i [] = Some i"
| "find_before l w i (x # xs) =
     (case weight_at l x of
        None \<Rightarrow> None
      | Some wx \<Rightarrow> if wx < w then Some i else find_before l w (Suc i) xs)"

text \<open>\<open>for i := oldLen-1; i >= insertBefore; i-- { dst[i+m] = src[i] }\<close>; \<open>src\<close> and
  \<open>dst\<close> are the same array when the list is expanded in place.\<close>

fun shift_in_place :: "nat \<Rightarrow> nat \<Rightarrow> nat \<Rightarrow> arr \<Rightarrow> arr" where
  "shift_in_place lo m 0 a = a"
| "shift_in_place lo m (Suc i) a =
     (if lo \<le> i then shift_in_place lo m i (a[i + m := a ! i]) else a)"

fun shift_copy :: "nat \<Rightarrow> nat \<Rightarrow> nat \<Rightarrow> arr \<Rightarrow> arr \<Rightarrow> arr" where
  "shift_copy lo m 0 src dst = dst"
| "shift_copy lo m (Suc i) src dst =
     (if lo \<le> i then shift_copy lo m i src (dst[i + m := src ! i]) else dst)"

text \<open>\<open>for i := 0; i < m; i++ { a[lo+i] = x_i }\<close>\<close>

fun fill :: "nat \<Rightarrow> nat option list \<Rightarrow> arr \<Rightarrow> arr" where
  "fill lo [] a = a"
| "fill lo (x # xs) a = fill (Suc lo) xs (a[lo := x])"

text \<open>Making room and storing the new nodes: in place if the array is long enough, else in an
  array of the pool, with the old one given back.\<close>

definition ls_expand :: "(nat \<Rightarrow> nat) \<Rightarrow> bool \<Rightarrow> nat \<Rightarrow> nat option list \<Rightarrow> 'v lrulist \<Rightarrow>
    (arr \<times> growingPool) option" where
  "ls_expand getClosestN pick insertBefore xs l =
     (let m = length xs; oldLen = ls_len l
      in if oldLen + m \<le> length (ls_arr l)
         then Some (fill insertBefore xs (shift_in_place insertBefore m oldLen (ls_arr l)), ls_pool l)
         else Option.bind (gp_Get getClosestN pick (oldLen + m) (ls_pool l)) (\<lambda>(p, dst).
                Some (take insertBefore (ls_arr l) @
                      drop insertBefore (fill insertBefore xs (shift_copy insertBefore m oldLen (ls_arr l) dst)),
                      gp_Put (ls_arr l) p)))"

definition new_weight :: "'v lrulist \<Rightarrow> u32" where
  "new_weight l = (if ls_strategy l = InsertFront then ls_max l + 1 else ls_avg l + 1)"

definition ls_Insert :: "(nat \<Rightarrow> nat) \<Rightarrow> bool \<Rightarrow> 'v list \<Rightarrow> 'v lrulist \<Rightarrow> ('v lrulist \<times> arr) option" where
  "ls_Insert getClosestN pick vals l =
     (let m = length vals; k = length (ls_nodes l); xs = map Some [k..<k + m]
      in Option.bind (find_before l (new_weight l) 0 (ls_list l)) (\<lambda>insertBefore.
         Option.bind (ls_expand getClosestN pick insertBefore xs l) (\<lambda>(a, p).
           let l' = l\<lparr>ls_nodes := ls_nodes l @ map (\<lambda>v. \<lparr>wn_Val = v, wn_weight = new_weight l\<rparr>) vals,
                      ls_arr := a, ls_len := ls_len l + m, ls_pool := p\<rparr>
           in Some (l', take m (drop insertBefore (ls_list l'))))))"

text \<open>\<open>Remove\<close>: the first index of the node, then the shift to the left.\<close>

fun find_node :: "nat \<Rightarrow> nat \<Rightarrow> arr \<Rightarrow> nat option" where
  "find_node p i [] = None"
| "find_node p i (x # xs) = (if x = Some p then Some i else find_node p (Suc i) xs)"

function shift_left :: "nat \<Rightarrow> nat \<Rightarrow> arr \<Rightarrow> arr" where
  "shift_left i n a = (if i < n - 1 then shift_left (Suc i) n (a[i := a ! Suc i]) else a)"
  by pat_completeness auto
termination by (relation "measure (\<lambda>(i, n, a). n - i)") auto

declare shift_left.simps [simp del]

definition ls_Remove :: "nat \<Rightarrow> 'v lrulist \<Rightarrow> 'v lrulist" where
  "ls_Remove p l =
     (case find_node p 0 (ls_list l) of
        None \<Rightarrow> l
      | Some t \<Rightarrow> l\<lparr>ls_arr := shift_left t (ls_len l) (ls_arr l), ls_len := ls_len l - 1\<rparr>)"

section \<open>The periodic update\<close>

text \<open>The loop over the sorted list: count, maximum and sum of the positive weights before the
  first weight 0, which are halved.\<close>

fun halve :: "arr \<Rightarrow> 'v wnode list \<Rightarrow> u64 \<Rightarrow> u32 \<Rightarrow> u64 \<Rightarrow> ('v wnode list \<times> u64 \<times> u32 \<times> u64) option" where
  "halve [] ns cnt mx sm = Some (ns, cnt, mx, sm)"
| "halve (x # xs) ns cnt mx sm =
     (case x of
        None \<Rightarrow> None
      | Some p \<Rightarrow>
          if length ns \<le> p then None
          else let w = wn_weight (ns ! p)
               in if w = 0 then Some (ns, cnt, mx, sm)
                  else halve xs (ns[p := (ns ! p)\<lparr>wn_weight := w div 2\<rparr>]) (cnt + 1)
                         (if mx < w then w else mx) (sm + ucast w))"

text \<open>One tick of \<open>updater\<close>. \<open>sort.SliceStable\<close> is the stable sort by descending weight; a
  comparison with a nil node would be a panic.\<close>

definition ls_tick :: "'v lrulist \<Rightarrow> 'v lrulist option" where
  "ls_tick l =
     (if 1 < ls_len l \<and> \<not> list_all (\<lambda>x. weight_at l x \<noteq> None) (ls_list l) then None
      else let ss = sort_key (\<lambda>x. - uint (the (weight_at l x))) (ls_list l)
           in map_option (\<lambda>(ns, cnt, mx, sm).
                l\<lparr>ls_arr := ss @ drop (ls_len l) (ls_arr l), ls_nodes := ns, ls_max := mx,
                  ls_avg := (if cnt \<noteq> 0 then ucast (sm div cnt) else 0)\<rparr>)
              (halve ss (ls_nodes l) 0 0 0))"

section \<open>The index loops as list functions\<close>

lemma length_shift_in_place [simp]: "length (shift_in_place lo m n a) = length a"
  by (induction lo m n a rule: shift_in_place.induct) auto

lemma length_shift_copy [simp]: "length (shift_copy lo m n src dst) = length dst"
  by (induction lo m n src dst rule: shift_copy.induct) auto

lemma nth_shift_in_place:
  "lo \<le> n \<Longrightarrow> n + m \<le> length a \<Longrightarrow> j < length a \<Longrightarrow>
     shift_in_place lo m n a ! j = (if lo + m \<le> j \<and> j < n + m then a ! (j - m) else a ! j)"
proof (induction lo m n a rule: shift_in_place.induct)
  case (2 lo m i a)
  show ?case
  proof (cases "lo \<le> i")
    case True
    have "shift_in_place lo m i (a[i + m := a ! i]) ! j =
      (if lo + m \<le> j \<and> j < i + m then a[i + m := a ! i] ! (j - m) else a[i + m := a ! i] ! j)"
      using 2 True by simp
    with True 2(3) show ?thesis by (auto simp: nth_list_update)
  next
    case False
    with 2(2) have "lo = Suc i" by simp
    with False show ?thesis by auto
  qed
qed auto

lemma nth_shift_copy:
  "lo \<le> n \<Longrightarrow> n + m \<le> length dst \<Longrightarrow> j < length dst \<Longrightarrow>
     shift_copy lo m n src dst ! j = (if lo + m \<le> j \<and> j < n + m then src ! (j - m) else dst ! j)"
proof (induction lo m n src dst rule: shift_copy.induct)
  case (2 lo m i src dst)
  show ?case
  proof (cases "lo \<le> i")
    case True
    have "shift_copy lo m i src (dst[i + m := src ! i]) ! j =
      (if lo + m \<le> j \<and> j < i + m then src ! (j - m) else dst[i + m := src ! i] ! j)"
      using 2 True by simp
    with True 2(3) show ?thesis by (auto simp: nth_list_update)
  next
    case False
    with 2(2) have "lo = Suc i" by simp
    with False show ?thesis by auto
  qed
qed auto

lemma fill_list: "lo + length xs \<le> length a \<Longrightarrow> fill lo xs a = take lo a @ xs @ drop (lo + length xs) a"
proof (induction xs arbitrary: lo a)
  case (Cons x xs)
  have "fill (Suc lo) xs (a[lo := x]) = take (Suc lo) (a[lo := x]) @ xs @ drop (Suc lo + length xs) (a[lo := x])"
    using Cons by simp
  also have "take (Suc lo) (a[lo := x]) = take lo a @ [x]"
    using Cons.prems by (simp add: take_Suc_conv_app_nth)
  finally show ?case using Cons.prems by simp
qed simp

lemma inserted_list:
  assumes "lo \<le> n" and "n \<le> length src" and "n + length xs \<le> length b"
    and "\<And>j. lo + length xs \<le> j \<Longrightarrow> j < n + length xs \<Longrightarrow> b ! j = src ! (j - length xs)"
    and "pre = take lo src"
  shows "take (n + length xs) (pre @ drop lo (fill lo xs b)) =
    take lo (take n src) @ xs @ drop lo (take n src)"
proof (rule nth_equalityI)
  have len: "length (fill lo xs b) = length b"
    using assms by (simp add: fill_list)
  then show "length (take (n + length xs) (pre @ drop lo (fill lo xs b))) =
    length (take lo (take n src) @ xs @ drop lo (take n src))"
    using assms by simp
  fix i
  assume "i < length (take (n + length xs) (pre @ drop lo (fill lo xs b)))"
  then have i: "i < n + length xs" by simp
  show "take (n + length xs) (pre @ drop lo (fill lo xs b)) ! i =
    (take lo (take n src) @ xs @ drop lo (take n src)) ! i"
    using assms i by (auto simp: fill_list nth_append)
qed

lemma shift_left_list:
  "t < n \<Longrightarrow> n \<le> length a \<Longrightarrow>
     take (n - 1) (shift_left t n a) = take t a @ drop (Suc t) (take n a) \<and>
     length (shift_left t n a) = length a"
proof (induction t n a rule: shift_left.induct)
  case (1 i n a)
  show ?case
  proof (cases "i < n - 1")
    case True
    let ?a = "a[i := a ! Suc i]"
    have "take (Suc i) ?a = take i a @ [a ! Suc i]"
      using 1(2,3) True by (simp add: take_Suc_conv_app_nth)
    moreover have "drop (Suc (Suc i)) (take n ?a) = drop (Suc (Suc i)) (take n a)"
      by (simp add: drop_take)
    moreover have "drop (Suc i) (take n a) = a ! Suc i # drop (Suc (Suc i)) (take n a)"
      using 1(3) True by (subst Cons_nth_drop_Suc [symmetric]) auto
    ultimately show ?thesis
      using 1(1) [OF True] 1(3) True by (subst (1 2) shift_left.simps) simp
  next
    case False
    with 1(2) have "n = Suc i" by simp
    with False 1(3) show ?thesis by (simp add: shift_left.simps)
  qed
qed

lemma find_node_first:
  "find_node p i xs = (if Some p \<in> set xs then Some (i + length (takeWhile (\<lambda>x. x \<noteq> Some p) xs)) else None)"
  by (induction p i xs rule: find_node.induct) auto

lemma remove1_takeWhile:
  "x \<in> set xs \<Longrightarrow> remove1 x xs =
     take (length (takeWhile (\<lambda>y. y \<noteq> x) xs)) xs @ drop (Suc (length (takeWhile (\<lambda>y. y \<noteq> x) xs))) xs"
  by (induction xs) auto

section \<open>Well-formed lists\<close>

definition ls_ok :: "'v lrulist \<Rightarrow> bool" where
  "ls_ok l \<longleftrightarrow> ls_len l \<le> length (ls_arr l) \<and> pool_ok (ls_pool l) \<and> distinct (ls_list l) \<and>
     (\<forall>x \<in> set (ls_list l). weight_at l x \<noteq> None)"

lemma length_ls_list: "ls_ok l \<Longrightarrow> length (ls_list l) = ls_len l"
  by (simp add: ls_ok_def ls_list_def)

lemma weight_at_Some: "weight_at l x \<noteq> None \<longleftrightarrow> (\<exists>p. x = Some p \<and> p < length (ls_nodes l))"
  by (auto simp: weight_at_def split: option.split if_splits)

lemma find_before_spec:
  assumes "\<forall>x \<in> set xs. weight_at l x \<noteq> None"
  shows "\<exists>k \<le> length xs. find_before l w i xs = Some (i + k) \<and>
    (\<forall>j < k. w \<le> the (weight_at l (xs ! j))) \<and> (k < length xs \<longrightarrow> the (weight_at l (xs ! k)) < w)"
  using assms
proof (induction xs arbitrary: i)
  case (Cons x xs)
  then obtain wx where wx: "weight_at l x = Some wx" by auto
  show ?case
  proof (cases "wx < w")
    case True
    with wx show ?thesis by (intro exI [of _ 0]) simp
  next
    case False
    from Cons.prems have "\<forall>x \<in> set xs. weight_at l x \<noteq> None" by simp
    from Cons.IH [OF this, of "Suc i"] obtain k where
      "k \<le> length xs" "find_before l w (Suc i) xs = Some (Suc i + k)"
      "\<forall>j < k. w \<le> the (weight_at l (xs ! j))" "k < length xs \<longrightarrow> the (weight_at l (xs ! k)) < w"
      by blast
    with wx False show ?thesis
      by (intro exI [of _ "Suc k"]) (auto simp: less_Suc_eq_0_disj)
  qed
qed simp

lemma NewWithList_ok:
  assumes "length vs \<le> 2 ^ f (length vs)"
  shows "\<exists>l. NewWithList f st vs = Some l \<and> ls_ok l \<and>
    ls_list l = map Some [0..<length vs] \<and> map wn_Val (ls_nodes l) = vs"
proof -
  have p: "pool_ok (newGrowingPool f (length vs))" by (simp add: newGrowingPool_def pool_ok_def)
  from gp_Get_ok [of _ "length vs" f False, OF p assms] obtain q a where
    "gp_Get f False (length vs) (newGrowingPool f (length vs)) = Some (q, a)" "pool_ok q"
    "length vs \<le> length a" by blast
  moreover have "\<forall>x \<in> set (map Some [0..<length vs]). weight_at
      (l\<lparr>ls_nodes := map (\<lambda>v. \<lparr>wn_Val = v, wn_weight = 0\<rparr>) vs\<rparr>) x \<noteq> None" for l :: "'a lrulist"
    unfolding weight_at_Some by simp
  moreover have "distinct (map Some [0..<length vs])" by (simp add: distinct_map)
  moreover have "map wn_Val (map (\<lambda>v. \<lparr>wn_Val = v, wn_weight = 0\<rparr>) vs) = vs"
    by (simp add: map_idI)
  ultimately show ?thesis
    by (simp add: NewWithList_def ls_ok_def ls_list_def weight_at_def)
qed

section \<open>Insertion and removal\<close>

lemma insert_in_place:
  assumes "lo \<le> n" and "n + length xs \<le> length a"
  shows "take (n + length xs) (fill lo xs (shift_in_place lo (length xs) n a)) =
    take lo (take n a) @ xs @ drop lo (take n a)"
proof -
  let ?b = "shift_in_place lo (length xs) n a"
  have "take lo ?b = take lo a"
    by (rule nth_equalityI) (use assms in \<open>auto simp: nth_shift_in_place\<close>)
  then have "fill lo xs ?b = take lo a @ drop lo (fill lo xs ?b)"
    using assms by (simp add: fill_list)
  with inserted_list [of lo n a xs ?b "take lo a"] assms show ?thesis
    by (simp add: nth_shift_in_place)
qed

lemma insert_copied:
  assumes "lo \<le> n" and "n \<le> length a" and "n + length xs \<le> length dst"
  shows "take (n + length xs) (take lo a @ drop lo (fill lo xs (shift_copy lo (length xs) n a dst))) =
    take lo (take n a) @ xs @ drop lo (take n a)"
  using inserted_list [of lo n a xs "shift_copy lo (length xs) n a dst" "take lo a"] assms
  by (simp add: nth_shift_copy)

lemma ls_expand_list:
  assumes ok: "ls_ok l" and f: "\<And>n. n \<le> 2 ^ f n" and k: "k \<le> ls_len l"
  shows "\<exists>a p. ls_expand f pick k xs l = Some (a, p) \<and>
    take (ls_len l + length xs) a = take k (ls_list l) @ xs @ drop k (ls_list l) \<and>
    ls_len l + length xs \<le> length a \<and> pool_ok p"
proof (cases "ls_len l + length xs \<le> length (ls_arr l)")
  case True
  let ?a = "fill k xs (shift_in_place k (length xs) (ls_len l) (ls_arr l))"
  have "ls_expand f pick k xs l = Some (?a, ls_pool l)" using True by (simp add: ls_expand_def)
  moreover have "take (ls_len l + length xs) ?a = take k (ls_list l) @ xs @ drop k (ls_list l)"
    using insert_in_place [OF k True] by (simp only: ls_list_def)
  moreover have "length ?a = length (ls_arr l)" using True k by (simp add: fill_list)
  ultimately show ?thesis using True ok by (simp add: ls_ok_def)
next
  case False
  have p: "pool_ok (ls_pool l)" and n: "ls_len l \<le> length (ls_arr l)" using ok by (simp_all add: ls_ok_def)
  from gp_Get_ok [of "ls_pool l" "ls_len l + length xs" f pick, OF p f] obtain q dst where
    g: "gp_Get f pick (ls_len l + length xs) (ls_pool l) = Some (q, dst)" "pool_ok q"
      "ls_len l + length xs \<le> length dst" by blast
  let ?a = "take k (ls_arr l) @ drop k (fill k xs (shift_copy k (length xs) (ls_len l) (ls_arr l) dst))"
  have "ls_expand f pick k xs l = Some (?a, gp_Put (ls_arr l) q)"
    using False g(1) by (simp add: ls_expand_def)
  moreover have "take (ls_len l + length xs) ?a = take k (ls_list l) @ xs @ drop k (ls_list l)"
    using insert_copied [OF k n g(3)] by (simp only: ls_list_def)
  moreover have "length ?a = length dst" using g(3) k n by (simp add: fill_list)
  ultimately show ?thesis using g gp_Put_ok [OF g(2)] by metis
qed

lemma ls_Insert_list:
  assumes ok: "ls_ok l" and f: "\<And>n. n \<le> 2 ^ f n"
    and xs: "xs = map Some [length (ls_nodes l)..<length (ls_nodes l) + length vals]"
  shows "\<exists>l' k. ls_Insert f pick vals l = Some (l', xs) \<and> k \<le> ls_len l \<and>
    ls_list l' = take k (ls_list l) @ xs @ drop k (ls_list l) \<and>
    ls_nodes l' = ls_nodes l @ map (\<lambda>v. \<lparr>wn_Val = v, wn_weight = new_weight l\<rparr>) vals \<and>
    (\<forall>j < k. new_weight l \<le> the (weight_at l (ls_list l ! j))) \<and>
    (k < ls_len l \<longrightarrow> the (weight_at l (ls_list l ! k)) < new_weight l) \<and>
    pool_ok (ls_pool l') \<and> ls_len l' = ls_len l + length vals \<and> ls_len l' \<le> length (ls_arr l')"
proof -
  obtain k where k: "k \<le> ls_len l" "find_before l (new_weight l) 0 (ls_list l) = Some k"
    "\<forall>j < k. new_weight l \<le> the (weight_at l (ls_list l ! j))"
    "k < ls_len l \<longrightarrow> the (weight_at l (ls_list l ! k)) < new_weight l"
    using find_before_spec [of "ls_list l" l "new_weight l" 0] ok length_ls_list [OF ok]
    by (auto simp: ls_ok_def)
  have m: "length xs = length vals" by (simp add: xs)
  from ls_expand_list [OF ok f k(1), of pick xs] obtain a p where
    e: "ls_expand f pick k xs l = Some (a, p)"
      "take (ls_len l + length vals) a = take k (ls_list l) @ xs @ drop k (ls_list l)"
      "ls_len l + length vals \<le> length a" "pool_ok p" unfolding m by blast
  let ?l' = "l\<lparr>ls_nodes := ls_nodes l @ map (\<lambda>v. \<lparr>wn_Val = v, wn_weight = new_weight l\<rparr>) vals,
      ls_arr := a, ls_len := ls_len l + length vals, ls_pool := p\<rparr>"
  have list: "ls_list ?l' = take k (ls_list l) @ xs @ drop k (ls_list l)"
    using e(2) by (simp add: ls_list_def)
  have "take (length vals) (drop k (take k (ls_list l) @ xs @ drop k (ls_list l))) = xs"
    using k(1) length_ls_list [OF ok] m by simp
  then have "take (length vals) (drop k (ls_list ?l')) = xs" by (simp only: list)
  then have "ls_Insert f pick vals l = Some (?l', xs)"
    unfolding ls_Insert_def Let_def xs [symmetric] k(2) by (simp add: e(1))
  then show ?thesis
    using k list e by (intro exI [of _ ?l'] exI [of _ k] conjI) simp_all
qed

lemma length_takeWhile_neq: "x \<in> set xs \<Longrightarrow> length (takeWhile (\<lambda>y. y \<noteq> x) xs) < length xs"
  by (induction xs) auto

lemma ls_Remove_list:
  assumes "ls_ok l"
  shows "ls_list (ls_Remove p l) = remove1 (Some p) (ls_list l)"
proof (cases "Some p \<in> set (ls_list l)")
  case True
  let ?t = "length (takeWhile (\<lambda>x. x \<noteq> Some p) (ls_list l))"
  have t: "?t < ls_len l"
    using length_takeWhile_neq [OF True] length_ls_list [OF assms] by simp
  have n: "ls_len l \<le> length (ls_arr l)" using assms by (simp add: ls_ok_def)
  show ?thesis
    using True shift_left_list [OF t n] remove1_takeWhile [OF True] t
    by (simp add: ls_Remove_def find_node_first ls_list_def min_def)
next
  case False
  then show ?thesis by (simp add: ls_Remove_def find_node_first remove1_idem)
qed

section \<open>The update\<close>

text \<open>On a list sorted by weight the loop halves every weight, those after the first 0 too.\<close>

lemma halve_spec:
  assumes "distinct xs" and "\<forall>x \<in> set xs. \<exists>p. x = Some p \<and> p < length ns"
    and "sorted_wrt (\<lambda>x y. wn_weight (ns ! the y) \<le> wn_weight (ns ! the x)) xs"
  shows "\<exists>ns' c' m' s'. halve xs ns c m s = Some (ns', c', m', s') \<and> length ns' = length ns \<and>
    (\<forall>p < length ns. wn_Val (ns' ! p) = wn_Val (ns ! p) \<and>
       wn_weight (ns' ! p) = (if Some p \<in> set xs then wn_weight (ns ! p) div 2 else wn_weight (ns ! p))) \<and>
    (xs = [] \<longrightarrow> m' = m) \<and> (xs \<noteq> [] \<longrightarrow> m' = max m (wn_weight (ns ! the (hd xs))))"
  using assms
proof (induction xs arbitrary: ns c m s)
  case (Cons x xs)
  then obtain p where x: "x = Some p" "p < length ns" by auto
  let ?w = "wn_weight (ns ! p)"
  show ?case
  proof (cases "?w = 0")
    case True
    have zero: "wn_weight (ns ! q) = 0" if "Some q \<in> set (x # xs)" for q
      using that Cons.prems(3) x True by auto
    with True x show ?thesis by (auto simp: max_def)
  next
    case False
    define ns2 where "ns2 = ns[p := (ns ! p)\<lparr>wn_weight := ?w div 2\<rparr>]"
    define m2 where "m2 = (if m < ?w then ?w else m)"
    have len: "length ns2 = length ns" by (simp add: ns2_def)
    have np: "Some p \<notin> set xs" using Cons.prems(1) x by simp
    have same: "wn_weight (ns2 ! the y) = wn_weight (ns ! the y)" if "y \<in> set xs" for y
      using that Cons.prems(2) np by (cases "the y = p") (auto simp: ns2_def)
    have d: "distinct xs" "\<forall>x \<in> set xs. \<exists>p. x = Some p \<and> p < length ns2"
      using Cons.prems(1,2) by (simp_all add: len)
    have srt: "sorted_wrt (\<lambda>x y. wn_weight (ns2 ! the y) \<le> wn_weight (ns2 ! the x)) xs"
      by (rule sorted_wrt_mono_rel [of xs "\<lambda>x y. wn_weight (ns ! the y) \<le> wn_weight (ns ! the x)"])
        (use Cons.prems(3) same in simp_all)
    from Cons.IH [OF d srt, of "c + 1" m2 "s + ucast ?w"] obtain ns' c' m' s' where
      h: "halve xs ns2 (c + 1) m2 (s + ucast ?w) = Some (ns', c', m', s')" "length ns' = length ns"
        "\<forall>q < length ns. wn_Val (ns' ! q) = wn_Val (ns2 ! q) \<and>
          wn_weight (ns' ! q) = (if Some q \<in> set xs then wn_weight (ns2 ! q) div 2 else wn_weight (ns2 ! q))"
        "xs = [] \<longrightarrow> m' = m2" "xs \<noteq> [] \<longrightarrow> m' = max m2 (wn_weight (ns2 ! the (hd xs)))"
      unfolding len by blast
    have m': "m' = max m ?w"
    proof (cases "xs = []")
      case True
      with h(4) show ?thesis by (auto simp: max_def m2_def)
    next
      case False
      then have "hd xs \<in> set xs" by simp
      with same Cons.prems(3) x have "wn_weight (ns2 ! the (hd xs)) \<le> ?w" by simp
      with False h(5) show ?thesis by (auto simp: max_def m2_def)
    qed
    have nodes': "wn_Val (ns' ! q) = wn_Val (ns ! q) \<and>
      wn_weight (ns' ! q) = (if Some q \<in> set (x # xs) then wn_weight (ns ! q) div 2 else wn_weight (ns ! q))"
      if "q < length ns" for q
      using h(3) that np x by (cases "q = p") (auto simp: ns2_def)
    have "halve (x # xs) ns c m s = Some (ns', c', m', s')"
      using False x h(1) by (simp add: Let_def ns2_def m2_def not_le)
    then show ?thesis
      using h(2) nodes' m' x by (intro exI [of _ ns'] exI [of _ c'] exI [of _ m'] exI [of _ s']) simp
  qed
qed simp

lemma ls_tick_ok:
  assumes ok: "ls_ok l"
  shows "\<exists>l'. ls_tick l = Some l' \<and> ls_ok l' \<and> mset (ls_list l') = mset (ls_list l) \<and>
    sorted_wrt (\<lambda>x y. the (weight_at l y) \<le> the (weight_at l x)) (ls_list l') \<and>
    (\<forall>x \<in> set (ls_list l). weight_at l' x = Some (the (weight_at l x) div 2)) \<and>
    map wn_Val (ls_nodes l') = map wn_Val (ls_nodes l) \<and>
    ls_max l' = (if ls_list l = [] then 0 else the (weight_at l (hd (ls_list l'))))"
proof -
  let ?key = "\<lambda>x. - uint (the (weight_at l x))"
  let ?s = "sort_key ?key (ls_list l)"
  let ?ns = "ls_nodes l"
  have w: "\<exists>p. x = Some p \<and> p < length ?ns \<and> the (weight_at l x) = wn_weight (?ns ! the x)"
    if "x \<in> set (ls_list l)" for x
    using ok that by (force simp: ls_ok_def weight_at_def split: option.splits if_splits)
  have srt: "sorted_wrt (\<lambda>x y. the (weight_at l y) \<le> the (weight_at l x)) ?s"
  proof -
    have "sorted (map ?key ?s)" by (rule sorted_sort_key)
    then have "sorted_wrt (\<lambda>x y. ?key x \<le> ?key y) ?s" by (simp only: sorted_map)
    then show ?thesis by (rule sorted_wrt_mono_rel [rotated]) (simp add: word_le_def)
  qed
  have srt2: "sorted_wrt (\<lambda>x y. wn_weight (?ns ! the y) \<le> wn_weight (?ns ! the x)) ?s"
  proof (rule sorted_wrt_mono_rel [OF _ srt])
    fix x y
    assume "x \<in> set ?s" and "y \<in> set ?s" and le: "the (weight_at l y) \<le> the (weight_at l x)"
    then have "x \<in> set (ls_list l)" "y \<in> set (ls_list l)" by simp_all
    with w [of x] w [of y] le show "wn_weight (?ns ! the y) \<le> wn_weight (?ns ! the x)" by auto
  qed
  have d: "distinct ?s" "\<forall>x \<in> set ?s. \<exists>p. x = Some p \<and> p < length ?ns"
    using ok w by (auto simp: ls_ok_def)
  from halve_spec [OF d srt2, of 0 0 0] obtain ns' c' m' s' where
    h: "halve ?s ?ns 0 0 0 = Some (ns', c', m', s')" "length ns' = length ?ns"
      "\<forall>p < length ?ns. wn_Val (ns' ! p) = wn_Val (?ns ! p) \<and>
        wn_weight (ns' ! p) = (if Some p \<in> set ?s then wn_weight (?ns ! p) div 2 else wn_weight (?ns ! p))"
      "?s = [] \<longrightarrow> m' = 0" "?s \<noteq> [] \<longrightarrow> m' = max 0 (wn_weight (?ns ! the (hd ?s)))" by blast
  define l' where "l' = l\<lparr>ls_arr := ?s @ drop (ls_len l) (ls_arr l), ls_nodes := ns', ls_max := m',
      ls_avg := (if c' \<noteq> 0 then ucast (s' div c') else 0)\<rparr>"
  have sel: "ls_nodes l' = ns'" "ls_max l' = m'" "ls_len l' = ls_len l" "ls_pool l' = ls_pool l"
    "ls_arr l' = ?s @ drop (ls_len l) (ls_arr l)" by (simp_all add: l'_def)
  have "list_all (\<lambda>x. weight_at l x \<noteq> None) (ls_list l)"
    using ok by (simp add: ls_ok_def list_all_iff)
  then have t: "ls_tick l = Some l'" by (simp add: ls_tick_def Let_def h(1) l'_def)
  have list: "ls_list l' = ?s"
    unfolding ls_list_def [of l'] sel using length_ls_list [OF ok] by simp
  have wt: "weight_at l' x = Some (the (weight_at l x) div 2)" if x: "x \<in> set (ls_list l)" for x
    using w [OF x] h(2,3) x by (auto simp: weight_at_def sel)
  have "ls_ok l'"
    using ok wt unfolding ls_ok_def list sel by (auto simp: ls_list_def)
  moreover have "map wn_Val (ls_nodes l') = map wn_Val ?ns"
    using h(2,3) by (simp add: list_eq_iff_nth_eq sel)
  moreover have "m' = (if ls_list l = [] then 0 else the (weight_at l (hd ?s)))"
  proof (cases "ls_list l = []")
    case False
    then have "?s \<noteq> []" by (metis set_empty set_sort)
    then have "hd ?s \<in> set (ls_list l)" by (metis hd_in_set set_sort)
    with w h(5) \<open>?s \<noteq> []\<close> False show ?thesis by (force simp: max_def)
  qed (use h(4) in simp)
  ultimately show ?thesis
    using t srt wt by (intro exI [of _ l'] conjI) (simp_all add: list sel(2))
qed

section \<open>Properties\<close>

lemma demo_wlist:
  "\<exists>l. NewWithList (\<lambda>n. n) InsertFront [''a'', ''b''] = Some l \<and> ls_ok l \<and>
     ls_list l = [Some 0, Some 1] \<and> length (ls_nodes l) = 2"
proof -
  from NewWithList_ok [of "[''a'', ''b'']" "\<lambda>n. n" InsertFront] show ?thesis
    by (auto simp: upt_rec dest: arg_cong [where f = length])
qed

lemma class_id: "n \<le> 2 ^ n" for n :: nat
  by (rule less_imp_le) (rule less_exp)

text \<open>\<open>Insert\<close>, whether it expands the slice in place or moves it to a larger array of the
  pool, puts new nodes with the given values, contiguous and in order, in front of the first node
  whose weight is below theirs; all other nodes keep their order and their weights, and the slice
  it returns is the new nodes.\<close>

theorem lrulist_insert:
  assumes "ls_ok l" and "\<And>n. n \<le> 2 ^ getClosestN n"
    and "xs = map Some [length (ls_nodes l)..<length (ls_nodes l) + length vals]"
  shows "\<exists>l' k. ls_Insert getClosestN pick vals l = Some (l', xs) \<and> ls_ok l' \<and> k \<le> ls_len l \<and>
    ls_list l' = take k (ls_list l) @ xs @ drop k (ls_list l) \<and>
    ls_nodes l' = ls_nodes l @ map (\<lambda>v. \<lparr>wn_Val = v, wn_weight = new_weight l\<rparr>) vals \<and>
    (\<forall>j < k. new_weight l \<le> the (weight_at l (ls_list l ! j))) \<and>
    (k < ls_len l \<longrightarrow> the (weight_at l (ls_list l ! k)) < new_weight l)"
proof -
  from ls_Insert_list [OF assms, of pick] obtain l' k where
    i: "ls_Insert getClosestN pick vals l = Some (l', xs)" "k \<le> ls_len l"
      "ls_list l' = take k (ls_list l) @ xs @ drop k (ls_list l)"
      "ls_nodes l' = ls_nodes l @ map (\<lambda>v. \<lparr>wn_Val = v, wn_weight = new_weight l\<rparr>) vals"
      "\<forall>j < k. new_weight l \<le> the (weight_at l (ls_list l ! j))"
      "k < ls_len l \<longrightarrow> the (weight_at l (ls_list l ! k)) < new_weight l"
      "pool_ok (ls_pool l')" "ls_len l' \<le> length (ls_arr l')" by blast
  have old: "\<exists>p. x = Some p \<and> p < length (ls_nodes l)" if "x \<in> set (ls_list l)" for x
    using assms(1) that unfolding ls_ok_def by (simp only: weight_at_Some)
  have new: "\<exists>p. x = Some p \<and> length (ls_nodes l) \<le> p \<and> p < length (ls_nodes l')" if "x \<in> set xs" for x
    using that unfolding assms(3) i(4) by auto
  have mem: "set (ls_list l') = set xs \<union> set (ls_list l)"
    unfolding i(3) set_append by (metis Un_commute Un_left_commute append_take_drop_id set_append)
  have d: "distinct (ls_list l)" using assms(1) by (simp add: ls_ok_def)
  moreover have "distinct xs" by (simp add: assms(3) distinct_map)
  moreover have "set xs \<inter> set (ls_list l) = {}" using old new by fastforce
  ultimately have "distinct (ls_list l')"
    unfolding i(3) using set_take_subset [of k "ls_list l"] set_drop_subset [of k "ls_list l"]
      set_take_disj_set_drop_if_distinct [OF d, of k k] by auto
  moreover have "\<forall>x \<in> set (ls_list l'). weight_at l' x \<noteq> None"
    unfolding mem weight_at_Some using old new i(4) by fastforce
  ultimately have "ls_ok l'" using i(7,8) by (simp add: ls_ok_def)
  with i show ?thesis by blast
qed

theorem lrulist_insert_witness:
  "\<exists>l l'. NewWithList (\<lambda>n. n) InsertFront [''a'', ''b''] = Some l \<and>
     ls_Insert (\<lambda>n. n) False [''c''] l = Some (l', [Some 2]) \<and> ls_ok l'"
proof -
  from demo_wlist obtain l :: "string lrulist" where
    l: "NewWithList (\<lambda>n. n) InsertFront [''a'', ''b''] = Some l" "ls_ok l" "length (ls_nodes l) = 2"
    by blast
  have "[Some 2] = map Some [length (ls_nodes l)..<length (ls_nodes l) + length [''c'']]"
    by (simp add: l(3))
  from lrulist_insert [OF l(2) class_id this, of False] l(1) show ?thesis by blast
qed

text \<open>One tick of the updater loses no node: the list is sorted by descending weight, every
  listed node's weight is halved (also those behind the first weight 0, where the loop stops), the
  values stay, and the maximum it records is the largest weight before the halving.\<close>

theorem lrulist_tick:
  assumes "ls_ok l"
  shows "\<exists>l'. ls_tick l = Some l' \<and> ls_ok l' \<and> mset (ls_list l') = mset (ls_list l) \<and>
    sorted_wrt (\<lambda>x y. the (weight_at l y) \<le> the (weight_at l x)) (ls_list l') \<and>
    (\<forall>x \<in> set (ls_list l). weight_at l' x = Some (the (weight_at l x) div 2)) \<and>
    map wn_Val (ls_nodes l') = map wn_Val (ls_nodes l) \<and>
    ls_max l' = (if ls_list l = [] then 0 else the (weight_at l (hd (ls_list l'))))"
  using assms by (rule ls_tick_ok)

theorem lrulist_tick_witness:
  "\<exists>l l'. NewWithList (\<lambda>n. n) InsertFront [''a'', ''b''] = Some l \<and> ls_tick l = Some l' \<and>
     mset (ls_list l') = {#Some 0, Some 1#}"
proof -
  from demo_wlist obtain l :: "string lrulist" where
    l: "NewWithList (\<lambda>n. n) InsertFront [''a'', ''b''] = Some l" "ls_ok l" "ls_list l = [Some 0, Some 1]"
    by blast
  from lrulist_tick [OF l(2)] l(1,3) show ?thesis by auto
qed

text \<open>\<open>Remove\<close> takes exactly the given node out of the list, wherever it is, and does nothing
  when the node is not listed.\<close>

theorem lrulist_remove:
  assumes "ls_ok l"
  shows "ls_list (ls_Remove p l) = remove1 (Some p) (ls_list l) \<and> Some p \<notin> set (ls_list (ls_Remove p l))"
  using ls_Remove_list [OF assms, of p] assms by (simp add: ls_ok_def)

theorem lrulist_remove_witness:
  "\<exists>l. NewWithList (\<lambda>n. n) InsertFront [''a'', ''b''] = Some l \<and> ls_list (ls_Remove 0 l) = [Some 1]"
proof -
  from demo_wlist obtain l :: "string lrulist" where
    l: "NewWithList (\<lambda>n. n) InsertFront [''a'', ''b''] = Some l" "ls_ok l" "ls_list l = [Some 0, Some 1]"
    by blast
  from lrulist_remove [OF l(2), of 0] l(1,3) show ?thesis by auto
qed

end
