(* ===== verification/User_Context.thy ===== *)
theory User_Context
  imports Lru LruList
begin

text \<open>
  The user contexts of the shadowsocks and vmess servers (\<open>user_context.go\<close> of both packages,
  the same code): per client address a list of the passages in the order they are tried, kept in
  an LRU cache. Contexts are shared, so the cache holds addresses of \<open>up_ctxs\<close>.
\<close>

section \<open>Authentication\<close>

text \<open>The loop over the copy: the first passage \<open>probe\<close> accepts is promoted and returned.
  A nil entry is a panic.\<close>

fun probe_loop :: "('p \<Rightarrow> 'c option) \<Rightarrow> arr \<Rightarrow> 'p lrulist \<Rightarrow> ('p lrulist \<times> ('p \<times> 'c) option) option" where
  "probe_loop probe [] l = Some (l, None)"
| "probe_loop probe (x # xs) l =
     (case x of
        None \<Rightarrow> None
      | Some p \<Rightarrow>
          if length (ls_nodes l) \<le> p then None
          else let server = wn_Val (ls_nodes l ! p)
               in (case probe server of
                     Some content \<Rightarrow> Some (ls_Promote p l, Some (server, content))
                   | None \<Rightarrow> probe_loop probe xs l))"

definition ctx_Auth :: "(nat \<Rightarrow> nat) \<Rightarrow> bool \<Rightarrow> ('p \<Rightarrow> 'c option) \<Rightarrow> 'p lrulist \<Rightarrow>
    ('p lrulist \<times> ('p \<times> 'c) option) option" where
  "ctx_Auth getClosestN pick probe ctx =
     Option.bind (GetListCopy getClosestN pick ctx) (\<lambda>(l, listCopy, n).
     Option.bind (probe_loop probe (take n listCopy) l) (\<lambda>(l', hit).
       Some (DestroyListCopy listCopy l', hit)))"

definition ctx_Close :: "'p lrulist \<Rightarrow> 'p lrulist" where
  "ctx_Close ctx = ls_Close ctx"

text \<open>\<open>NewUserContext\<close>: copies of the passages in front-insertion order. The update interval
  is of no consequence, \<open>NewWithList\<close> starts no updater.\<close>

definition stablePassageRefs :: "'p list \<Rightarrow> 'p list" where
  "stablePassageRefs passages = map (\<lambda>i. passages ! i) [0..<length passages]"

definition NewUserContext :: "(nat \<Rightarrow> nat) \<Rightarrow> 'p list \<Rightarrow> 'p lrulist option" where
  "NewUserContext getClosestN passages =
     NewWithList getClosestN InsertFront (stablePassageRefs passages)"

section \<open>The pool\<close>

record 'p ctx_pool =
  up_lru :: "(string, nat) lru"
  up_ctxs :: "'p lrulist list"

definition contextTimeout :: int where
  "contextTimeout = 3600000000000"

definition new_pool :: "'p ctx_pool" where
  "new_pool = \<lparr>up_lru = NewLru FixedTimeout contextTimeout, up_ctxs = []\<rparr>"

text \<open>The removed contexts are closed.\<close>

definition close_removed :: "nat list \<Rightarrow> 'p lrulist list \<Rightarrow> 'p lrulist list" where
  "close_removed rm cs = foldl (\<lambda>cs a. cs[a := ctx_Close (cs ! a)]) cs rm"

text \<open>\<open>GetUserContextOrInsert\<close> with the server's passages; a new context exists only when the
  cache asked for it.\<close>

definition GetUserContextOrInsert :: "(nat \<Rightarrow> nat) \<Rightarrow> int \<Rightarrow> int \<Rightarrow> 'p list \<Rightarrow> string \<Rightarrow>
    'p ctx_pool \<Rightarrow> ('p ctx_pool \<times> nat) option" where
  "GetUserContextOrInsert getClosestN now now2 passages userIP s =
     (let fresh = length (up_ctxs s)
      in Option.bind (lru_goi now now2 userIP fresh (up_lru s)) (\<lambda>(l, a, removed).
         Option.bind (if a = fresh
                      then map_option (\<lambda>c. up_ctxs s @ [c]) (NewUserContext getClosestN passages)
                      else Some (up_ctxs s)) (\<lambda>cs.
           Some (\<lparr>up_lru = l, up_ctxs = close_removed removed cs\<rparr>, a))))"

section \<open>What authentication returns\<close>

lemma stablePassageRefs_same [simp]: "stablePassageRefs ps = ps"
  by (simp add: stablePassageRefs_def map_nth)

text \<open>The passages of a context in the order they are tried.\<close>

definition passages_of :: "'p lrulist \<Rightarrow> 'p list" where
  "passages_of l = map (\<lambda>x. wn_Val (ls_nodes l ! the x)) (ls_list l)"

fun first_accepted :: "('p \<Rightarrow> 'c option) \<Rightarrow> 'p list \<Rightarrow> ('p \<times> 'c) option" where
  "first_accepted probe [] = None"
| "first_accepted probe (p # ps) =
     (case probe p of Some c \<Rightarrow> Some (p, c) | None \<Rightarrow> first_accepted probe ps)"

lemma weight_at_other [simp]:
  "weight_at (l\<lparr>ls_pool := q\<rparr>) x = weight_at l x" "weight_at (l\<lparr>ls_stopped := b\<rparr>) x = weight_at l x"
  by (cases x; simp add: weight_at_def)+

lemma probe_loop_first:
  "\<forall>x \<in> set xs. weight_at l x \<noteq> None \<Longrightarrow>
     \<exists>l'. probe_loop probe xs l =
         Some (l', first_accepted probe (map (\<lambda>x. wn_Val (ls_nodes l ! the x)) xs)) \<and>
       (l' = l \<or> (\<exists>p. Some p \<in> set xs \<and> l' = ls_Promote p l))"
proof (induction xs)
  case (Cons x xs)
  then have "weight_at l x \<noteq> None" by simp
  then obtain p where p: "x = Some p" "p < length (ls_nodes l)" by (auto simp only: weight_at_Some)
  from Cons obtain l' where
    "probe_loop probe xs l = Some (l', first_accepted probe (map (\<lambda>x. wn_Val (ls_nodes l ! the x)) xs))"
    "l' = l \<or> (\<exists>p. Some p \<in> set xs \<and> l' = ls_Promote p l)" by auto
  with p show ?case by (auto split: option.split)
qed simp

lemma wn_Val_Promote: "wn_Val (ls_nodes (ls_Promote p l) ! q) = wn_Val (ls_nodes l ! q)"
proof (cases "p < length (ls_nodes l)")
  case True
  then show ?thesis by (cases "p = q") (simp_all add: ls_Promote_def)
qed (simp add: ls_Promote_def list_update_beyond)

lemma Promote_keeps:
  "ls_list (ls_Promote p l) = ls_list l" "ls_len (ls_Promote p l) = ls_len l"
  "ls_arr (ls_Promote p l) = ls_arr l" "ls_pool (ls_Promote p l) = ls_pool l"
  "ls_stopped (ls_Promote p l) = ls_stopped l"
  by (simp_all add: ls_Promote_def ls_list_def)

lemma weight_at_Promote:
  "weight_at (ls_Promote p l) x =
     map_option (\<lambda>w. if x = Some p then w + 1 else w) (weight_at l x)"
  by (auto simp: weight_at_def ls_Promote_def split: option.split)

lemma ls_ok_Promote: "ls_ok l \<Longrightarrow> ls_ok (ls_Promote p l)"
  by (simp add: ls_ok_def Promote_keeps weight_at_Promote)

lemma passages_Promote: "passages_of (ls_Promote p l) = passages_of l"
  by (simp add: passages_of_def Promote_keeps wn_Val_Promote)

lemma ctx_Auth_first:
  assumes ok: "ls_ok l" and f: "\<And>n. n \<le> 2 ^ f n"
  shows "\<exists>l'. ctx_Auth f pick probe l = Some (l', first_accepted probe (passages_of l)) \<and>
    ls_ok l' \<and> passages_of l' = passages_of l \<and> ls_stopped l' = ls_stopped l"
proof -
  have "pool_ok (ls_pool l)" using ok by (simp add: ls_ok_def)
  from gp_Get_ok [of "ls_pool l" "ls_len l" f pick, OF this f] obtain p a where
    g: "gp_Get f pick (ls_len l) (ls_pool l) = Some (p, a)" "pool_ok p" by blast
  define l1 where "l1 = l\<lparr>ls_pool := p\<rparr>"
  have same: "ls_list l1 = ls_list l" "ls_nodes l1 = ls_nodes l" "weight_at l1 = weight_at l"
    "ls_stopped l1 = ls_stopped l"
    by (simp_all add: l1_def ls_list_def fun_eq_iff)
  have ok1: "ls_ok l1" using ok g(2) unfolding ls_ok_def same by (simp add: l1_def)
  have "\<forall>x \<in> set (ls_list l). weight_at l1 x \<noteq> None" using ok by (simp add: ls_ok_def same)
  from probe_loop_first [OF this, of probe] obtain l2 where
    p: "probe_loop probe (ls_list l) l1 = Some (l2, first_accepted probe (passages_of l))"
      "l2 = l1 \<or> (\<exists>p. l2 = ls_Promote p l1)"
    unfolding passages_of_def same by blast
  have "passages_of l1 = passages_of l" by (simp add: passages_of_def same)
  then have l2: "ls_ok l2" "passages_of l2 = passages_of l" "ls_stopped l2 = ls_stopped l"
    using p(2) ok1 ls_ok_Promote [OF ok1] same(4)
    by (auto simp: passages_Promote Promote_keeps)
  let ?copy = "ls_list l @ drop (ls_len l) a"
  have "take (ls_len l) ?copy = ls_list l" using length_ls_list [OF ok] by simp
  then have "ctx_Auth f pick probe l =
      Some (DestroyListCopy ?copy l2, first_accepted probe (passages_of l))"
    using g(1) p(1) by (simp add: ctx_Auth_def GetListCopy_def l1_def)
  moreover have "ls_ok (DestroyListCopy ?copy l2)" "ls_stopped (DestroyListCopy ?copy l2) = ls_stopped l2"
    "passages_of (DestroyListCopy ?copy l2) = passages_of l2"
    using l2(1) gp_Put_ok [of "ls_pool l2"]
    by (simp_all add: DestroyListCopy_def ls_ok_def ls_list_def passages_of_def)
  ultimately show ?thesis using l2 by auto
qed

section \<open>The pool never returns a closed context\<close>

text \<open>Every context the cache holds satisfies \<open>Q\<close>, and none is held twice.\<close>

definition pool_holds :: "('p lrulist \<Rightarrow> bool) \<Rightarrow> 'p ctx_pool \<Rightarrow> bool" where
  "pool_holds Q s \<longleftrightarrow>
     (\<exists>c. cache_rep FixedTimeout contextTimeout (up_lru s) c \<and> distinct (map (\<lambda>x. fst (snd x)) c) \<and>
        (\<forall>x \<in> set c. fst (snd x) < length (up_ctxs s) \<and> Q (up_ctxs s ! fst (snd x))))"

definition open_ctx :: "'p lrulist \<Rightarrow> bool" where
  "open_ctx l \<longleftrightarrow> ls_ok l \<and> \<not> ls_stopped l"

definition pool_inv :: "'p ctx_pool \<Rightarrow> bool" where
  "pool_inv s \<longleftrightarrow> pool_holds open_ctx s"

lemma close_removed_keeps:
  "length (close_removed rm cs) = length cs"
  "a \<notin> set rm \<Longrightarrow> close_removed rm cs ! a = cs ! a"
proof -
  show "length (close_removed rm cs) = length cs"
    by (induction rm arbitrary: cs) (simp_all add: close_removed_def)
  show "a \<notin> set rm \<Longrightarrow> close_removed rm cs ! a = cs ! a"
    by (induction rm arbitrary: cs) (simp_all add: close_removed_def)
qed

lemma new_pool_holds: "pool_holds Q new_pool"
  by (auto simp: pool_holds_def new_pool_def cache_rep_new intro!: exI [of _ "[]"])

lemma evict_timeout_set:
  "set (fst (evict FixedTimeout lim now c)) \<subseteq> set c"
  "distinct c \<Longrightarrow> x \<in> set (fst (evict FixedTimeout lim now c)) \<Longrightarrow>
     x \<notin> set (snd (evict FixedTimeout lim now c))"
proof -
  note sp = evict_split [of FixedTimeout lim now c]
  show "set (fst (evict FixedTimeout lim now c)) \<subseteq> set c"
    by (subst (2) sp [symmetric]) auto
  assume "distinct c"
  then have "distinct (fst (evict FixedTimeout lim now c) @ rev (snd (evict FixedTimeout lim now c)))"
    by (simp only: sp)
  then show "x \<in> set (fst (evict FixedTimeout lim now c)) \<Longrightarrow>
     x \<notin> set (snd (evict FixedTimeout lim now c))" by auto
qed

lemma evict_timeout_head:
  assumes "\<not> expired lim now x"
  shows "x \<in> set (fst (evict FixedTimeout lim now (x # c)))"
proof -
  have "x \<in> set (dropWhile (expired lim now) (rev c @ [x]))"
    using assms by (induction "rev c" arbitrary: c) (auto simp: dropWhile_append)
  then show ?thesis by simp
qed

lemma lookup_hit_pool:
  assumes c: "cache_rep FixedTimeout contextTimeout (up_lru s) (xs @ (ip, a, t) # ys)"
    and d: "distinct (map (\<lambda>x. fst (snd x)) (xs @ (ip, a, t) # ys))"
    and o: "\<forall>x \<in> set (xs @ (ip, a, t) # ys). fst (snd x) < length (up_ctxs s) \<and> Q (up_ctxs s ! fst (snd x))"
  shows "\<exists>s'. GetUserContextOrInsert f now now2 ps ip s = Some (s', a) \<and> pool_holds Q s' \<and>
    up_ctxs s' = up_ctxs s"
proof -
  from lru_cache.hit [OF c, of now now2 "length (up_ctxs s)"] obtain l where
    l: "lru_goi now now2 ip (length (up_ctxs s)) (up_lru s) = Some (l, a, [])"
      "cache_rep FixedTimeout contextTimeout l ((ip, a, now) # xs @ ys)" by blast
  have a: "a \<noteq> length (up_ctxs s)" using o by simp
  with l(2) d o have "pool_holds Q \<lparr>up_lru = l, up_ctxs = up_ctxs s\<rparr>"
    by (auto simp: pool_holds_def intro!: exI [of _ "(ip, a, now) # xs @ ys"])
  with l(1) a show ?thesis
    by (simp add: GetUserContextOrInsert_def close_removed_def)
qed

lemma lookup_miss_pool:
  assumes c: "cache_rep FixedTimeout contextTimeout (up_lru s) c"
    and d: "distinct (map (\<lambda>x. fst (snd x)) c)"
    and o: "\<forall>x \<in> set c. fst (snd x) < length (up_ctxs s) \<and> Q (up_ctxs s ! fst (snd x))"
    and k: "ip \<notin> fst ` set c" and ctx: "NewUserContext f ps = Some ctx" "Q ctx" and t: "now2 - now < contextTimeout"
  shows "\<exists>s'. GetUserContextOrInsert f now now2 ps ip s = Some (s', length (up_ctxs s)) \<and> pool_holds Q s' \<and>
    up_ctxs s' ! length (up_ctxs s) = ctx \<and> length (up_ctxs s') = Suc (length (up_ctxs s))"
proof -
  let ?n = "length (up_ctxs s)"
  let ?e = "evict FixedTimeout contextTimeout now2 ((ip, ?n, now) # c)"
  from lru_cache.miss [OF c k, of now now2 ?n] obtain l where
    l: "lru_goi now now2 ip ?n (up_lru s) = Some (l, ?n, map (\<lambda>x. fst (snd x)) (snd ?e))"
      "cache_rep FixedTimeout contextTimeout l (fst ?e)" by blast
  have dist: "distinct ((ip, ?n, now) # c)" and da: "inj_on (\<lambda>x. fst (snd x)) (set ((ip, ?n, now) # c))"
    using d o by (auto simp: distinct_map inj_on_def)
  have sp: "set (snd ?e) \<subseteq> set ((ip, ?n, now) # c)"
    by (subst evict_split [of FixedTimeout contextTimeout now2 "(ip, ?n, now) # c", symmetric]) auto
  note kept = evict_timeout_set [where lim = contextTimeout and now = now2 and c = "(ip, ?n, now) # c"]
  have rm: "fst (snd x) \<notin> set (map (\<lambda>x. fst (snd x)) (snd ?e))" if "x \<in> set (fst ?e)" for x
  proof
    assume "fst (snd x) \<in> set (map (\<lambda>x. fst (snd x)) (snd ?e))"
    then obtain y where y: "y \<in> set (snd ?e)" "fst (snd x) = fst (snd y)"
      by (metis (no_types, lifting) imageE set_map)
    have "x = y" using inj_onD [OF da y(2)] y(1) that sp kept(1) by blast
    with kept(2) [OF dist that] y(1) show False by blast
  qed
  let ?cs = "close_removed (map (\<lambda>x. fst (snd x)) (snd ?e)) (up_ctxs s @ [ctx])"
  have "\<forall>x \<in> set (fst ?e). fst (snd x) < length ?cs \<and> Q (?cs ! fst (snd x))"
  proof
    fix x
    assume x: "x \<in> set (fst ?e)"
    then have "x \<in> set ((ip, ?n, now) # c)" using kept(1) by blast
    then have "fst (snd x) < Suc ?n \<and> Q ((up_ctxs s @ [ctx]) ! fst (snd x))"
      using o ctx(2) by (auto simp: nth_append)
    then show "fst (snd x) < length ?cs \<and> Q (?cs ! fst (snd x))"
      using rm [OF x] by (simp add: close_removed_keeps del: evict.simps)
  qed
  moreover have "distinct (map (\<lambda>x. fst (snd x)) (fst ?e))"
  proof -
    have "distinct (fst ?e @ rev (snd ?e))" using dist by (simp only: evict_split)
    then have "distinct (fst ?e)" unfolding distinct_append by blast
    with inj_on_subset [OF da kept(1)] show ?thesis unfolding distinct_map by blast
  qed
  ultimately have p: "pool_holds Q \<lparr>up_lru = l, up_ctxs = ?cs\<rparr>"
    using l(2) unfolding pool_holds_def
    by (intro exI [of _ "fst ?e"]) (simp del: evict.simps)
  have "(ip, ?n, now) \<in> set (fst ?e)"
    using t by (intro evict_timeout_head) (simp add: expired_def)
  from close_removed_keeps(2) [OF rm [OF this], of "up_ctxs s @ [ctx]"]
  have "?cs ! ?n = ctx" by (simp add: nth_append)
  with p l(1) ctx(1) show ?thesis
    by (simp add: GetUserContextOrInsert_def Let_def close_removed_keeps(1))
qed

text \<open>A lookup returns a context with \<open>Q\<close> and keeps the pool, if a new context has \<open>Q\<close>.\<close>

lemma pool_lookup:
  assumes inv: "pool_holds Q s" and ctx: "NewUserContext f ps = Some ctx" "Q ctx"
    and t: "now2 - now < contextTimeout"
  shows "\<exists>s' a. GetUserContextOrInsert f now now2 ps ip s = Some (s', a) \<and> pool_holds Q s' \<and>
    a < length (up_ctxs s') \<and> Q (up_ctxs s' ! a) \<and> (a = length (up_ctxs s) \<longrightarrow> up_ctxs s' ! a = ctx)"
proof -
  from inv obtain c where c: "cache_rep FixedTimeout contextTimeout (up_lru s) c"
    and d: "distinct (map (\<lambda>x. fst (snd x)) c)"
    and o: "\<forall>x \<in> set c. fst (snd x) < length (up_ctxs s) \<and> Q (up_ctxs s ! fst (snd x))"
    by (auto simp: pool_holds_def)
  show ?thesis
  proof (cases rule: lru_cache.cases_key [of c ip])
    case (cached xs a t ys)
    from lookup_hit_pool [OF c [unfolded cached] d [unfolded cached] o [unfolded cached]] o cached
    show ?thesis by fastforce
  next
    case absent
    from lookup_miss_pool [OF c d o absent ctx t] ctx(2) show ?thesis by fastforce
  qed
qed

lemma NewUserContext_ok:
  assumes "\<And>n. n \<le> 2 ^ f n"
  shows "\<exists>ctx. NewUserContext f ps = Some ctx \<and> open_ctx ctx \<and> passages_of ctx = ps"
proof -
  from NewWithList_ok [of ps f InsertFront] assms obtain l where
    l: "NewUserContext f ps = Some l" "ls_ok l" "ls_list l = map Some [0..<length ps]" "map wn_Val (ls_nodes l) = ps"
    by (auto simp: NewUserContext_def)
  have n: "length (ls_nodes l) = length ps" using l(4) by (metis length_map)
  have "passages_of l = map (\<lambda>i. wn_Val (ls_nodes l ! i)) [0..<length (ls_nodes l)]"
    by (simp add: passages_of_def l(3) n comp_def)
  also have "\<dots> = map wn_Val (ls_nodes l)" by (rule nth_equalityI) simp_all
  finally have "passages_of l = ps" by (simp add: l(4))
  moreover have "\<not> ls_stopped l"
    using l(1) by (auto simp: NewUserContext_def NewWithList_def split: bind_splits prod.splits)
  ultimately show ?thesis using l(1,2) by (auto simp: open_ctx_def)
qed

section \<open>Properties\<close>

text \<open>C10: Authentication tries the passages of a context in order and returns the first one the
  probe accepts with what the probe yielded, and nothing if it accepts none; the context keeps its
  passages and their order.\<close>

theorem context_auth_first:
  assumes "ls_ok l" and "\<And>n. n \<le> 2 ^ getClosestN n"
  shows "\<exists>l'. ctx_Auth getClosestN pick probe l = Some (l', first_accepted probe (passages_of l)) \<and>
    ls_ok l' \<and> passages_of l' = passages_of l \<and> ls_stopped l' = ls_stopped l"
  using ctx_Auth_first [OF assms] .

theorem context_auth_first_witness:
  "\<exists>l l'. NewUserContext (\<lambda>n. n) [''a'', ''b''] = Some l \<and>
     ctx_Auth (\<lambda>n. n) False (\<lambda>p. if p = ''b'' then Some (1 :: nat) else None) l =
       Some (l', Some (''b'', 1))"
proof -
  have f: "n \<le> 2 ^ n" for n :: nat by (rule less_imp_le) (rule less_exp)
  from NewWithList_ok [of "[''a'', ''b'']" "\<lambda>n. n" InsertFront] obtain l where
    l: "NewUserContext (\<lambda>n. n) [''a'', ''b''] = Some l" "ls_ok l"
      "ls_list l = map Some [0..<2]" "map wn_Val (ls_nodes l) = [''a'', ''b'']"
    using f by (auto simp: NewUserContext_def numeral_2_eq_2)
  have "passages_of l = [''a'', ''b'']"
    using l(3,4) by (auto simp: passages_of_def upt_rec)
  with context_auth_first [OF l(2) f, of False "\<lambda>p. if p = ''b'' then Some (1 :: nat) else None"] l(1)
  show ?thesis by auto
qed

text \<open>Whatever the address, a lookup in the pool of user contexts returns an open context (one
  that was not handed to Close), as long as the clock moves by less than the cache's limit during
  the lookup; an address that is new gets a context with the server's passages, and no context the
  cache still holds is ever closed.\<close>

theorem context_pool_open:
  assumes "pool_inv s" and "\<And>n. n \<le> 2 ^ getClosestN n" and "now2 - now < contextTimeout"
  shows "\<exists>s' a. GetUserContextOrInsert getClosestN now now2 passages userIP s = Some (s', a) \<and>
    pool_inv s' \<and> a < length (up_ctxs s') \<and> \<not> ls_stopped (up_ctxs s' ! a) \<and>
    (a = length (up_ctxs s) \<longrightarrow> passages_of (up_ctxs s' ! a) = passages)"
proof -
  from NewUserContext_ok [OF assms(2)] obtain ctx where
    ctx: "NewUserContext getClosestN passages = Some ctx" "open_ctx ctx" "passages_of ctx = passages" by blast
  have o: "open_ctx l \<Longrightarrow> \<not> ls_stopped l" for l :: "'a lrulist" by (simp add: open_ctx_def)
  from pool_lookup [OF assms(1) [unfolded pool_inv_def] ctx(1,2) assms(3), of userIP] ctx(3) o
  show ?thesis unfolding pool_inv_def by blast
qed

theorem context_pool_open_witness:
  "\<exists>s' a. GetUserContextOrInsert (\<lambda>n. n) 5 6 [''a'', ''b''] ''1.2.3.4'' new_pool = Some (s', a) \<and>
     \<not> ls_stopped (up_ctxs s' ! a)"
proof -
  have f: "n \<le> 2 ^ n" for n :: nat by (rule less_imp_le) (rule less_exp)
  have inv: "pool_inv (new_pool :: string ctx_pool)" by (simp add: pool_inv_def new_pool_holds)
  show ?thesis
    using context_pool_open [OF inv f, of 6 5 "[''a'', ''b'']" "''1.2.3.4''"]
    by (auto simp: contextTimeout_def)
qed

end
