(* ===== verification/Context_Sync.thy ===== *)
theory Context_Sync
  imports User_Context
begin

text \<open>
  What \<open>addPassages\<close> and \<open>removePassagesFunc\<close> of the shadowsocks and vmess servers do to the
  cached user contexts: the loop over the keys of the cache, each context fetched again from it. The
  locale states what both servers keep: every cached context holds the passages of the server.
\<close>

section \<open>The loops\<close>

text \<open>\<open>choice\<close> settles for each round which array the pool of the context returns; a key without
  a context would be a panic.\<close>

fun pool_update :: "int \<Rightarrow> (bool \<Rightarrow> 'p lrulist \<Rightarrow> 'p lrulist option) \<Rightarrow> (nat \<Rightarrow> bool) \<Rightarrow> nat \<Rightarrow> string list \<Rightarrow>
    'p ctx_pool \<Rightarrow> 'p ctx_pool option" where
  "pool_update now g choice i [] s = Some s"
| "pool_update now g choice i (ident # idents) s =
     Option.bind (lru_get now ident (up_lru s)) (\<lambda>(l, v).
       case v of
         None \<Rightarrow> None
       | Some a \<Rightarrow>
           if length (up_ctxs s) \<le> a then None
           else Option.bind (g (choice i) (up_ctxs s ! a)) (\<lambda>userContext.
                  pool_update now g choice (Suc i) idents
                    \<lparr>up_lru = l, up_ctxs = (up_ctxs s)[a := userContext]\<rparr>))"

definition ctx_insert :: "(nat \<Rightarrow> nat) \<Rightarrow> 'p list \<Rightarrow> bool \<Rightarrow> 'p lrulist \<Rightarrow> 'p lrulist option" where
  "ctx_insert getClosestN vals pick userContext = map_option fst (ls_Insert getClosestN pick vals userContext)"

text \<open>The nodes of the copy are removed one by one.\<close>

fun remove_nodes :: "('p \<Rightarrow> bool) \<Rightarrow> arr \<Rightarrow> 'p lrulist \<Rightarrow> 'p lrulist option" where
  "remove_nodes f [] l = Some l"
| "remove_nodes f (x # xs) l =
     (case x of
        None \<Rightarrow> None
      | Some p \<Rightarrow>
          if length (ls_nodes l) \<le> p then None
          else remove_nodes f xs (if f (wn_Val (ls_nodes l ! p)) then ls_Remove p l else l))"

definition ctx_removeFunc :: "(nat \<Rightarrow> nat) \<Rightarrow> ('p \<Rightarrow> bool) \<Rightarrow> bool \<Rightarrow> 'p lrulist \<Rightarrow> 'p lrulist option" where
  "ctx_removeFunc getClosestN f pick userContext =
     Option.bind (GetListCopy getClosestN pick userContext) (\<lambda>(l, listCopy, n).
     Option.bind (remove_nodes f (take n listCopy) l) (\<lambda>l'.
       Some (DestroyListCopy listCopy l')))"

section \<open>One context\<close>

lemma nodes_append_val:
  "x < length ns \<Longrightarrow> wn_Val ((ns @ ms) ! x) = wn_Val (ns ! x)"
  by (simp add: nth_append)

lemma list_pointers:
  assumes "ls_ok l" and "x \<in> set (ls_list l)"
  obtains p where "x = Some p" "p < length (ls_nodes l)"
  using assms weight_at_Some [of l x] by (auto simp: ls_ok_def)

lemma ctx_insert_ok:
  assumes ok: "open_ctx l" and f: "\<And>n. n \<le> 2 ^ f n"
  shows "\<exists>l'. ctx_insert f vals pick l = Some l' \<and> open_ctx l' \<and>
    mset (passages_of l') = mset (passages_of l) + mset vals"
proof -
  let ?n = "length (ls_nodes l)" and ?m = "length vals"
  let ?xs = "map Some [?n..<?n + ?m]"
  have ok': "ls_ok l" using ok by (simp add: open_ctx_def)
  from ls_Insert_list [OF ok' f refl, of pick vals] obtain l' k where
    l': "ls_Insert f pick vals l = Some (l', ?xs)" "k \<le> ls_len l"
      "ls_list l' = take k (ls_list l) @ ?xs @ drop k (ls_list l)"
      "ls_nodes l' = ls_nodes l @ map (\<lambda>v. \<lparr>wn_Val = v, wn_weight = new_weight l\<rparr>) vals"
      "pool_ok (ls_pool l')" "ls_len l' = ls_len l + ?m" "ls_len l' \<le> length (ls_arr l')" by blast
  have old: "\<exists>p < ?n. x = Some p" if "x \<in> set (ls_list l)" for x
    using list_pointers [OF ok' that] by metis
  have ptr: "\<exists>p < length (ls_nodes l'). x = Some p" if "x \<in> set (ls_list l')" for x
    using that old [of x] in_set_takeD [of x k "ls_list l"] in_set_dropD [of x k "ls_list l"]
    by (auto simp: l'(3,4))
  have "distinct (ls_list l')"
  proof -
    have "distinct (take k (ls_list l) @ drop k (ls_list l))" using ok' by (simp add: ls_ok_def)
    moreover have "set ?xs \<inter> set (ls_list l) = {}" using old by fastforce
    ultimately show ?thesis
      unfolding l'(3) using in_set_takeD [of _ k "ls_list l"] in_set_dropD [of _ k "ls_list l"]
      by (auto simp: distinct_map simp del: append_take_drop_id)
  qed
  then have ok2: "ls_ok l'"
    using l'(5,7) ptr by (auto simp only: ls_ok_def weight_at_Some)
  have v_old: "map (\<lambda>x. wn_Val (ls_nodes l' ! the x)) ys = map (\<lambda>x. wn_Val (ls_nodes l ! the x)) ys"
    if "set ys \<subseteq> set (ls_list l)" for ys
    using that old by (fastforce simp: l'(4) nth_append)
  have v_new: "map (\<lambda>x. wn_Val (ls_nodes l' ! the x)) ?xs = vals"
    by (rule nth_equalityI) (simp_all add: l'(4) nth_append)
  have "mset (passages_of l') = mset (map (\<lambda>x. wn_Val (ls_nodes l ! the x)) (take k (ls_list l))) +
      mset vals + mset (map (\<lambda>x. wn_Val (ls_nodes l ! the x)) (drop k (ls_list l)))"
    using v_old [OF set_take_subset [of k]] v_old [OF set_drop_subset [of k]] v_new
    by (simp only: passages_of_def l'(3) map_append mset_append ac_simps)
  also have "\<dots> = mset (map (\<lambda>x. wn_Val (ls_nodes l ! the x)) (take k (ls_list l) @ drop k (ls_list l))) + mset vals"
    by (simp only: map_append mset_append ac_simps)
  finally have "mset (passages_of l') = mset (passages_of l) + mset vals"
    by (simp add: passages_of_def)
  moreover have "ls_stopped l' = ls_stopped l"
    using l'(1) by (auto simp: ls_Insert_def Let_def split: bind_splits)
  ultimately show ?thesis using l'(1) ok ok2 by (auto simp: ctx_insert_def open_ctx_def)
qed

lemma ls_Remove_keeps:
  "ls_nodes (ls_Remove p l) = ls_nodes l" "ls_pool (ls_Remove p l) = ls_pool l"
  "ls_stopped (ls_Remove p l) = ls_stopped l"
  by (simp_all add: ls_Remove_def split: option.split)

lemma length_shift_left: "length (shift_left i n a) = length a"
  by (induction i n a rule: shift_left.induct) (subst shift_left.simps, simp)

lemma ls_Remove_ok:
  assumes "ls_ok l"
  shows "ls_ok (ls_Remove p l)"
proof -
  have "ls_len (ls_Remove p l) \<le> length (ls_arr (ls_Remove p l))"
    using assms by (auto simp: ls_Remove_def ls_ok_def length_shift_left split: option.split)
  moreover have "weight_at (ls_Remove p l) x = weight_at l x" for x
    by (simp add: weight_at_def ls_Remove_keeps split: option.split)
  ultimately show ?thesis
    using assms set_remove1_subset [of "Some p" "ls_list l"] unfolding ls_ok_def ls_Remove_list [OF assms]
    by (auto simp: ls_Remove_keeps)
qed

lemma remove_nodes_list:
  assumes "ls_ok l" and "set xs \<subseteq> set (ls_list l)" and "distinct xs"
  shows "\<exists>l'. remove_nodes f xs l = Some l' \<and> ls_ok l' \<and> ls_nodes l' = ls_nodes l \<and> ls_stopped l' = ls_stopped l \<and>
    ls_pool l' = ls_pool l \<and>
    ls_list l' = filter (\<lambda>x. \<not> (x \<in> set xs \<and> f (wn_Val (ls_nodes l ! the x)))) (ls_list l)"
  using assms
proof (induction xs arbitrary: l)
  case (Cons x xs)
  from Cons.prems obtain p where p: "x = Some p" "p < length (ls_nodes l)"
    using list_pointers [of l x] by auto
  define l1 where "l1 = (if f (wn_Val (ls_nodes l ! p)) then ls_Remove p l else l)"
  have d: "distinct (ls_list l)" using Cons.prems(1) by (simp add: ls_ok_def)
  have l1: "ls_ok l1" "ls_nodes l1 = ls_nodes l" "ls_stopped l1 = ls_stopped l" "ls_pool l1 = ls_pool l"
    "ls_list l1 = filter (\<lambda>y. \<not> (y = x \<and> f (wn_Val (ls_nodes l ! the y)))) (ls_list l)"
    using Cons.prems(1) ls_Remove_ok [of l p] ls_Remove_list [of l p] distinct_remove1_removeAll [OF d, of x]
    by (auto simp: l1_def ls_Remove_keeps p(1) removeAll_filter_not_eq intro!: filter_cong filter_True [symmetric])
  have "set xs \<subseteq> set (ls_list l1)" using Cons.prems(2,3) by (auto simp: l1(5))
  from Cons.IH [OF l1(1) this] Cons.prems(3) obtain l' where
    l': "remove_nodes f xs l1 = Some l'" "ls_ok l'" "ls_nodes l' = ls_nodes l" "ls_stopped l' = ls_stopped l"
      "ls_pool l' = ls_pool l"
      "ls_list l' = filter (\<lambda>x. \<not> (x \<in> set xs \<and> f (wn_Val (ls_nodes l ! the x)))) (ls_list l1)"
    using l1(2-4) by auto
  have "remove_nodes f (x # xs) l = Some l'" using l'(1) p by (simp add: l1_def)
  moreover have "ls_list l' = filter (\<lambda>y. \<not> (y \<in> set (x # xs) \<and> f (wn_Val (ls_nodes l ! the y)))) (ls_list l)"
    unfolding l'(6) l1(5) filter_filter by (rule filter_cong) auto
  ultimately show ?case using l'(2-5) by blast
qed simp

lemma ctx_removeFunc_ok:
  assumes ok: "open_ctx l" and f: "\<And>n. n \<le> 2 ^ f n"
  shows "\<exists>l'. ctx_removeFunc f P pick l = Some l' \<and> open_ctx l' \<and>
    passages_of l' = filter (\<lambda>p. \<not> P p) (passages_of l)"
proof -
  have ok': "ls_ok l" using ok by (simp add: open_ctx_def)
  then have "pool_ok (ls_pool l)" by (simp add: ls_ok_def)
  from gp_Get_ok [of "ls_pool l" "ls_len l" f pick, OF this f] obtain p a where
    g: "gp_Get f pick (ls_len l) (ls_pool l) = Some (p, a)" "pool_ok p" by blast
  define l1 where "l1 = l\<lparr>ls_pool := p\<rparr>"
  have same: "ls_list l1 = ls_list l" "ls_nodes l1 = ls_nodes l" "weight_at l1 = weight_at l"
    "ls_stopped l1 = ls_stopped l"
    by (simp_all add: l1_def ls_list_def fun_eq_iff)
  have ok1: "ls_ok l1" using ok' g(2) unfolding ls_ok_def same by (simp add: l1_def)
  have d: "distinct (ls_list l)" using ok' by (simp add: ls_ok_def)
  from remove_nodes_list [OF ok1, of "ls_list l" P] d obtain l2 where
    l2: "remove_nodes P (ls_list l) l1 = Some l2" "ls_ok l2" "ls_nodes l2 = ls_nodes l" "ls_stopped l2 = ls_stopped l"
      "ls_list l2 = filter (\<lambda>x. \<not> (x \<in> set (ls_list l) \<and> P (wn_Val (ls_nodes l ! the x)))) (ls_list l)"
    by (auto simp: same)
  let ?copy = "ls_list l @ drop (ls_len l) a"
  have "take (ls_len l) ?copy = ls_list l" using length_ls_list [OF ok'] by simp
  then have "ctx_removeFunc f P pick l = Some (DestroyListCopy ?copy l2)"
    using g(1) l2(1) by (simp add: ctx_removeFunc_def GetListCopy_def l1_def)
  moreover have "ls_ok (DestroyListCopy ?copy l2)" "ls_stopped (DestroyListCopy ?copy l2) = ls_stopped l2"
    "passages_of (DestroyListCopy ?copy l2) = passages_of l2"
    using l2(2) gp_Put_ok [of "ls_pool l2"]
    by (simp_all add: DestroyListCopy_def ls_ok_def ls_list_def passages_of_def)
  moreover have "ls_list l2 = filter (\<lambda>x. \<not> P (wn_Val (ls_nodes l ! the x))) (ls_list l)"
    unfolding l2(5) by (rule filter_cong) simp_all
  then have "passages_of l2 = filter (\<lambda>p. \<not> P p) (passages_of l)"
    by (simp add: passages_of_def l2(3) filter_map comp_def)
  ultimately show ?thesis using ok l2(4) by (auto simp: open_ctx_def)
qed

section \<open>All contexts\<close>

lemma pool_update_loop:
  assumes "cache_rep FixedTimeout contextTimeout (up_lru s) c" and "distinct (map (\<lambda>x. fst (snd x)) c)"
    and "\<forall>x \<in> set c. fst (snd x) < length (up_ctxs s) \<and>
      (if fst x \<in> set idents then Q (up_ctxs s ! fst (snd x)) else R (up_ctxs s ! fst (snd x)))"
    and "set idents \<subseteq> fst ` set c" and "distinct idents"
    and g: "\<And>pick l. Q l \<Longrightarrow> \<exists>l'. g pick l = Some l' \<and> R l'"
  shows "\<exists>s'. pool_update now g choice i idents s = Some s' \<and> pool_holds R s'"
  using assms(1-5)
proof (induction idents arbitrary: s c i)
  case Nil
  then show ?case by (auto simp: pool_holds_def intro!: exI [of _ c])
next
  case (Cons k ks)
  from Cons.prems(4) obtain a t where kc: "(k, a, t) \<in> set c" by fastforce
  then obtain xs ys where c: "c = xs @ (k, a, t) # ys" by (meson split_list)
  from cache_get [OF Cons.prems(1) [unfolded c], of now] obtain l where
    l: "lru_get now k (up_lru s) = Some (l, Some a)" "cache_rep FixedTimeout contextTimeout l ((k, a, now) # xs @ ys)" by blast
  have a: "a < length (up_ctxs s)" "Q (up_ctxs s ! a)" using Cons.prems(3) c by simp_all
  from g [OF a(2), of "choice i"] obtain l' where l': "g (choice i) (up_ctxs s ! a) = Some l'" "R l'" by blast
  let ?s = "\<lparr>up_lru = l, up_ctxs = (up_ctxs s)[a := l']\<rparr>"
  have kd: "k \<notin> fst ` set (xs @ ys)"
    using lru_cache.rep_distinct [OF Cons.prems(1)] by (auto simp: c)
  have ad: "a \<notin> (\<lambda>x. fst (snd x)) ` set (xs @ ys)" using Cons.prems(2) by (auto simp: c)
  have ctx: "\<forall>x \<in> set ((k, a, now) # xs @ ys). fst (snd x) < length (up_ctxs ?s) \<and>
      (if fst x \<in> set ks then Q (up_ctxs ?s ! fst (snd x)) else R (up_ctxs ?s ! fst (snd x)))"
  proof
    fix x
    assume "x \<in> set ((k, a, now) # xs @ ys)"
    then consider "x = (k, a, now)" | "x \<in> set (xs @ ys)" by auto
    then show "fst (snd x) < length (up_ctxs ?s) \<and>
      (if fst x \<in> set ks then Q (up_ctxs ?s ! fst (snd x)) else R (up_ctxs ?s ! fst (snd x)))"
    proof cases
      case 1
      with a l'(2) Cons.prems(5) show ?thesis by simp
    next
      case 2
      then have "fst (snd x) \<noteq> a" "fst x \<noteq> k" "x \<in> set c" using ad kd by (auto simp: c)
      with Cons.prems(3) show ?thesis by auto
    qed
  qed
  have "set ks \<subseteq> fst ` set ((k, a, now) # xs @ ys)" using Cons.prems(4) by (auto simp: c)
  moreover have "distinct (map (\<lambda>x. fst (snd x)) ((k, a, now) # xs @ ys))"
    using Cons.prems(2) by (auto simp: c)
  ultimately have "\<exists>s'. pool_update now g choice (Suc i) ks ?s = Some s' \<and> pool_holds R s'"
    using Cons.IH [of ?s "(k, a, now) # xs @ ys" "Suc i", OF _ _ ctx] l(2) Cons.prems(5)
    by (metis distinct.simps(2) select_convs(1))
  with l(1) l'(1) a(1) show ?case by simp
qed

lemma pool_update_all:
  assumes "pool_holds Q s" and "\<And>pick l. Q l \<Longrightarrow> \<exists>l'. g pick l = Some l' \<and> R l'"
  shows "\<exists>s'. pool_update now g choice 0 (GetKeys (up_lru s)) s = Some s' \<and> pool_holds R s'"
proof -
  from assms(1) obtain c where c: "cache_rep FixedTimeout contextTimeout (up_lru s) c"
    "distinct (map (\<lambda>x. fst (snd x)) c)"
    "\<forall>x \<in> set c. fst (snd x) < length (up_ctxs s) \<and> Q (up_ctxs s ! fst (snd x))"
    by (auto simp: pool_holds_def)
  from cache_keys [OF c(1)] have k: "distinct (GetKeys (up_lru s))" "set (GetKeys (up_lru s)) = fst ` set c" by auto
  show ?thesis
    by (rule pool_update_loop [OF c(1,2) _ _ k(1) assms(2)]) (use c(3) k(2) in auto)
qed

text \<open>The contexts that hold exactly the passages of the server.\<close>

definition holds_passages :: "'p list \<Rightarrow> 'p lrulist \<Rightarrow> bool" where
  "holds_passages ps l \<longleftrightarrow> open_ctx l \<and> mset (passages_of l) = mset ps"

lemma pool_insert_all:
  assumes "pool_holds (holds_passages ps) s" and "\<And>n. n \<le> 2 ^ f n"
  shows "\<exists>s'. pool_update now (ctx_insert f vals) choice 0 (GetKeys (up_lru s)) s = Some s' \<and>
    pool_holds (holds_passages (ps @ vals)) s'"
  using ctx_insert_ok [OF _ assms(2), of _ vals]
  by (intro pool_update_all [OF assms(1)]) (fastforce simp: holds_passages_def)

lemma pool_remove_all:
  assumes "pool_holds (holds_passages ps) s" and "\<And>n. n \<le> 2 ^ f n"
  shows "\<exists>s'. pool_update now (ctx_removeFunc f P) choice 0 (GetKeys (up_lru s)) s = Some s' \<and>
    pool_holds (holds_passages (filter (\<lambda>p. \<not> P p) ps)) s'"
  using ctx_removeFunc_ok [OF _ assms(2), of _ P]
  by (intro pool_update_all [OF assms(1)]) (fastforce simp: holds_passages_def)

end
