(* ===== verification/Context_Store.thy ===== *)
theory Context_Store
  imports Context_Sync Passages
begin

text \<open>
  The part the shadowsocks and the vmess servers have in common: a list of passages and the user
  contexts that follow it. The locale takes the operations of a server on the two and how it makes a
  passage its own; what it proves makes the server a store of passages the synchronisation can use.
\<close>

text \<open>What an operation takes from its surroundings: random texts, two readings of the clock, and
  the arrays the pools of the contexts return.\<close>

record draws =
  dr_gen :: "nat \<Rightarrow> string"
  dr_now :: int
  dr_now2 :: int
  dr_remove :: "nat \<Rightarrow> bool"
  dr_insert :: "nat \<Rightarrow> bool"
  dr_pick :: bool

definition contexts_follow :: "(nat \<Rightarrow> nat) \<Rightarrow> 'a passage_scheme list \<Rightarrow> 'a passage_scheme ctx_pool \<Rightarrow> bool" where
  "contexts_follow closest ps pool \<longleftrightarrow> (\<forall>n. n \<le> 2 ^ closest n) \<and> length (filter pa_Manager ps) \<le> 1 \<and>
     pool_holds (holds_passages ps) pool"

lemma contexts_followD:
  assumes "contexts_follow closest ps pool"
  shows "n \<le> 2 ^ closest n" "length (filter pa_Manager ps) \<le> 1" "pool_holds (holds_passages ps) pool"
  using assms by (simp_all add: contexts_follow_def)

lemma contexts_follow_new: "(\<And>n. n \<le> 2 ^ closest n) \<Longrightarrow> contexts_follow closest [] new_pool"
  by (simp add: contexts_follow_def new_pool_holds)

lemma pool_replace:
  assumes "pool_holds Q s" and "Q l"
  shows "pool_holds Q (s\<lparr>up_ctxs := (up_ctxs s)[a := l]\<rparr>)"
proof -
  have nth: "xs[a := l] ! i = (if i = a \<and> a < length xs then l else xs ! i)" for xs i
    by (cases "a < length xs") (auto simp: nth_list_update list_update_beyond)
  from assms show ?thesis unfolding pool_holds_def by (force simp: nth)
qed

text \<open>The context of an address.\<close>

lemma contexts_follow_lookup:
  assumes "contexts_follow closest ps pool" and "now2 - now < contextTimeout"
  shows "\<exists>q a. GetUserContextOrInsert closest now now2 ps ip pool = Some (q, a) \<and> contexts_follow closest ps q \<and>
    holds_passages ps (up_ctxs q ! a)"
proof -
  note d = contexts_followD [OF assms(1)]
  from NewUserContext_ok [OF d(1), of ps] obtain ctx where
    ctx: "NewUserContext closest ps = Some ctx" "holds_passages ps ctx"
    by (auto simp: holds_passages_def)
  from pool_lookup [OF d(3) ctx assms(2), of ip] d(1,2) show ?thesis by (auto simp: contexts_follow_def)
qed

lemma contexts_follow_replace:
  "contexts_follow closest ps q \<Longrightarrow> holds_passages ps l \<Longrightarrow>
     contexts_follow closest ps (q\<lparr>up_ctxs := (up_ctxs q)[a := l]\<rparr>)"
  by (simp add: contexts_follow_def pool_replace)

section \<open>A server with contexts\<close>

locale context_store =
  fixes psgs :: "'s \<Rightarrow> 'a passage_scheme list" and pool :: "'s \<Rightarrow> 'a passage_scheme ctx_pool"
    and closest :: "nat \<Rightarrow> nat"
    and add :: "draws \<Rightarrow> 'a passage_scheme list \<Rightarrow> 's \<Rightarrow> 's option"
    and removeFunc :: "draws \<Rightarrow> ('a passage_scheme \<Rightarrow> bool) \<Rightarrow> 's \<Rightarrow> 's option"
    and localize :: "(nat \<Rightarrow> string) \<Rightarrow> passage list \<Rightarrow> ('a passage_scheme list \<times> bool) option"
    and AddPassages :: "draws \<Rightarrow> passage list \<Rightarrow> 's \<Rightarrow> ('s \<times> go_err option) option"
    and RemovePassages :: "draws \<Rightarrow> passage list \<Rightarrow> bool \<Rightarrow> 's \<Rightarrow> ('s \<times> go_err option) option"
    and hash :: "argument \<Rightarrow> string"
    and valid :: "passage \<Rightarrow> bool" and own :: "'a passage_scheme \<Rightarrow> bool"
  assumes add_law: "pool_update (dr_now dr) (ctx_insert closest us) (dr_insert dr) 0 (GetKeys (up_lru (pool s))) (pool s) = Some q \<Longrightarrow>
      \<exists>s'. add dr us s = Some s' \<and> psgs s' = psgs s @ us \<and> pool s' = q"
    and remove_law: "pool_update (dr_now dr) (ctx_removeFunc closest f) (dr_remove dr) 0 (GetKeys (up_lru (pool s))) (pool s) = Some q \<Longrightarrow>
      \<exists>s'. removeFunc dr f s = Some s' \<and> psgs s' = filter (\<lambda>p. \<not> f p) (psgs s) \<and> pool s' = q"
    and AddPassages_law: "AddPassages dr ps s =
      Option.bind (localize (dr_gen dr) ps) (\<lambda>(us, managerKey).
      Option.bind (if managerKey then removeFunc dr pa_Manager s else Some s) (\<lambda>s1.
        map_option (\<lambda>s2. (s2, None)) (add dr us s1)))"
    and RemovePassages_law: "RemovePassages dr ps am s =
      Option.bind (localize (dr_gen dr) ps) (\<lambda>(us, _).
        map_option (\<lambda>s1. (s1, None)) (removeFunc dr (\<lambda>p. hash (pa_In p) \<in> removal_keys hash us am) s))"
    and localize_managers: "localize gen ps = Some (us, m) \<Longrightarrow>
      m = (\<not> list_all (\<lambda>p. \<not> pa_Manager p) ps) \<and> length (filter pa_Manager us) = (if m then 1 else 0)"
    and localize_ok: "list_all valid ps \<Longrightarrow>
      \<exists>us m. localize gen ps = Some (us, m) \<and> list_all own us \<and>
        (list_all (\<lambda>p. \<not> pa_Manager p) ps \<longrightarrow> map passage.truncate us = ps) \<and>
        (length (filter pa_Manager ps) \<le> 1 \<longrightarrow>
           pa_In ` {p \<in> set us. \<not> pa_Manager p} = pa_In ` {p \<in> set ps. \<not> pa_Manager p})"
    and own_valid: "own p \<Longrightarrow> valid (passage.truncate p)"
begin

lemma add_ok:
  assumes "contexts_follow closest (psgs s) (pool s)" and "length (filter pa_Manager (psgs s @ ps)) \<le> 1"
  shows "\<exists>s'. add dr ps s = Some s' \<and> contexts_follow closest (psgs s') (pool s') \<and> psgs s' = psgs s @ ps"
proof -
  note d = contexts_followD [OF assms(1)]
  from pool_insert_all [OF d(3,1), of "dr_now dr" ps "dr_insert dr"] obtain q where
    "pool_update (dr_now dr) (ctx_insert closest ps) (dr_insert dr) 0 (GetKeys (up_lru (pool s))) (pool s) = Some q"
    "pool_holds (holds_passages (psgs s @ ps)) q" by blast
  with add_law [OF this(1)] d(1) assms(2) show ?thesis by (auto simp: contexts_follow_def)
qed

lemma removeFunc_ok:
  assumes "contexts_follow closest (psgs s) (pool s)"
  shows "\<exists>s'. removeFunc dr f s = Some s' \<and> contexts_follow closest (psgs s') (pool s') \<and>
    psgs s' = filter (\<lambda>p. \<not> f p) (psgs s)"
proof -
  note d = contexts_followD [OF assms(1)]
  from pool_remove_all [OF d(3,1), of "dr_now dr" f "dr_remove dr"] obtain q where
    q: "pool_update (dr_now dr) (ctx_removeFunc closest f) (dr_remove dr) 0 (GetKeys (up_lru (pool s))) (pool s) = Some q"
    "pool_holds (holds_passages (filter (\<lambda>p. \<not> f p) (psgs s))) q" by blast
  with remove_law [OF q(1)] d(1) le_trans [OF filter_filter_le [of pa_Manager _ "psgs s"] d(2)]
  show ?thesis by (auto simp: contexts_follow_def)
qed

text \<open>Whatever is added, if it can be localized, the contexts follow, and a new manager replaces the
  old one.\<close>

lemma AddPassages_follows:
  assumes "contexts_follow closest (psgs s) (pool s)" and "localize (dr_gen dr) ps = Some (us, m)"
  shows "\<exists>s'. AddPassages dr ps s = Some (s', None) \<and> contexts_follow closest (psgs s') (pool s') \<and>
    psgs s' = (if m then filter (\<lambda>p. \<not> pa_Manager p) (psgs s) else psgs s) @ us"
proof -
  note man = localize_managers [OF assms(2)]
  from removeFunc_ok [OF assms(1), of dr pa_Manager] assms(1)
  have "\<exists>s1. (if m then removeFunc dr pa_Manager s else Some s) = Some s1 \<and>
    contexts_follow closest (psgs s1) (pool s1) \<and>
    psgs s1 = (if m then filter (\<lambda>p. \<not> pa_Manager p) (psgs s) else psgs s)"
    by (cases m) simp_all
  then obtain s1 where s1: "(if m then removeFunc dr pa_Manager s else Some s) = Some s1"
    "contexts_follow closest (psgs s1) (pool s1)"
    "psgs s1 = (if m then filter (\<lambda>p. \<not> pa_Manager p) (psgs s) else psgs s)" by blast
  have "length (filter pa_Manager (psgs s1 @ us)) \<le> 1"
  proof (cases m)
    case True
    then have "filter pa_Manager (psgs s1) = []" by (simp add: s1(3))
    then show ?thesis using conjunct2 [OF man] True by simp
  next
    case False
    have "length (filter pa_Manager us) = 0" using conjunct2 [OF man] False by presburger
    then have "filter pa_Manager us = []" by (simp only: length_0_conv)
    with contexts_followD(2) [OF s1(2)] show ?thesis by simp
  qed
  from add_ok [OF s1(2) this, of dr] obtain s2 where
    s2: "add dr us s1 = Some s2" "contexts_follow closest (psgs s2) (pool s2)" "psgs s2 = psgs s1 @ us" by blast
  have "AddPassages dr ps s = Some (s2, None)" using s1(1) s2(1) assms(2) by (simp add: AddPassages_law)
  with s2(2,3) s1(3) show ?thesis by simp
qed

lemma RemovePassages_follows:
  assumes "contexts_follow closest (psgs s) (pool s)" and "localize (dr_gen dr) ps = Some (us, m)"
  shows "\<exists>s'. RemovePassages dr ps am s = Some (s', None) \<and> contexts_follow closest (psgs s') (pool s') \<and>
    psgs s' = filter (\<lambda>p. hash (pa_In p) \<notin> removal_keys hash us am) (psgs s)"
  using removeFunc_ok [OF assms(1), of dr "\<lambda>p. hash (pa_In p) \<in> removal_keys hash us am"] assms(2)
  by (auto simp: RemovePassages_law)

lemma operations_follow:
  assumes "contexts_follow closest (psgs s) (pool s)"
  shows "AddPassages dr ps s = Some (s', e) \<Longrightarrow> contexts_follow closest (psgs s') (pool s')"
    and "RemovePassages dr ps am s = Some (s', e) \<Longrightarrow> contexts_follow closest (psgs s') (pool s')"
proof -
  obtain us m where "AddPassages dr ps s \<noteq> None \<or> RemovePassages dr ps am s \<noteq> None \<Longrightarrow> localize (dr_gen dr) ps = Some (us, m)"
    by (cases "localize (dr_gen dr) ps") (auto simp: AddPassages_law RemovePassages_law)
  then show "AddPassages dr ps s = Some (s', e) \<Longrightarrow> contexts_follow closest (psgs s') (pool s')"
    and "RemovePassages dr ps am s = Some (s', e) \<Longrightarrow> contexts_follow closest (psgs s') (pool s')"
    using AddPassages_follows [OF assms, of dr ps us m] RemovePassages_follows [OF assms, of dr ps us m am] by auto
qed

text \<open>The server as a store of passages.\<close>

lemma store_add:
  assumes "contexts_follow closest (psgs s) (pool s) \<and> list_all own (psgs s)" and "list_all valid ps"
  shows "\<exists>s'. AddPassages dr ps s = Some (s', None) \<and>
    (contexts_follow closest (psgs s') (pool s') \<and> list_all own (psgs s')) \<and>
    (list_all (\<lambda>p. \<not> pa_Manager p) ps \<longrightarrow> map passage.truncate (psgs s') = map passage.truncate (psgs s) @ ps)"
proof -
  from localize_ok [OF assms(2), of "dr_gen dr"] obtain us m where
    l: "localize (dr_gen dr) ps = Some (us, m)" "list_all own us"
      "list_all (\<lambda>p. \<not> pa_Manager p) ps \<longrightarrow> map passage.truncate us = ps" by blast
  from AddPassages_follows [OF _ l(1)] assms(1) obtain s' where
    s': "AddPassages dr ps s = Some (s', None)" "contexts_follow closest (psgs s') (pool s')"
      "psgs s' = (if m then filter (\<lambda>p. \<not> pa_Manager p) (psgs s) else psgs s) @ us" by blast
  have "list_all own (psgs s')" using assms(1) l(2) s'(3) by (auto simp: list_all_iff)
  moreover have "map passage.truncate (psgs s') = map passage.truncate (psgs s) @ ps"
    if "list_all (\<lambda>p. \<not> pa_Manager p) ps"
    using that localize_managers [OF l(1)] l(3) s'(3) by simp
  ultimately show ?thesis using s'(1,2) by blast
qed

lemma store_remove:
  assumes "contexts_follow closest (psgs s) (pool s) \<and> list_all own (psgs s)"
    and "length (filter pa_Manager ps) \<le> 1" and "list_all valid ps"
  shows "\<exists>s'. RemovePassages dr ps False s = Some (s', None) \<and>
    (contexts_follow closest (psgs s') (pool s') \<and> list_all own (psgs s')) \<and>
    map passage.truncate (psgs s') = filter (\<lambda>p. hash (pa_In p) \<notin> (\<lambda>p. hash (pa_In p)) ` {p \<in> set ps. \<not> pa_Manager p})
      (map passage.truncate (psgs s))"
proof -
  from localize_ok [OF assms(3), of "dr_gen dr"] assms(2) obtain us m where
    l: "localize (dr_gen dr) ps = Some (us, m)"
      "pa_In ` {p \<in> set us. \<not> pa_Manager p} = pa_In ` {p \<in> set ps. \<not> pa_Manager p}" by blast
  have k: "removal_keys hash us False = (\<lambda>p. hash (pa_In p)) ` {p \<in> set ps. \<not> pa_Manager p}"
    using arg_cong [OF l(2), of "image hash"] by (simp add: removal_keys_set image_image)
  from RemovePassages_follows [OF _ l(1), of s False] assms(1) obtain s' where
    s': "RemovePassages dr ps False s = Some (s', None)" "contexts_follow closest (psgs s') (pool s')"
      "psgs s' = filter (\<lambda>p. hash (pa_In p) \<notin> removal_keys hash us False) (psgs s)" by blast
  then show ?thesis using assms(1) by (auto simp: list_all_iff k filter_truncate)
qed

sublocale passage_store "\<lambda>s. contexts_follow closest (psgs s) (pool s) \<and> list_all own (psgs s)"
  "\<lambda>s. map passage.truncate (psgs s)" RemovePassages AddPassages hash valid
proof unfold_locales
  fix s and ps :: "passage list" and r :: draws
  assume "contexts_follow closest (psgs s) (pool s) \<and> list_all own (psgs s)"
    "length (filter pa_Manager ps) \<le> 1" "list_all valid ps"
  from store_remove [OF this, of r] show "\<exists>s'. RemovePassages r ps False s = Some (s', None) \<and>
    (contexts_follow closest (psgs s') (pool s') \<and> list_all own (psgs s')) \<and>
    map passage.truncate (psgs s') =
      filter (\<lambda>p. hash (pa_In p) \<notin> (\<lambda>p. hash (pa_In p)) ` {p \<in> set ps. \<not> pa_Manager p}) (map passage.truncate (psgs s))" .
next
  fix s and ps :: "passage list" and r :: draws
  assume "contexts_follow closest (psgs s) (pool s) \<and> list_all own (psgs s)"
    "list_all (\<lambda>p. \<not> pa_Manager p) ps" "list_all valid ps"
  with store_add [OF this(1,3), of r] show "\<exists>s'. AddPassages r ps s = Some (s', None) \<and>
    (contexts_follow closest (psgs s') (pool s') \<and> list_all own (psgs s')) \<and>
    map passage.truncate (psgs s') = map passage.truncate (psgs s) @ ps" by blast
next
  fix s
  assume "contexts_follow closest (psgs s) (pool s) \<and> list_all own (psgs s)"
  then show "list_all valid (map passage.truncate (psgs s))" "length (filter pa_Manager (map passage.truncate (psgs s))) \<le> 1"
    using own_valid by (auto simp: contexts_follow_def filter_truncate list_all_iff)
qed

end

end
