(* ===== verification/Shadowsocks_Server.thy ===== *)
theory Shadowsocks_Server
  imports Context_Store Demo_World
begin

text \<open>
  The shadowsocks server (\<open>server/shadowsocks/server.go\<close>, \<open>tcp.go\<close>): the passages with their
  master keys, the user contexts that follow them, authentication by trial decryption, the handler of
  a connection, the manager's messages and registration. The ciphers, the key derivation, the replay
  filter and the connection of the protocol library are fields of \<open>ss_lib\<close>; \<open>None\<close> is a panic.
\<close>

section \<open>The server\<close>

text \<open>An entry of \<open>ciphers.AeadCiphersConf\<close>; \<open>cc_Verify\<close> decrypts with the master key and the
  salt.\<close>

record cipher =
  cc_KeyLen :: nat
  cc_SaltLen :: nat
  cc_TagLen :: nat
  cc_Verify :: "bytes \<Rightarrow> bytes \<Rightarrow> bytes \<Rightarrow> bytes option"

text \<open>\<open>sl_open\<close> is \<open>NewTCPConn\<close> and \<open>ReadMetadata\<close>: it may add to the filter and yields the
  metadata with the decrypted rest.\<close>

record 'b ss_lib =
  sl_conf :: "string \<Rightarrow> cipher option"
  sl_kdf :: "string \<Rightarrow> nat \<Rightarrow> bytes"
  sl_closest :: "nat \<Rightarrow> nat"
  sl_exist :: "'b \<Rightarrow> bytes \<Rightarrow> bool"
  sl_existOrAdd :: "'b \<Rightarrow> bytes \<Rightarrow> 'b \<times> bool"
  sl_open :: "string \<Rightarrow> bytes \<Rightarrow> 'b \<Rightarrow> bytes \<Rightarrow> 'b \<times> (go_err + metadata \<times> bytes)"

record ss_passage = passage +
  sp_inMasterKey :: bytes

record 'b ss_server =
  ss_passages :: "ss_passage list"
  ss_pool :: "ss_passage ctx_pool"
  ss_bloom :: 'b
  ss_arg :: server_argument
  ss_contention :: bool
  ss_lastAlive :: int

definition ss_New :: "'b \<Rightarrow> 'b ss_server" where
  "ss_New bloom =
     \<lparr>ss_passages = [], ss_pool = new_pool, ss_bloom = bloom,
      ss_arg = \<lparr>sarg_Ticket = [], sarg_ServerName = [], sarg_Hostnames = [], sarg_Port = 0, sarg_NoRelay = False\<rparr>,
      ss_contention = False, ss_lastAlive = zeroTime\<rparr>"

section \<open>The passages\<close>

text \<open>\<open>LocalizePassages\<close>: the default method is entered into the stored passage, while the key is
  derived for the method of the loop variable. An unknown method is a nil pointer.\<close>

fun ss_localize_from :: "'b ss_lib \<Rightarrow> (nat \<Rightarrow> string) \<Rightarrow> nat \<Rightarrow> bool \<Rightarrow> passage list \<Rightarrow> (ss_passage list \<times> bool) option" where
  "ss_localize_from L gen i found [] = Some ([], found)"
| "ss_localize_from L gen i found (p # ps) =
     (let psg = (if pa_Manager p
                 then p\<lparr>pa_In := (pa_In p)\<lparr>arg_Password := gen i, arg_Method := ''aes-256-gcm''\<rparr>,
                        pa_Manager := \<not> found\<rparr>
                 else p);
          kept = (if arg_Method (pa_In psg) = [] then psg\<lparr>pa_In := (pa_In psg)\<lparr>arg_Method := ''chacha20-ietf-poly1305''\<rparr>\<rparr>
                  else psg)
      in case sl_conf L (arg_Method (pa_In psg)) of
           None \<Rightarrow> None
         | Some conf \<Rightarrow>
             map_option (\<lambda>(psgs, m).
                (passage.extend kept (ss_passage.fields (sl_kdf L (arg_Password (pa_In psg)) (cc_KeyLen conf))) # psgs, m))
               (ss_localize_from L gen (Suc i) (found \<or> pa_Manager p) ps))"

definition ss_LocalizePassages :: "'b ss_lib \<Rightarrow> (nat \<Rightarrow> string) \<Rightarrow> passage list \<Rightarrow> (ss_passage list \<times> bool) option" where
  "ss_LocalizePassages L gen passages = ss_localize_from L gen 0 False passages"

definition ss_addPassages :: "'b ss_lib \<Rightarrow> draws \<Rightarrow> ss_passage list \<Rightarrow> 'b ss_server \<Rightarrow> 'b ss_server option" where
  "ss_addPassages L dr psgs s =
     (let s1 = s\<lparr>ss_passages := ss_passages s @ psgs\<rparr>; vals = stablePassageRefs psgs
      in map_option (\<lambda>p. s1\<lparr>ss_pool := p\<rparr>)
           (pool_update (dr_now dr) (ctx_insert (sl_closest L) vals) (dr_insert dr) 0
              (GetKeys (up_lru (ss_pool s1))) (ss_pool s1)))"

definition ss_removePassagesFunc :: "'b ss_lib \<Rightarrow> draws \<Rightarrow> (ss_passage \<Rightarrow> bool) \<Rightarrow> 'b ss_server \<Rightarrow> 'b ss_server option" where
  "ss_removePassagesFunc L dr f s =
     (let s1 = s\<lparr>ss_passages := remove_desc f (length (ss_passages s)) (ss_passages s)\<rparr>
      in map_option (\<lambda>p. s1\<lparr>ss_pool := p\<rparr>)
           (pool_update (dr_now dr) (ctx_removeFunc (sl_closest L) f) (dr_remove dr) 0
              (GetKeys (up_lru (ss_pool s1))) (ss_pool s1)))"

definition ss_AddPassages :: "'b ss_lib \<Rightarrow> draws \<Rightarrow> passage list \<Rightarrow> 'b ss_server \<Rightarrow> ('b ss_server \<times> go_err option) option" where
  "ss_AddPassages L dr passages s =
     Option.bind (ss_LocalizePassages L (dr_gen dr) passages) (\<lambda>(us, managerKey).
     Option.bind (if managerKey then ss_removePassagesFunc L dr pa_Manager s else Some s) (\<lambda>s1.
       map_option (\<lambda>s2. (s2, None)) (ss_addPassages L dr us s1)))"

definition ss_RemovePassages :: "'b ss_lib \<Rightarrow> (argument \<Rightarrow> string) \<Rightarrow> draws \<Rightarrow> passage list \<Rightarrow> bool \<Rightarrow> 'b ss_server \<Rightarrow>
    ('b ss_server \<times> go_err option) option" where
  "ss_RemovePassages L hash dr passages alsoManager s =
     Option.bind (ss_LocalizePassages L (dr_gen dr) passages) (\<lambda>(psgs, _).
       let keySet = removal_keys hash psgs alsoManager
       in map_option (\<lambda>s1. (s1, None)) (ss_removePassagesFunc L dr (\<lambda>p. hash (pa_In p) \<in> keySet) s))"

definition ss_Passages :: "'b ss_server \<Rightarrow> passage list" where
  "ss_Passages s = map passage.truncate (ss_passages s)"

definition ss_SyncPassages :: "'b ss_lib \<Rightarrow> (argument \<Rightarrow> string) \<Rightarrow> draws \<Rightarrow> passage list \<Rightarrow> 'b ss_server \<Rightarrow>
    ('b ss_server \<times> go_err option) option" where
  "ss_SyncPassages L hash dr passages s =
     SyncPassages hash ss_Passages (ss_RemovePassages L hash dr) (ss_AddPassages L dr) passages s"

section \<open>Registration\<close>

definition ss_register :: "'b ss_lib \<Rightarrow> draws \<Rightarrow> 'd world \<Rightarrow> 'b ss_server \<Rightarrow> ('b ss_server \<times> go_err option) option" where
  "ss_register L dr w s =
     (let manager = the_manager (ss_Passages s)
      in Option.bind (register_call (env.truncate w) (ss_arg s)
             (zero_argument\<lparr>arg_Protocol := ''shadowsocks'', arg_Password := arg_Password (pa_In manager),
                arg_Method := arg_Method (pa_In manager)\<rparr>)) (\<lambda>r.
         case r of
           Inl e \<Rightarrow> Some (s, Some e)
         | Inr users \<Rightarrow> ss_SyncPassages L (wd_hash w) dr users (s\<lparr>ss_lastAlive := env_now w\<rparr>)))"

definition ss_tick :: "'b ss_lib \<Rightarrow> draws \<times> 'd world \<Rightarrow> int \<times> 'b ss_server \<Rightarrow> (int \<times> 'b ss_server) option" where
  "ss_tick L dw st =
     (let (dr, w) = dw; (interval, s) = st
      in if env_now w - ss_lastAlive s < LostThreshold then Some (interval, s)
         else map_option (\<lambda>(s', err). (next_interval (err \<noteq> None) interval, s')) (ss_register L dr w s))"

definition ss_NewJohn :: "'b ss_lib \<Rightarrow> draws \<Rightarrow> 'd world \<Rightarrow> 'b \<Rightarrow> server_argument \<Rightarrow> (go_err + 'b ss_server) option" where
  "ss_NewJohn L dr w bloom arg =
     Option.bind (ss_AddPassages L dr [manager_passage]
        ((ss_New bloom)\<lparr>ss_arg := arg, ss_contention := True\<rparr>)) (\<lambda>(s, err).
      case err of Some e \<Rightarrow> Some (Inl e)
      | None \<Rightarrow> map_option (\<lambda>(s', err'). case err' of Some e \<Rightarrow> Inl e | None \<Rightarrow> Inr s') (ss_register L dr w s))"

section \<open>Connections\<close>

definition ss_ContentionCheck :: "(argument \<Rightarrow> string) \<Rightarrow> bool \<Rightarrow> bytes \<Rightarrow> ss_passage \<Rightarrow> go_err option" where
  "ss_ContentionCheck hash cache thisIP p =
     (if \<not> cache then None
      else let contentionDuration = ProtectTime (passage_Use p)
           in if 0 < contentionDuration \<and> \<not> fst (contention_Check (hash (pa_In p)) contentionDuration thisIP)
              then Some (Wrapped ''contention detected'' ErrPassageAbuse) else None)"

definition BasicLen :: nat where
  "BasicLen = 32 + 2 + 16"

text \<open>The ciphers of the library have salts of at most 32 and tags of 16 bytes, so the slices stay
  inside the data. A stored passage has a cipher.\<close>

definition ss_probeTCP :: "'b ss_lib \<Rightarrow> bytes \<Rightarrow> ss_passage \<Rightarrow> bytes option" where
  "ss_probeTCP L data p =
     (case sl_conf L (arg_Method (pa_In p)) of
        None \<Rightarrow> None
      | Some conf \<Rightarrow>
          let salt = take (cc_SaltLen conf) data;
              cipherText = take (2 + cc_TagLen conf) (drop (cc_SaltLen conf) data)
          in cc_Verify conf (sp_inMasterKey p) salt cipherText)"

text \<open>The user context of the address is looked up, and its passages are tried.\<close>

definition ss_userContext :: "'b ss_lib \<Rightarrow> draws \<Rightarrow> string \<Rightarrow> 'b ss_server \<Rightarrow> ('b ss_server \<times> nat) option" where
  "ss_userContext L dr userIP s =
     map_option (\<lambda>(p, a). (s\<lparr>ss_pool := p\<rparr>, a))
       (GetUserContextOrInsert (sl_closest L) (dr_now dr) (dr_now2 dr) (ss_passages s) userIP (ss_pool s))"

definition ss_try :: "'b ss_lib \<Rightarrow> draws \<Rightarrow> nat \<Rightarrow> (ss_passage \<Rightarrow> bytes option) \<Rightarrow> 'b ss_server \<Rightarrow>
    ('b ss_server \<times> (ss_passage \<times> bytes) option) option" where
  "ss_try L dr a probe s =
     map_option (\<lambda>(ctx, hit). (s\<lparr>ss_pool := (ss_pool s)\<lparr>up_ctxs := (up_ctxs (ss_pool s))[a := ctx]\<rparr>\<rparr>, hit))
       (ctx_Auth (sl_closest L) (dr_pick dr) probe (up_ctxs (ss_pool s) ! a))"

definition ss_context_auth :: "'b ss_lib \<Rightarrow> draws \<Rightarrow> string \<Rightarrow> (ss_passage \<Rightarrow> bytes option) \<Rightarrow> 'b ss_server \<Rightarrow>
    ('b ss_server \<times> (ss_passage \<times> bytes) option) option" where
  "ss_context_auth L dr userIP probe s =
     Option.bind (ss_userContext L dr userIP s) (\<lambda>(s1, a). ss_try L dr a probe s1)"

definition ss_authTCP :: "'b ss_lib \<Rightarrow> draws \<Rightarrow> string \<Rightarrow> bytes \<Rightarrow> 'b ss_server \<Rightarrow>
    ('b ss_server \<times> (go_err + ss_passage)) option" where
  "ss_authTCP L dr userIP conn s =
     (if length conn < BasicLen then Some (s, Inl IoUnexpectedEOF)
      else let data = take BasicLen conn
           in Option.bind (ss_context_auth L dr userIP (ss_probeTCP L data) s) (\<lambda>(s1, hit).
                case hit of
                  None \<Rightarrow> Some (s1, Inl ErrFailAuth)
                | Some (p, _) \<Rightarrow>
                    map_option (\<lambda>conf.
                        (s1, if sl_exist L (ss_bloom s1) (take (cc_SaltLen conf) data) then Inl ErrReplayAttack else Inr p))
                      (sl_conf L (arg_Method (pa_In p)))))"

definition ss_handleMsg :: "'b ss_lib \<Rightarrow> draws \<Rightarrow> 'd world \<Rightarrow> metadata \<Rightarrow> ss_passage \<Rightarrow> bytes \<Rightarrow> writer \<Rightarrow> 'b ss_server \<Rightarrow>
    ('b ss_server \<times> writer \<times> go_err option) option" where
  "ss_handleMsg L dr w reqMetadata p crw out s =
     (if \<not> pa_Manager p then Some (s, out, Some illegal_message)
      else if \<not> md_IsMsg reqMetadata then Some (s, out, Some not_for_message)
      else map_option (\<lambda>(s1, r).
             case r of
               Inl e \<Rightarrow> (s1, out, Some e)
             | Inr resp \<Rightarrow> (case goWrite out resp of (out', err) \<Rightarrow> (s1, out', err)))
           (manager_command w (\<lambda>t s. s\<lparr>ss_lastAlive := t\<rparr>) (ss_SyncPassages L (wd_hash w) dr)
              (md_Cmd reqMetadata) (take (md_LenMsgBody reqMetadata) crw) s))"

text \<open>\<open>handleTCP\<close> up to the dialing; the third result is what is left of the connection when it is
  closed without having been opened.\<close>

definition ss_handleTCP :: "'b ss_lib \<Rightarrow> draws \<Rightarrow> 'd world \<Rightarrow> 'd \<Rightarrow> string \<Rightarrow> bytes \<Rightarrow> bytes \<Rightarrow> writer \<Rightarrow>
    'd dialers \<times> 'b ss_server \<Rightarrow> (('d dialers \<times> 'b ss_server) \<times> writer \<times> bytes \<times> 'd handled) option" where
  "ss_handleTCP L dr w dialer userIP ip conn out st =
     (let (cache, s) = st
      in Option.bind (ss_authTCP L dr userIP conn s) (\<lambda>(s1, r).
         case r of
           Inl e \<Rightarrow> Some ((cache, s1), out, drain w conn, Returned (Some (Wrapped ''auth fail'' e)))
         | Inr p \<Rightarrow>
             (case ss_ContentionCheck (wd_hash w) (ss_contention s1) ip p of
                Some e \<Rightarrow> Some ((cache, s1), out, drain w conn, Returned (Some e))
              | None \<Rightarrow>
                  (case sl_open L (arg_Method (pa_In p)) (sp_inMasterKey p) (ss_bloom s1) conn of
                     (b, Inl e) \<Rightarrow> Some ((cache, s1\<lparr>ss_bloom := b\<rparr>), out, [], Returned (Some e))
                   | (b, Inr (m, rest)) \<Rightarrow>
                       (let s2 = s1\<lparr>ss_bloom := b\<rparr>
                        in if md_IsMsg m then
                             map_option (\<lambda>(s3, out', err). ((cache, s3), out', [], Returned err))
                               (ss_handleMsg L dr w m p rest out s2)
                           else if pa_Manager p then Some ((cache, s2), out, [], Returned (Some manager_abuse))
                           else (case passage_dialer w dialer p cache of
                                   (cache', Inl e) \<Rightarrow> Some ((cache', s2), out, [], Returned (Some e))
                                 | (cache', Inr d) \<Rightarrow> Some ((cache', s2), out, [], Relay d ''tcp'' (md_target m))))))))"

definition ss_relayResult :: "go_err + (go_err option \<times> go_err option) \<Rightarrow> go_err option" where
  "ss_relayResult r = relay_result False ''handleTCP relay error'' r"

end
