(* ===== verification/Shadowsocks_Contexts.thy ===== *)
theory Shadowsocks_Contexts
  imports Shadowsocks_Server
begin

text \<open>
  The shadowsocks server keeps its promises: every cached user context holds the passages of the
  server, the store is what the synchronisation relies on, and authentication accepts exactly what
  some stored passage decrypts and the replay filter has not seen.
\<close>

section \<open>The store\<close>

lemma ss_extend_sel [simp]:
  "pa_Manager (passage.extend p (ss_passage.fields k)) = pa_Manager p"
  "pa_In (passage.extend p (ss_passage.fields k)) = pa_In p"
  "sp_inMasterKey (passage.extend p (ss_passage.fields k)) = k"
  "passage.truncate (passage.extend p (ss_passage.fields k)) = p"
  by (cases p; simp add: passage.extend_def passage.truncate_def ss_passage.fields_def)+

definition ss_valid :: "'b ss_lib \<Rightarrow> passage \<Rightarrow> bool" where
  "ss_valid L p \<longleftrightarrow> arg_Method (pa_In p) \<noteq> [] \<and> sl_conf L (arg_Method (pa_In p)) \<noteq> None \<and>
     (pa_Manager p \<longrightarrow> sl_conf L ''aes-256-gcm'' \<noteq> None)"

text \<open>The key of a stored passage is the one derived from its password for its method.\<close>

definition ss_key_ok :: "'b ss_lib \<Rightarrow> ss_passage \<Rightarrow> bool" where
  "ss_key_ok L p \<longleftrightarrow> ss_valid L (passage.truncate p) \<and>
     sp_inMasterKey p = sl_kdf L (arg_Password (pa_In p)) (cc_KeyLen (the (sl_conf L (arg_Method (pa_In p)))))"

lemma ss_localize_managers:
  assumes "ss_localize_from L gen i found ps = Some (psgs, m)"
  shows "m = (found \<or> \<not> list_all (\<lambda>p. \<not> pa_Manager p) ps) \<and>
    length (filter pa_Manager psgs) = (if m \<and> \<not> found then 1 else 0)"
  using assms
proof (induction ps arbitrary: i found psgs m)
  case (Cons p ps)
  from Cons.prems obtain qs where
    "ss_localize_from L gen (Suc i) (found \<or> pa_Manager p) ps = Some (qs, m)"
    "filter pa_Manager psgs = (if pa_Manager p \<and> \<not> found then [hd psgs] else []) @ filter pa_Manager qs"
    by (auto simp: Let_def split: option.splits if_splits)
  with Cons.IH [OF this(1)] show ?case by auto
qed simp

lemma ss_localize_ok:
  assumes "list_all (ss_valid L) ps"
  shows "\<exists>psgs m. ss_localize_from L gen i found ps = Some (psgs, m) \<and> list_all (ss_key_ok L) psgs \<and>
    (list_all (\<lambda>p. \<not> pa_Manager p) ps \<longrightarrow> map passage.truncate psgs = ps) \<and>
    (length (filter pa_Manager ps) \<le> (if found then 0 else 1) \<longrightarrow>
       pa_In ` {p \<in> set psgs. \<not> pa_Manager p} = pa_In ` {p \<in> set ps. \<not> pa_Manager p})"
  using assms
proof (induction ps arbitrary: i found)
  case (Cons p ps)
  then have v: "ss_valid L p" and vs: "list_all (ss_valid L) ps" by simp_all
  from Cons.IH [OF vs, of "Suc i" "found \<or> pa_Manager p"] obtain psgs m where
    r: "ss_localize_from L gen (Suc i) (found \<or> pa_Manager p) ps = Some (psgs, m)" "list_all (ss_key_ok L) psgs"
      "list_all (\<lambda>p. \<not> pa_Manager p) ps \<Longrightarrow> map passage.truncate psgs = ps"
      "length (filter pa_Manager ps) \<le> (if found \<or> pa_Manager p then 0 else 1) \<Longrightarrow>
         pa_In ` {p \<in> set psgs. \<not> pa_Manager p} = pa_In ` {p \<in> set ps. \<not> pa_Manager p}" by blast
  show ?case
  proof (cases "pa_Manager p")
    case True
    from v True obtain c where c: "sl_conf L ''aes-256-gcm'' = Some c" by (auto simp: ss_valid_def)
    let ?p = "p\<lparr>pa_In := (pa_In p)\<lparr>arg_Password := gen i, arg_Method := ''aes-256-gcm''\<rparr>, pa_Manager := \<not> found\<rparr>"
    let ?q = "passage.extend ?p (ss_passage.fields (sl_kdf L (gen i) (cc_KeyLen c)))"
    have l: "ss_localize_from L gen i found (p # ps) = Some (?q # psgs, m)"
      using True r(1) c by simp
    have k: "ss_key_ok L ?q" using c by (simp add: ss_key_ok_def ss_valid_def)
    have "pa_In ` {p \<in> set (?q # psgs). \<not> pa_Manager p} = pa_In ` {q \<in> set (p # ps). \<not> pa_Manager q}"
      if "length (filter pa_Manager (p # ps)) \<le> (if found then 0 else 1)"
    proof -
      have "\<not> found" using that True by (cases found) simp_all
      moreover have "pa_In ` {p \<in> set psgs. \<not> pa_Manager p} = pa_In ` {p \<in> set ps. \<not> pa_Manager p}"
        using that True by (intro r(4)) (cases found; simp)
      ultimately show ?thesis using True unfolding collect_Cons by simp
    qed
    then show ?thesis
      unfolding l using True r(2) k by (intro exI [of _ "?q # psgs"] exI [of _ m] conjI) simp_all
  next
    case False
    from v obtain c where c: "sl_conf L (arg_Method (pa_In p)) = Some c" "arg_Method (pa_In p) \<noteq> []"
      by (auto simp: ss_valid_def)
    let ?q = "passage.extend p (ss_passage.fields (sl_kdf L (arg_Password (pa_In p)) (cc_KeyLen c)))"
    have l: "ss_localize_from L gen i found (p # ps) = Some (?q # psgs, m)"
      using False r(1) c by simp
    have k: "ss_key_ok L ?q" using c v by (simp add: ss_key_ok_def)
    have "pa_In ` {p \<in> set (?q # psgs). \<not> pa_Manager p} = pa_In ` {q \<in> set (p # ps). \<not> pa_Manager q}"
      if "length (filter pa_Manager (p # ps)) \<le> (if found then 0 else 1)"
      using that False r(4) unfolding collect_Cons by simp
    then show ?thesis
      unfolding l using False r(2,3) k by (intro exI [of _ "?q # psgs"] exI [of _ m] conjI impI) simp_all
  qed
qed simp

interpretation ss_contexts: context_store ss_passages ss_pool "sl_closest L" "ss_addPassages L" "ss_removePassagesFunc L"
  "ss_LocalizePassages L" "ss_AddPassages L" "ss_RemovePassages L hash" hash "ss_valid L" "ss_key_ok L"
  for L :: "'b ss_lib" and hash
proof unfold_locales
  fix dr :: draws and us :: "ss_passage list" and s :: "'b ss_server" and q
  assume "pool_update (dr_now dr) (ctx_insert (sl_closest L) us) (dr_insert dr) 0 (GetKeys (up_lru (ss_pool s))) (ss_pool s) = Some q"
  then show "\<exists>s'. ss_addPassages L dr us s = Some s' \<and> ss_passages s' = ss_passages s @ us \<and> ss_pool s' = q"
    by (simp add: ss_addPassages_def)
next
  fix dr :: draws and f and s :: "'b ss_server" and q
  assume "pool_update (dr_now dr) (ctx_removeFunc (sl_closest L) f) (dr_remove dr) 0 (GetKeys (up_lru (ss_pool s))) (ss_pool s) = Some q"
  then show "\<exists>s'. ss_removePassagesFunc L dr f s = Some s' \<and> ss_passages s' = filter (\<lambda>p. \<not> f p) (ss_passages s) \<and> ss_pool s' = q"
    by (simp add: ss_removePassagesFunc_def remove_desc_all)
next
  fix gen ps us m
  assume "ss_LocalizePassages L gen ps = Some (us, m)"
  from ss_localize_managers [OF this [unfolded ss_LocalizePassages_def]]
  show "m = (\<not> list_all (\<lambda>p. \<not> pa_Manager p) ps) \<and> length (filter pa_Manager us) = (if m then 1 else 0)" by simp
next
  fix ps gen
  assume "list_all (ss_valid L) ps"
  from ss_localize_ok [OF this, of gen 0 False]
  show "\<exists>us m. ss_LocalizePassages L gen ps = Some (us, m) \<and> list_all (ss_key_ok L) us \<and>
    (list_all (\<lambda>p. \<not> pa_Manager p) ps \<longrightarrow> map passage.truncate us = ps) \<and>
    (length (filter pa_Manager ps) \<le> 1 \<longrightarrow>
       pa_In ` {p \<in> set us. \<not> pa_Manager p} = pa_In ` {p \<in> set ps. \<not> pa_Manager p})"
    by (simp add: ss_LocalizePassages_def)
qed (simp_all add: ss_AddPassages_def ss_RemovePassages_def ss_key_ok_def Let_def)

text \<open>The invariant of the contexts, and the one that says whose keys are stored.\<close>

definition ss_inv :: "'b ss_lib \<Rightarrow> 'b ss_server \<Rightarrow> bool" where
  "ss_inv L s \<longleftrightarrow> contexts_follow (sl_closest L) (ss_passages s) (ss_pool s)"

definition ss_ok :: "'b ss_lib \<Rightarrow> 'b ss_server \<Rightarrow> bool" where
  "ss_ok L s \<longleftrightarrow> ss_inv L s \<and> list_all (ss_key_ok L) (ss_passages s)"

lemma ss_add:
  assumes "ss_ok L s" and "list_all (ss_valid L) ps"
  shows "\<exists>s'. ss_AddPassages L dr ps s = Some (s', None) \<and> ss_ok L s' \<and>
    (list_all (\<lambda>p. \<not> pa_Manager p) ps \<longrightarrow> ss_Passages s' = ss_Passages s @ ps)"
  using ss_contexts.store_add [OF assms [unfolded ss_ok_def ss_inv_def]]
  unfolding ss_ok_def ss_inv_def ss_Passages_def by blast

lemma ss_sync:
  assumes "ss_ok L s" and "list_all (\<lambda>p. \<not> pa_Manager p) target" and "list_all (ss_valid L) target"
  shows "\<exists>s'. ss_SyncPassages L hash dr target s = Some (s', None) \<and> ss_ok L s'"
proof -
  have "ss_Passages = (\<lambda>s :: 'a ss_server. map passage.truncate (ss_passages s))" by (simp add: fun_eq_iff ss_Passages_def)
  with ss_contexts.sync [OF assms [unfolded ss_ok_def ss_inv_def], of hash dr dr] show ?thesis
    unfolding ss_SyncPassages_def ss_ok_def ss_inv_def by auto
qed

section \<open>Authentication\<close>

lemma first_accepted_some:
  "first_accepted probe ps = Some (p, c) \<Longrightarrow> p \<in> set ps \<and> probe p = Some c"
  by (induction ps) (auto split: option.splits)

lemma first_accepted_none: "first_accepted probe ps = None \<longleftrightarrow> (\<forall>p \<in> set ps. probe p = None)"
  by (induction ps) (auto split: option.splits)

lemma ss_userContext_ok:
  assumes "ss_inv L s" and "dr_now2 dr - dr_now dr < contextTimeout"
  shows "\<exists>q a. ss_userContext L dr ip s = Some (s\<lparr>ss_pool := q\<rparr>, a) \<and> ss_inv L (s\<lparr>ss_pool := q\<rparr>) \<and>
    holds_passages (ss_passages s) (up_ctxs q ! a)"
  using contexts_follow_lookup [OF assms [unfolded ss_inv_def], of ip] by (auto simp: ss_userContext_def ss_inv_def)

lemma ss_try_ok:
  assumes inv: "ss_inv L s" and a: "holds_passages (ss_passages s) (up_ctxs (ss_pool s) ! a)"
  shows "\<exists>q hit. ss_try L dr a probe s = Some (s\<lparr>ss_pool := q\<rparr>, hit) \<and> ss_inv L (s\<lparr>ss_pool := q\<rparr>) \<and>
    (case hit of Some (p, c) \<Rightarrow> p \<in> set (ss_passages s) \<and> probe p = Some c
     | None \<Rightarrow> \<forall>p \<in> set (ss_passages s). probe p = None)"
proof -
  let ?l = "up_ctxs (ss_pool s) ! a" and ?Q = "holds_passages (ss_passages s)"
  have ok: "ls_ok ?l" using a by (simp add: holds_passages_def open_ctx_def)
  note f = contexts_followD(1) [OF inv [unfolded ss_inv_def]]
  from ctx_Auth_first [OF ok f, of "dr_pick dr" probe] obtain l' where
    l': "ctx_Auth (sl_closest L) (dr_pick dr) probe ?l = Some (l', first_accepted probe (passages_of ?l))"
      "ls_ok l'" "passages_of l' = passages_of ?l" "ls_stopped l' = ls_stopped ?l" by blast
  have "?Q l'" using a l'(2-4) by (simp add: holds_passages_def open_ctx_def)
  from contexts_follow_replace [OF inv [unfolded ss_inv_def] this]
  have "ss_inv L (s\<lparr>ss_pool := (ss_pool s)\<lparr>up_ctxs := (up_ctxs (ss_pool s))[a := l']\<rparr>\<rparr>)"
    by (simp add: ss_inv_def)
  moreover have "set (passages_of ?l) = set (ss_passages s)"
    using a unfolding holds_passages_def by (metis set_mset_mset)
  ultimately show ?thesis
    using l'(1) first_accepted_some [of probe "passages_of ?l"] first_accepted_none [of probe "passages_of ?l"]
    by (auto simp: ss_try_def split: option.splits)
qed

lemma ss_context_auth_ok:
  assumes "ss_inv L s" and "dr_now2 dr - dr_now dr < contextTimeout"
  shows "\<exists>q hit. ss_context_auth L dr ip probe s = Some (s\<lparr>ss_pool := q\<rparr>, hit) \<and> ss_inv L (s\<lparr>ss_pool := q\<rparr>) \<and>
    (case hit of Some (p, c) \<Rightarrow> p \<in> set (ss_passages s) \<and> probe p = Some c
     | None \<Rightarrow> \<forall>p \<in> set (ss_passages s). probe p = None)"
proof -
  from ss_userContext_ok [OF assms, of ip] obtain q a where
    q: "ss_userContext L dr ip s = Some (s\<lparr>ss_pool := q\<rparr>, a)" "ss_inv L (s\<lparr>ss_pool := q\<rparr>)"
      "holds_passages (ss_passages s) (up_ctxs q ! a)" by blast
  have "holds_passages (ss_passages (s\<lparr>ss_pool := q\<rparr>)) (up_ctxs (ss_pool (s\<lparr>ss_pool := q\<rparr>)) ! a)" using q(3) by simp
  from ss_try_ok [OF q(2) this, of dr probe] have
    "\<exists>q' hit. ss_try L dr a probe (s\<lparr>ss_pool := q\<rparr>) = Some (s\<lparr>ss_pool := q'\<rparr>, hit) \<and> ss_inv L (s\<lparr>ss_pool := q'\<rparr>) \<and>
      (case hit of Some (p, c) \<Rightarrow> p \<in> set (ss_passages s) \<and> probe p = Some c
       | None \<Rightarrow> \<forall>p \<in> set (ss_passages s). probe p = None)" by (simp cong: option.case_cong prod.case_cong)
  then obtain q' hit where
    h: "ss_try L dr a probe (s\<lparr>ss_pool := q\<rparr>) = Some (s\<lparr>ss_pool := q'\<rparr>, hit)" "ss_inv L (s\<lparr>ss_pool := q'\<rparr>)"
      "case hit of Some (p, c) \<Rightarrow> p \<in> set (ss_passages s) \<and> probe p = Some c
       | None \<Rightarrow> \<forall>p \<in> set (ss_passages s). probe p = None" by blast
  show ?thesis
    using q(1) h by (intro exI [of _ q'] exI [of _ hit] conjI) (simp_all add: ss_context_auth_def)
qed

section \<open>Runs of the server\<close>

text \<open>What happens to a server: passages are added and removed, and a client is authenticated with
  some probe.\<close>

datatype ss_op = SsAdd draws "passage list" | SsRemove "argument \<Rightarrow> string" draws "passage list" bool
  | SsAuth draws string "ss_passage \<Rightarrow> bytes option"

fun ss_exec :: "'b ss_lib \<Rightarrow> ss_op \<Rightarrow> 'b ss_server \<Rightarrow> 'b ss_server option" where
  "ss_exec L (SsAdd dr ps) s = map_option fst (ss_AddPassages L dr ps s)"
| "ss_exec L (SsRemove hash dr ps am) s = map_option fst (ss_RemovePassages L hash dr ps am s)"
| "ss_exec L (SsAuth dr ip probe) s = map_option fst (ss_context_auth L dr ip probe s)"

text \<open>The clock moves by less than the hour of the cache within a lookup.\<close>

fun prompt :: "ss_op \<Rightarrow> bool" where
  "prompt (SsAuth dr ip probe) = (dr_now2 dr - dr_now dr < contextTimeout)"
| "prompt _ = True"

inductive ss_reach :: "'b ss_lib \<Rightarrow> 'b ss_server \<Rightarrow> bool" for L where
  start: "ss_reach L (ss_New b)"
| step: "ss_reach L s \<Longrightarrow> prompt op \<Longrightarrow> ss_exec L op s = Some s' \<Longrightarrow> ss_reach L s'"

lemma ss_exec_inv:
  assumes "ss_exec L op s = Some s'" and "ss_inv L s" and "prompt op"
  shows "ss_inv L s'"
  using assms(1)
proof (cases op)
  case (SsAuth dr ip probe)
  with ss_context_auth_ok [OF assms(2), of dr ip probe] assms(1,3) show ?thesis by auto
qed (use assms ss_contexts.operations_follow in \<open>auto simp: ss_inv_def\<close>)

lemma ss_reach_inv:
  assumes "ss_reach L s" and "\<And>n. n \<le> 2 ^ sl_closest L n"
  shows "ss_inv L s"
  using assms(1)
proof (induction rule: ss_reach.induct)
  case (start b)
  show ?case using contexts_follow_new [OF assms(2)] by (simp add: ss_inv_def ss_New_def)
qed (rule ss_exec_inv)

section \<open>Registration\<close>

interpretation ss_alive: keepalive "ss_tick L" "\<lambda>dw. ss_register L (fst dw) (snd dw)" ss_lastAlive
  "\<lambda>dw. env_now (snd dw)" for L
  by unfold_locales (auto simp: ss_tick_def split: prod.splits)

text \<open>A user without a method: the key is looked up for the empty method, the default comes too late.\<close>

lemma ss_default_method_panics:
  assumes "sl_conf L [] = None" and "p \<in> set ps" and "\<not> pa_Manager p" and "arg_Method (pa_In p) = []"
  shows "ss_AddPassages L dr ps s = None"
proof -
  have "ss_localize_from L gen i found ps = None" for gen i found
    using assms by (induction ps arbitrary: i found) (auto simp: Let_def split: option.splits)
  then show ?thesis by (simp add: ss_AddPassages_def ss_LocalizePassages_def)
qed

section \<open>Properties\<close>

text \<open>C24: However passages were added, removed and used for authentication since the server started,
  the server stores at most one manager, and every user context in the cache is open and holds exactly
  the passages the server stores (in an order of its own).\<close>

theorem ss_contexts_follow:
  assumes "ss_reach L s" and "\<And>n. n \<le> 2 ^ sl_closest L n"
  shows "length (filter pa_Manager (ss_passages s)) \<le> 1 \<and>
    (\<exists>c. cache_rep FixedTimeout contextTimeout (up_lru (ss_pool s)) c \<and>
       (\<forall>(ip, a, t) \<in> set c. a < length (up_ctxs (ss_pool s)) \<and> \<not> ls_stopped (up_ctxs (ss_pool s) ! a) \<and>
          mset (passages_of (up_ctxs (ss_pool s) ! a)) = mset (ss_passages s)))"
  using ss_reach_inv [OF assms] unfolding ss_inv_def contexts_follow_def pool_holds_def holds_passages_def open_ctx_def by fastforce

text \<open>A library with one cipher, whose verification compares the salt with the key.\<close>

definition demo_cipher :: cipher where
  "demo_cipher = \<lparr>cc_KeyLen = 2, cc_SaltLen = 2, cc_TagLen = 1, cc_Verify = (\<lambda>k s c. if k = s then Some c else None)\<rparr>"

definition demo_lib :: "bytes list ss_lib" where
  "demo_lib = \<lparr>sl_conf = (\<lambda>m. if m = [] then None else Some demo_cipher), sl_kdf = (\<lambda>pw n. take n (to_bytes pw)),
     sl_closest = (\<lambda>n. n), sl_exist = (\<lambda>b x. x \<in> set b), sl_existOrAdd = (\<lambda>b x. (x # b, x \<in> set b)),
     sl_open = (\<lambda>m k b x. (b, Inl IoEOF))\<rparr>"

definition demo_draws :: draws where
  "demo_draws = \<lparr>dr_gen = (\<lambda>i. ''zz''), dr_now = 5, dr_now2 = 6, dr_remove = (\<lambda>i. False), dr_insert = (\<lambda>i. False),
     dr_pick = False\<rparr>"

definition demo_ss_user :: "string \<Rightarrow> passage" where
  "demo_ss_user pw = (demo_user pw)\<lparr>pa_In := zero_argument\<lparr>arg_Password := pw, arg_Method := ''m''\<rparr>\<rparr>"

lemma demo_closest: "n \<le> 2 ^ sl_closest demo_lib n"
  by (simp add: demo_lib_def less_imp_le [OF less_exp])

lemma demo_valid: "ss_valid demo_lib (demo_ss_user pw)"
  by (simp add: ss_valid_def demo_lib_def demo_ss_user_def)

lemma demo_started: "ss_ok demo_lib (ss_New [])"
  using contexts_follow_new [OF demo_closest] by (simp add: ss_ok_def ss_inv_def ss_New_def)

theorem ss_contexts_follow_witness:
  "\<exists>s c. ss_exec demo_lib (SsAdd demo_draws [demo_ss_user ''aa'']) (ss_New []) = Some s \<and>
     cache_rep FixedTimeout contextTimeout (up_lru (ss_pool s)) c \<and>
     (\<forall>(ip, a, t) \<in> set c. mset (passages_of (up_ctxs (ss_pool s) ! a)) = mset (ss_passages s))"
proof -
  from ss_add [OF demo_started, of "[demo_ss_user ''aa'']" demo_draws] obtain s where
    "ss_AddPassages demo_lib demo_draws [demo_ss_user ''aa''] (ss_New []) = Some (s, None)"
    by (auto simp: demo_valid)
  then have e: "ss_exec demo_lib (SsAdd demo_draws [demo_ss_user ''aa'']) (ss_New []) = Some s" by simp
  have "ss_reach demo_lib s" by (rule ss_reach.step [OF ss_reach.start _ e]) simp
  from ss_contexts_follow [OF this demo_closest] e show ?thesis by fastforce
qed



end
