(* ===== verification/Shadowsocks_Udp.thy ===== *)
theory Shadowsocks_Udp
  imports Shadowsocks_Contexts
begin

text \<open>
  The datagrams of the shadowsocks server (\<open>server/shadowsocks/udp.go\<close>, \<open>udp_conn.go\<close>): the
  mapping from client addresses to outgoing connections, \<open>GetOrBuildUDPConn\<close> cut where it waits
  (for the dial, or for the establishment of the connection by another datagram), and the relay of
  answers. Connections of the mapping are shared with the goroutines that wait for them, so they live
  in a heap.
\<close>

section \<open>The mapping\<close>

text \<open>\<open>uc_Established\<close> is whether the channel \<open>Establishing\<close> is closed.\<close>

record 'c udp_conn =
  uc_Established :: bool
  uc_Timeout :: int
  uc_PacketConn :: "'c option"

record 'c udp_mapping =
  um_nm :: "string \<rightharpoonup> nat"
  um_heap :: "'c udp_conn list"
  um_closed :: "'c list"

definition NewUDPConn :: "'c option \<Rightarrow> 'c udp_conn" where
  "NewUDPConn conn = \<lparr>uc_Established = (conn \<noteq> None), uc_Timeout = 0, uc_PacketConn = conn\<rparr>"

definition NewUDPConnMapping :: "'c udp_mapping" where
  "NewUDPConnMapping = \<lparr>um_nm = Map.empty, um_heap = [], um_closed = []\<rparr>"

definition um_Get :: "string \<Rightarrow> 'c udp_mapping \<Rightarrow> nat option" where
  "um_Get key m = um_nm m key"

definition um_Insert :: "string \<Rightarrow> 'c option \<Rightarrow> 'c udp_mapping \<Rightarrow> 'c udp_mapping \<times> nat" where
  "um_Insert key val m =
     (let a = length (um_heap m)
      in (m\<lparr>um_nm := (um_nm m)(key \<mapsto> a), um_heap := um_heap m @ [NewUDPConn val]\<rparr>, a))"

text \<open>\<open>Remove\<close> closes the connection of an established entry, and the channel of another.\<close>

definition um_Remove :: "string \<Rightarrow> 'c udp_mapping \<Rightarrow> 'c udp_mapping" where
  "um_Remove key m =
     (case um_nm m key of
        None \<Rightarrow> m
      | Some a \<Rightarrow>
          let v = um_heap m ! a
          in if uc_Established v
             then m\<lparr>um_nm := (um_nm m)(key := None),
                    um_closed := (case uc_PacketConn v of None \<Rightarrow> um_closed m | Some c \<Rightarrow> c # um_closed m)\<rparr>
             else m\<lparr>um_nm := (um_nm m)(key := None), um_heap := (um_heap m)[a := v\<lparr>uc_Established := True\<rparr>]\<rparr>)"

definition um_setTimeout :: "nat \<Rightarrow> int \<Rightarrow> 'c udp_mapping \<Rightarrow> 'c udp_mapping" where
  "um_setTimeout a t m = m\<lparr>um_heap := (um_heap m)[a := (um_heap m ! a)\<lparr>uc_Timeout := t\<rparr>]\<rparr>"

section \<open>Authentication\<close>

text \<open>The parts of the protocol library a datagram needs: decoding its metadata, and the length of
  the metadata with an error.\<close>

record 'b ss_udp_lib = "'b ss_lib" +
  sl_NewMetadata :: "bytes \<Rightarrow> go_err + metadata"
  sl_BytesSizeForMetadata :: "bytes \<Rightarrow> nat \<times> go_err option"
  sl_isDns :: "bytes \<Rightarrow> bool"

definition ss_probeUDP :: "('b, 'z) ss_lib_scheme \<Rightarrow> bytes \<Rightarrow> ss_passage \<Rightarrow> bytes option" where
  "ss_probeUDP L data p =
     (case sl_conf L (arg_Method (pa_In p)) of
        None \<Rightarrow> None
      | Some conf \<Rightarrow>
          if length data < cc_SaltLen conf + cc_TagLen conf then None
          else let salt = take (cc_SaltLen conf) data; cipherText = drop (cc_SaltLen conf) data
               in cc_Verify conf (sp_inMasterKey p) salt cipherText)"

definition ss_authUDP :: "'b ss_udp_lib \<Rightarrow> draws \<Rightarrow> bytes \<Rightarrow> nat \<Rightarrow> 'b ss_server \<Rightarrow>
    ('b ss_server \<times> (go_err + ss_passage \<times> bytes)) option" where
  "ss_authUDP L dr data a s =
     (if length data < BasicLen then Some (s, Inl IoUnexpectedEOF)
      else Option.bind (ss_try (ss_lib.truncate L) dr a (ss_probeUDP L data) s) (\<lambda>(s1, hit).
             case hit of
               None \<Rightarrow> Some (s1, Inl ErrFailAuth)
             | Some (p, content) \<Rightarrow>
                 map_option (\<lambda>conf.
                     let (b, exist) = sl_existOrAdd L (ss_bloom s1) (take (cc_SaltLen conf) data)
                     in (s1\<lparr>ss_bloom := b\<rparr>, if exist then Inl ErrReplayAttack else Inr (p, content)))
                   (sl_conf L (arg_Method (pa_In p)))))"

definition ss_selectTimeout :: "'b ss_udp_lib \<Rightarrow> bytes \<Rightarrow> int" where
  "ss_selectTimeout L packet =
     (let al = fst (sl_BytesSizeForMetadata L packet)
      in if length packet < al then DefaultNatTimeout else SelectTimeout (sl_isDns L) (drop al packet))"

section \<open>Building a connection\<close>

text \<open>Where \<open>GetOrBuildUDPConn\<close> gets to: an error, a dial to make, an entry to wait for, or a
  connection. The data of a waiting datagram is kept for the second attempt.\<close>

record udp_packet =
  pk_lAddr :: string
  pk_IP :: string
  pk_data :: bytes

datatype 'd udp_phase =
    UdpFailed go_err
  | UdpDial 'd string ss_passage bytes
  | UdpWait nat ss_passage bytes string

record ('b, 'c, 'd) udp_state =
  us_server :: "'b ss_server"
  us_mapping :: "'c udp_mapping"
  us_cache :: "'d dialers"

definition GetOrBuildUDPConn :: "'b ss_udp_lib \<Rightarrow> draws \<Rightarrow> 'd world \<Rightarrow> 'd \<Rightarrow> udp_packet \<Rightarrow> ('b, 'c, 'd) udp_state \<Rightarrow>
    (('b, 'c, 'd) udp_state \<times> 'd udp_phase) option" where
  "GetOrBuildUDPConn L dr w dialer pk st =
     Option.bind (ss_userContext (ss_lib.truncate L) dr (pk_IP pk) (us_server st)) (\<lambda>(s1, a).
     Option.bind (ss_authUDP L dr (pk_data pk) a s1) (\<lambda>(s2, r).
       let st1 = st\<lparr>us_server := s2\<rparr>
       in Some (case r of
            Inl e \<Rightarrow> (st1, UdpFailed e)
          | Inr (p, plainText) \<Rightarrow>
              (case sl_NewMetadata L plainText of
                 Inl e \<Rightarrow> (st1, UdpFailed e)
               | Inr m \<Rightarrow>
                   let target = md_target m; connIdent = pk_lAddr pk
                   in (case um_Get connIdent (us_mapping st1) of
                         Some c \<Rightarrow> (st1, UdpWait c p plainText target)
                       | None \<Rightarrow>
                           (let st2 = st1\<lparr>us_mapping := fst (um_Insert connIdent None (us_mapping st1))\<rparr>
                            in case passage_dialer w dialer p (us_cache st2) of
                                 (cache, Inl e) \<Rightarrow> (st2\<lparr>us_cache := cache\<rparr>, UdpFailed e)
                               | (cache, Inr d) \<Rightarrow> (st2\<lparr>us_cache := cache\<rparr>, UdpDial d target p plainText)))))))"

text \<open>The dial returns: the placeholder is removed, which wakes those that wait, and a connection is
  entered for a new one.\<close>

definition udp_dialed :: "'b ss_udp_lib \<Rightarrow> string \<Rightarrow> bytes \<Rightarrow> go_err + 'c \<Rightarrow> 'c udp_mapping \<Rightarrow> 'c udp_mapping \<times> (go_err + 'c)" where
  "udp_dialed L connIdent plainText r m =
     (case r of
        Inl e \<Rightarrow> (um_Remove connIdent m, Inl (Wrapped ''GetOrBuildUDPConn dial error'' e))
      | Inr rc \<Rightarrow>
          (let (m1, conn) = um_Insert connIdent (Some rc) (um_Remove connIdent m)
           in (um_setTimeout conn (ss_selectTimeout L plainText) m1, Inr rc)))"

text \<open>\<open><-conn.Establishing\<close>: nothing while the channel is open; then the connection, or the whole
  function again.\<close>

definition udp_woken :: "nat \<Rightarrow> 'c udp_mapping \<Rightarrow> 'c option option" where
  "udp_woken a m = (let conn = um_heap m ! a in if uc_Established conn then Some (uc_PacketConn conn) else None)"

text \<open>The rest of \<open>handleUDP\<close> once there is a connection; \<open>resolve\<close> is \<open>ResolveUDPAddr\<close>, and
  the second result what is written where.\<close>

definition ss_handleUDP :: "'b ss_udp_lib \<Rightarrow> 'd world \<Rightarrow> bool \<Rightarrow> (string \<Rightarrow> go_err + 'a) \<Rightarrow> bytes \<Rightarrow> ss_passage \<Rightarrow> bytes \<Rightarrow> string \<Rightarrow>
    go_err + bytes \<times> 'a" where
  "ss_handleUDP L w contention resolve ip p plainText target =
     (case ss_ContentionCheck (wd_hash w) contention ip p of
        Some e \<Rightarrow> Inl e
      | None \<Rightarrow>
          ebind (resolve target) (\<lambda>targetAddr.
            case sl_BytesSizeForMetadata L plainText of
              (_, Some e) \<Rightarrow> Inl e
            | (al, None) \<Rightarrow> Inr (drop al plainText, targetAddr)))"

section \<open>The answers\<close>

text \<open>One round of \<open>relay\<close>: the packet is read into the slice of length \<open>n0\<close> of the array, moved up
  to make room for the address \<open>b\<close>, and both are sliced off; the array may be longer than the slice.\<close>

definition relay_frame :: "nat \<Rightarrow> bytes \<Rightarrow> bytes \<Rightarrow> bytes \<Rightarrow> (bytes \<times> bytes) option" where
  "relay_frame n0 arr packet b =
     (let n = min n0 (length packet);
          arr1 = take n packet @ drop n arr;
          moved = take (min (n0 - length b) n) arr1;
          arr2 = take (length b) arr1 @ moved @ drop (length b + length moved) arr1;
          arr3 = b @ drop (length b) arr2
      in if n + length b \<le> length arr then Some (arr3, take (n + length b) arr3) else None)"

lemma relay_frame_ok:
  assumes "length packet + length b \<le> n0" and "n0 \<le> length arr"
  shows "\<exists>arr'. relay_frame n0 arr packet b = Some (arr', b @ packet) \<and> length arr' = length arr"
proof -
  have m: "take (min (n0 - length b) (length packet)) packet = packet" using assms(1) by simp
  have n: "min n0 (length packet) = length packet" using assms(1) by simp
  show ?thesis using assms m by (simp add: relay_frame_def n Let_def)
qed

text \<open>The loop of \<open>relay\<close> over the packets of the outgoing connection, each with its source (nil is
  a panic). \<open>head\<close> encodes the source, \<open>seal\<close> makes a salt and encrypts, in round \<open>i\<close>; where it
  fails the packet is skipped.\<close>

fun ss_relay :: "('b, 'z) ss_lib_scheme \<Rightarrow> nat \<Rightarrow> ('a \<Rightarrow> go_err + bytes) \<Rightarrow> (nat \<Rightarrow> bytes \<Rightarrow> go_err + bytes) \<Rightarrow>
    ('w \<Rightarrow> bytes \<Rightarrow> 'w \<times> go_err option) \<Rightarrow> nat \<Rightarrow> nat \<Rightarrow> bytes \<Rightarrow> 'b \<times> 'w \<Rightarrow> (bytes \<times> 'a option) list \<Rightarrow>
    (('b \<times> 'w) \<times> go_err) option" where
  "ss_relay L saltLen head seal wr n0 i arr bw [] = Some (bw, Errorf ''rConn.ReadFrom'')"
| "ss_relay L saltLen head seal wr n0 i arr (bloom, w) ((packet, addr) # ps) =
     (case addr of
        None \<Rightarrow> None
      | Some a \<Rightarrow>
          (case head a of
             Inl e \<Rightarrow> Some ((bloom, w), e)
           | Inr b \<Rightarrow>
               (case relay_frame n0 arr packet b of
                  None \<Rightarrow> None
                | Some (arr', frame) \<Rightarrow>
                    (case seal i frame of
                       Inl e \<Rightarrow> ss_relay L saltLen head seal wr n0 (Suc i) arr' (bloom, w) ps
                     | Inr shadowBytes \<Rightarrow>
                         let bloom' = fst (sl_existOrAdd L bloom (take saltLen shadowBytes))
                         in (case wr w shadowBytes of
                               (w', Some e) \<Rightarrow> Some ((bloom', w'), e)
                             | (w', None) \<Rightarrow> ss_relay L saltLen head seal wr n0 (Suc i) arr' (bloom', w') ps)))))"

definition relay_buffer :: "mtu_trie \<Rightarrow> bytes option \<Rightarrow> nat" where
  "relay_buffer t localAddr = BasicLen + nat (relay_mtu t localAddr)"

text \<open>Packets that leave room for their header arrive unchanged behind it.\<close>

lemma ss_relay_delivers:
  assumes "\<forall>(p, a) \<in> set ps. \<exists>x b. a = Some x \<and> head x = Inr b \<and> length p + length b \<le> n0"
    and "n0 \<le> length arr" and "\<And>w x. wr w x = (w @ [x], None)" and "\<And>i x. seal i x = Inr (key @ x)"
  shows "\<exists>bloom'. ss_relay L saltLen head seal wr n0 i arr (bloom, w) ps =
    Some ((bloom', w @ map (\<lambda>(p, a). key @ projr (head (the a)) @ p) ps), Errorf ''rConn.ReadFrom'')"
  using assms(1,2)
proof (induction ps arbitrary: i arr bloom w)
  case (Cons q ps)
  obtain p a where q: "q = (p, a)" by (cases q)
  with Cons.prems(1) obtain x b where x: "a = Some x" "head x = Inr b" "length p + length b \<le> n0" by auto
  from relay_frame_ok [OF x(3) Cons.prems(2)] obtain arr' where
    f: "relay_frame n0 arr p b = Some (arr', b @ p)" "length arr' = length arr" by blast
  with Cons.IH [of arr' "Suc i" "fst (sl_existOrAdd L bloom (take saltLen (key @ b @ p)))" "w @ [key @ b @ p]"]
    Cons.prems q x show ?case by (simp add: assms(3,4))
qed simp

section \<open>A datagram that waits is lost\<close>

text \<open>What authentication of a datagram comes to.\<close>

lemma ss_authUDP_total:
  assumes inv: "ss_inv (ss_lib.truncate L) s" and a: "holds_passages (ss_passages s) (up_ctxs (ss_pool s) ! a)"
  shows "\<exists>s' r. ss_authUDP L dr data a s = Some (s', r) \<and> ss_passages s' = ss_passages s \<and>
    ss_inv (ss_lib.truncate L) s' \<and>
    (if length data < BasicLen then r = Inl IoUnexpectedEOF
     else if \<forall>p \<in> set (ss_passages s). ss_probeUDP L data p = None then r = Inl ErrFailAuth
     else \<exists>p \<in> set (ss_passages s). \<exists>content conf. ss_probeUDP L data p = Some content \<and>
            sl_conf L (arg_Method (pa_In p)) = Some conf \<and>
            ss_bloom s' = fst (sl_existOrAdd L (ss_bloom s) (take (cc_SaltLen conf) data)) \<and>
            r = (if snd (sl_existOrAdd L (ss_bloom s) (take (cc_SaltLen conf) data))
                 then Inl ErrReplayAttack else Inr (p, content)))"
proof (cases "length data < BasicLen")
  case True
  with inv show ?thesis by (simp add: ss_authUDP_def)
next
  case False
  from ss_try_ok [OF inv a, of dr "ss_probeUDP L data"] obtain q hit where
    h: "ss_try (ss_lib.truncate L) dr a (ss_probeUDP L data) s = Some (s\<lparr>ss_pool := q\<rparr>, hit)"
      "case hit of Some (p, c) \<Rightarrow> p \<in> set (ss_passages s) \<and> ss_probeUDP L data p = Some c
       | None \<Rightarrow> \<forall>p \<in> set (ss_passages s). ss_probeUDP L data p = None"
      "ss_inv (ss_lib.truncate L) (s\<lparr>ss_pool := q\<rparr>)" by blast
  show ?thesis
  proof (cases hit)
    case None
    with False h show ?thesis by (simp add: ss_authUDP_def)
  next
    case (Some x)
    obtain p c where x: "x = (p, c)" by (cases x)
    with Some h(2) have p: "p \<in> set (ss_passages s)" "ss_probeUDP L data p = Some c" by simp_all
    then obtain conf where conf: "sl_conf L (arg_Method (pa_In p)) = Some conf"
      by (auto simp: ss_probeUDP_def split: option.splits)
    obtain b e where be: "sl_existOrAdd L (ss_bloom s) (take (cc_SaltLen conf) data) = (b, e)" by fastforce
    from False h(1) Some x conf be have
      "ss_authUDP L dr data a s = Some (s\<lparr>ss_pool := q, ss_bloom := b\<rparr>, if e then Inl ErrReplayAttack else Inr (p, c))"
      by (simp add: ss_authUDP_def)
    moreover have "ss_inv (ss_lib.truncate L) (s\<lparr>ss_pool := q, ss_bloom := b\<rparr>)" using h(3) by (simp add: ss_inv_def)
    moreover have "\<not> (\<forall>p \<in> set (ss_passages s). ss_probeUDP L data p = None)" using p by force
    ultimately show ?thesis
      using False p conf be
      by (intro exI [of _ "s\<lparr>ss_pool := q, ss_bloom := b\<rparr>"] exI conjI) (auto intro!: bexI [of _ p] exI [of _ conf])
  qed
qed

lemma GetOrBuildUDPConn_auth:
  assumes inv: "ss_inv (ss_lib.truncate L) (us_server st)" and t: "dr_now2 dr - dr_now dr < contextTimeout"
  shows "\<exists>s1 a s2 r. ss_userContext (ss_lib.truncate L) dr (pk_IP pk) (us_server st) = Some (s1, a) \<and>
    ss_authUDP L dr (pk_data pk) a s1 = Some (s2, r) \<and> ss_inv (ss_lib.truncate L) s1 \<and>
    holds_passages (ss_passages s1) (up_ctxs (ss_pool s1) ! a) \<and>
    ss_passages s1 = ss_passages (us_server st) \<and> ss_bloom s1 = ss_bloom (us_server st)"
proof -
  from ss_userContext_ok [OF inv t, of "pk_IP pk"] obtain q a where
    q: "ss_userContext (ss_lib.truncate L) dr (pk_IP pk) (us_server st) = Some ((us_server st)\<lparr>ss_pool := q\<rparr>, a)"
      "ss_inv (ss_lib.truncate L) ((us_server st)\<lparr>ss_pool := q\<rparr>)"
      "holds_passages (ss_passages (us_server st)) (up_ctxs q ! a)" by blast
  then have h: "holds_passages (ss_passages ((us_server st)\<lparr>ss_pool := q\<rparr>))
      (up_ctxs (ss_pool ((us_server st)\<lparr>ss_pool := q\<rparr>)) ! a)" by simp
  from ss_authUDP_total [OF q(2) h, of dr "pk_data pk"] obtain s2 r where
    "ss_authUDP L dr (pk_data pk) a ((us_server st)\<lparr>ss_pool := q\<rparr>) = Some (s2, r)" by blast
  with q h show ?thesis by (intro exI [of _ "(us_server st)\<lparr>ss_pool := q\<rparr>"] exI) auto
qed


definition demo_udp_lib :: "bytes list ss_udp_lib" where
  "demo_udp_lib = ss_lib.extend demo_lib (ss_udp_lib.fields
     (\<lambda>b. Inr \<lparr>md_IsMsg = False, md_Cmd = 0, md_LenMsgBody = 0, md_Network = [], md_Hostname = ''h'', md_Port = 1\<rparr>)
     (\<lambda>b. (0, None)) (\<lambda>b. False))"

lemma demo_udp_sel:
  "ss_lib.truncate demo_udp_lib = demo_lib" "sl_conf demo_udp_lib = sl_conf demo_lib"
  "sl_existOrAdd demo_udp_lib = (\<lambda>b x. (x # b, x \<in> set b))"
  "sl_NewMetadata demo_udp_lib b =
     Inr \<lparr>md_IsMsg = False, md_Cmd = 0, md_LenMsgBody = 0, md_Network = [], md_Hostname = ''h'', md_Port = 1\<rparr>"
  by (simp_all add: demo_udp_lib_def demo_lib_def ss_lib.extend_def ss_lib.truncate_def ss_udp_lib.fields_def)

definition demo_packet :: udp_packet where
  "demo_packet = \<lparr>pk_lAddr = ''1.2.3.4:5'', pk_IP = ''1.2.3.4'', pk_data = to_bytes ''aa'' @ replicate 48 0\<rparr>"

lemma demo_ss_server:
  assumes "pa_In u = pa_In (demo_ss_user ''aa'')" and "\<not> pa_Manager u"
  obtains s p where "ss_AddPassages demo_lib demo_draws [u] (ss_New []) = Some (s, None)"
    "ss_ok demo_lib s" "ss_passages s = [p]" "ss_bloom s = []" "passage.truncate p = u"
proof -
  have v: "list_all (ss_valid demo_lib) [u]" using assms by (simp add: ss_valid_def demo_lib_def demo_ss_user_def)
  from ss_add [OF demo_started v, of demo_draws] assms(2) obtain s where
    s: "ss_AddPassages demo_lib demo_draws [u] (ss_New []) = Some (s, None)" "ss_ok demo_lib s"
      "ss_Passages s = ss_Passages (ss_New ([] :: bytes list)) @ [u]" by auto
  then obtain p where p: "ss_passages s = [p]" "passage.truncate p = u"
    by (auto simp: ss_Passages_def ss_New_def)
  have "ss_bloom s = []"
    using s(1) by (auto simp: ss_AddPassages_def ss_addPassages_def ss_removePassagesFunc_def ss_New_def
        split: bind_splits if_splits)
  with that s p show ?thesis by blast
qed

text \<open>The first datagram of an address is authenticated.\<close>

lemma demo_authenticated:
  assumes "ss_ok demo_lib s" and "ss_passages s = [p]" and "ss_bloom s = []"
    and "pa_In (passage.truncate p) = pa_In (demo_ss_user ''aa'')"
  shows "\<exists>s1 c s2 plain. ss_userContext demo_lib demo_draws (pk_IP demo_packet) s = Some (s1, c) \<and>
    ss_authUDP demo_udp_lib demo_draws (pk_data demo_packet) c s1 = Some (s2, Inr (p, plain)) \<and>
    ss_inv demo_lib s2 \<and> ss_passages s2 = [p]"
proof -
  have i: "arg_Method (pa_In p) = ''m''" "arg_Password (pa_In p) = ''aa''"
    using assms(4) by (simp_all add: demo_ss_user_def)
  have k: "sp_inMasterKey p = to_bytes ''aa''"
    using assms(1,2) i by (simp add: ss_ok_def ss_key_ok_def demo_lib_def demo_cipher_def to_bytes_def)
  have inv: "ss_inv (ss_lib.truncate demo_udp_lib) s" using assms(1) by (simp add: demo_udp_sel ss_ok_def)
  have t: "dr_now2 demo_draws - dr_now demo_draws < contextTimeout" by (simp add: demo_draws_def contextTimeout_def)
  from ss_userContext_ok [OF inv t, of "pk_IP demo_packet"] obtain q c where
    f: "ss_userContext demo_lib demo_draws (pk_IP demo_packet) s = Some (s\<lparr>ss_pool := q\<rparr>, c)"
      "ss_inv (ss_lib.truncate demo_udp_lib) (s\<lparr>ss_pool := q\<rparr>)" "holds_passages (ss_passages s) (up_ctxs q ! c)"
    by (auto simp: demo_udp_sel)
  have h: "holds_passages (ss_passages (s\<lparr>ss_pool := q\<rparr>)) (up_ctxs (ss_pool (s\<lparr>ss_pool := q\<rparr>)) ! c)" using f(3) by simp
  have pr: "ss_probeUDP demo_udp_lib (pk_data demo_packet) p \<noteq> None"
    using i k by (simp add: ss_probeUDP_def demo_udp_sel demo_lib_def demo_cipher_def demo_packet_def to_bytes_def)
  have len: "\<not> length (pk_data demo_packet) < BasicLen" by (simp add: demo_packet_def BasicLen_def to_bytes_def)
  from ss_authUDP_total [OF f(2) h, of demo_draws "pk_data demo_packet"] pr len assms(2,3) obtain s2 plain where
    "ss_authUDP demo_udp_lib demo_draws (pk_data demo_packet) c (s\<lparr>ss_pool := q\<rparr>) = Some (s2, Inr (p, plain))"
    "ss_inv demo_lib s2" "ss_passages s2 = [p]"
    by (auto simp: demo_udp_sel)
  with f(1) show ?thesis by blast
qed


section \<open>A header that cannot be built blocks the address\<close>

text \<open>The goroutines that dial and those that relay are known by the address they do it for.\<close>

record ('b, 'c, 'd) udp_sys =
  sy_state :: "('b, 'c, 'd) udp_state"
  sy_dialing :: "string list"
  sy_relaying :: "string list"

inductive udp_step :: "'b ss_udp_lib \<Rightarrow> ('b, 'c, 'd) udp_sys \<Rightarrow> ('b, 'c, 'd) udp_sys \<Rightarrow> bool" for L where
  packet: "GetOrBuildUDPConn L dr w dialer pk (sy_state y) = Some (st', ph) \<Longrightarrow>
    udp_step L y (y\<lparr>sy_state := st',
      sy_dialing := (case ph of UdpDial d target p plainText \<Rightarrow> [pk_lAddr pk] | _ \<Rightarrow> []) @ sy_dialing y\<rparr>)"
| dialed: "key \<in> set (sy_dialing y) \<Longrightarrow> udp_dialed L key plainText r (us_mapping (sy_state y)) = (m, x) \<Longrightarrow>
    udp_step L y (y\<lparr>sy_state := (sy_state y)\<lparr>us_mapping := m\<rparr>, sy_dialing := remove1 key (sy_dialing y),
      sy_relaying := (case x of Inr rc \<Rightarrow> [key] | Inl e \<Rightarrow> []) @ sy_relaying y\<rparr>)"
| relayed: "key \<in> set (sy_relaying y) \<Longrightarrow>
    udp_step L y (y\<lparr>sy_state := (sy_state y)\<lparr>us_mapping := um_Remove key (us_mapping (sy_state y))\<rparr>,
      sy_relaying := remove1 key (sy_relaying y)\<rparr>)"
| server: "udp_step L y (y\<lparr>sy_state := (sy_state y)\<lparr>us_server := s, us_cache := cache\<rparr>\<rparr>)"

inductive udp_steps :: "'b ss_udp_lib \<Rightarrow> ('b, 'c, 'd) udp_sys \<Rightarrow> ('b, 'c, 'd) udp_sys \<Rightarrow> bool" for L where
  refl: "udp_steps L y y"
| trans: "udp_steps L x y \<Longrightarrow> udp_step L y z \<Longrightarrow> udp_steps L x z"

text \<open>The entries of the mapping are different connections of the heap.\<close>

definition um_ok :: "'c udp_mapping \<Rightarrow> bool" where
  "um_ok m \<longleftrightarrow> (\<forall>k a. um_nm m k = Some a \<longrightarrow> a < length (um_heap m)) \<and> inj_on (um_nm m) (dom (um_nm m))"

lemma um_ok_Insert: "um_ok m \<Longrightarrow> um_ok (fst (um_Insert k v m))"
  by (fastforce simp: um_ok_def um_Insert_def Let_def inj_on_def dom_def split: if_splits)

lemma um_ok_Remove: "um_ok m \<Longrightarrow> um_ok (um_Remove k m)"
  by (fastforce simp: um_ok_def um_Remove_def Let_def inj_on_def dom_def split: if_splits option.splits)

lemma GetOrBuildUDPConn_mapping:
  assumes "GetOrBuildUDPConn L dr w dialer pk st = Some (st', ph)"
  shows "us_mapping st' = us_mapping st \<and> (\<forall>d t p b. ph \<noteq> UdpDial d t p b) \<or>
    um_nm (us_mapping st) (pk_lAddr pk) = None \<and> us_mapping st' = fst (um_Insert (pk_lAddr pk) None (us_mapping st))"
  using assms
  by (auto simp: GetOrBuildUDPConn_def um_Get_def Let_def split: bind_splits sum.splits option.splits prod.splits)

lemma um_setTimeout_sel:
  "um_nm (um_setTimeout a t m) = um_nm m" "length (um_heap (um_setTimeout a t m)) = length (um_heap m)"
  by (simp_all add: um_setTimeout_def)

lemma um_Remove_other:
  assumes "um_ok m" and "k \<noteq> key" and "um_nm m k = Some a"
  shows "um_nm (um_Remove key m) k = Some a \<and> um_heap (um_Remove key m) ! a = um_heap m ! a"
proof -
  have "a \<noteq> b" if "um_nm m key = Some b" for b
    using assms that by (metis domI inj_onD um_ok_def)
  with assms show ?thesis by (auto simp: um_Remove_def Let_def split: option.split)
qed

lemma um_Insert_other:
  assumes "um_ok m" and "k \<noteq> key" and "um_nm m k = Some a"
  shows "um_nm (fst (um_Insert key v m)) k = Some a \<and> um_heap (fst (um_Insert key v m)) ! a = um_heap m ! a"
  using assms by (auto simp: um_Insert_def Let_def um_ok_def nth_append)

lemma um_Insert_new:
  "um_nm (fst (um_Insert key v m)) key = Some (length (um_heap m)) \<and>
   um_heap (fst (um_Insert key v m)) ! length (um_heap m) = NewUDPConn v \<and> snd (um_Insert key v m) = length (um_heap m)"
  by (simp add: um_Insert_def Let_def)

text \<open>The state of an address: no entry, a placeholder, or an established connection.\<close>

definition um_status :: "'c udp_mapping \<Rightarrow> string \<Rightarrow> bool option" where
  "um_status m k = map_option (\<lambda>a. uc_Established (um_heap m ! a)) (um_nm m k)"

lemma status_Insert: "um_ok m \<Longrightarrow> um_status (fst (um_Insert key v m)) k = (if k = key then Some (v \<noteq> None) else um_status m k)"
  using um_Insert_other [of m k key _ v] um_Insert_new [of key v m]
  by (cases "um_nm m k") (auto simp: um_status_def NewUDPConn_def um_Insert_def Let_def)

lemma status_Remove: "um_ok m \<Longrightarrow> um_status (um_Remove key m) k = (if k = key then None else um_status m k)"
proof (cases "um_nm m k")
  case None
  then show ?thesis by (auto simp: um_status_def um_Remove_def Let_def split: option.split)
next
  case (Some a)
  moreover assume "um_ok m"
  ultimately show ?thesis
    using um_Remove_other [of m k key a] by (auto simp: um_status_def um_Remove_def Let_def split: option.split)
qed

lemma status_setTimeout: "um_status (um_setTimeout a t m) k = um_status m k"
  by (cases "um_nm m k"; cases "a < length (um_heap m)")
     (auto simp: um_status_def um_setTimeout_def nth_list_update list_update_beyond)

lemma dialed_status:
  assumes "um_ok m" and "udp_dialed L key b r m = (m', x)"
  shows "um_ok m' \<and> um_status m' k = (if k = key then (case x of Inr c \<Rightarrow> Some True | Inl e \<Rightarrow> None) else um_status m k)"
proof (cases r)
  case (Inl e)
  with assms show ?thesis by (auto simp: udp_dialed_def um_ok_Remove status_Remove)
next
  case (Inr c)
  have ok: "um_ok (um_Remove key m)" using assms(1) by (rule um_ok_Remove)
  have t: "um_ok (um_setTimeout a t n) = um_ok n" for a t and n :: "'a udp_mapping"
    by (simp add: um_ok_def um_setTimeout_sel)
  from assms(2) Inr show ?thesis
    using um_ok_Insert [OF ok, of key "Some c"] status_Insert [OF ok, of key "Some c" k] status_Remove [OF assms(1), of key k]
    by (auto simp: udp_dialed_def t status_setTimeout split: prod.splits)
qed

definition sys_inv :: "('b, 'c, 'd) udp_sys \<Rightarrow> bool" where
  "sys_inv y \<longleftrightarrow> (let m = us_mapping (sy_state y) in um_ok m \<and>
     distinct (sy_dialing y) \<and> (\<forall>k \<in> set (sy_dialing y). um_status m k = Some False) \<and>
     distinct (sy_relaying y) \<and> (\<forall>k \<in> set (sy_relaying y). um_status m k = Some True))"

lemma sys_invD:
  assumes "sys_inv y"
  shows "um_ok (us_mapping (sy_state y))"
    "k \<in> set (sy_dialing y) \<Longrightarrow> um_status (us_mapping (sy_state y)) k = Some False"
    "k \<in> set (sy_relaying y) \<Longrightarrow> um_status (us_mapping (sy_state y)) k = Some True"
    "um_status (us_mapping (sy_state y)) k = None \<Longrightarrow> k \<notin> set (sy_dialing y) \<and> k \<notin> set (sy_relaying y)"
  using assms by (auto simp: sys_inv_def Let_def)

lemma udp_step_inv:
  assumes "udp_step L y z" and "sys_inv y"
  shows "sys_inv z"
  using assms
proof (induction rule: udp_step.induct)
  case (packet dr w dialer pk y st' ph)
  from GetOrBuildUDPConn_mapping [OF packet(1)] show ?case
  proof (elim disjE conjE)
    assume "us_mapping st' = us_mapping (sy_state y)" "\<forall>d t p b. ph \<noteq> UdpDial d t p b"
    with packet(2) show ?thesis by (cases ph) (simp_all add: sys_inv_def)
  next
    assume a: "um_nm (us_mapping (sy_state y)) (pk_lAddr pk) = None"
      "us_mapping st' = fst (um_Insert (pk_lAddr pk) None (us_mapping (sy_state y)))"
    then have n: "um_status (us_mapping (sy_state y)) (pk_lAddr pk) = None" by (simp add: um_status_def)
    note kd = sys_invD(4) [OF packet(2) this] and ok = sys_invD(1) [OF packet(2)]
    have ok': "um_ok (us_mapping st')" unfolding a(2) by (rule um_ok_Insert [OF ok])
    have ins: "um_status (us_mapping st') k =
        (if k = pk_lAddr pk then Some False else um_status (us_mapping (sy_state y)) k)" for k
      unfolding a(2) by (simp add: status_Insert [OF ok])
    let ?new = "case ph of UdpDial d target p plainText \<Rightarrow> [pk_lAddr pk] | _ \<Rightarrow> []"
    have "?new = [pk_lAddr pk] \<or> ?new = []" by (cases ph) simp_all
    then have "distinct (?new @ sy_dialing y)" "set (?new @ sy_dialing y) \<subseteq> insert (pk_lAddr pk) (set (sy_dialing y))"
      using kd packet(2) by (auto simp: sys_inv_def Let_def)
    moreover from this(2) have "\<forall>k \<in> set (?new @ sy_dialing y). um_status (us_mapping st') k = Some False"
      using sys_invD(2) [OF packet(2)] unfolding ins by (metis (no_types, lifting) insertE subsetD)
    moreover have "\<forall>k \<in> set (sy_relaying y). um_status (us_mapping st') k = Some True"
      using kd sys_invD(3) [OF packet(2)] unfolding ins by metis
    ultimately show ?thesis
      using ok' packet(2) unfolding sys_inv_def Let_def udp_sys.select_convs udp_sys.update_convs
      by (intro conjI) simp_all
  qed
next
  case (dialed key y plainText r m x)
  note ok = sys_invD(1) [OF dialed(3)]
  note st = dialed_status [OF ok dialed(2)]
  have "key \<notin> set (sy_relaying y)"
    using sys_invD(2) [OF dialed(3,1)] sys_invD(3) [OF dialed(3), of key] by auto
  with dialed(3) st show ?case by (cases x) (auto simp: sys_inv_def Let_def)
next
  case (relayed key y)
  have "key \<notin> set (sy_dialing y)"
    using sys_invD(3) [OF relayed(2,1)] sys_invD(2) [OF relayed(2), of key] by auto
  with relayed show ?case by (auto simp: sys_inv_def Let_def um_ok_Remove status_Remove)
next
  case (server y s cache)
  then show ?case by (simp add: sys_inv_def)
qed

lemma udp_steps_inv: "udp_steps L y z \<Longrightarrow> sys_inv y \<Longrightarrow> sys_inv z"
  by (induction rule: udp_steps.induct) (auto intro: udp_step_inv)

definition blocked :: "string \<Rightarrow> ('b, 'c, 'd) udp_sys \<Rightarrow> bool" where
  "blocked k y \<longleftrightarrow> um_status (us_mapping (sy_state y)) k = Some False \<and> k \<notin> set (sy_dialing y) \<and> k \<notin> set (sy_relaying y)"

lemma blocked_step:
  assumes "udp_step L y z" and "sys_inv y" and "blocked k y"
  shows "blocked k z"
  using assms
proof (induction rule: udp_step.induct)
  case (packet dr w dialer pk y st' ph)
  have "um_nm (us_mapping (sy_state y)) k \<noteq> None" using packet(3) by (auto simp: blocked_def um_status_def)
  with GetOrBuildUDPConn_mapping [OF packet(1)] packet(2,3) show ?case
    by (cases ph) (auto simp: blocked_def status_Insert sys_inv_def Let_def)
next
  case (dialed key y plainText r m x)
  with dialed_status [OF sys_invD(1) [OF dialed(3)] dialed(2), of k] show ?case
    by (cases x) (auto simp: blocked_def dest: notin_set_remove1)
next
  case (relayed key y)
  then show ?case by (auto simp: blocked_def sys_inv_def Let_def status_Remove dest: notin_set_remove1)
next
  case (server y s cache)
  then show ?case by (simp add: blocked_def)
qed

lemma blocked_steps: "udp_steps L y z \<Longrightarrow> sys_inv y \<Longrightarrow> blocked k y \<Longrightarrow> blocked k z"
  by (induction rule: udp_steps.induct) (auto intro: udp_steps_inv blocked_step)

definition udp_start :: "('b, 'c, 'd) udp_sys \<Rightarrow> bool" where
  "udp_start y \<longleftrightarrow> us_mapping (sy_state y) = NewUDPConnMapping \<and> sy_dialing y = [] \<and> sy_relaying y = []"

text \<open>When the header for the outgoing argument of a datagram's passage cannot be built, the
  placeholder of its address stays: from then on the entry of the address is never removed, nobody
  dials for it, and whoever waits for it is never woken, whatever else the server does.\<close>

theorem ss_udp_orphan:
  assumes "udp_steps L start y" and "udp_start start"
    and "GetOrBuildUDPConn L dr w dialer pk (sy_state y) = Some (st', UdpFailed e)"
    and "um_nm (us_mapping (sy_state y)) (pk_lAddr pk) = None"
    and "um_nm (us_mapping st') (pk_lAddr pk) \<noteq> None"
    and "udp_steps L (y\<lparr>sy_state := st'\<rparr>) z"
  shows "\<exists>a. um_nm (us_mapping (sy_state z)) (pk_lAddr pk) = Some a \<and> udp_woken a (us_mapping (sy_state z)) = None \<and>
    pk_lAddr pk \<notin> set (sy_dialing z) \<and> pk_lAddr pk \<notin> set (sy_relaying z)"
proof -
  have "sys_inv start"
    using assms(2) by (simp add: sys_inv_def udp_start_def um_ok_def NewUDPConnMapping_def)
  from udp_steps_inv [OF assms(1) this] have inv: "sys_inv y" .
  have step: "udp_step L y (y\<lparr>sy_state := st'\<rparr>)" using udp_step.packet [OF assms(3)] by simp
  have m: "us_mapping st' = fst (um_Insert (pk_lAddr pk) None (us_mapping (sy_state y)))"
    using GetOrBuildUDPConn_mapping [OF assms(3)] assms(4,5) by auto
  have "um_status (us_mapping (sy_state y)) (pk_lAddr pk) = None" using assms(4) by (simp add: um_status_def)
  from sys_invD(4) [OF inv this] have "blocked (pk_lAddr pk) (y\<lparr>sy_state := st'\<rparr>)"
    using sys_invD(1) [OF inv] by (simp add: blocked_def m status_Insert)
  from blocked_steps [OF assms(6) udp_step_inv [OF step inv] this] show ?thesis
    by (auto simp: blocked_def um_status_def udp_woken_def)
qed

definition demo_ss_relay :: passage where
  "demo_ss_relay = (demo_ss_user ''aa'')\<lparr>pa_Out := Some \<lparr>out_Host = ''h'', out_Port = ''1'',
     out_Argument = zero_argument\<lparr>arg_Protocol := ''juicity''\<rparr>\<rparr>\<rparr>"

text \<open>A relay passage whose pinned hash is no base64.\<close>

theorem ss_udp_orphan_witness:
  "\<exists>s st' e a. ss_AddPassages demo_lib demo_draws [demo_ss_relay] (ss_New []) = Some (s, None) \<and>
     GetOrBuildUDPConn demo_udp_lib demo_draws (demo_world\<lparr>wd_b64 := \<lambda>s. Inl IoEOF\<rparr>) 0 demo_packet
       \<lparr>us_server = s, us_mapping = NewUDPConnMapping :: nat udp_mapping, us_cache = no_dialers\<rparr> = Some (st', UdpFailed e) \<and>
     um_nm (us_mapping st') ''1.2.3.4:5'' = Some a \<and> udp_woken a (us_mapping st') = None"
proof -
  have u: "pa_In demo_ss_relay = pa_In (demo_ss_user ''aa'')" "\<not> pa_Manager demo_ss_relay"
    by (simp_all add: demo_ss_relay_def demo_ss_user_def)
  obtain s p where s: "ss_AddPassages demo_lib demo_draws [demo_ss_relay] (ss_New []) = Some (s, None)"
    "ss_ok demo_lib s" "ss_passages s = [p]" "ss_bloom s = []" "passage.truncate p = demo_ss_relay"
    by (rule demo_ss_server [OF u])
  let ?st = "\<lparr>us_server = s, us_mapping = NewUDPConnMapping :: nat udp_mapping, us_cache = no_dialers\<rparr>"
  let ?w = "demo_world\<lparr>wd_b64 := \<lambda>s. Inl IoEOF\<rparr>"
  from demo_authenticated [OF s(2-4)] s(5) u(1) obtain s1 c s2 plain where
    a: "ss_userContext demo_lib demo_draws (pk_IP demo_packet) s = Some (s1, c)"
      "ss_authUDP demo_udp_lib demo_draws (pk_data demo_packet) c s1 = Some (s2, Inr (p, plain))" by auto
  have "pa_Out p = pa_Out demo_ss_relay" using s(5) by (metis truncate_sel(3))
  then have d: "\<exists>e. passage_dialer ?w 0 p no_dialers = (no_dialers, Inl e)"
    by (simp add: passage_dialer_def demo_ss_relay_def demo_world_def GetHeader_def zero_argument_def)
  from a d obtain st' e where g: "GetOrBuildUDPConn demo_udp_lib demo_draws ?w 0 demo_packet ?st = Some (st', UdpFailed e)"
    "us_mapping st' = fst (um_Insert ''1.2.3.4:5'' None NewUDPConnMapping)"
    by (auto simp: GetOrBuildUDPConn_def demo_udp_sel um_Get_def demo_packet_def NewUDPConnMapping_def Let_def)
  let ?y = "\<lparr>sy_state = ?st, sy_dialing = [], sy_relaying = []\<rparr>"
  have n: "um_nm (us_mapping (sy_state ?y)) (pk_lAddr demo_packet) = None"
    "um_nm (us_mapping st') (pk_lAddr demo_packet) \<noteq> None"
    by (simp_all add: NewUDPConnMapping_def demo_packet_def g(2) um_Insert_def Let_def)
  have start: "udp_start ?y" by (simp add: udp_start_def)
  have g': "GetOrBuildUDPConn demo_udp_lib demo_draws ?w 0 demo_packet (sy_state ?y) = Some (st', UdpFailed e)"
    using g(1) by simp
  from ss_udp_orphan [OF udp_steps.refl start g' n udp_steps.refl] s(1) g(1) show ?thesis
    by (auto simp: demo_packet_def)
qed

end
