(* ===== verification/Vmess_Server.thy ===== *)
theory Vmess_Server
  imports Context_Store Demo_World
begin

text \<open>
  The vmess server (\<open>server/vmess/server.go\<close>, \<open>tcp.go\<close>, \<open>user_context.go\<close>): passages with
  their command keys, the user contexts, authentication by the encrypted id of a connection, the
  handler with its tcp and udp branches, the manager's messages, registration. The UUIDs, the key
  derivation, the check of an id against the replay filter and the connection of the protocol library
  are fields of \<open>vm_lib\<close>; \<open>None\<close> is a panic.
\<close>

section \<open>The server\<close>

text \<open>\<open>vl_auth\<close> is \<open>AuthEAuthID\<close>, which may change the filter; \<open>vl_open\<close> is \<open>NewConn\<close> and the
  read of the header.\<close>

record ('b, 'k) vm_lib =
  vl_parse :: "string \<Rightarrow> go_err + bytes"
  vl_uuidString :: "bytes \<Rightarrow> string"
  vl_cmdKey :: "bytes \<Rightarrow> bytes"
  vl_block :: "bytes \<Rightarrow> 'k"
  vl_auth :: "'k \<Rightarrow> bytes \<Rightarrow> 'b \<Rightarrow> int \<Rightarrow> 'b \<times> go_err option"
  vl_open :: "bytes \<Rightarrow> bytes \<Rightarrow> bytes \<Rightarrow> go_err + metadata \<times> bytes"
  vl_readFrom :: "bytes \<Rightarrow> go_err + bytes \<times> string"
  vl_closest :: "nat \<Rightarrow> nat"
  vl_names :: proto_names
  vl_rnd :: "64 word \<Rightarrow> nat \<Rightarrow> bytes"
  vl_grpcEncode :: "bytes \<Rightarrow> string"

record 'k vmess_passage = passage +
  vp_inCmdKey :: bytes
  vp_outCmdKey :: bytes
  vp_inEAuthIDBlock :: 'k

record ('b, 'k) vmess_server =
  vs_protocol :: string
  vs_passages :: "'k vmess_passage list"
  vs_pool :: "'k vmess_passage ctx_pool"
  vs_filter :: 'b
  vs_startTimestamp :: int
  vs_arg :: server_argument
  vs_contention :: bool
  vs_lastAlive :: int

definition vm_New :: "'b \<Rightarrow> ('b, 'k) vmess_server" where
  "vm_New doubleCuckoo =
     \<lparr>vs_protocol = [], vs_passages = [], vs_pool = new_pool, vs_filter = doubleCuckoo, vs_startTimestamp = 0,
      vs_arg = \<lparr>sarg_Ticket = [], sarg_ServerName = [], sarg_Hostnames = [], sarg_Port = 0, sarg_NoRelay = False\<rparr>,
      vs_contention = False, vs_lastAlive = zeroTime\<rparr>"

section \<open>The passages\<close>

text \<open>A text that is no UUID stands for a new UUID.\<close>

definition vm_id :: "('b, 'k) vm_lib \<Rightarrow> string \<Rightarrow> string \<Rightarrow> bytes" where
  "vm_id L fresh s = (case vl_parse L s of Inl e \<Rightarrow> to_bytes fresh | Inr i \<Rightarrow> i)"

text \<open>\<open>LocalizePassages\<close>: up to three new UUIDs for each passage.\<close>

fun vm_localize_from :: "('b, 'k) vm_lib \<Rightarrow> (nat \<Rightarrow> string) \<Rightarrow> nat \<Rightarrow> bool \<Rightarrow> passage list \<Rightarrow> 'k vmess_passage list \<times> bool" where
  "vm_localize_from L gen i found [] = ([], found)"
| "vm_localize_from L gen i found (p # ps) =
     (let psg = (if pa_Manager p
                 then p\<lparr>pa_In := (pa_In p)\<lparr>arg_Password := vl_uuidString L (to_bytes (gen (3 * i)))\<rparr>, pa_Manager := \<not> found\<rparr>
                 else p);
          cmdKey = vl_cmdKey L (vm_id L (gen (3 * i + 1)) (arg_Password (pa_In psg)));
          outKey = (case pa_Out psg of
                      None \<Rightarrow> []
                    | Some out \<Rightarrow>
                        if arg_Protocol (out_Argument out) = pn_VMessTCP (vl_names L)
                        then vl_cmdKey L (vm_id L (gen (3 * i + 2)) (arg_Password (out_Argument out))) else []);
          (psgs, m) = vm_localize_from L gen (Suc i) (found \<or> pa_Manager p) ps
      in (passage.extend psg (vmess_passage.fields cmdKey outKey (vl_block L cmdKey)) # psgs, m))"

definition vm_LocalizePassages :: "('b, 'k) vm_lib \<Rightarrow> (nat \<Rightarrow> string) \<Rightarrow> passage list \<Rightarrow> 'k vmess_passage list \<times> bool" where
  "vm_LocalizePassages L gen passages = vm_localize_from L gen 0 False passages"

definition vm_addPassages :: "('b, 'k) vm_lib \<Rightarrow> draws \<Rightarrow> 'k vmess_passage list \<Rightarrow> ('b, 'k) vmess_server \<Rightarrow>
    ('b, 'k) vmess_server option" where
  "vm_addPassages L dr psgs s =
     (let s1 = s\<lparr>vs_passages := vs_passages s @ psgs\<rparr>; vals = stablePassageRefs psgs
      in map_option (\<lambda>p. s1\<lparr>vs_pool := p\<rparr>)
           (pool_update (dr_now dr) (ctx_insert (vl_closest L) vals) (dr_insert dr) 0
              (GetKeys (up_lru (vs_pool s1))) (vs_pool s1)))"

definition vm_removePassagesFunc :: "('b, 'k) vm_lib \<Rightarrow> draws \<Rightarrow> ('k vmess_passage \<Rightarrow> bool) \<Rightarrow> ('b, 'k) vmess_server \<Rightarrow>
    ('b, 'k) vmess_server option" where
  "vm_removePassagesFunc L dr f s =
     (let s1 = s\<lparr>vs_passages := remove_desc f (length (vs_passages s)) (vs_passages s)\<rparr>
      in map_option (\<lambda>p. s1\<lparr>vs_pool := p\<rparr>)
           (pool_update (dr_now dr) (ctx_removeFunc (vl_closest L) f) (dr_remove dr) 0
              (GetKeys (up_lru (vs_pool s1))) (vs_pool s1)))"

definition vm_AddPassages :: "('b, 'k) vm_lib \<Rightarrow> draws \<Rightarrow> passage list \<Rightarrow> ('b, 'k) vmess_server \<Rightarrow>
    (('b, 'k) vmess_server \<times> go_err option) option" where
  "vm_AddPassages L dr passages s =
     (let (us, managerKey) = vm_LocalizePassages L (dr_gen dr) passages
      in Option.bind (if managerKey then vm_removePassagesFunc L dr pa_Manager s else Some s) (\<lambda>s1.
           map_option (\<lambda>s2. (s2, None)) (vm_addPassages L dr us s1)))"

definition vm_RemovePassages :: "('b, 'k) vm_lib \<Rightarrow> (argument \<Rightarrow> string) \<Rightarrow> draws \<Rightarrow> passage list \<Rightarrow> bool \<Rightarrow>
    ('b, 'k) vmess_server \<Rightarrow> (('b, 'k) vmess_server \<times> go_err option) option" where
  "vm_RemovePassages L hash dr passages alsoManager s =
     (let keySet = removal_keys hash (fst (vm_LocalizePassages L (dr_gen dr) passages)) alsoManager
      in map_option (\<lambda>s1. (s1, None)) (vm_removePassagesFunc L dr (\<lambda>p. hash (pa_In p) \<in> keySet) s))"

definition vm_Passages :: "('b, 'k) vmess_server \<Rightarrow> passage list" where
  "vm_Passages s = map passage.truncate (vs_passages s)"

definition vm_SyncPassages :: "('b, 'k) vm_lib \<Rightarrow> (argument \<Rightarrow> string) \<Rightarrow> draws \<Rightarrow> passage list \<Rightarrow> ('b, 'k) vmess_server \<Rightarrow>
    (('b, 'k) vmess_server \<times> go_err option) option" where
  "vm_SyncPassages L hash dr passages s =
     SyncPassages hash vm_Passages (vm_RemovePassages L hash dr) (vm_AddPassages L dr) passages s"

section \<open>Registration\<close>

text \<open>The protocol that is neither of the two is left empty; the service name may panic.\<close>

definition vm_register :: "('b, 'k) vm_lib \<Rightarrow> draws \<Rightarrow> 'd world \<Rightarrow> ('b, 'k) vmess_server \<Rightarrow>
    (('b, 'k) vmess_server \<times> go_err option) option" where
  "vm_register L dr w s =
     (let manager = the_manager (vm_Passages s)
      in Option.bind (GenServiceName (vl_rnd L) (vl_grpcEncode L) (to_bytes (john_Ticket (params_John (env_params w))))) (\<lambda>name.
         let protocol = (if vs_protocol s = pn_VMessTCP (vl_names L) then ''vmess''
                         else if vs_protocol s = pn_VMessTlsGrpc (vl_names L) then ''vmess+tls+grpc'' else [])
         in Option.bind (register_call (env.truncate w) (vs_arg s)
             (zero_argument\<lparr>arg_Protocol := protocol, arg_Password := arg_Password (pa_In manager),
                arg_Method := ''serviceName='' @ name\<rparr>)) (\<lambda>r.
             case r of
               Inl e \<Rightarrow> Some (s, Some e)
             | Inr users \<Rightarrow> vm_SyncPassages L (wd_hash w) dr users (s\<lparr>vs_lastAlive := env_now w\<rparr>))))"

definition vm_reRegister :: "('b, 'k) vmess_server \<Rightarrow> ('b, 'k) vmess_server" where
  "vm_reRegister s = s\<lparr>vs_lastAlive := zeroTime\<rparr>"

definition vm_tick :: "('b, 'k) vm_lib \<Rightarrow> draws \<times> 'd world \<Rightarrow> int \<times> ('b, 'k) vmess_server \<Rightarrow>
    (int \<times> ('b, 'k) vmess_server) option" where
  "vm_tick L dw st =
     (let (dr, w) = dw; (interval, s) = st
      in if env_now w - vs_lastAlive s < LostThreshold then Some (interval, s)
         else map_option (\<lambda>(s', err). (next_interval (err \<noteq> None) interval, s')) (vm_register L dr w s))"

definition vm_NewJohn :: "('b, 'k) vm_lib \<Rightarrow> draws \<Rightarrow> 'd world \<Rightarrow> 'b \<Rightarrow> server_argument \<Rightarrow> string \<Rightarrow>
    (go_err + ('b, 'k) vmess_server) option" where
  "vm_NewJohn L dr w doubleCuckoo arg protocol =
     Option.bind (vm_AddPassages L dr [manager_passage]
        ((vm_New doubleCuckoo)\<lparr>vs_arg := arg, vs_contention := True, vs_protocol := protocol\<rparr>)) (\<lambda>(s, err).
      case err of Some e \<Rightarrow> Some (Inl e)
      | None \<Rightarrow> map_option (\<lambda>(s', err'). case err' of Some e \<Rightarrow> Inl e | None \<Rightarrow> Inr s') (vm_register L dr w s))"

text \<open>The name \<open>Listen\<close> serves the gRPC service under.\<close>

definition vm_serviceName :: "('b, 'k) vm_lib \<Rightarrow> 'd world \<Rightarrow> string option" where
  "vm_serviceName L w = map_option (vl_grpcEncode L) (RangeHash (vl_rnd L) (to_bytes (john_Ticket (params_John (env_params w)))) 3 12)"

section \<open>Making the server and listening\<close>

definition vm_NewJohnTCP :: "('b, 'k) vm_lib \<Rightarrow> draws \<Rightarrow> 'd world \<Rightarrow> 'b \<Rightarrow> server_argument \<Rightarrow> (go_err + ('b, 'k) vmess_server) option" where
  "vm_NewJohnTCP L dr w doubleCuckoo arg = vm_NewJohn L dr w doubleCuckoo arg (pn_VMessTCP (vl_names L))"

definition vm_NewJohnTlsGrpc :: "('b, 'k) vm_lib \<Rightarrow> draws \<Rightarrow> 'd world \<Rightarrow> 'b \<Rightarrow> server_argument \<Rightarrow> (go_err + ('b, 'k) vmess_server) option" where
  "vm_NewJohnTlsGrpc L dr w doubleCuckoo arg = vm_NewJohn L dr w doubleCuckoo arg (pn_VMessTlsGrpc (vl_names L))"

text \<open>How \<open>Listen\<close> serves the connections of its listener: itself, or by grpc for a host name whose
  certificate it obtains, under a service name.\<close>

datatype vm_serving = ServeTCP | ServeGrpc string string

definition vm_Listen :: "('b, 'k) vm_lib \<Rightarrow> 'd world \<Rightarrow> ('b, 'k) vmess_server \<Rightarrow> (go_err + vm_serving) option" where
  "vm_Listen L w s =
     (if vs_protocol s = pn_VMessTCP (vl_names L) then Some (Inr ServeTCP)
      else if vs_protocol s = pn_VMessTlsGrpc (vl_names L) then
        (case HostsToSNI (sarg_Hostnames (vs_arg s)) (lisa_Host (params_Lisa (env_params w))) of
           Inl e \<Rightarrow> Some (Inl e)
         | Inr sni \<Rightarrow> map_option (\<lambda>name. Inr (ServeGrpc sni name)) (vm_serviceName L w))
      else Some (Inl (Errorf ''unrecognized protocol'')))"

text \<open>An error of \<open>Accept\<close> ends the loop without an error if the listener was closed; else it goes on.\<close>

definition vm_accept_ends :: "go_err \<Rightarrow> bool" where
  "vm_accept_ends e = errors_Is e NetErrClosed"

text \<open>The getter of the certificate: a call of five seconds or more is taken for a renewal, whether it succeeds
  or not, and asks for a new registration.\<close>

definition vm_GetCertificate :: "bool \<Rightarrow> go_err + 'cert \<Rightarrow> ('b, 'k) vmess_server \<Rightarrow> ('b, 'k) vmess_server \<times> (go_err + 'cert)" where
  "vm_GetCertificate slow r s = (if slow then vm_reRegister s else s, r)"

text \<open>The ACME server listens at port 80; its end is fatal unless it was shut down. The manager of certificates
  keeps them in a directory and answers for the host name only.\<close>

record acme_config =
  ac_Cache :: string
  ac_Host :: string
  ac_Addr :: string

definition vm_acme :: "string \<Rightarrow> acme_config" where
  "vm_acme sni = \<lparr>ac_Cache = ''tls'', ac_Host = sni, ac_Addr = '':80''\<rparr>"

definition vm_acme_fatal :: "go_err option \<Rightarrow> bool" where
  "vm_acme_fatal r = (case r of None \<Rightarrow> False | Some e \<Rightarrow> \<not> errors_Is e HttpErrServerClosed)"

text \<open>The options of the grpc server, times in seconds.\<close>

record grpc_options =
  go_NextProtos :: "string list"
  go_MinTime :: nat
  go_PermitWithoutStream :: bool
  go_Time :: nat
  go_Timeout :: nat

definition vm_grpc_options :: grpc_options where
  "vm_grpc_options = \<lparr>go_NextProtos = [''h2''], go_MinTime = 30, go_PermitWithoutStream = True, go_Time = 60, go_Timeout = 10\<rparr>"

text \<open>What \<open>Listen\<close> returns when grpc has ended, and from its accept loop.\<close>

definition vm_serve_end :: "vm_serving \<Rightarrow> go_err option \<Rightarrow> go_err option" where
  "vm_serve_end how e = (case how of ServeTCP \<Rightarrow> None | ServeGrpc sni name \<Rightarrow> e)"

text \<open>The service is registered under the name it is served under, if there is a ticket.\<close>

lemma vm_service_registered:
  assumes "vm_Listen L w s = Some (Inr (ServeGrpc sni name))" and "john_Ticket (params_John (env_params w)) \<noteq> []"
  shows "GenServiceName (vl_rnd L) (vl_grpcEncode L) (to_bytes (john_Ticket (params_John (env_params w)))) = Some name"
  using assms
  by (auto simp: vm_Listen_def vm_serviceName_def GenServiceName_def split: if_splits sum.splits)

text \<open>A slow certificate makes the next tick register, whenever it comes.\<close>

lemma vm_renewal_registers:
  assumes "LostThreshold \<le> env_now w - zeroTime"
  shows "vm_tick L (dr, w) (interval, fst (vm_GetCertificate True r s)) =
    map_option (\<lambda>(s', err). (next_interval (err \<noteq> None) interval, s')) (vm_register L dr w (vm_reRegister s))"
  using assms by (simp add: vm_tick_def vm_GetCertificate_def vm_reRegister_def not_less)

section \<open>Authentication\<close>

text \<open>\<open>Auth\<close> of a user context with a probe that changes the state it closes over.\<close>

fun vm_probe_loop :: "('p \<Rightarrow> 'st \<Rightarrow> 'st \<times> bool) \<Rightarrow> arr \<Rightarrow> 'st \<Rightarrow> 'p lrulist \<Rightarrow> ('p lrulist \<times> 'st \<times> 'p option) option" where
  "vm_probe_loop probe [] st l = Some (l, st, None)"
| "vm_probe_loop probe (x # xs) st l =
     (case x of
        None \<Rightarrow> None
      | Some p \<Rightarrow>
          if length (ls_nodes l) \<le> p then None
          else let server = wn_Val (ls_nodes l ! p)
               in (case probe server st of
                     (st', True) \<Rightarrow> Some (ls_Promote p l, st', Some server)
                   | (st', False) \<Rightarrow> vm_probe_loop probe xs st' l))"

definition vm_ctx_Auth :: "(nat \<Rightarrow> nat) \<Rightarrow> bool \<Rightarrow> ('p \<Rightarrow> 'st \<Rightarrow> 'st \<times> bool) \<Rightarrow> 'st \<Rightarrow> 'p lrulist \<Rightarrow>
    ('p lrulist \<times> 'st \<times> 'p option) option" where
  "vm_ctx_Auth getClosestN pick probe st ctx =
     Option.bind (GetListCopy getClosestN pick ctx) (\<lambda>(l, listCopy, n).
     Option.bind (vm_probe_loop probe (take n listCopy) st l) (\<lambda>(l', st', hit).
       Some (DestroyListCopy listCopy l', st', hit)))"

text \<open>The probe of \<open>authFromPool\<close> leaves its error in the variable of the function.\<close>

definition vm_probe :: "('b, 'k) vm_lib \<Rightarrow> bytes \<Rightarrow> int \<Rightarrow> 'k vmess_passage \<Rightarrow> 'b \<times> go_err option \<Rightarrow>
    ('b \<times> go_err option) \<times> bool" where
  "vm_probe L eAuthID startTimestamp p st =
     (case vl_auth L (vp_inEAuthIDBlock p) eAuthID (fst st) startTimestamp of
        (b, err) \<Rightarrow> ((b, err), err = None))"

definition vm_authFromPool :: "('b, 'k) vm_lib \<Rightarrow> draws \<Rightarrow> string \<Rightarrow> bytes \<Rightarrow> ('b, 'k) vmess_server \<Rightarrow>
    (('b, 'k) vmess_server \<times> (go_err + 'k vmess_passage \<times> bytes \<times> bytes)) option" where
  "vm_authFromPool L dr userIP conn s =
     (case readFull 16 conn of
        Inl e \<Rightarrow> Some (s, Inl e)
      | Inr (eAuthID, rest) \<Rightarrow>
          Option.bind (GetUserContextOrInsert (vl_closest L) (dr_now dr) (dr_now2 dr) (vs_passages s) userIP (vs_pool s)) (\<lambda>(p, a).
          Option.bind (vm_ctx_Auth (vl_closest L) (dr_pick dr) (vm_probe L eAuthID (vs_startTimestamp s)) (vs_filter s, None)
              (up_ctxs p ! a)) (\<lambda>(ctx, (b, err), hit).
            let s1 = s\<lparr>vs_pool := p\<lparr>up_ctxs := (up_ctxs p)[a := ctx]\<rparr>, vs_filter := b\<rparr>
            in Some (s1,
                 if (case err of None \<Rightarrow> False | Some e \<Rightarrow> errors_Is e ErrReplayAttack \<or> errors_Is e ErrFailAuth)
                 then Inl (the err)
                 else (case hit of
                         None \<Rightarrow> Inl (Wrapped ''not found'' ErrFailAuth)
                       | Some h \<Rightarrow> Inr (h, eAuthID, rest))))))"

definition vm_ContentionCheck :: "(argument \<Rightarrow> string) \<Rightarrow> bool \<Rightarrow> bytes \<Rightarrow> 'k vmess_passage \<Rightarrow> go_err option" where
  "vm_ContentionCheck hash cache thisIP p =
     (if \<not> cache then None
      else let contentionDuration = ProtectTime (passage_Use p)
           in if 0 < contentionDuration \<and> \<not> fst (contention_Check (hash (pa_In p)) contentionDuration thisIP)
              then Some (Wrapped ''contention detected'' ErrPassageAbuse) else None)"

section \<open>Connections\<close>

definition vm_handleMsg :: "('b, 'k) vm_lib \<Rightarrow> draws \<Rightarrow> 'd world \<Rightarrow> metadata \<Rightarrow> 'k vmess_passage \<Rightarrow> bytes \<Rightarrow> writer \<Rightarrow>
    ('b, 'k) vmess_server \<Rightarrow> (('b, 'k) vmess_server \<times> writer \<times> go_err option) option" where
  "vm_handleMsg L dr w reqMetadata p conn out s =
     framed_handleMsg w (\<lambda>t s. s\<lparr>vs_lastAlive := t\<rparr>) (vm_SyncPassages L (wd_hash w) dr) reqMetadata (pa_Manager p) conn out s"

text \<open>\<open>handleConn\<close> up to the dialing. For a datagram the address to dial is the one of the first packet.\<close>

definition unexpected_network :: go_err where
  "unexpected_network = Errorf ''unexpected instruction cmd''"

definition vm_handleConn :: "('b, 'k) vm_lib \<Rightarrow> draws \<Rightarrow> 'd world \<Rightarrow> 'd \<Rightarrow> string \<Rightarrow> bytes \<Rightarrow> bytes \<Rightarrow> writer \<Rightarrow>
    'd dialers \<times> ('b, 'k) vmess_server \<Rightarrow>
    (('d dialers \<times> ('b, 'k) vmess_server) \<times> writer \<times> bytes \<times> 'd handled) option" where
  "vm_handleConn L dr w dialer userIP ip conn out st =
     (let (cache, s) = st
      in Option.bind (vm_authFromPool L dr userIP conn s) (\<lambda>(s1, r).
         case r of
           Inl e \<Rightarrow> Some ((cache, s1), out, drain w (drop 16 conn), Returned (Some (Wrapped ''auth fail'' e)))
         | Inr (p, eAuthID, conn1) \<Rightarrow>
             (case vm_ContentionCheck (wd_hash w) (vs_contention s1) ip p of
                Some e \<Rightarrow> Some ((cache, s1), out, drain w conn1, Returned (Some e))
              | None \<Rightarrow>
                  (case vl_open L (vp_inCmdKey p) eAuthID conn1 of
                     Inl e \<Rightarrow> Some ((cache, s1), out, [], Returned (Some e))
                   | Inr (m, rest) \<Rightarrow>
                       if md_IsMsg m then
                         map_option (\<lambda>(s2, out', err). ((cache, s2), out', [], Returned err)) (vm_handleMsg L dr w m p rest out s1)
                       else if pa_Manager p then Some ((cache, s1), out, [], Returned (Some manager_abuse))
                       else (case passage_dialer w dialer p cache of
                               (cache', Inl e) \<Rightarrow> Some ((cache', s1), out, [], Returned (Some e))
                             | (cache', Inr d) \<Rightarrow>
                                 Some ((cache', s1), out, [],
                                   if md_Network m = ''tcp'' then Relay d ''tcp'' (md_target m)
                                   else if md_Network m = ''udp'' then
                                     (case vl_readFrom L rest of
                                        Inl e \<Rightarrow> Returned (Some (Wrapped ''ReadFrom'' e))
                                      | Inr (packet, addr) \<Rightarrow> Relay d ''udp'' addr)
                                   else Returned (Some unexpected_network)))))))"

definition vm_tcpResult :: "go_err + (go_err option \<times> go_err option) \<Rightarrow> go_err option" where
  "vm_tcpResult r = relay_result True ''relay error'' r"

text \<open>\<open>relayConnToUDP\<close> and \<open>relayUoT\<close>, given the error \<open>e\<close> of \<open>RelayUDPToConn\<close>: after a
  time-out the error of the other direction counts.\<close>

definition vm_relayConnToUDP :: "('w \<Rightarrow> bytes \<Rightarrow> string \<Rightarrow> 'w \<times> go_err option) \<Rightarrow> ('a \<Rightarrow> string) \<Rightarrow> nat \<Rightarrow>
    'w \<Rightarrow> (bytes \<times> 'a) list \<Rightarrow> go_err \<Rightarrow> 'w \<times> go_err" where
  "vm_relayConnToUDP wr show MaxUDPSize w src end_err =
     relay_packets (\<lambda>w p a. wr w p (show a)) MaxUDPSize w src end_err"

definition vm_relayUoT :: "go_err option \<Rightarrow> go_err option \<Rightarrow> go_err option" where
  "vm_relayUoT e eCh =
     (case e of
        Some err \<Rightarrow> if is_net_timeout err then eCh else Some err
      | None \<Rightarrow> eCh)"

text \<open>The udp branch after the first packet was read: the results of the dial, of the write, and of
  the two directions.\<close>

definition vm_udpResult :: "go_err + (go_err + (go_err option \<times> go_err option)) \<Rightarrow> go_err option" where
  "vm_udpResult r =
     (case r of
        Inl e \<Rightarrow> if is_net_timeout e then None else Some (Wrapped ''Dial'' e)
      | Inr (Inl e) \<Rightarrow> Some (Wrapped ''WriteTo'' e)
      | Inr (Inr (e, eCh)) \<Rightarrow>
          (case vm_relayUoT e eCh of
             None \<Rightarrow> None
           | Some e \<Rightarrow> if errors_Is e IoEOF \<or> is_net_timeout e then None else Some (Wrapped ''relay error'' e)))"

end
