(* ===== verification/Vmess_Contexts.thy ===== *)
theory Vmess_Contexts
  imports Vmess_Server
begin

text \<open>
  The vmess server keeps its promises: it is a store of passages with contexts that follow it, and
  authentication accepts a connection only as a stored passage that vouches for its id.
\<close>

section \<open>The store\<close>

lemma vm_extend_sel [simp]:
  "pa_Manager (passage.extend p (vmess_passage.fields k o' b)) = pa_Manager p"
  "pa_In (passage.extend p (vmess_passage.fields k o' b)) = pa_In p"
  "vp_inCmdKey (passage.extend p (vmess_passage.fields k o' b)) = k"
  "vp_inEAuthIDBlock (passage.extend p (vmess_passage.fields k o' b)) = b"
  "passage.truncate (passage.extend p (vmess_passage.fields k o' b)) = p"
  by (cases p; simp add: passage.extend_def passage.truncate_def vmess_passage.fields_def)+

text \<open>The keys of a passage are those of its UUID, where its password is one.\<close>

definition vm_own :: "('b, 'k) vm_lib \<Rightarrow> 'k vmess_passage \<Rightarrow> bool" where
  "vm_own L p \<longleftrightarrow> (\<forall>i. vl_parse L (arg_Password (pa_In p)) = Inr i \<longrightarrow>
     vp_inCmdKey p = vl_cmdKey L i \<and> vp_inEAuthIDBlock p = vl_block L (vl_cmdKey L i))"

lemma vm_localize_Cons:
  "\<exists>psg k o'. vm_localize_from L gen i found (p # ps) =
      (passage.extend psg (vmess_passage.fields k o' (vl_block L k)) # fst (vm_localize_from L gen (Suc i) (found \<or> pa_Manager p) ps),
       snd (vm_localize_from L gen (Suc i) (found \<or> pa_Manager p) ps)) \<and>
    pa_Manager psg = (pa_Manager p \<and> \<not> found) \<and> (\<not> pa_Manager p \<longrightarrow> psg = p) \<and>
    (\<forall>i. vl_parse L (arg_Password (pa_In psg)) = Inr i \<longrightarrow> k = vl_cmdKey L i)"
proof -
  let ?psg = "if pa_Manager p
    then p\<lparr>pa_In := (pa_In p)\<lparr>arg_Password := vl_uuidString L (to_bytes (gen (3 * i)))\<rparr>, pa_Manager := \<not> found\<rparr> else p"
  let ?k = "vl_cmdKey L (vm_id L (gen (3 * i + 1)) (arg_Password (pa_In ?psg)))"
  let ?o = "case pa_Out ?psg of
      None \<Rightarrow> []
    | Some out \<Rightarrow>
        if arg_Protocol (out_Argument out) = pn_VMessTCP (vl_names L)
        then vl_cmdKey L (vm_id L (gen (3 * i + 2)) (arg_Password (out_Argument out))) else []"
  have "vm_localize_from L gen i found (p # ps) =
      (passage.extend ?psg (vmess_passage.fields ?k ?o (vl_block L ?k)) # fst (vm_localize_from L gen (Suc i) (found \<or> pa_Manager p) ps),
       snd (vm_localize_from L gen (Suc i) (found \<or> pa_Manager p) ps))"
    unfolding vm_localize_from.simps Let_def by (simp only: split: prod.split) simp
  then show ?thesis by (intro exI [of _ ?psg] exI [of _ ?k] exI [of _ ?o] conjI) (simp_all add: vm_id_def)
qed

lemma vm_localize_managers:
  assumes "vm_localize_from L gen i found ps = (us, m)"
  shows "m = (found \<or> \<not> list_all (\<lambda>p. \<not> pa_Manager p) ps) \<and>
    length (filter pa_Manager us) = (if m \<and> \<not> found then 1 else 0)"
  using assms
proof (induction ps arbitrary: i found us m)
  case (Cons p ps)
  obtain psg k o' where c: "vm_localize_from L gen i found (p # ps) =
      (passage.extend psg (vmess_passage.fields k o' (vl_block L k)) # fst (vm_localize_from L gen (Suc i) (found \<or> pa_Manager p) ps),
       snd (vm_localize_from L gen (Suc i) (found \<or> pa_Manager p) ps))" "pa_Manager psg = (pa_Manager p \<and> \<not> found)"
    using vm_localize_Cons [of L gen i found p ps] by blast
  from Cons.IH [of "Suc i" "found \<or> pa_Manager p", OF surjective_pairing] Cons.prems c show ?case by auto
qed simp

lemma vm_localize_ok:
  assumes "vm_localize_from L gen i found ps = (us, m)"
  shows "list_all (vm_own L) us \<and>
    (list_all (\<lambda>p. \<not> pa_Manager p) ps \<longrightarrow> map passage.truncate us = ps) \<and>
    (length (filter pa_Manager ps) \<le> (if found then 0 else 1) \<longrightarrow>
       pa_In ` {p \<in> set us. \<not> pa_Manager p} = pa_In ` {p \<in> set ps. \<not> pa_Manager p})"
  using assms
proof (induction ps arbitrary: i found us m)
  case (Cons p ps)
  obtain psg k o' where c: "vm_localize_from L gen i found (p # ps) =
      (passage.extend psg (vmess_passage.fields k o' (vl_block L k)) # fst (vm_localize_from L gen (Suc i) (found \<or> pa_Manager p) ps),
       snd (vm_localize_from L gen (Suc i) (found \<or> pa_Manager p) ps))" "pa_Manager psg = (pa_Manager p \<and> \<not> found)"
      "\<not> pa_Manager p \<longrightarrow> psg = p" "\<forall>i. vl_parse L (arg_Password (pa_In psg)) = Inr i \<longrightarrow> k = vl_cmdKey L i"
    using vm_localize_Cons [of L gen i found p ps] by blast
  let ?u = "passage.extend psg (vmess_passage.fields k o' (vl_block L k))"
  define qs where "qs = fst (vm_localize_from L gen (Suc i) (found \<or> pa_Manager p) ps)"
  have us: "us = ?u # qs" using Cons.prems c(1) by (simp add: qs_def)
  have own: "vm_own L ?u" using c(4) by (simp add: vm_own_def)
  from Cons.IH [of "Suc i" "found \<or> pa_Manager p", OF surjective_pairing] have
    ih: "list_all (vm_own L) qs" "list_all (\<lambda>p. \<not> pa_Manager p) ps \<longrightarrow> map passage.truncate qs = ps"
      "length (filter pa_Manager ps) \<le> (if found \<or> pa_Manager p then 0 else 1) \<longrightarrow>
       pa_In ` {p \<in> set qs. \<not> pa_Manager p} = pa_In ` {p \<in> set ps. \<not> pa_Manager p}" unfolding qs_def by auto
  have "pa_In ` {q \<in> set us. \<not> pa_Manager q} = pa_In ` {q \<in> set (p # ps). \<not> pa_Manager q}"
    if l: "length (filter pa_Manager (p # ps)) \<le> (if found then 0 else 1)"
  proof (cases "pa_Manager p")
    case True
    then have "\<not> found" "length (filter pa_Manager ps) \<le> 0" using l by (cases found; simp)+
    with ih(3) True c(2) show ?thesis unfolding us collect_Cons by simp
  next
    case False
    with ih(3) l c(2,3) show ?thesis unfolding us collect_Cons by simp
  qed
  with own ih(1,2) c(3) us show ?case by (auto simp: list_all_iff)
qed simp

interpretation vm_contexts: context_store vs_passages vs_pool "vl_closest L" "vm_addPassages L" "vm_removePassagesFunc L"
  "\<lambda>gen ps. Some (vm_LocalizePassages L gen ps)" "vm_AddPassages L" "vm_RemovePassages L hash" hash "\<lambda>_. True" "vm_own L"
  for L :: "('b, 'k) vm_lib" and hash
proof unfold_locales
  fix dr :: draws and us :: "'k vmess_passage list" and s :: "('b, 'k) vmess_server" and q
  assume "pool_update (dr_now dr) (ctx_insert (vl_closest L) us) (dr_insert dr) 0 (GetKeys (up_lru (vs_pool s))) (vs_pool s) = Some q"
  then show "\<exists>s'. vm_addPassages L dr us s = Some s' \<and> vs_passages s' = vs_passages s @ us \<and> vs_pool s' = q"
    by (simp add: vm_addPassages_def)
next
  fix dr :: draws and f and s :: "('b, 'k) vmess_server" and q
  assume "pool_update (dr_now dr) (ctx_removeFunc (vl_closest L) f) (dr_remove dr) 0 (GetKeys (up_lru (vs_pool s))) (vs_pool s) = Some q"
  then show "\<exists>s'. vm_removePassagesFunc L dr f s = Some s' \<and> vs_passages s' = filter (\<lambda>p. \<not> f p) (vs_passages s) \<and> vs_pool s' = q"
    by (simp add: vm_removePassagesFunc_def remove_desc_all)
next
  fix gen ps us m
  assume "Some (vm_LocalizePassages L gen ps) = Some (us, m)"
  then have "vm_localize_from L gen 0 False ps = (us, m)" by (simp add: vm_LocalizePassages_def)
  from vm_localize_managers [OF this]
  show "m = (\<not> list_all (\<lambda>p. \<not> pa_Manager p) ps) \<and> length (filter pa_Manager us) = (if m then 1 else 0)" by simp
next
  fix ps gen
  from vm_localize_ok [of L gen 0 False ps, OF surjective_pairing]
  show "\<exists>us m. Some (vm_LocalizePassages L gen ps) = Some (us, m) \<and> list_all (vm_own L) us \<and>
    (list_all (\<lambda>p. \<not> pa_Manager p) ps \<longrightarrow> map passage.truncate us = ps) \<and>
    (length (filter pa_Manager ps) \<le> 1 \<longrightarrow>
       pa_In ` {p \<in> set us. \<not> pa_Manager p} = pa_In ` {p \<in> set ps. \<not> pa_Manager p})"
    unfolding vm_LocalizePassages_def option.inject by (intro exI) (rule conjI [OF surjective_pairing], simp)
qed (simp_all add: vm_AddPassages_def vm_RemovePassages_def Let_def split: prod.splits)

interpretation vm_alive: keepalive "vm_tick L" "\<lambda>dw. vm_register L (fst dw) (snd dw)" vs_lastAlive
  "\<lambda>dw. env_now (snd dw)" for L
  by unfold_locales (auto simp: vm_tick_def split: prod.splits)

definition vm_ok :: "('b, 'k) vm_lib \<Rightarrow> ('b, 'k) vmess_server \<Rightarrow> bool" where
  "vm_ok L s \<longleftrightarrow> contexts_follow (vl_closest L) (vs_passages s) (vs_pool s) \<and> list_all (vm_own L) (vs_passages s)"

lemma vm_add:
  assumes "vm_ok L s"
  shows "\<exists>s'. vm_AddPassages L dr ps s = Some (s', None) \<and> vm_ok L s' \<and>
    (list_all (\<lambda>p. \<not> pa_Manager p) ps \<longrightarrow> vm_Passages s' = vm_Passages s @ ps)"
  using vm_contexts.store_add [OF assms [unfolded vm_ok_def] list_all_any]
  unfolding vm_ok_def vm_Passages_def by blast

section \<open>Authentication\<close>

lemma vm_probe_loop_ok:
  assumes "\<forall>x \<in> set xs. weight_at l x \<noteq> None"
  shows "\<exists>l' st' hit. vm_probe_loop probe xs st l = Some (l', st', hit) \<and> (l' = l \<or> (\<exists>p. l' = ls_Promote p l)) \<and>
    (case hit of
       Some v \<Rightarrow> v \<in> set (map (\<lambda>x. wn_Val (ls_nodes l ! the x)) xs) \<and> (\<exists>st1. probe v st1 = (st', True))
     | None \<Rightarrow> (xs = [] \<and> st' = st \<or> (\<exists>v st1. probe v st1 = (st', False))) \<and>
         (\<forall>v \<in> set (map (\<lambda>x. wn_Val (ls_nodes l ! the x)) xs). \<exists>st1. \<not> snd (probe v st1)))"
  using assms
proof (induction xs arbitrary: st)
  case (Cons x xs)
  then have "weight_at l x \<noteq> None" by simp
  then obtain p where p: "x = Some p" "p < length (ls_nodes l)" by (auto simp only: weight_at_Some)
  let ?v = "wn_Val (ls_nodes l ! p)"
  obtain st1 ok where pr: "probe ?v st = (st1, ok)" by fastforce
  show ?case
  proof (cases ok)
    case True
    with p pr show ?thesis by auto
  next
    case False
    from Cons.IH [of st1] Cons.prems obtain l' st' hit where
      ih: "vm_probe_loop probe xs st1 l = Some (l', st', hit)" "l' = l \<or> (\<exists>p. l' = ls_Promote p l)"
        "case hit of
           Some v \<Rightarrow> v \<in> set (map (\<lambda>x. wn_Val (ls_nodes l ! the x)) xs) \<and> (\<exists>st1. probe v st1 = (st', True))
         | None \<Rightarrow> (xs = [] \<and> st' = st1 \<or> (\<exists>v st1. probe v st1 = (st', False))) \<and>
             (\<forall>v \<in> set (map (\<lambda>x. wn_Val (ls_nodes l ! the x)) xs). \<exists>st1. \<not> snd (probe v st1))" by auto
    have r: "vm_probe_loop probe (x # xs) st l = Some (l', st', hit)" using p pr False ih(1) by simp
    show ?thesis
    proof (cases hit)
      case None
      have "\<exists>st1. \<not> snd (probe ?v st1)" using pr False by (intro exI [of _ st]) simp
      with r ih(2,3) None p pr False show ?thesis
        by (intro exI [of _ l'] exI [of _ st'] exI [of _ hit] conjI) auto
    next
      case (Some v)
      with r ih(2,3) p show ?thesis
        by (intro exI [of _ l'] exI [of _ st'] exI [of _ hit] conjI) auto
    qed
  qed
qed simp

lemma vm_ctx_Auth_ok:
  assumes ok: "open_ctx l" and f: "\<And>n. n \<le> 2 ^ f n"
  shows "\<exists>l' st' hit. vm_ctx_Auth f pick probe st l = Some (l', st', hit) \<and> open_ctx l' \<and> passages_of l' = passages_of l \<and>
    (case hit of
       Some v \<Rightarrow> v \<in> set (passages_of l) \<and> (\<exists>st1. probe v st1 = (st', True))
     | None \<Rightarrow> (passages_of l = [] \<and> st' = st \<or> (\<exists>v st1. probe v st1 = (st', False))) \<and>
         (\<forall>v \<in> set (passages_of l). \<exists>st1. \<not> snd (probe v st1)))"
proof -
  have ok': "ls_ok l" using ok by (simp add: open_ctx_def)
  then have "pool_ok (ls_pool l)" by (simp add: ls_ok_def)
  from gp_Get_ok [of "ls_pool l" "ls_len l" f pick, OF this f] obtain p a where
    g: "gp_Get f pick (ls_len l) (ls_pool l) = Some (p, a)" "pool_ok p" by blast
  define l1 where "l1 = l\<lparr>ls_pool := p\<rparr>"
  have same: "ls_list l1 = ls_list l" "ls_nodes l1 = ls_nodes l" "weight_at l1 = weight_at l" "ls_stopped l1 = ls_stopped l"
    by (simp_all add: l1_def ls_list_def fun_eq_iff)
  have o1: "open_ctx l1" using ok g(2) unfolding open_ctx_def ls_ok_def same by (simp add: l1_def)
  have "\<forall>x \<in> set (ls_list l). weight_at l1 x \<noteq> None" using ok' by (simp add: ls_ok_def same)
  from vm_probe_loop_ok [OF this, of probe st] obtain l2 st' hit where
    p: "vm_probe_loop probe (ls_list l) st l1 = Some (l2, st', hit)" "l2 = l1 \<or> (\<exists>p. l2 = ls_Promote p l1)"
      "case hit of
         Some v \<Rightarrow> v \<in> set (passages_of l) \<and> (\<exists>st1. probe v st1 = (st', True))
       | None \<Rightarrow> (ls_list l = [] \<and> st' = st \<or> (\<exists>v st1. probe v st1 = (st', False))) \<and>
           (\<forall>v \<in> set (passages_of l). \<exists>st1. \<not> snd (probe v st1))"
    unfolding passages_of_def same by blast
  have "passages_of l1 = passages_of l" by (simp add: passages_of_def same)
  then have l2: "open_ctx l2" "passages_of l2 = passages_of l"
    using p(2) o1 ls_ok_Promote by (auto simp: passages_Promote Promote_keeps open_ctx_def)
  let ?copy = "ls_list l @ drop (ls_len l) a"
  have "take (ls_len l) ?copy = ls_list l" using length_ls_list [OF ok'] by simp
  then have "vm_ctx_Auth f pick probe st l = Some (DestroyListCopy ?copy l2, st', hit)"
    using g(1) p(1) by (simp add: vm_ctx_Auth_def GetListCopy_def l1_def)
  moreover have "open_ctx (DestroyListCopy ?copy l2)" "passages_of (DestroyListCopy ?copy l2) = passages_of l2"
    using l2(1) gp_Put_ok [of "ls_pool l2"]
    by (simp_all add: DestroyListCopy_def open_ctx_def ls_ok_def ls_list_def passages_of_def)
  moreover have "passages_of l = [] \<longleftrightarrow> ls_list l = []" by (simp add: passages_of_def)
  ultimately show ?thesis using l2(2) p(3)
    by (intro exI [of _ "DestroyListCopy ?copy l2"] exI [of _ st'] exI [of _ hit]) (cases hit; simp)
qed

text \<open>What a probe that hits, or misses, says of the library's answer.\<close>

lemma vm_probe_hit:
  assumes "vm_probe L eid t v st1 = ((b, err), True)"
  shows "err = None \<and> (\<exists>b0 b1. vl_auth L (vp_inEAuthIDBlock v) eid b0 t = (b1, None))"
proof -
  obtain b1 e1 where "vl_auth L (vp_inEAuthIDBlock v) eid (fst st1) t = (b1, e1)" by fastforce
  with assms show ?thesis by (auto simp: vm_probe_def)
qed

lemma vm_probe_fails:
  "\<not> snd (vm_probe L eid t v st1) \<Longrightarrow> \<exists>b. snd (vl_auth L (vp_inEAuthIDBlock v) eid b t) \<noteq> None"
  by (intro exI [of _ "fst st1"]) (simp add: vm_probe_def split: prod.splits)

text \<open>Authentication over the context of an address: the context is found or made, all passages are in
  it, and the pool stays as it should be.\<close>

lemma vm_pool_auth:
  assumes "vm_ok L s" and "dr_now2 dr - dr_now dr < contextTimeout"
  obtains q a l' b err hit where
    "GetUserContextOrInsert (vl_closest L) (dr_now dr) (dr_now2 dr) (vs_passages s) ip (vs_pool s) = Some (q, a)"
    "vm_ctx_Auth (vl_closest L) (dr_pick dr) (vm_probe L eid (vs_startTimestamp s)) (vs_filter s, None) (up_ctxs q ! a) =
       Some (l', (b, err), hit)"
    "vm_ok L (s\<lparr>vs_pool := q\<lparr>up_ctxs := (up_ctxs q)[a := l']\<rparr>, vs_filter := b\<rparr>)"
    "case hit of
       Some v \<Rightarrow> v \<in> set (vs_passages s) \<and> (\<exists>st1. vm_probe L eid (vs_startTimestamp s) v st1 = ((b, err), True))
     | None \<Rightarrow> (vs_passages s = [] \<and> err = None \<or> (\<exists>v st1. vm_probe L eid (vs_startTimestamp s) v st1 = ((b, err), False))) \<and>
         (\<forall>v \<in> set (vs_passages s). \<exists>st1. \<not> snd (vm_probe L eid (vs_startTimestamp s) v st1))"
proof -
  let ?probe = "vm_probe L eid (vs_startTimestamp s)"
  have inv: "contexts_follow (vl_closest L) (vs_passages s) (vs_pool s)" using assms(1) by (simp add: vm_ok_def)
  from contexts_follow_lookup [OF inv assms(2), of ip] obtain q a where
    q: "GetUserContextOrInsert (vl_closest L) (dr_now dr) (dr_now2 dr) (vs_passages s) ip (vs_pool s) = Some (q, a)"
      "contexts_follow (vl_closest L) (vs_passages s) q" "holds_passages (vs_passages s) (up_ctxs q ! a)" by blast
  let ?l = "up_ctxs q ! a"
  have ps: "set (passages_of ?l) = set (vs_passages s)" using q(3) unfolding holds_passages_def by (metis set_mset_mset)
  have e: "passages_of ?l = [] \<longleftrightarrow> vs_passages s = []" by (metis ps set_empty)
  have "open_ctx ?l" using q(3) by (simp add: holds_passages_def)
  from vm_ctx_Auth_ok [OF this contexts_followD(1) [OF inv], of "dr_pick dr" ?probe "(vs_filter s, None)"]
  obtain l' st' hit where h0:
    "vm_ctx_Auth (vl_closest L) (dr_pick dr) ?probe (vs_filter s, None) ?l = Some (l', st', hit)"
      "open_ctx l'" "passages_of l' = passages_of ?l"
      "case hit of
         Some v \<Rightarrow> v \<in> set (passages_of ?l) \<and> (\<exists>st1. ?probe v st1 = (st', True))
       | None \<Rightarrow> (passages_of ?l = [] \<and> st' = (vs_filter s, None) \<or> (\<exists>v st1. ?probe v st1 = (st', False))) \<and>
           (\<forall>v \<in> set (passages_of ?l). \<exists>st1. \<not> snd (?probe v st1))"
    by blast
  obtain b err where st: "st' = (b, err)" by (cases st')
  have "holds_passages (vs_passages s) l'" using q(3) h0(2,3) by (simp add: holds_passages_def)
  from contexts_follow_replace [OF q(2) this, of a] assms(1)
  have ok: "vm_ok L (s\<lparr>vs_pool := q\<lparr>up_ctxs := (up_ctxs q)[a := l']\<rparr>, vs_filter := b\<rparr>)" by (simp add: vm_ok_def)
  show ?thesis
    using that [OF q(1) h0(1) [unfolded st] ok] h0(4) unfolding ps e st by (auto split: option.splits)
qed


definition demo_vm_lib :: "(unit, bytes) vm_lib" where
  "demo_vm_lib = \<lparr>vl_parse = (\<lambda>s. Inr (to_bytes s)), vl_uuidString = of_bytes, vl_cmdKey = (\<lambda>b. b), vl_block = (\<lambda>b. b),
     vl_auth = (\<lambda>k eid b t. (b, if take (length k) eid = k then None else Some ErrFailAuth)),
     vl_open = (\<lambda>k e c. Inl IoEOF), vl_readFrom = (\<lambda>b. Inl IoEOF), vl_closest = (\<lambda>n. n), vl_names = wd_names demo_world,
     vl_rnd = (\<lambda>s n. []), vl_grpcEncode = of_bytes\<rparr>"


end
