(* ===== verification/Juicity_Server.thy ===== *)
theory Juicity_Server
  imports Demo_World
begin

text \<open>
  The juicity server (\<open>server/juicity/server.go\<close>, \<open>dataplane.go\<close>, \<open>uot.go\<close>): the passages and
  the map from UUIDs, authentication of a QUIC connection on its first uni-directional stream, the
  handler of a stream that waits for it, the manager's messages, registration and the life cycle. The
  framing of tuic, the token of a TLS connection, the header of a stream and the parser of UUIDs are
  fields of \<open>ju_lib\<close>. The lemmas show which passages the map leads to.
\<close>

section \<open>The server\<close>

definition ErrUnexpectedVersion :: go_err where
  "ErrUnexpectedVersion = Errorf ''unexpected version''"

definition ErrUnexpectedCmdType :: go_err where
  "ErrUnexpectedCmdType = Errorf ''unexpected cmd type''"

definition ErrAuthenticationFailed :: go_err where
  "ErrAuthenticationFailed = Errorf ''authentication failed''"

definition ManagerUuid :: string where
  "ManagerUuid = ''00000000-0000-0000-0000-000000000000''"

text \<open>\<open>uuid.Parse\<close> returns a UUID with its error. \<open>jl_genToken\<close> is \<open>GenToken\<close> for the state of
  the connection.\<close>

record ju_lib =
  jl_parse :: "string \<Rightarrow> bytes \<times> go_err option"
  jl_Version0 :: byte
  jl_AuthenticateType :: byte
  jl_readHead :: "bytes \<Rightarrow> go_err + byte \<times> bytes"
  jl_readAuth :: "bytes \<Rightarrow> go_err + (bytes \<times> bytes) \<times> bytes"
  jl_genToken :: "bytes \<Rightarrow> string \<Rightarrow> go_err + bytes"
  jl_open :: "bytes \<Rightarrow> go_err + metadata \<times> bytes"
  jl_readFrom :: "bytes \<Rightarrow> go_err + bytes \<times> string"

record ju_passage = passage +
  jp_uuid :: bytes

record ju_server =
  ju_passages :: "ju_passage list"
  ju_users :: "bytes \<rightharpoonup> ju_passage"
  ju_arg :: server_argument
  ju_pinned :: string
  ju_contention :: bool
  ju_lastAlive :: int

definition ju_New :: ju_server where
  "ju_New =
     \<lparr>ju_passages = [], ju_users = Map.empty,
      ju_arg = \<lparr>sarg_Ticket = [], sarg_ServerName = [], sarg_Hostnames = [], sarg_Port = 0, sarg_NoRelay = False\<rparr>,
      ju_pinned = [], ju_contention = False, ju_lastAlive = zeroTime\<rparr>"

section \<open>The passages\<close>

text \<open>\<open>LocalizePassages\<close>: the error of the parser is dropped.\<close>

fun ju_localize_from :: "ju_lib \<Rightarrow> (nat \<Rightarrow> string) \<Rightarrow> nat \<Rightarrow> bool \<Rightarrow> passage list \<Rightarrow> ju_passage list \<times> bool" where
  "ju_localize_from L gen i found [] = ([], found)"
| "ju_localize_from L gen i found (p # ps) =
     (let psg = (if pa_Manager p
                 then p\<lparr>pa_In := (pa_In p)\<lparr>arg_Username := ManagerUuid, arg_Password := gen i\<rparr>, pa_Manager := \<not> found\<rparr>
                 else p);
          (psgs, m) = ju_localize_from L gen (Suc i) (found \<or> pa_Manager p) ps
      in (passage.extend psg (ju_passage.fields (fst (jl_parse L (arg_Username (pa_In psg))))) # psgs, m))"

definition ju_LocalizePassages :: "ju_lib \<Rightarrow> (nat \<Rightarrow> string) \<Rightarrow> passage list \<Rightarrow> ju_passage list \<times> bool" where
  "ju_LocalizePassages L gen passages = ju_localize_from L gen 0 False passages"

definition ju_addPassages :: "ju_passage list \<Rightarrow> ju_server \<Rightarrow> ju_server" where
  "ju_addPassages psgs s =
     s\<lparr>ju_passages := ju_passages s @ psgs, ju_users := store_all jp_uuid (\<lambda>p. p) psgs (ju_users s)\<rparr>"

text \<open>The loop of \<open>removePassagesFunc\<close> from the last passage to the first.\<close>

fun ju_remove_loop :: "(ju_passage \<Rightarrow> bool) \<Rightarrow> nat \<Rightarrow> ju_passage list \<times> (bytes \<rightharpoonup> ju_passage) \<Rightarrow>
    ju_passage list \<times> (bytes \<rightharpoonup> ju_passage)" where
  "ju_remove_loop f 0 st = st"
| "ju_remove_loop f (Suc i) (ps, users) =
     (if f (ps ! i) then ju_remove_loop f i (take i ps @ drop (Suc i) ps, users(jp_uuid (ps ! i) := None))
      else ju_remove_loop f i (ps, users))"

definition ju_removePassagesFunc :: "(ju_passage \<Rightarrow> bool) \<Rightarrow> ju_server \<Rightarrow> ju_server" where
  "ju_removePassagesFunc f s =
     (let (ps, users) = ju_remove_loop f (length (ju_passages s)) (ju_passages s, ju_users s)
      in s\<lparr>ju_passages := ps, ju_users := users\<rparr>)"

definition ju_AddPassages :: "ju_lib \<Rightarrow> (nat \<Rightarrow> string) \<Rightarrow> passage list \<Rightarrow> ju_server \<Rightarrow> (ju_server \<times> go_err option) option" where
  "ju_AddPassages L gen passages s =
     (let (us, managerKey) = ju_LocalizePassages L gen passages;
          s1 = (if managerKey then ju_removePassagesFunc pa_Manager s else s)
      in Some (ju_addPassages us s1, None))"

definition ju_RemovePassages :: "ju_lib \<Rightarrow> (argument \<Rightarrow> string) \<Rightarrow> (nat \<Rightarrow> string) \<Rightarrow> passage list \<Rightarrow> bool \<Rightarrow> ju_server \<Rightarrow>
    (ju_server \<times> go_err option) option" where
  "ju_RemovePassages L hash gen passages alsoManager s =
     (let keySet = removal_keys hash (fst (ju_LocalizePassages L gen passages)) alsoManager
      in Some (ju_removePassagesFunc (\<lambda>p. hash (pa_In p) \<in> keySet) s, None))"

definition ju_Passages :: "ju_server \<Rightarrow> passage list" where
  "ju_Passages s = map passage.truncate (ju_passages s)"

definition ju_SyncPassages :: "ju_lib \<Rightarrow> 'd world \<Rightarrow> passage list \<Rightarrow> ju_server \<Rightarrow> (ju_server \<times> go_err option) option" where
  "ju_SyncPassages L w passages s =
     SyncPassages (wd_hash w) ju_Passages (ju_RemovePassages L (wd_hash w) (wd_gen w)) (ju_AddPassages L (wd_gen w)) passages s"

section \<open>Registration\<close>

definition ju_register :: "ju_lib \<Rightarrow> 'd world \<Rightarrow> ju_server \<Rightarrow> (ju_server \<times> go_err option) option" where
  "ju_register L w s =
     (let manager = the_manager (ju_Passages s)
      in Option.bind (register_call (env.truncate w) (ju_arg s)
             (zero_argument\<lparr>arg_Protocol := ''juicity'', arg_Username := arg_Username (pa_In manager),
                arg_Password := arg_Password (pa_In manager), arg_Method := ''pinned_certchain_sha256='' @ ju_pinned s\<rparr>)) (\<lambda>r.
         case r of
           Inl e \<Rightarrow> Some (s, Some e)
         | Inr users \<Rightarrow> ju_SyncPassages L w users (s\<lparr>ju_lastAlive := env_now w\<rparr>)))"

definition ju_tick :: "ju_lib \<Rightarrow> 'd world \<Rightarrow> int \<times> ju_server \<Rightarrow> (int \<times> ju_server) option" where
  "ju_tick L w st =
     (let (interval, s) = st
      in if env_now w - ju_lastAlive s < LostThreshold then Some (interval, s)
         else map_option (\<lambda>(s', err). (next_interval (err \<noteq> None) interval, s')) (ju_register L w s))"

text \<open>\<open>NewJohn\<close> once the certificate was loaded; \<open>certHash\<close> is the hash of its chain.\<close>

definition ju_NewJohn :: "ju_lib \<Rightarrow> 'd world \<Rightarrow> go_err + string \<Rightarrow> server_argument \<Rightarrow> (go_err + ju_server) option" where
  "ju_NewJohn L w certHash arg =
     (case certHash of
        Inl e \<Rightarrow> Some (Inl e)
      | Inr pinned \<Rightarrow>
          Option.bind (ju_AddPassages L (wd_gen w) [manager_passage]
             (ju_New\<lparr>ju_arg := arg, ju_pinned := pinned, ju_contention := True\<rparr>)) (\<lambda>(s, err).
           case err of Some e \<Rightarrow> Some (Inl e)
           | None \<Rightarrow> map_option (\<lambda>(s', err'). case err' of Some e \<Rightarrow> Inl e | None \<Rightarrow> Inr s') (ju_register L w s)))"

section \<open>Connections\<close>

text \<open>\<open>handleAuth\<close> on the first uni-directional stream, the bytes it carries or the error of
  accepting it.\<close>

definition ju_handleAuth :: "ju_lib \<Rightarrow> ju_server \<Rightarrow> go_err + bytes \<Rightarrow> go_err + bytes" where
  "ju_handleAuth L s uniStream =
     (case uniStream of
        Inl e \<Rightarrow> Inl e
      | Inr [] \<Rightarrow> Inl IoEOF
      | Inr (v # r0) \<Rightarrow>
          if v = jl_Version0 L then
            (case jl_readHead L (v # r0) of
               Inl e \<Rightarrow> Inl (Wrapped ''ReadCommandHead'' e)
             | Inr (cmdType, r1) \<Rightarrow>
                 if cmdType = jl_AuthenticateType L then
                   (case jl_readAuth L r1 of
                      Inl e \<Rightarrow> Inl (Wrapped ''ReadAuthenticateWithHead'' e)
                    | Inr ((uuid, token), _) \<Rightarrow>
                        (case ju_users s uuid of
                           None \<Rightarrow> Inl (Wrapped (of_bytes uuid) ErrAuthenticationFailed)
                         | Some p \<Rightarrow>
                             (case jl_genToken L uuid (arg_Password (pa_In p)) of
                                Inl e \<Rightarrow> Inl (Wrapped ''GenToken'' e)
                              | Inr t \<Rightarrow> if t = token then Inr uuid
                                         else Inl (Wrapped (of_bytes uuid) ErrAuthenticationFailed))))
                 else Inl (Wrapped ''handleAuth'' ErrUnexpectedCmdType))
          else Inl (Wrapped ''handleAuth'' ErrUnexpectedVersion))"

definition ju_ContentionCheck :: "(argument \<Rightarrow> string) \<Rightarrow> bool \<Rightarrow> bytes \<Rightarrow> ju_passage \<Rightarrow> go_err option" where
  "ju_ContentionCheck hash cache thisIP p =
     (if \<not> cache then None
      else let contentionDuration = ProtectTime (passage_Use p)
           in if 0 < contentionDuration \<and> \<not> fst (contention_Check (hash (pa_In p)) contentionDuration thisIP)
              then Some (Wrapped ''contention detected'' ErrPassageAbuse) else None)"

definition ju_handleMsg :: "ju_lib \<Rightarrow> 'd world \<Rightarrow> metadata \<Rightarrow> ju_passage \<Rightarrow> bytes \<Rightarrow> writer \<Rightarrow> ju_server \<Rightarrow>
    (ju_server \<times> writer \<times> go_err option) option" where
  "ju_handleMsg L w reqMetadata p conn out s =
     framed_handleMsg w (\<lambda>t s. s\<lparr>ju_lastAlive := t\<rparr>) (ju_SyncPassages L w) reqMetadata (pa_Manager p) conn out s"

definition canceled :: go_err where
  "canceled = Errorf ''context canceled''"

text \<open>\<open>handleStream\<close> up to the dialing. It waits for \<open>auth\<close>, the result of \<open>handleAuth\<close>: an error
  of it cancels the context of the connection.\<close>

definition ju_handleStream :: "ju_lib \<Rightarrow> 'd world \<Rightarrow> 'd \<Rightarrow> go_err + bytes \<Rightarrow> bytes \<Rightarrow> bytes \<Rightarrow> writer \<Rightarrow>
    'd dialers \<times> ju_server \<Rightarrow> (('d dialers \<times> ju_server) \<times> writer \<times> 'd handled) option" where
  "ju_handleStream L w dialer auth ip stream out st =
     (let (cache, s) = st
      in case jl_open L stream of
           Inl e \<Rightarrow> Some (st, out, Returned (Some e))
         | Inr (m, rest) \<Rightarrow>
             (case auth of
                Inl _ \<Rightarrow> Some (st, out, Returned (Some canceled))
              | Inr uuid \<Rightarrow>
                  (case ju_users s uuid of
                     None \<Rightarrow> Some (st, out, Returned (Some (Errorf (''no such user: '' @ of_bytes uuid))))
                   | Some p \<Rightarrow>
                       (case ju_ContentionCheck (wd_hash w) (ju_contention s) ip p of
                          Some e \<Rightarrow> Some (st, out, Returned (Some e))
                        | None \<Rightarrow>
                            if md_IsMsg m then
                              map_option (\<lambda>(s', out', err). ((cache, s'), out', Returned err)) (ju_handleMsg L w m p rest out s)
                            else if pa_Manager p then Some (st, out, Returned (Some manager_abuse))
                            else (case passage_dialer w dialer p cache of
                                    (cache', Inl e) \<Rightarrow> Some ((cache', s), out, Returned (Some e))
                                  | (cache', Inr d) \<Rightarrow>
                                      Some ((cache', s), out,
                                        if md_Network m = ''tcp'' then Relay d ''tcp'' (md_target m)
                                        else if md_Network m = ''udp'' then
                                          (case jl_readFrom L rest of
                                             Inl e \<Rightarrow> Returned (Some (Wrapped ''ReadFrom'' e))
                                           | Inr (packet, addr) \<Rightarrow> Relay d ''udp'' addr)
                                        else Returned (Some (Errorf ''unexpected network''))))))))"

text \<open>The error of the tcp branch; \<open>code0\<close> tells the errors whose text ends in
  \<open>with error code 0\<close>.\<close>

definition ju_tcpResult :: "(go_err \<Rightarrow> bool) \<Rightarrow> go_err + (go_err option \<times> go_err option) \<Rightarrow> go_err option" where
  "ju_tcpResult code0 r =
     (case r of
        Inl e \<Rightarrow> if is_net_timeout e then None else Some e
      | Inr (e1, e2) \<Rightarrow>
          (case RelayTCP e1 e2 of
             None \<Rightarrow> None
           | Some e \<Rightarrow> if errors_Is e IoEOF \<or> is_net_timeout e \<or> code0 e then None
                       else Some (Wrapped ''relay tcp error'' e)))"

text \<open>\<open>relayUoT\<close> joins the errors of the two directions that are no time-outs; a joined error is
  whatever one of its parts is.\<close>

definition ju_relayConnToUDP :: "('w \<Rightarrow> bytes \<Rightarrow> string \<Rightarrow> 'w \<times> go_err option) \<Rightarrow> ('a \<Rightarrow> string) \<Rightarrow> nat \<Rightarrow>
    'w \<Rightarrow> (bytes \<times> 'a) list \<Rightarrow> go_err \<Rightarrow> 'w \<times> go_err" where
  "ju_relayConnToUDP wr show bufLen w src end_err = relay_packets (\<lambda>w p a. wr w p (show a)) bufLen w src end_err"

definition drop_timeout :: "go_err option \<Rightarrow> go_err list" where
  "drop_timeout e = (case e of None \<Rightarrow> [] | Some err \<Rightarrow> if is_net_timeout err then [] else [err])"

definition ju_relayUoT :: "go_err option \<Rightarrow> go_err option \<Rightarrow> go_err list" where
  "ju_relayUoT e e2 = drop_timeout e @ drop_timeout e2"

text \<open>The udp branch: the message and the joined errors behind it.\<close>

definition ju_udpResult :: "(go_err list \<Rightarrow> bool) \<Rightarrow> go_err + (go_err + (go_err option \<times> go_err option)) \<Rightarrow>
    (string \<times> go_err list) option" where
  "ju_udpResult code0 r =
     (case r of
        Inl e \<Rightarrow> if is_net_timeout e then None else Some (''Dial'', [e])
      | Inr (Inl e) \<Rightarrow> Some (''WriteTo'', [e])
      | Inr (Inr (e, e2)) \<Rightarrow>
          let errs = ju_relayUoT e e2
          in if errs = [] \<or> (\<exists>x \<in> set errs. errors_Is x IoEOF \<or> is_net_timeout x) \<or> code0 errs then None
             else Some (''relay udp error'', errs))"

section \<open>The life cycle\<close>

text \<open>\<open>jc_ctx\<close> is whether the context was cancelled, \<open>None\<close> if there is none.\<close>

record ju_life =
  jc_ctx :: "bool option"
  jc_listener :: "nat option"

definition ju_Close :: "ju_life \<Rightarrow> ju_life \<times> nat option" where
  "ju_Close l = (l\<lparr>jc_ctx := map_option (\<lambda>_. True) (jc_ctx l), jc_listener := None\<rparr>, jc_listener l)"

definition ju_serverContext :: "ju_life \<Rightarrow> ju_life \<times> bool" where
  "ju_serverContext l = (case jc_ctx l of None \<Rightarrow> (l\<lparr>jc_ctx := Some False\<rparr>, False) | Some c \<Rightarrow> (l, c))"

definition ju_setListener :: "nat option \<Rightarrow> ju_life \<Rightarrow> ju_life" where
  "ju_setListener lt l = l\<lparr>jc_listener := lt\<rparr>"

text \<open>An accept of \<open>Serve\<close>: a cancelled context ends the loop without an error.\<close>

definition ju_accept_end :: "go_err \<Rightarrow> go_err option" where
  "ju_accept_end e = (if errors_Is e canceled then None else Some e)"

section \<open>The map of users\<close>

lemma ju_extend_sel [simp]:
  "pa_Manager (passage.extend p (ju_passage.fields u)) = pa_Manager p"
  "pa_In (passage.extend p (ju_passage.fields u)) = pa_In p"
  "pa_Out (passage.extend p (ju_passage.fields u)) = pa_Out p"
  "jp_uuid (passage.extend p (ju_passage.fields u)) = u"
  "passage.truncate (passage.extend p (ju_passage.fields u)) = p"
  by (cases p; simp add: passage.extend_def passage.truncate_def ju_passage.fields_def)+

lemma ju_remove_loop_spec:
  "i \<le> length ps \<Longrightarrow> fst (ju_remove_loop f i (ps, users)) = filter (\<lambda>p. \<not> f p) (take i ps) @ drop i ps \<and>
     snd (ju_remove_loop f i (ps, users)) u =
       (if \<exists>p \<in> set (take i ps). f p \<and> jp_uuid p = u then None else users u)"
proof (induction i arbitrary: ps users)
  case (Suc i)
  then have i: "i < length ps" by simp
  then have t: "take (Suc i) ps = take i ps @ [ps ! i]" by (simp add: take_Suc_conv_app_nth)
  show ?case
  proof (cases "f (ps ! i)")
    case True
    have "i \<le> length (take i ps @ drop (Suc i) ps)" using i by simp
    note ih = Suc.IH [OF this]
    define m where "m = users(jp_uuid (ps ! i) := None)"
    have "ju_remove_loop f (Suc i) (ps, users) = ju_remove_loop f i (take i ps @ drop (Suc i) ps, m)"
      by (simp only: ju_remove_loop.simps True if_True m_def)
    moreover have "m u = (if jp_uuid (ps ! i) = u then None else users u)" by (auto simp: m_def)
    ultimately show ?thesis using ih [of m] True i by (auto simp: t)
  next
    case False
    with Suc.IH [of ps users] i show ?thesis by (auto simp: t Cons_nth_drop_Suc)
  qed
qed simp

lemma ju_removePassagesFunc_spec:
  "ju_passages (ju_removePassagesFunc f s) = filter (\<lambda>p. \<not> f p) (ju_passages s)"
  "ju_users (ju_removePassagesFunc f s) u =
     (if \<exists>p \<in> set (ju_passages s). f p \<and> jp_uuid p = u then None else ju_users s u)"
  using ju_remove_loop_spec [of "length (ju_passages s)" "ju_passages s" f "ju_users s" u]
  by (auto simp: ju_removePassagesFunc_def split: prod.splits)

text \<open>The map leads to stored passages with the UUID asked for, and their UUIDs are those of their user
  names.\<close>

definition ju_ok :: "ju_lib \<Rightarrow> ju_server \<Rightarrow> bool" where
  "ju_ok L s \<longleftrightarrow> length (filter pa_Manager (ju_passages s)) \<le> 1 \<and>
     list_all (\<lambda>p. jp_uuid p = fst (jl_parse L (arg_Username (pa_In p)))) (ju_passages s) \<and>
     (\<forall>u p. ju_users s u = Some p \<longrightarrow> p \<in> set (ju_passages s) \<and> jp_uuid p = u)"

lemma ju_okD:
  assumes "ju_ok L s"
  shows "length (filter pa_Manager (ju_passages s)) \<le> 1"
    "p \<in> set (ju_passages s) \<Longrightarrow> jp_uuid p = fst (jl_parse L (arg_Username (pa_In p)))"
    "ju_users s u = Some p \<Longrightarrow> p \<in> set (ju_passages s) \<and> jp_uuid p = u"
  using assms unfolding ju_ok_def list_all_iff by blast+

lemma ju_ok_remove:
  assumes "ju_ok L s"
  shows "ju_ok L (ju_removePassagesFunc f s)"
proof -
  have "ju_users (ju_removePassagesFunc f s) u = Some p \<Longrightarrow>
      p \<in> set (ju_passages (ju_removePassagesFunc f s)) \<and> jp_uuid p = u" for u p
    using ju_okD(3) [OF assms, of u p] by (auto simp only: ju_removePassagesFunc_spec set_filter mem_Collect_eq split: if_splits)
  then show ?thesis
    using le_trans [OF filter_filter_le [of pa_Manager _ "ju_passages s"] ju_okD(1) [OF assms]] ju_okD(2) [OF assms]
    by (simp add: ju_ok_def ju_removePassagesFunc_spec(1) list_all_iff)
qed

lemma ju_ok_add:
  assumes "ju_ok L s" and "list_all (\<lambda>p. jp_uuid p = fst (jl_parse L (arg_Username (pa_In p)))) psgs"
    and "length (filter pa_Manager (ju_passages s @ psgs)) \<le> 1"
  shows "ju_ok L (ju_addPassages psgs s)"
proof -
  have "p \<in> set (ju_passages s @ psgs) \<and> jp_uuid p = u"
    if "store_all jp_uuid (\<lambda>p. p) psgs (ju_users s) u = Some p" for u p
    using store_all_SomeD [OF that] ju_okD(3) [OF assms(1)] by auto
  moreover have "list_all (\<lambda>p. jp_uuid p = fst (jl_parse L (arg_Username (pa_In p)))) (ju_passages s @ psgs)"
    using assms(1,2) by (simp only: ju_ok_def list_all_append)
  moreover have "ju_passages (ju_addPassages psgs s) = ju_passages s @ psgs"
    "ju_users (ju_addPassages psgs s) = store_all jp_uuid (\<lambda>p. p) psgs (ju_users s)"
    by (simp_all add: ju_addPassages_def)
  ultimately show ?thesis unfolding ju_ok_def using assms(3) by simp
qed

lemma ju_localize_spec:
  assumes "ju_localize_from L gen i found ps = (us, m)"
  shows "m = (found \<or> \<not> list_all (\<lambda>p. \<not> pa_Manager p) ps) \<and>
    length (filter pa_Manager us) = (if m \<and> \<not> found then 1 else 0) \<and>
    list_all (\<lambda>p. jp_uuid p = fst (jl_parse L (arg_Username (pa_In p)))) us \<and>
    (list_all (\<lambda>p. \<not> pa_Manager p) ps \<longrightarrow> map passage.truncate us = ps) \<and>
    (length (filter pa_Manager ps) \<le> (if found then 0 else 1) \<longrightarrow>
       pa_In ` {p \<in> set us. \<not> pa_Manager p} = pa_In ` {p \<in> set ps. \<not> pa_Manager p})"
  using assms
proof (induction ps arbitrary: i found us m)
  case (Cons p ps)
  define qs where "qs = fst (ju_localize_from L gen (Suc i) (found \<or> pa_Manager p) ps)"
  define psg where "psg = (if pa_Manager p
     then p\<lparr>pa_In := (pa_In p)\<lparr>arg_Username := ManagerUuid, arg_Password := gen i\<rparr>, pa_Manager := \<not> found\<rparr> else p)"
  have "us = passage.extend psg (ju_passage.fields (fst (jl_parse L (arg_Username (pa_In psg))))) # qs"
    "m = snd (ju_localize_from L gen (Suc i) (found \<or> pa_Manager p) ps)"
    using Cons.prems unfolding psg_def [symmetric] qs_def ju_localize_from.simps Let_def
    by (simp_all add: split_beta)
  moreover have "pa_Manager psg = (pa_Manager p \<and> \<not> found)" "\<not> pa_Manager p \<longrightarrow> psg = p"
    by (simp_all add: psg_def)
  ultimately have psg: "us = passage.extend psg (ju_passage.fields (fst (jl_parse L (arg_Username (pa_In psg))))) # qs"
    "pa_Manager psg = (pa_Manager p \<and> \<not> found)" "\<not> pa_Manager p \<longrightarrow> psg = p"
    "m = snd (ju_localize_from L gen (Suc i) (found \<or> pa_Manager p) ps)" by blast+
  let ?u = "passage.extend psg (ju_passage.fields (fst (jl_parse L (arg_Username (pa_In psg)))))"
  from Cons.IH [of "Suc i" "found \<or> pa_Manager p" qs m] psg(4) have
    ih: "m = (found \<or> pa_Manager p \<or> \<not> list_all (\<lambda>p. \<not> pa_Manager p) ps)"
      "length (filter pa_Manager qs) = (if m \<and> \<not> (found \<or> pa_Manager p) then 1 else 0)"
      "list_all (\<lambda>p. jp_uuid p = fst (jl_parse L (arg_Username (pa_In p)))) qs"
      "list_all (\<lambda>p. \<not> pa_Manager p) ps \<longrightarrow> map passage.truncate qs = ps"
      "length (filter pa_Manager ps) \<le> (if found \<or> pa_Manager p then 0 else 1) \<longrightarrow>
       pa_In ` {p \<in> set qs. \<not> pa_Manager p} = pa_In ` {p \<in> set ps. \<not> pa_Manager p}"
    unfolding qs_def by auto
  have "pa_In ` {q \<in> set us. \<not> pa_Manager q} = pa_In ` {q \<in> set (p # ps). \<not> pa_Manager q}"
    if l: "length (filter pa_Manager (p # ps)) \<le> (if found then 0 else 1)"
  proof (cases "pa_Manager p")
    case True
    then have "\<not> found" "length (filter pa_Manager ps) \<le> 0" using l by (cases found; simp)+
    with ih(5) True psg(2) show ?thesis unfolding psg(1) collect_Cons by simp
  next
    case False
    with ih(5) l psg(2,3) show ?thesis unfolding psg(1) collect_Cons by simp
  qed
  moreover have "length (filter pa_Manager us) = (if m \<and> \<not> found then 1 else 0)"
    using ih(1,2) psg(1,2) by auto
  ultimately show ?case using ih(1,3,4) psg(1,3) by auto
qed simp

lemma ju_add:
  assumes "ju_ok L s"
  shows "\<exists>s'. ju_AddPassages L gen ps s = Some (s', None) \<and> ju_ok L s' \<and>
    (list_all (\<lambda>p. \<not> pa_Manager p) ps \<longrightarrow> ju_Passages s' = ju_Passages s @ ps)"
proof -
  obtain us m where l: "ju_localize_from L gen 0 False ps = (us, m)" by fastforce
  note sp = ju_localize_spec [OF l]
  let ?s1 = "if m then ju_removePassagesFunc pa_Manager s else s"
  have ok: "ju_ok L ?s1" using assms ju_ok_remove by auto
  have "length (filter pa_Manager (ju_passages ?s1 @ us)) \<le> 1"
  proof (cases m)
    case True
    then have "filter pa_Manager (ju_passages ?s1) = []" by (simp add: ju_removePassagesFunc_spec)
    with True sp show ?thesis by simp
  next
    case False
    then have "length (filter pa_Manager us) = 0" using sp by metis
    with ju_okD(1) [OF ok] show ?thesis by simp
  qed
  with sp have "ju_ok L (ju_addPassages us ?s1)" by (intro ju_ok_add [OF ok]) blast+
  moreover have "ju_Passages (ju_addPassages us ?s1) = ju_Passages s @ ps" if "list_all (\<lambda>p. \<not> pa_Manager p) ps"
  proof -
    have "\<not> m" "map passage.truncate us = ps" using sp that by blast+
    then show ?thesis by (simp add: ju_Passages_def ju_addPassages_def)
  qed
  ultimately show ?thesis using l by (simp add: ju_AddPassages_def ju_LocalizePassages_def)
qed

lemma ju_remove:
  assumes "ju_ok L s" and "length (filter pa_Manager ps) \<le> 1"
  shows "\<exists>s'. ju_RemovePassages L hash gen ps False s = Some (s', None) \<and> ju_ok L s' \<and>
    ju_Passages s' = filter (\<lambda>p. hash (pa_In p) \<notin> (\<lambda>p. hash (pa_In p)) ` {p \<in> set ps. \<not> pa_Manager p}) (ju_Passages s)"
proof -
  obtain us m where l: "ju_localize_from L gen 0 False ps = (us, m)" by fastforce
  have i: "pa_In ` {p \<in> set us. \<not> pa_Manager p} = pa_In ` {p \<in> set ps. \<not> pa_Manager p}"
    using ju_localize_spec [OF l] assms(2) by simp
  have k: "removal_keys hash us False = (\<lambda>p. hash (pa_In p)) ` {p \<in> set ps. \<not> pa_Manager p}"
    using arg_cong [OF i, of "image hash"] by (simp add: removal_keys_set image_image)
  let ?s = "ju_removePassagesFunc (\<lambda>p. hash (pa_In p) \<in> removal_keys hash us False) s"
  have "ju_RemovePassages L hash gen ps False s = Some (?s, None)"
    using l by (simp add: ju_RemovePassages_def ju_LocalizePassages_def)
  moreover have "ju_Passages ?s = filter (\<lambda>p. hash (pa_In p) \<notin> (\<lambda>p. hash (pa_In p)) ` {p \<in> set ps. \<not> pa_Manager p}) (ju_Passages s)"
    by (simp add: ju_Passages_def ju_removePassagesFunc_spec k filter_truncate)
  ultimately show ?thesis using ju_ok_remove [OF assms(1)] by blast
qed

interpretation ju_store: passage_store "ju_ok L" ju_Passages "ju_RemovePassages L hash" "ju_AddPassages L" hash "\<lambda>_. True"
  for L hash
proof unfold_locales
  fix s and ps :: "passage list" and r :: "nat \<Rightarrow> string"
  assume "ju_ok L s" "length (filter pa_Manager ps) \<le> 1"
  from ju_remove [OF this, of hash r] show "\<exists>s'. ju_RemovePassages L hash r ps False s = Some (s', None) \<and> ju_ok L s' \<and>
    ju_Passages s' = filter (\<lambda>p. hash (pa_In p) \<notin> (\<lambda>p. hash (pa_In p)) ` {p \<in> set ps. \<not> pa_Manager p}) (ju_Passages s)" .
next
  fix s and ps :: "passage list" and r :: "nat \<Rightarrow> string"
  assume "ju_ok L s" "list_all (\<lambda>p. \<not> pa_Manager p) ps"
  with ju_add [OF this(1), of r ps] show "\<exists>s'. ju_AddPassages L r ps s = Some (s', None) \<and> ju_ok L s' \<and>
    ju_Passages s' = ju_Passages s @ ps" by blast
next
  fix s
  assume "ju_ok L s"
  from ju_okD(1) [OF this] show "length (filter pa_Manager (ju_Passages s)) \<le> 1"
    by (simp add: ju_Passages_def filter_truncate)
qed (rule list_all_any)

interpretation ju_alive: keepalive "ju_tick L" "ju_register L" ju_lastAlive env_now for L
  by unfold_locales (simp_all add: ju_tick_def)

end
