(* ===== verification/Juicity_Auth.thy ===== *)
theory Juicity_Auth
  imports Juicity_Server
begin

text \<open>
  What the authentication of the juicity server guarantees in every state it reaches, whatever was
  synchronised, registered, messaged and handled before: which passage a stream is relayed for, and
  what becomes of two passages with the same UUID.
\<close>

section \<open>Reachable states\<close>

inductive ju_step :: "ju_lib \<Rightarrow> ju_server \<Rightarrow> ju_server \<Rightarrow> bool" for L where
  add: "ju_AddPassages L gen ps s = Some (s', e) \<Longrightarrow> ju_step L s s'"
| remove: "ju_RemovePassages L hash gen ps am s = Some (s', e) \<Longrightarrow> ju_step L s s'"
| alive: "ju_step L s (s\<lparr>ju_lastAlive := t\<rparr>)"

inductive ju_reach :: "ju_lib \<Rightarrow> ju_server \<Rightarrow> bool" for L where
  start: "ju_passages s = [] \<Longrightarrow> ju_users s = Map.empty \<Longrightarrow> ju_reach L s"
| step: "ju_reach L s \<Longrightarrow> ju_step L s s' \<Longrightarrow> ju_reach L s'"

lemma ju_reach_ok: "ju_reach L s \<Longrightarrow> ju_ok L s"
proof (induction rule: ju_reach.induct)
  case (start s)
  then show ?case by (simp add: ju_ok_def)
next
  case (step s s')
  from step.hyps(2) step.IH show ?case
  proof (cases rule: ju_step.cases)
    case (add gen ps e)
    from ju_add [OF step.IH, of gen ps] add show ?thesis by auto
  next
    case (remove hash gen ps am e)
    then have "s' = ju_removePassagesFunc (\<lambda>p. hash (pa_In p) \<in> removal_keys hash (fst (ju_LocalizePassages L gen ps)) am) s"
      by (simp add: ju_RemovePassages_def)
    with ju_ok_remove [OF step.IH] show ?thesis by blast
  next
    case (alive t)
    with step.IH show ?thesis by (simp add: ju_ok_def)
  qed
qed

lemma ju_sync_reach:
  assumes "ju_reach L s" and "ju_SyncPassages L w ps s = Some (s', e)"
  shows "ju_reach L s'"
proof -
  obtain del new where c: "Change (ju_Passages s) ps (passage_key (wd_hash w)) = (del, new)" by fastforce
  from assms(2) c obtain s1 e1 where
    r: "ju_RemovePassages L (wd_hash w) (wd_gen w) del False s = Some (s1, e1)"
      "(case e1 of Some e \<Rightarrow> Some (s1, Some e) | None \<Rightarrow> ju_AddPassages L (wd_gen w) new s1) = Some (s', e)"
    by (auto simp: ju_SyncPassages_def SyncPassages_def bind_eq_Some_conv)
  from ju_reach.step [OF assms(1) ju_step.remove [OF r(1)]] have s1: "ju_reach L s1" .
  show ?thesis
  proof (cases e1)
    case None
    with r(2) have "ju_AddPassages L (wd_gen w) new s1 = Some (s', e)" by simp
    from ju_reach.step [OF s1 ju_step.add [OF this]] show ?thesis .
  next
    case (Some x)
    with r(2) s1 show ?thesis by simp
  qed
qed

lemma ju_register_reach:
  assumes "ju_reach L s" and "ju_register L w s = Some (s', e)"
  shows "ju_reach L s'"
proof -
  from assms(2) obtain r where "(case r of Inl e \<Rightarrow> Some (s, Some e)
      | Inr users \<Rightarrow> ju_SyncPassages L w users (s\<lparr>ju_lastAlive := env_now w\<rparr>)) = Some (s', e)"
    unfolding ju_register_def Let_def bind_eq_Some_conv by blast
  then show ?thesis
    using assms(1) ju_sync_reach [OF ju_reach.step [OF assms(1) ju_step.alive]] by (cases r) auto
qed

lemma ju_tick_reach:
  "ju_reach L s \<Longrightarrow> ju_tick L w (i, s) = Some (i', s') \<Longrightarrow> ju_reach L s'"
  by (auto simp: ju_tick_def dest: ju_register_reach split: if_splits)

lemma ju_NewJohn_reach:
  assumes "ju_NewJohn L w h arg = Some (Inr s)"
  shows "ju_reach L s"
proof -
  let ?s0 = "\<lambda>pin. ju_New\<lparr>ju_arg := arg, ju_pinned := pin, ju_contention := True\<rparr>"
  from assms obtain pin s1 e1 where a: "ju_AddPassages L (wd_gen w) [manager_passage] (?s0 pin) = Some (s1, e1)"
    "ju_register L w s1 = Some (s, None)"
    by (auto simp: ju_NewJohn_def bind_eq_Some_conv split: sum.splits option.splits)
  have "ju_reach L (?s0 pin)" by (rule ju_reach.start) (simp_all add: ju_New_def)
  from ju_register_reach [OF ju_reach.step [OF this ju_step.add [OF a(1)]] a(2)] show ?thesis .
qed

lemma ju_handleStream_reach:
  assumes "ju_reach L s" and "ju_handleStream L w d auth ip stream out (cache, s) = Some ((cache', s'), out', r)"
  shows "ju_reach L s'"
proof -
  have msg: "ju_reach L s1" if "ju_handleMsg L w m p rest out s = Some (s1, out1, e)" for m p rest s1 out1 e
    using that unfolding ju_handleMsg_def
    by (rule framed_handleMsg_keeps) (use assms(1) in \<open>auto intro: ju_sync_reach ju_reach.step [OF _ ju_step.alive]\<close>)
  show ?thesis using assms msg
    by (auto simp: ju_handleStream_def split: sum.splits option.splits if_splits prod.splits)
qed

lemma ju_reachD:
  assumes "ju_reach L s" and "ju_users s uuid = Some p"
  shows "p \<in> set (ju_passages s) \<and> fst (jl_parse L (arg_Username (pa_In p))) = uuid"
proof -
  from ju_okD(3) [OF ju_reach_ok [OF assms(1)] assms(2)] have p: "p \<in> set (ju_passages s)" "jp_uuid p = uuid" by blast+
  from ju_okD(2) [OF ju_reach_ok [OF assms(1)] p(1)] p show ?thesis by simp
qed

text \<open>A library whose UUIDs are the texts themselves and whose tokens are the passwords.\<close>

definition demo_ju_lib :: ju_lib where
  "demo_ju_lib =
     \<lparr>jl_parse = (\<lambda>s. if s = ''x'' then (to_bytes ManagerUuid, Some IoEOF) else (to_bytes s, None)),
      jl_Version0 = 0, jl_AuthenticateType = 0,
      jl_readHead = (\<lambda>r. Inr (r ! 1, drop 2 r)), jl_readAuth = (\<lambda>r. Inr ((take 1 r, drop 1 r), [])),
      jl_genToken = (\<lambda>u pw. Inr (to_bytes pw)),
      jl_open = (\<lambda>r. Inr (\<lparr>md_IsMsg = False, md_Cmd = 0, md_LenMsgBody = 0, md_Network = ''tcp'',
        md_Hostname = ''h'', md_Port = 80\<rparr>, r)), jl_readFrom = (\<lambda>r. Inl IoEOF)\<rparr>"

definition demo_ju_user :: "string \<Rightarrow> passage" where
  "demo_ju_user name = (demo_user ''k'')\<lparr>pa_In := zero_argument\<lparr>arg_Username := name, arg_Password := ''k''\<rparr>\<rparr>"

lemma demo_ju_user_sel [simp]:
  "\<not> pa_Manager (demo_ju_user n)" "pa_In (demo_ju_user n) = zero_argument\<lparr>arg_Username := n, arg_Password := ''k''\<rparr>"
  "pa_Out (demo_ju_user n) = None"
  by (simp_all add: demo_ju_user_def)

lemma demo_ju_add:
  "\<exists>s. ju_AddPassages demo_ju_lib gen [demo_ju_user ''u''] ju_New = Some (s, None) \<and> ju_reach demo_ju_lib s \<and>
     (\<exists>p. ju_users s (to_bytes ''u'') = Some p \<and> \<not> pa_Manager p \<and> pa_Out p = None \<and> arg_Password (pa_In p) = ''k'') \<and>
     ju_contention s = False"
proof -
  let ?u = "passage.extend (demo_ju_user ''u'') (ju_passage.fields (to_bytes ''u''))"
  have a: "ju_AddPassages demo_ju_lib gen [demo_ju_user ''u''] ju_New = Some (ju_addPassages [?u] ju_New, None)"
    by (simp add: ju_AddPassages_def ju_LocalizePassages_def demo_ju_lib_def)
  have "ju_reach demo_ju_lib ju_New" by (rule ju_reach.start) (simp_all add: ju_New_def)
  from ju_reach.step [OF this ju_step.add [OF a]] a show ?thesis
    by (simp add: ju_addPassages_def ju_New_def)
qed

section \<open>Properties\<close>



text \<open>C30: The error of parsing a user name as a UUID is dropped, so a user can come to have the UUID
  of the manager: adding it takes the manager's entry of the map, and removing it again leaves the
  manager stored but without an entry, so that the manager no longer authenticates.\<close>

theorem ju_uuid_shared:
  assumes "ju_reach L s" and "m \<in> set (ju_passages s)" and "pa_Manager m" and "\<not> pa_Manager p"
    and "fst (jl_parse L (arg_Username (pa_In p))) = jp_uuid m" and "hash (pa_In p) \<noteq> hash (pa_In m)"
  shows "\<exists>s1 s2. ju_AddPassages L gen [p] s = Some (s1, None) \<and> m \<in> set (ju_passages s1) \<and>
    (\<exists>q. ju_users s1 (jp_uuid m) = Some q \<and> \<not> pa_Manager q \<and> pa_In q = pa_In p) \<and>
    ju_RemovePassages L hash gen [p] False s1 = Some (s2, None) \<and> m \<in> set (ju_passages s2) \<and>
    ju_users s2 (jp_uuid m) = None"
proof -
  let ?u = "passage.extend p (ju_passage.fields (jp_uuid m))"
  let ?s1 = "ju_addPassages [?u] s"
  let ?s2 = "ju_removePassagesFunc (\<lambda>q. hash (pa_In q) \<in> {hash (pa_In p)}) ?s1"
  have l: "ju_LocalizePassages L gen [p] = ([?u], False)"
    using assms(4,5) by (simp add: ju_LocalizePassages_def)
  have "ju_AddPassages L gen [p] s = Some (?s1, None)" by (simp add: ju_AddPassages_def l)
  moreover have "ju_RemovePassages L hash gen [p] False ?s1 = Some (?s2, None)"
    using assms(4) by (simp add: ju_RemovePassages_def l removal_keys_def)
  moreover have m: "m \<in> set (ju_passages ?s1)" "?u \<in> set (ju_passages ?s1)" "ju_users ?s1 (jp_uuid m) = Some ?u"
    using assms(2) by (simp_all add: ju_addPassages_def)
  moreover have "m \<in> set (ju_passages ?s2)" using m(1) assms(6) by (auto simp: ju_removePassagesFunc_spec)
  moreover have "ju_users ?s2 (jp_uuid m) = None"
    using m(2) by (auto simp: ju_removePassagesFunc_spec intro!: bexI [of _ ?u])
  ultimately show ?thesis using assms(4) by fastforce
qed

theorem ju_uuid_shared_witness:
  "\<exists>s m s1 s2. ju_AddPassages demo_ju_lib (\<lambda>i. ''g'') [manager_passage] ju_New = Some (s, None) \<and>
     ju_AddPassages demo_ju_lib (\<lambda>i. ''g'') [demo_ju_user ''x''] s = Some (s1, None) \<and>
     ju_RemovePassages demo_ju_lib arg_Password (\<lambda>i. ''g'') [demo_ju_user ''x''] False s1 = Some (s2, None) \<and>
     m \<in> set (ju_passages s2) \<and> pa_Manager m \<and> ju_users s2 (jp_uuid m) = None"
proof -
  let ?m = "passage.extend (manager_passage\<lparr>pa_In := zero_argument\<lparr>arg_Username := ManagerUuid, arg_Password := ''g''\<rparr>\<rparr>)
    (ju_passage.fields (to_bytes ManagerUuid))"
  have x: "ManagerUuid \<noteq> ''x''" by (simp add: ManagerUuid_def)
  have a: "ju_AddPassages demo_ju_lib (\<lambda>i. ''g'') [manager_passage] ju_New = Some (ju_addPassages [?m] ju_New, None)"
    using x by (simp add: ju_AddPassages_def ju_LocalizePassages_def demo_ju_lib_def manager_passage_def zero_passage_def
        ju_removePassagesFunc_def ju_New_def)
  have "ju_reach demo_ju_lib ju_New" by (rule ju_reach.start) (simp_all add: ju_New_def)
  from ju_reach.step [OF this ju_step.add [OF a]] have r: "ju_reach demo_ju_lib (ju_addPassages [?m] ju_New)" .
  have m: "?m \<in> set (ju_passages (ju_addPassages [?m] ju_New))" by (simp add: ju_addPassages_def)
  have "pa_Manager ?m" by (simp add: manager_passage_def)
  moreover have "\<not> pa_Manager (demo_ju_user ''x'')" by simp
  moreover have "fst (jl_parse demo_ju_lib (arg_Username (pa_In (demo_ju_user ''x'')))) = jp_uuid ?m"
    by (simp add: demo_ju_lib_def)
  moreover have "arg_Password (pa_In (demo_ju_user ''x'')) \<noteq> arg_Password (pa_In ?m)" by simp
  ultimately show ?thesis using ju_uuid_shared [OF r m, of "demo_ju_user ''x''" arg_Password "\<lambda>i. ''g''"] a by blast
qed

end
