(* ===== verification/Server_Lifecycle.thy ===== *)
theory Server_Lifecycle
  imports Go_Net
begin

text \<open>
  Listening and closing of the shadowsocks server (\<open>ListenTCP\<close>, \<open>ListenUDP\<close>, \<open>Listen\<close> and
  \<open>Close\<close> of \<open>server/shadowsocks/server.go\<close>) and of the vmess server (\<open>server/vmess/server.go\<close>),
  one atomic step per section under the mutex and per system call outside it, so that runs interleave
  them. Each kind of socket is opened at most once, as the program does. The lemmas say which sockets
  are open after \<open>Close\<close>.
\<close>

section \<open>The shadowsocks server\<close>

text \<open>A socket before it is opened, opened but known only to the goroutine that opened it, stored in
  the server, and closed.\<close>

datatype slot = Unopened | Local | Stored | Closed

record ss_life =
  sk_closed :: bool
  sk_taken :: bool
  sk_tcp :: slot
  sk_udp :: slot

definition ss_life_new :: ss_life where
  "ss_life_new = \<lparr>sk_closed = False, sk_taken = False, sk_tcp = Unopened, sk_udp = Unopened\<rparr>"

text \<open>The section of \<open>ListenTCP\<close> and \<open>ListenUDP\<close> under the mutex: the socket is stored unless the
  server was closed.\<close>

definition publish :: "bool \<Rightarrow> slot" where
  "publish closed = (if closed then Closed else Stored)"

text \<open>\<open>Close\<close> closes the channel and then, under the mutex, the sockets that are stored.\<close>

definition close_slot :: "slot \<Rightarrow> slot" where
  "close_slot k = (if k = Stored then Closed else k)"

datatype ss_event = OpenTCP | PublishTCP | OpenUDP | PublishUDP | CloseChannel | CloseSockets

fun ss_life_exec :: "ss_event \<Rightarrow> ss_life \<Rightarrow> ss_life option" where
  "ss_life_exec OpenTCP s = (if sk_tcp s = Unopened then Some (s\<lparr>sk_tcp := Local\<rparr>) else None)"
| "ss_life_exec PublishTCP s = (if sk_tcp s = Local then Some (s\<lparr>sk_tcp := publish (sk_closed s)\<rparr>) else None)"
| "ss_life_exec OpenUDP s = (if sk_udp s = Unopened then Some (s\<lparr>sk_udp := Local\<rparr>) else None)"
| "ss_life_exec PublishUDP s = (if sk_udp s = Local then Some (s\<lparr>sk_udp := publish (sk_closed s)\<rparr>) else None)"
| "ss_life_exec CloseChannel s = (if sk_closed s then None else Some (s\<lparr>sk_closed := True\<rparr>))"
| "ss_life_exec CloseSockets s =
     (if sk_closed s \<and> \<not> sk_taken s
      then Some (s\<lparr>sk_taken := True, sk_tcp := close_slot (sk_tcp s), sk_udp := close_slot (sk_udp s)\<rparr>) else None)"

text \<open>The error of \<open>Close\<close>: that of the listener, else that of the UDP socket.\<close>

definition ss_close_error :: "go_err option option \<Rightarrow> go_err option option \<Rightarrow> go_err option" where
  "ss_close_error listener udpConn =
     (let err = (case listener of None \<Rightarrow> None | Some e \<Rightarrow> e)
      in case udpConn of None \<Rightarrow> err | Some err2 \<Rightarrow> if err = None then err2 else err)"

text \<open>How an error of \<open>Accept\<close> or \<open>ReadFrom\<close> ends the loop: without an error if the socket was
  closed, else the loop goes on.\<close>

definition accept_ends :: "go_err \<Rightarrow> bool" where
  "accept_ends e = errors_Is e NetErrClosed"

text \<open>The port \<open>ListenUDP\<close> listens at.\<close>

definition listenUDP_port :: "string \<Rightarrow> go_err + int" where
  "listenUDP_port addr =
     (case net_SplitHostPort addr of
        Inl e \<Rightarrow> Inl (Errorf (addr_err_msg e))
      | Inr (_, strPort) \<Rightarrow> (case atoi strPort of (_, Some e) \<Rightarrow> Inl (Errorf (num_err_msg e)) | (port, None) \<Rightarrow> Inr port))"

text \<open>Runs, as lists of events.\<close>

fun run_events :: "('e \<Rightarrow> 's \<Rightarrow> 's option) \<Rightarrow> 'e list \<Rightarrow> 's \<Rightarrow> 's option" where
  "run_events exec [] s = Some s"
| "run_events exec (e # es) s = (case exec e s of None \<Rightarrow> None | Some s' \<Rightarrow> run_events exec es s')"

text \<open>What holds of every run is an invariant of the steps.\<close>

lemma run_events_inv:
  assumes "\<And>e s s'. P s \<Longrightarrow> exec e s = Some s' \<Longrightarrow> P s'"
  shows "run_events exec es s = Some s' \<Longrightarrow> P s \<Longrightarrow> P s'"
  by (induction es arbitrary: s) (auto split: option.splits intro: assms)

lemma run_events_append:
  "run_events exec (es @ fs) s = (case run_events exec es s of None \<Rightarrow> None | Some s' \<Rightarrow> run_events exec fs s')"
  by (induction es arbitrary: s) (auto split: option.splits)

text \<open>The interface of such a system: its steps and an invariant they keep. Every state of a run then
  satisfies it.\<close>

locale event_system =
  fixes exec :: "'e \<Rightarrow> 's \<Rightarrow> 's option" and Inv :: "'s \<Rightarrow> bool"
  assumes keeps: "Inv s \<Longrightarrow> exec e s = Some s' \<Longrightarrow> Inv s'"
begin

lemma run_keeps: "run_events exec es s = Some s' \<Longrightarrow> Inv s \<Longrightarrow> Inv s'"
  by (rule run_events_inv [OF keeps])

lemma run_parts:
  assumes "run_events exec (es @ fs) s = Some s'" and "Inv s"
  obtains m where "run_events exec es s = Some m" "Inv m" "run_events exec fs m = Some s'" "Inv s'"
proof -
  from assms(1) obtain m where m: "run_events exec es s = Some m" "run_events exec fs m = Some s'"
    by (auto simp: run_events_append split: option.splits)
  from run_keeps [OF m(1) assms(2)] have "Inv m" .
  from that [OF m(1) this m(2) run_keeps [OF m(2) this]] show ?thesis .
qed

end

definition ss_life_inv :: "ss_life \<Rightarrow> bool" where
  "ss_life_inv s \<longleftrightarrow> (sk_taken s \<longrightarrow> sk_closed s \<and> sk_tcp s \<noteq> Stored \<and> sk_udp s \<noteq> Stored)"

lemma ss_life_inv_exec: "ss_life_inv s \<Longrightarrow> ss_life_exec e s = Some s' \<Longrightarrow> ss_life_inv s'"
  by (cases e) (auto simp: ss_life_inv_def publish_def close_slot_def split: if_splits)

interpretation ss_lifecycle: event_system ss_life_exec ss_life_inv
  by unfold_locales (rule ss_life_inv_exec)

section \<open>The vmess server\<close>

text \<open>The grpc variant sets the ACME server after the mutex was released, and starts it.\<close>

datatype acme = NoAcme | AcmeSet | AcmeRunning | AcmeClosed

record vm_life =
  vk_closed :: bool
  vk_taken :: bool
  vk_listener :: slot
  vk_published :: bool
  vk_acme :: acme
  vk_grpc :: bool

definition vm_life_new :: vm_life where
  "vm_life_new = \<lparr>vk_closed = False, vk_taken = False, vk_listener = Unopened, vk_published = False, vk_acme = NoAcme, vk_grpc = False\<rparr>"

datatype vm_event = VmOpen | VmPublish | VmSetAcme | VmStartAcme | VmServe | VmCloseChannel | VmCloseSockets

text \<open>A closed ACME server does not start. \<open>Close\<close> stops the grpc server, closes the ACME server if it
  is set, and the listener.\<close>

fun vm_life_exec :: "vm_event \<Rightarrow> vm_life \<Rightarrow> vm_life option" where
  "vm_life_exec VmOpen s = (if vk_listener s = Unopened then Some (s\<lparr>vk_listener := Local\<rparr>) else None)"
| "vm_life_exec VmPublish s = (if vk_listener s = Local
      then Some (s\<lparr>vk_listener := publish (vk_closed s), vk_published := \<not> vk_closed s\<rparr>) else None)"
| "vm_life_exec VmSetAcme s =
     (if vk_acme s = NoAcme \<and> vk_published s
      then Some (s\<lparr>vk_acme := AcmeSet\<rparr>) else None)"
| "vm_life_exec VmStartAcme s = (if vk_acme s = AcmeSet then Some (s\<lparr>vk_acme := AcmeRunning\<rparr>) else None)"
| "vm_life_exec VmServe s = (if vk_acme s \<noteq> NoAcme \<and> \<not> vk_grpc s then Some (s\<lparr>vk_grpc := True\<rparr>) else None)"
| "vm_life_exec VmCloseChannel s = (if vk_closed s then None else Some (s\<lparr>vk_closed := True\<rparr>))"
| "vm_life_exec VmCloseSockets s =
     (if vk_closed s \<and> \<not> vk_taken s
      then Some (s\<lparr>vk_taken := True, vk_listener := close_slot (vk_listener s), vk_grpc := False,
        vk_acme := (if vk_acme s = NoAcme then NoAcme else AcmeClosed)\<rparr>) else None)"

definition vm_life_inv :: "vm_life \<Rightarrow> bool" where
  "vm_life_inv s \<longleftrightarrow> (vk_taken s \<longrightarrow> vk_closed s \<and> vk_listener s \<noteq> Stored)"

lemma vm_life_inv_exec: "vm_life_inv s \<Longrightarrow> vm_life_exec e s = Some s' \<Longrightarrow> vm_life_inv s'"
  by (cases e) (auto simp: vm_life_inv_def publish_def close_slot_def split: if_splits)

interpretation vm_lifecycle: event_system vm_life_exec vm_life_inv
  by unfold_locales (rule vm_life_inv_exec)

text \<open>An ACME server that runs after \<open>Close\<close> took the sockets goes on running.\<close>

lemma acme_stays:
  "vk_taken s \<and> vk_acme s = AcmeRunning \<Longrightarrow> vm_life_exec e s = Some s' \<Longrightarrow> vk_taken s' \<and> vk_acme s' = AcmeRunning"
  by (cases e) (auto split: if_splits)

section \<open>Properties\<close>

text \<open>Once \<open>Close\<close> of the shadowsocks server has taken its sockets, neither socket is ever again stored
  open in the server, whatever happens before and after; a socket that was being opened meanwhile is closed by the
  goroutine that opened it.\<close>

theorem ss_close_complete:
  assumes "run_events ss_life_exec es ss_life_new = Some s" and "sk_taken s" and "run_events ss_life_exec fs s = Some s'"
  shows "sk_tcp s' \<noteq> Stored \<and> sk_udp s' \<noteq> Stored \<and>
    (if sk_tcp s' = Local then ss_life_exec PublishTCP s' = Some (s'\<lparr>sk_tcp := Closed\<rparr>) else True) \<and>
    (if sk_udp s' = Local then ss_life_exec PublishUDP s' = Some (s'\<lparr>sk_udp := Closed\<rparr>) else True)"
proof -
  have "ss_life_inv ss_life_new" by (simp add: ss_life_inv_def ss_life_new_def)
  from ss_lifecycle.run_keeps [OF assms(1) this] have "ss_life_inv s" .
  from ss_lifecycle.run_keeps [OF assms(3) this] have "ss_life_inv s'" .
  moreover have "sk_taken s'"
  proof (rule run_events_inv [of sk_taken ss_life_exec, OF _ assms(3,2)])
    show "sk_taken b" if "sk_taken a" "ss_life_exec e a = Some b" for e a b
      using that by (cases e) (auto split: if_splits)
  qed
  ultimately show ?thesis by (simp add: ss_life_inv_def publish_def)
qed

theorem ss_close_complete_witness:
  "\<exists>s s'. run_events ss_life_exec [OpenTCP, PublishTCP, OpenUDP, CloseChannel, CloseSockets] ss_life_new = Some s \<and>
     sk_tcp s = Closed \<and> sk_udp s = Local \<and> run_events ss_life_exec [PublishUDP] s = Some s' \<and> sk_udp s' \<noteq> Stored"
proof -
  let ?s = "\<lparr>sk_closed = True, sk_taken = True, sk_tcp = Closed, sk_udp = Local\<rparr>"
  have r: "run_events ss_life_exec [OpenTCP, PublishTCP, OpenUDP, CloseChannel, CloseSockets] ss_life_new = Some ?s"
    by (simp add: ss_life_new_def publish_def close_slot_def)
  have r': "run_events ss_life_exec [PublishUDP] ?s = Some (?s\<lparr>sk_udp := Closed\<rparr>)"
    by (simp add: publish_def)
  have "sk_taken ?s" by simp
  from ss_close_complete [OF r this r'] have "sk_udp (?s\<lparr>sk_udp := Closed\<rparr>) \<noteq> Stored" by blast
  with r r' show ?thesis by fastforce
qed

text \<open>\<open>Close\<close> of the vmess server closes the listener it finds, but a run in which it comes between the
  storing of the listener and the setting of the ACME server ends with an ACME server that runs and that no later
  event closes.\<close>

theorem vm_close_leaks_acme:
  "(case run_events vm_life_exec es vm_life_new of None \<Rightarrow> True | Some s \<Rightarrow> (if vk_taken s then vk_listener s \<noteq> Stored else True)) \<and>
   (\<exists>s. run_events vm_life_exec [VmOpen, VmPublish, VmCloseChannel, VmCloseSockets, VmSetAcme, VmStartAcme] vm_life_new = Some s \<and>
     vk_listener s = Closed \<and>
     (\<forall>fs. case run_events vm_life_exec fs s of None \<Rightarrow> True | Some s' \<Rightarrow> vk_acme s' = AcmeRunning))"
proof -
  have i: "vm_life_inv vm_life_new" by (simp add: vm_life_inv_def vm_life_new_def)
  have "vm_life_inv s" if "run_events vm_life_exec es vm_life_new = Some s" for s
    using vm_lifecycle.run_keeps [OF that i] .
  then have 1: "case run_events vm_life_exec es vm_life_new of None \<Rightarrow> True
      | Some s \<Rightarrow> (if vk_taken s then vk_listener s \<noteq> Stored else True)"
    by (auto simp: vm_life_inv_def split: option.split)
  let ?s = "\<lparr>vk_closed = True, vk_taken = True, vk_listener = Closed, vk_published = True, vk_acme = AcmeRunning, vk_grpc = False\<rparr>"
  have r: "run_events vm_life_exec [VmOpen, VmPublish, VmCloseChannel, VmCloseSockets, VmSetAcme, VmStartAcme] vm_life_new = Some ?s"
    by (simp add: vm_life_new_def publish_def close_slot_def)
  have "vk_taken s' \<and> vk_acme s' = AcmeRunning" if "run_events vm_life_exec fs ?s = Some s'" for fs s'
    by (rule run_events_inv [of "\<lambda>s. vk_taken s \<and> vk_acme s = AcmeRunning" vm_life_exec, OF acme_stays that]) simp_all
  then have "\<forall>fs. case run_events vm_life_exec fs ?s of None \<Rightarrow> True | Some s' \<Rightarrow> vk_acme s' = AcmeRunning"
    by (auto split: option.split)
  with 1 r show ?thesis by (intro conjI exI [of _ ?s]) simp_all
qed

end
