(* ===== verification/Juicity_Conn.thy ===== *)
theory Juicity_Conn
  imports Juicity_Auth Server_Lifecycle
begin

text \<open>
  The goroutines of one juicity connection (\<open>handleConn\<close> and the beginning of \<open>handleStream\<close>,
  \<open>server/juicity/dataplane.go\<close>): authentication, the loop that accepts streams, and the streams that
  wait for authentication. The two contexts are whether they are done; the child context is done when its
  parent is. One step is what happens between two points at which another goroutine can be seen. The lemmas
  say whose UUID a stream goes on with.
\<close>

section \<open>The state of a connection\<close>

text \<open>The zero value of \<open>id\<close>, which the text of the manager's UUID stands for.\<close>

definition uuid_Nil :: "ju_lib \<Rightarrow> bytes" where
  "uuid_Nil L = fst (jl_parse L ManagerUuid)"

datatype auth_progress = AuthPending | AuthStored bytes | AuthReleased bytes | AuthFailed

datatype accept_progress = Accepting | Returning | AuthDoneRan | AllReturned

datatype stream_progress = WaitingAuth | WokenUp | NotCancelled | Proceeds bytes | GaveUp

record ju_conn =
  cn_id :: bytes
  cn_auth :: auth_progress
  cn_accept :: accept_progress
  cn_cancelled :: bool
  cn_authDone :: bool
  cn_streams :: "stream_progress list"

definition ju_conn_new :: "ju_lib \<Rightarrow> ju_conn" where
  "ju_conn_new L =
     \<lparr>cn_id = uuid_Nil L, cn_auth = AuthPending, cn_accept = Accepting, cn_cancelled = False, cn_authDone = False,
      cn_streams = []\<rparr>"

section \<open>The steps\<close>

text \<open>\<open>AuthEnds\<close> carries the result of \<open>handleAuth\<close>. When the loop returns, the deferred calls run in the
  reverse order of their statements: \<open>authDone\<close> before \<open>cancel\<close>.\<close>

datatype conn_event =
    AuthEnds "go_err + bytes" | AuthRelease
  | StreamOpened | AcceptFailed | RunAuthDone | RunCancel
  | StreamWakes nat | StreamLooks nat | StreamLoads nat

definition stream_step :: "nat \<Rightarrow> stream_progress \<Rightarrow> stream_progress \<Rightarrow> ju_conn \<Rightarrow> ju_conn option" where
  "stream_step i k k' c =
     (if i < length (cn_streams c) \<and> cn_streams c ! i = k then Some (c\<lparr>cn_streams := (cn_streams c)[i := k']\<rparr>) else None)"

fun ju_conn_exec :: "conn_event \<Rightarrow> ju_conn \<Rightarrow> ju_conn option" where
  "ju_conn_exec (AuthEnds r) c =
     (if cn_auth c = AuthPending then
        (case r of
           Inl e \<Rightarrow> Some (c\<lparr>cn_auth := AuthFailed, cn_cancelled := True, cn_authDone := True\<rparr>)
         | Inr u \<Rightarrow> Some (c\<lparr>cn_auth := AuthStored u, cn_id := u\<rparr>))
      else None)"
| "ju_conn_exec AuthRelease c =
     (case cn_auth c of AuthStored u \<Rightarrow> Some (c\<lparr>cn_auth := AuthReleased u, cn_authDone := True\<rparr>) | _ \<Rightarrow> None)"
| "ju_conn_exec StreamOpened c =
     (if cn_accept c = Accepting then Some (c\<lparr>cn_streams := cn_streams c @ [WaitingAuth]\<rparr>) else None)"
| "ju_conn_exec AcceptFailed c = (if cn_accept c = Accepting then Some (c\<lparr>cn_accept := Returning\<rparr>) else None)"
| "ju_conn_exec RunAuthDone c =
     (if cn_accept c = Returning then Some (c\<lparr>cn_accept := AuthDoneRan, cn_authDone := True\<rparr>) else None)"
| "ju_conn_exec RunCancel c =
     (if cn_accept c = AuthDoneRan then Some (c\<lparr>cn_accept := AllReturned, cn_cancelled := True\<rparr>) else None)"
| "ju_conn_exec (StreamWakes i) c = (if cn_authDone c then stream_step i WaitingAuth WokenUp c else None)"
| "ju_conn_exec (StreamLooks i) c = stream_step i WokenUp (if cn_cancelled c then GaveUp else NotCancelled) c"
| "ju_conn_exec (StreamLoads i) c = stream_step i NotCancelled (Proceeds (cn_id c)) c"

section \<open>What holds of every connection\<close>

definition authenticated :: "ju_conn \<Rightarrow> bytes \<Rightarrow> bool" where
  "authenticated c u \<longleftrightarrow> cn_auth c = AuthStored u \<or> cn_auth c = AuthReleased u"

definition released :: "ju_conn \<Rightarrow> bool" where
  "released c \<longleftrightarrow> cn_auth c = AuthReleased (cn_id c) \<or> cn_accept c = AuthDoneRan \<or> cn_accept c = AllReturned"

text \<open>The UUID is the zero UUID or the authenticated one; a stream that found the connection not cancelled
  has been released, and one that went on did so with the UUID of then.\<close>

definition stream_inv :: "ju_lib \<Rightarrow> ju_conn \<Rightarrow> stream_progress \<Rightarrow> bool" where
  "stream_inv L c k =
     (case k of
        NotCancelled \<Rightarrow> released c
      | Proceeds u \<Rightarrow> authenticated c u \<or> u = uuid_Nil L \<and> cn_accept c \<in> {AuthDoneRan, AllReturned}
      | _ \<Rightarrow> True)"

definition id_inv :: "ju_lib \<Rightarrow> ju_conn \<Rightarrow> bool" where
  "id_inv L c \<longleftrightarrow>
     (case cn_auth c of AuthStored u \<Rightarrow> cn_id c = u | AuthReleased u \<Rightarrow> cn_id c = u | _ \<Rightarrow> cn_id c = uuid_Nil L)"

definition done_inv :: "ju_conn \<Rightarrow> bool" where
  "done_inv c \<longleftrightarrow> (cn_authDone c \<longrightarrow> cn_cancelled c \<or> released c)"

definition ju_conn_inv :: "ju_lib \<Rightarrow> ju_conn \<Rightarrow> bool" where
  "ju_conn_inv L c \<longleftrightarrow> id_inv L c \<and> done_inv c \<and>
     (WokenUp \<in> set (cn_streams c) \<longrightarrow> cn_authDone c) \<and>
     list_all (stream_inv L c) (cn_streams c)"

lemma stream_stepD:
  assumes "stream_step i k k' c = Some c'"
  shows "k \<in> set (cn_streams c)" "c' = c\<lparr>cn_streams := cn_streams c'\<rparr>" "set (cn_streams c') \<subseteq> insert k' (set (cn_streams c))"
  using assms set_update_subset_insert [of "cn_streams c" i k'] by (auto simp: stream_step_def split: if_splits)

lemma same_core:
  assumes "c' = c\<lparr>cn_streams := ks\<rparr>"
  shows "id_inv L c' = id_inv L c" "done_inv c' = done_inv c" "released c' = released c" "authenticated c' u = authenticated c u"
    "cn_authDone c' = cn_authDone c" "cn_cancelled c' = cn_cancelled c" "cn_accept c' = cn_accept c"
  unfolding assms by (simp_all add: id_inv_def done_inv_def released_def authenticated_def split: auth_progress.split)

text \<open>The UUID is the zero UUID or the authenticated one.\<close>

lemma id_inv_cases: "id_inv L c \<Longrightarrow> cn_id c = uuid_Nil L \<or> authenticated c (cn_id c)"
  by (auto simp: id_inv_def authenticated_def split: auth_progress.splits)

text \<open>One step of the contexts keeps what was authenticated, released or done.\<close>

lemma ju_conn_core:
  assumes "ju_conn_exec e c = Some c'" and "id_inv L c" and "done_inv c"
  shows "id_inv L c' \<and> done_inv c' \<and> (\<forall>u. authenticated c u \<longrightarrow> authenticated c' u) \<and> (released c \<longrightarrow> released c') \<and>
    (cn_accept c \<in> {AuthDoneRan, AllReturned} \<longrightarrow> cn_accept c' \<in> {AuthDoneRan, AllReturned}) \<and>
    (cn_authDone c \<longrightarrow> cn_authDone c')"
proof (cases "\<exists>i k k'. stream_step i k k' c = Some c'")
  case True
  then obtain i k k' where "stream_step i k k' c = Some c'" by blast
  from same_core [OF stream_stepD(2) [OF this]] assms(2,3) show ?thesis by simp
next
  case False
  then show ?thesis
    using assms by (cases e) (auto simp: id_inv_def done_inv_def authenticated_def released_def
        split: if_split_asm sum.split_asm auth_progress.split_asm)
qed

text \<open>One step leaves the streams, appends a waiting one, or moves one on.\<close>

lemma ju_conn_streams:
  assumes "ju_conn_inv L c" and "ju_conn_exec e c = Some c'" and "k \<in> set (cn_streams c')"
  shows "k \<in> set (cn_streams c) \<or> stream_inv L c' k \<and> (k = WokenUp \<longrightarrow> cn_authDone c')"
proof (cases e)
  case (StreamWakes i)
  with assms(2) have s: "stream_step i WaitingAuth WokenUp c = Some c'" "cn_authDone c" by (auto split: if_splits)
  from stream_stepD [OF s(1)] same_core(5) [OF stream_stepD(2) [OF s(1)]] s(2) assms(3) show ?thesis
    by (auto simp: stream_inv_def)
next
  case (StreamLooks i)
  with assms(2) have s: "stream_step i WokenUp (if cn_cancelled c then GaveUp else NotCancelled) c = Some c'" by simp
  note c' = stream_stepD [OF s] same_core [OF stream_stepD(2) [OF s]]
  from c'(1) assms(1) have "cn_cancelled c \<or> released c" by (auto simp: ju_conn_inv_def done_inv_def)
  with c'(3,6) assms(3) show ?thesis by (auto simp: stream_inv_def split: if_splits)
next
  case (StreamLoads i)
  with assms(2) have s: "stream_step i NotCancelled (Proceeds (cn_id c)) c = Some c'" by simp
  note c' = stream_stepD [OF s] same_core [OF stream_stepD(2) [OF s]]
  from c'(1) assms(1) have "released c" "cn_id c = uuid_Nil L \<or> authenticated c (cn_id c)"
    using id_inv_cases by (auto simp: ju_conn_inv_def list_all_iff stream_inv_def)
  then have "stream_inv L c' (Proceeds (cn_id c))"
    using c'(7,10) by (auto simp: stream_inv_def released_def authenticated_def)
  with c'(3) assms(3) show ?thesis by auto
qed (use assms in \<open>auto simp: stream_inv_def split: if_splits sum.splits auth_progress.splits\<close>)

lemma ju_conn_inv_exec:
  assumes "ju_conn_inv L c" and "ju_conn_exec e c = Some c'"
  shows "ju_conn_inv L c'"
proof -
  have i: "id_inv L c" "done_inv c" "WokenUp \<in> set (cn_streams c) \<longrightarrow> cn_authDone c" "list_all (stream_inv L c) (cn_streams c)"
    using assms(1) by (simp_all add: ju_conn_inv_def)
  note core = ju_conn_core [OF assms(2) i(1,2)]
  have "stream_inv L c k \<Longrightarrow> stream_inv L c' k" for k using core by (cases k) (auto simp: stream_inv_def)
  then have "list_all (stream_inv L c') (cn_streams c')"
    using ju_conn_streams [OF assms] i(4) by (auto simp: list_all_iff)
  moreover have "WokenUp \<in> set (cn_streams c') \<longrightarrow> cn_authDone c'"
    using ju_conn_streams [OF assms, of WokenUp] core i(3) by blast
  ultimately show ?thesis using core by (simp add: ju_conn_inv_def)
qed

interpretation ju_connection: event_system ju_conn_exec "ju_conn_inv L" for L
  by unfold_locales (rule ju_conn_inv_exec)

text \<open>The manager's passage is the one of the zero UUID.\<close>

lemma manager_has_Nil:
  "\<exists>s p. ju_AddPassages L gen [manager_passage] s0 = Some (s, None) \<and> ju_users s (uuid_Nil L) = Some p \<and> pa_Manager p"
  by (simp add: ju_AddPassages_def ju_LocalizePassages_def ju_addPassages_def uuid_Nil_def manager_passage_def Let_def)

section \<open>Properties\<close>

text \<open>C29: A stream goes on with the UUID its connection authenticated, as long as the loop that accepts streams
  has not returned. When it returns, the deferred calls first end the context of authentication and then
  that of the connection, and a stream that wakes in between goes on without any authentication, with the zero
  UUID. This is the UUID of the manager; only the end of the QUIC streams, which fails what such a stream
  reads, protects the manager's messages then.\<close>

theorem ju_conn_identity:
  assumes "run_events ju_conn_exec es (ju_conn_new L) = Some c" and "Proceeds u \<in> set (cn_streams c)"
  shows "(authenticated c u \<or> u = uuid_Nil L \<and> cn_accept c \<in> {AuthDoneRan, AllReturned}) \<and>
    (\<exists>c'. run_events ju_conn_exec [StreamOpened, AcceptFailed, RunAuthDone, StreamWakes 0, StreamLooks 0, StreamLoads 0]
        (ju_conn_new L) = Some c' \<and> cn_streams c' = [Proceeds (uuid_Nil L)] \<and> cn_auth c' = AuthPending) \<and>
    (\<exists>s p. ju_AddPassages L gen [manager_passage] ju_New = Some (s, None) \<and> ju_users s (uuid_Nil L) = Some p \<and> pa_Manager p)"
proof (intro conjI manager_has_Nil)
  have "ju_conn_inv L (ju_conn_new L)" by (simp add: ju_conn_inv_def ju_conn_new_def id_inv_def done_inv_def)
  from ju_connection.run_keeps [OF assms(1) this] have "ju_conn_inv L c" .
  with assms(2) show "authenticated c u \<or> u = uuid_Nil L \<and> cn_accept c \<in> {AuthDoneRan, AllReturned}"
    by (auto simp: ju_conn_inv_def list_all_iff stream_inv_def)
qed (simp add: ju_conn_new_def stream_step_def)

theorem ju_conn_identity_witness:
  "\<exists>c. run_events ju_conn_exec [StreamOpened, AuthEnds (Inr [7]), AuthRelease, StreamWakes 0, StreamLooks 0, StreamLoads 0]
      (ju_conn_new demo_ju_lib) = Some c \<and> cn_streams c = [Proceeds [7]] \<and> authenticated c [7]"
proof -
  let ?es = "[StreamOpened, AuthEnds (Inr [7]), AuthRelease, StreamWakes 0, StreamLooks 0, StreamLoads 0]"
  let ?c = "\<lparr>cn_id = [7], cn_auth = AuthReleased [7], cn_accept = Accepting, cn_cancelled = False, cn_authDone = True,
      cn_streams = [Proceeds [7]]\<rparr>"
  have r: "run_events ju_conn_exec ?es (ju_conn_new demo_ju_lib) = Some ?c"
    by (simp add: ju_conn_new_def stream_step_def)
  have "Proceeds [7] \<in> set (cn_streams ?c)" by simp
  from ju_conn_identity [OF r this] r show ?thesis by fastforce
qed

end
