(* ===== verification/Lock_Order.thy ===== *)
theory Lock_Order
  imports Main
begin

text \<open>
  The two mutexes of a server with user contexts, that of the server and that of the pool
  (\<open>server/shadowsocks/server.go\<close>, \<open>server/shadowsocks/user_context.go\<close>, \<open>infra/lru/lru.go\<close>; the vmess
  server has the same), and the operations as the sequences in which they lock and unlock them. Goroutines
  interleave by single locks; the mutex inside a list of passages is always taken last, and left out. The
  lemmas say when goroutines that wait for each other can arise.
\<close>

section \<open>Operations as sequences of locks\<close>

datatype mutex = ServerMutex | PoolMutex

datatype lock_op = Acquire mutex | Release mutex

text \<open>\<open>Get\<close>, \<open>GetKeys\<close> and a \<open>GetOrInsert\<close> that finds the key hold the pool's mutex for themselves.\<close>

definition pool_section :: "lock_op list" where
  "pool_section = [Acquire PoolMutex, Release PoolMutex]"

text \<open>\<open>GetUserContextOrInsert\<close>: for a new address the function that makes the context runs inside
  \<open>GetOrInsert\<close>, and locks the server.\<close>

definition user_context_locks :: "bool \<Rightarrow> lock_op list" where
  "user_context_locks known =
     (if known then pool_section
      else [Acquire PoolMutex, Acquire ServerMutex, Release ServerMutex, Release PoolMutex])"

text \<open>\<open>addPassages\<close> and \<open>removePassagesFunc\<close> ask for the keys and then for each of the \<open>n\<close> contexts.\<close>

definition visit_contexts :: "nat \<Rightarrow> lock_op list" where
  "visit_contexts n = concat (replicate (Suc n) pool_section)"

definition add_passages_locks :: "bool \<Rightarrow> nat \<Rightarrow> lock_op list" where
  "add_passages_locks manager n =
     [Acquire ServerMutex] @ (if manager then visit_contexts n else []) @ visit_contexts n @ [Release ServerMutex]"

definition remove_passages_locks :: "nat \<Rightarrow> lock_op list" where
  "remove_passages_locks n = [Acquire ServerMutex] @ visit_contexts n @ [Release ServerMutex]"

definition passages_locks :: "lock_op list" where
  "passages_locks = [Acquire ServerMutex, Release ServerMutex]"

text \<open>The operations, with or without lookups of new addresses.\<close>

definition operations :: "bool \<Rightarrow> lock_op list set" where
  "operations new =
     {user_context_locks True, passages_locks} \<union> range remove_passages_locks \<union> range (case_prod add_passages_locks) \<union>
     (if new then {user_context_locks False} else {})"

section \<open>Goroutines\<close>

text \<open>What each goroutine has still to do, and who holds a mutex.\<close>

record lock_state =
  lk_todo :: "lock_op list list"
  lk_owner :: "mutex \<Rightarrow> nat option"

definition lock_start :: "lock_op list list \<Rightarrow> lock_state" where
  "lock_start progs = \<lparr>lk_todo = progs, lk_owner = (\<lambda>m. None)\<rparr>"

text \<open>The next step of goroutine \<open>i\<close>; \<open>None\<close> if it is done or waits.\<close>

definition lock_step :: "nat \<Rightarrow> lock_state \<Rightarrow> lock_state option" where
  "lock_step i s =
     (if i < length (lk_todo s) then
        (case lk_todo s ! i of
           [] \<Rightarrow> None
         | Acquire m # r \<Rightarrow>
             (if lk_owner s m = None
              then Some \<lparr>lk_todo = (lk_todo s)[i := r], lk_owner = (lk_owner s)(m := Some i)\<rparr> else None)
         | Release m # r \<Rightarrow> Some \<lparr>lk_todo = (lk_todo s)[i := r], lk_owner = (lk_owner s)(m := None)\<rparr>)
      else None)"

fun lock_run :: "nat list \<Rightarrow> lock_state \<Rightarrow> lock_state option" where
  "lock_run [] s = Some s"
| "lock_run (i # sched) s = (case lock_step i s of None \<Rightarrow> None | Some s' \<Rightarrow> lock_run sched s')"

definition lock_done :: "lock_state \<Rightarrow> bool" where
  "lock_done s \<longleftrightarrow> list_all (\<lambda>p. p = []) (lk_todo s)"

definition deadlocked :: "lock_state \<Rightarrow> bool" where
  "deadlocked s \<longleftrightarrow> \<not> lock_done s \<and> list_all (\<lambda>i. lock_step i s = None) [0..<length (lk_todo s)]"

section \<open>Sequences that keep the order\<close>

text \<open>A sequence keeps the order, from the mutexes that are held, if it acquires the server's mutex only
  while it holds none and the pool's mutex only while it does not hold that, releases what it holds, and ends
  with none.\<close>

fun ordered :: "bool \<Rightarrow> bool \<Rightarrow> lock_op list \<Rightarrow> bool" where
  "ordered hs hp [] = (\<not> hs \<and> \<not> hp)"
| "ordered hs hp (Acquire ServerMutex # r) = (\<not> hs \<and> \<not> hp \<and> ordered True hp r)"
| "ordered hs hp (Acquire PoolMutex # r) = (\<not> hp \<and> ordered hs True r)"
| "ordered hs hp (Release ServerMutex # r) = (hs \<and> ordered False hp r)"
| "ordered hs hp (Release PoolMutex # r) = (hp \<and> ordered hs False r)"

lemma ordered_pool: "ordered hs False (pool_section @ r) = ordered hs False r"
  by (simp add: pool_section_def)

lemma ordered_visit: "ordered hs False (visit_contexts n @ r) = ordered hs False r"
proof -
  have "ordered hs False (concat (replicate k pool_section) @ r) = ordered hs False r" for k
    by (induction k) (simp_all add: ordered_pool)
  then show ?thesis by (simp add: visit_contexts_def del: replicate_Suc)
qed

lemma ordered_operations:
  "ordered False False (user_context_locks True)" "ordered False False (add_passages_locks manager n)"
  "ordered False False (remove_passages_locks n)" "ordered False False passages_locks"
  using ordered_visit [of True n "[Release ServerMutex]"] ordered_visit [of True n "visit_contexts n @ [Release ServerMutex]"]
  by (simp_all add: user_context_locks_def pool_section_def add_passages_locks_def remove_passages_locks_def passages_locks_def)

lemma operations_ordered: "p \<in> operations False \<Longrightarrow> ordered False False p"
  by (auto simp: operations_def ordered_operations)

lemma operation_starts: "p \<in> operations new \<Longrightarrow> \<exists>m r. p = Acquire m # r"
  by (auto simp: operations_def user_context_locks_def pool_section_def passages_locks_def remove_passages_locks_def
      add_passages_locks_def split: if_splits)

lemma waits:
  assumes "i < length (lk_todo s)" and "\<exists>m r. lk_todo s ! i = Acquire m # r" and "\<And>m. lk_owner s m \<noteq> None"
  shows "lock_step i s = None"
  using assms by (auto simp: lock_step_def)

text \<open>Every goroutine keeps the order from what it holds, and only goroutines hold something.\<close>

definition lock_ok :: "lock_state \<Rightarrow> bool" where
  "lock_ok s \<longleftrightarrow>
     (\<forall>i < length (lk_todo s). ordered (lk_owner s ServerMutex = Some i) (lk_owner s PoolMutex = Some i) (lk_todo s ! i)) \<and>
     (\<forall>m i. lk_owner s m = Some i \<longrightarrow> i < length (lk_todo s))"

lemma lock_okD:
  "lock_ok s \<Longrightarrow> lk_owner s m = Some i \<Longrightarrow> i < length (lk_todo s) \<and>
     ordered (lk_owner s ServerMutex = Some i) (lk_owner s PoolMutex = Some i) (lk_todo s ! i)"
  unfolding lock_ok_def by blast

lemma lock_ok_start: "list_all (ordered False False) progs \<Longrightarrow> lock_ok (lock_start progs)"
  by (simp add: lock_ok_def lock_start_def list_all_length)

lemma lock_ok_step:
  assumes "lock_ok s" and "lock_step i s = Some s'"
  shows "lock_ok s'"
proof -
  have i: "i < length (lk_todo s)" using assms(2) by (simp add: lock_step_def split: if_splits)
  then have o: "ordered (lk_owner s ServerMutex = Some i) (lk_owner s PoolMutex = Some i) (lk_todo s ! i)"
    using assms(1) by (simp add: lock_ok_def)
  show ?thesis
  proof (cases "lk_todo s ! i")
    case Nil
    with assms(2) i show ?thesis by (simp add: lock_step_def)
  next
    case (Cons p r)
    show ?thesis
    proof (cases p)
      case (Acquire m)
      with Cons assms(2) i have s': "lk_owner s m = None"
        "s' = \<lparr>lk_todo = (lk_todo s)[i := r], lk_owner = (lk_owner s)(m := Some i)\<rparr>"
        by (auto simp: lock_step_def split: if_splits)
      show ?thesis
        using assms(1) o i s' Cons Acquire
        by (cases m) (auto simp: lock_ok_def nth_list_update)
    next
      case (Release m)
      with Cons assms(2) i have s': "s' = \<lparr>lk_todo = (lk_todo s)[i := r], lk_owner = (lk_owner s)(m := None)\<rparr>"
        by (auto simp: lock_step_def)
      show ?thesis
        using assms(1) o i s' Cons Release
        by (cases m) (auto simp: lock_ok_def nth_list_update split: if_splits)
    qed
  qed
qed

lemma lock_ok_run: "lock_run sched s = Some s' \<Longrightarrow> lock_ok s \<Longrightarrow> lock_ok s'"
  by (induction sched arbitrary: s) (auto split: option.splits dest: lock_ok_step)

text \<open>A goroutine that holds the pool's mutex can always go on, and one that holds the server's waits at
  most for the pool's.\<close>

lemma pool_owner_steps:
  assumes "lock_ok s" and "lk_owner s PoolMutex = Some i"
  shows "lock_step i s \<noteq> None"
proof -
  have i: "i < length (lk_todo s)" "ordered (lk_owner s ServerMutex = Some i) True (lk_todo s ! i)"
    using lock_okD [OF assms] assms(2) by simp_all
  then obtain p r where "lk_todo s ! i = p # r" by (cases "lk_todo s ! i") auto
  moreover from this i(2) obtain m where "p = Release m" by (cases p; cases "case p of Acquire m \<Rightarrow> m | Release m \<Rightarrow> m") auto
  ultimately show ?thesis using i(1) by (simp add: lock_step_def)
qed

lemma server_owner_steps:
  assumes "lock_ok s" and "lk_owner s ServerMutex = Some i" and "lk_owner s PoolMutex = None"
  shows "lock_step i s \<noteq> None"
proof -
  have i: "i < length (lk_todo s)" "ordered True False (lk_todo s ! i)"
    using lock_okD [OF assms(1,2)] assms(2,3) by simp_all
  then obtain p r where "lk_todo s ! i = p # r" by (cases "lk_todo s ! i") auto
  moreover from this i(2) have "p = Acquire PoolMutex \<or> p = Release ServerMutex"
    by (cases p; cases "case p of Acquire m \<Rightarrow> m | Release m \<Rightarrow> m") auto
  ultimately show ?thesis using i(1) assms(3) by (auto simp: lock_step_def)
qed

lemma ordered_progress:
  assumes "lock_ok s"
  shows "\<not> deadlocked s"
proof (cases "lk_owner s PoolMutex")
  case (Some i)
  with assms pool_owner_steps [OF assms Some] show ?thesis by (auto simp: deadlocked_def lock_ok_def list_all_iff)
next
  case None
  note p = this
  show ?thesis
  proof (cases "lk_owner s ServerMutex")
    case (Some i)
    with assms server_owner_steps [OF assms Some p] show ?thesis by (auto simp: deadlocked_def lock_ok_def list_all_iff)
  next
    case None
    show ?thesis
    proof (cases "lock_done s")
      case False
      then obtain i q r where i: "i < length (lk_todo s)" "lk_todo s ! i = q # r"
        by (auto simp: lock_done_def list_all_length neq_Nil_conv)
      have "lk_owner s m = None" for m using p None by (cases m) auto
      with i have "lock_step i s \<noteq> None" by (cases q) (auto simp: lock_step_def)
      with i(1) show ?thesis by (auto simp: deadlocked_def list_all_iff)
    qed (simp add: deadlocked_def)
  qed
qed

section \<open>Properties\<close>

text \<open>C11: Goroutines that add, remove and read passages and look up contexts of known addresses never come to
  wait for each other for ever. But one lookup of a new address is enough: if it takes the pool's mutex
  after another goroutine, in \<open>AddPassages\<close>, has taken the server's, both wait for ever, and with
  them every goroutine that comes later.\<close>

theorem context_pool_deadlock:
  "(case lock_run sched (lock_start progs) of
      None \<Rightarrow> True
    | Some s \<Rightarrow> (if set progs \<subseteq> operations False then \<not> deadlocked s else True)) \<and>
   (\<exists>s. lock_run [0, 1] (lock_start (add_passages_locks manager n # user_context_locks False # others)) = Some s \<and>
      lk_owner s PoolMutex = Some 1 \<and> lk_owner s ServerMutex = Some 0 \<and>
      (if set others \<subseteq> operations True then deadlocked s else True))"
proof -
  have 1: "\<not> deadlocked s" if "lock_run sched (lock_start progs) = Some s" "set progs \<subseteq> operations False" for s
  proof (rule ordered_progress, rule lock_ok_run [OF that(1)], rule lock_ok_start)
    show "list_all (ordered False False) progs"
      using that(2) operations_ordered by (auto simp: list_all_iff)
  qed
  obtain r where r: "add_passages_locks manager n = Acquire ServerMutex # Acquire PoolMutex # r"
    by (cases manager) (auto simp: add_passages_locks_def visit_contexts_def pool_section_def)
  let ?s = "\<lparr>lk_todo = (Acquire PoolMutex # r) # [Acquire ServerMutex, Release ServerMutex, Release PoolMutex] # others,
     lk_owner = Map.empty(ServerMutex \<mapsto> 0, PoolMutex \<mapsto> Suc 0)\<rparr>"
  have "lock_run [0, 1] (lock_start (add_passages_locks manager n # user_context_locks False # others)) = Some ?s"
    by (simp add: r user_context_locks_def lock_start_def lock_step_def)
  moreover have "deadlocked ?s" if "set others \<subseteq> operations True"
  proof -
    have "lock_step i ?s = None" if i: "i < length (lk_todo ?s)" for i
    proof (rule waits [OF i])
      show "\<exists>m r. lk_todo ?s ! i = Acquire m # r"
        using i \<open>set others \<subseteq> operations True\<close> operation_starts by (auto simp: nth_Cons less_Suc_eq_0_disj dest!: nth_mem split: nat.split)
      show "lk_owner ?s m \<noteq> None" for m by (cases m) simp_all
    qed
    then show ?thesis by (simp add: deadlocked_def lock_done_def list_all_iff)
  qed
  ultimately show ?thesis using 1 by (auto split: option.split)
qed

end
