(* ===== verification/Install.thy ===== *)
theory Install
  imports Common Config Dial
begin

text \<open>
  The installer (\<open>cmd/install.go\<close>) and the test for a top-level domain it uses
  (\<open>common/domain.go\<close>, whose table is an argument): the validators, the questions, the parameters
  made from the answers, and the paths of the files that are written. The library that asks the questions is given by
  its answers; as it documents, an answer it returns has passed the validator of the question.
\<close>

section \<open>Validators\<close>

text \<open>\<open>path.Ext\<close>: the text from the last dot after the last slash.\<close>

fun ext_rev :: "string \<Rightarrow> string \<Rightarrow> string" where
  "ext_rev [] acc = []"
| "ext_rev (c # cs) acc = (if c = CHR ''/'' then [] else if c = CHR ''.'' then c # acc else ext_rev cs (c # acc))"

definition path_Ext :: "string \<Rightarrow> string" where
  "path_Ext p = ext_rev (rev p) []"

definition HasTopDomain :: "(string \<Rightarrow> bool) \<Rightarrow> string \<Rightarrow> bool" where
  "HasTopDomain mTopDomains domain = mTopDomains (path_Ext domain)"

text \<open>\<open>net.ParseIP\<close> accepts no zone.\<close>

definition parses_IP :: "string \<Rightarrow> bool" where
  "parses_IP s = (case parseAddr s of None \<Rightarrow> False | Some (IP4 b) \<Rightarrow> True | Some (IP6 b z) \<Rightarrow> z = [])"

definition hostValidator :: "(string \<Rightarrow> bool) \<Rightarrow> (string \<Rightarrow> go_err + string list) \<Rightarrow> string \<Rightarrow> go_err option" where
  "hostValidator mTopDomains lookupHost str =
     (let e = Errorf ''Invalid Hostname''
      in if parses_IP str then None
         else if \<not> HasTopDomain mTopDomains str then Some e
         else (case lookupHost str of
                 Inl _ \<Rightarrow> Some e
               | Inr addrs \<Rightarrow> if length addrs = 0 then Some e else None))"

fun first_invalid :: "(string \<Rightarrow> go_err option) \<Rightarrow> (string \<Rightarrow> go_err \<Rightarrow> go_err) \<Rightarrow> string list \<Rightarrow> go_err option" where
  "first_invalid validator wrap [] = None"
| "first_invalid validator wrap (x # xs) =
     (case validator x of Some e \<Rightarrow> Some (wrap x e) | None \<Rightarrow> first_invalid validator wrap xs)"

definition hostsValidator :: "(string \<Rightarrow> bool) \<Rightarrow> (string \<Rightarrow> go_err + string list) \<Rightarrow> string \<Rightarrow> go_err option" where
  "hostsValidator mTopDomains lookupHost str =
     (if length str = 0 then Some (Errorf ''host length cannot be zero'')
      else first_invalid (hostValidator mTopDomains lookupHost) Wrapped (strings_Split CHR '','' str))"

definition portValidator :: "string \<Rightarrow> go_err option" where
  "portValidator str =
     (case atoi str of
        (port, Some _) \<Rightarrow> Some (Errorf ''Invalid Port'')
      | (port, None) \<Rightarrow> if 65535 < port \<or> port < 0 then Some (Errorf ''Invalid Port'') else None)"

definition dayValidator :: "string \<Rightarrow> go_err option" where
  "dayValidator str =
     (case atoi str of
        (day, Some _) \<Rightarrow> Some (Errorf ''Invalid Day'')
      | (day, None) \<Rightarrow> if 31 < day \<or> day \<le> 0 then Some (Errorf ''Invalid Day'') else None)"

definition uint64Validator :: "string \<Rightarrow> go_err option" where
  "uint64Validator str = (case snd (parseUint 64 str) of None \<Rightarrow> None | Some _ \<Rightarrow> Some (Errorf ''Invalid Uint64''))"

definition limitValidator :: "string \<Rightarrow> go_err option" where
  "limitValidator str =
     (let e = Errorf ''Invalid Limit Format'';
          fields = strings_Split CHR ''/'' str
      in if length str = 0 then Some e
         else if length fields \<noteq> 3 then Some e
         else first_invalid uint64Validator (\<lambda>_ e. e) fields)"

definition minLengthValidator :: "nat \<Rightarrow> string \<Rightarrow> go_err option" where
  "minLengthValidator minLength str = (if length str < minLength then Some (Errorf ''Too short'') else None)"

definition addressValidator :: "string \<Rightarrow> go_err option" where
  "addressValidator str =
     (let e = Errorf ''Invalid Adderss''
      in case net_SplitHostPort str of
           Inl _ \<Rightarrow> Some e
         | Inr (host, port) \<Rightarrow> if \<not> parses_IP host then Some e else portValidator port)"

section \<open>Defaults\<close>

definition installProtocolOptions :: "proto_names \<Rightarrow> string list" where
  "installProtocolOptions n =
     [pn_VMessTCP n, pn_VMessTlsGrpc n, pn_Shadowsocks n, pn_Juicity n, ProtocolAnyTLS]"

text \<open>\<open>getIP\<close> on the status and the lines of the answer.\<close>

fun ip_line :: "string list \<Rightarrow> string" where
  "ip_line [] = []"
| "ip_line (l # ls) = (if take 3 l = ''ip='' then drop 3 l else ip_line ls)"

definition getIP :: "go_err + nat \<times> string list \<Rightarrow> string" where
  "getIP resp = (case resp of Inl _ \<Rightarrow> [] | Inr (status, ls) \<Rightarrow> if status = 200 then ip_line ls else [])"

definition getDefaultHostnames :: "go_err + nat \<times> string list \<Rightarrow> go_err + nat \<times> string list \<Rightarrow> string" where
  "getDefaultHostnames r4 r6 = strings_Join '','' (Deduplicate (RemoveEmpty [getIP r4, getIP r6]))"

section \<open>The questions\<close>

text \<open>The state of the target file, and the answers in the order of the questions.\<close>

datatype file_stat = StatError go_err | StatMissing | StatFound

record answers =
  an_stat :: file_stat
  an_overwrite :: bool
  an_proto :: "go_err + string"
  an_sweetLisaHost :: "go_err + string"
  an_ticket :: "go_err + string"
  an_listen :: "go_err + string"
  an_hostname :: "go_err + string"
  an_port :: "go_err + string"
  an_name :: "go_err + string"
  an_needRelay :: "go_err + bool"
  an_enableLimit :: "go_err + bool"
  an_day :: "go_err + string"
  an_limit :: "go_err + string"

definition asked_limit :: "answers \<Rightarrow> go_err + BandwidthLimit" where
  "asked_limit an =
     ebind (an_enableLimit an) (\<lambda>enable.
       if \<not> enable
       then Inr \<lparr>bl_Enable = False, bl_ResetDay = 0, bl_UplinkLimitGiB = 0, bl_DownlinkLimitGiB = 0, bl_TotalLimitGiB = 0\<rparr>
       else ebind (an_day an) (\<lambda>strDay.
            ebind (an_limit an) (\<lambda>strLimit.
              let fields = strings_Split CHR ''/'' strLimit
              in Inr \<lparr>bl_Enable = True, bl_ResetDay = ShouldParseUint8 strDay,
                      bl_UplinkLimitGiB = ShouldParseInt64 (fields ! 0),
                      bl_DownlinkLimitGiB = ShouldParseInt64 (fields ! 1),
                      bl_TotalLimitGiB = ShouldParseInt64 (fields ! 2)\<rparr>)))"

text \<open>\<open>getParams\<close>: \<open>None\<close> if the file is not to be overwritten.\<close>

definition getParams :: "answers \<Rightarrow> go_err + Params option" where
  "getParams an =
     (case an_stat an of
        StatError e \<Rightarrow> Inl e
      | st \<Rightarrow>
          if st = StatFound \<and> \<not> an_overwrite an then Inr None
          else
            ebind (an_proto an) (\<lambda>proto.
            ebind (an_sweetLisaHost an) (\<lambda>sweetLisaHost.
            ebind (an_ticket an) (\<lambda>ticket.
            ebind (an_listen an) (\<lambda>listen.
            ebind (case net_SplitHostPort listen of Inl e \<Rightarrow> Inl (Errorf (addr_err_msg e)) | Inr hp \<Rightarrow> Inr hp) (\<lambda>(_, listenPort).
                  ebind (an_hostname an) (\<lambda>hostname.
                  ebind (an_port an) (\<lambda>strPort.
                  ebind (an_name an) (\<lambda>name.
                  ebind (an_needRelay an) (\<lambda>needRelay.
                  ebind (asked_limit an) (\<lambda>limit.
                    Inr (Some \<lparr>params_Lisa = \<lparr>lisa_Host = sweetLisaHost\<rparr>,
                      params_John = \<lparr>john_Listen = listen,
                        john_Log = \<lparr>log_Level = [], log_File = [], log_MaxDays = 0, log_DisableColor = False, log_DisableTimestamp = False\<rparr>,
                        john_Protocol = proto, john_Name = name, john_Hostname = hostname, john_Port = fst (atoi strPort),
                        john_Ticket = ticket, john_BandwidthLimit = limit, john_NoRelay = \<not> needRelay,
                        john_MaxDrainN = 0, john_DoNotValidateCDN = False, john_Only4 = False\<rparr>\<rparr>))))))))))))"

section \<open>The paths\<close>

definition targetPaths :: "bool \<Rightarrow> string \<Rightarrow> string \<times> string \<times> string" where
  "targetPaths forUser home =
     (if forUser
      then (path_Join [home, ''.config'', ''BitterJohn'', ''BitterJohn.json''],
            path_Join [home, ''bin'', ''BitterJohn''],
            path_Join [home, ''.config'', ''systemd'', ''user'', ''BitterJohn.service''])
      else (''/etc/BitterJohn/BitterJohn.json'', ''/usr/bin/BitterJohn'', ''/usr/lib/systemd/system/BitterJohn.service''))"

section \<open>What the validators guarantee\<close>

lemma first_invalid_None: "first_invalid v w xs = None \<longleftrightarrow> (\<forall>x \<in> set xs. v x = None)"
  by (induction xs) (auto split: option.splits)

lemma portValidator_range: "portValidator s = None \<Longrightarrow> 0 \<le> fst (atoi s) \<and> fst (atoi s) \<le> 65535"
  by (auto simp: portValidator_def split: prod.splits option.splits if_splits)

lemma parse_digits_range: "parse_digits M n s = (v, Some ErrRange) \<Longrightarrow> v = M"
  by (induction s arbitrary: n) (auto simp: Let_def split: if_splits)

text \<open>A text \<open>Atoi\<close> reads without a sign is a number of the unsigned parser.\<close>

lemma atoi_unsigned:
  assumes "parseInt64 s = (v, None)" and "hd s \<noteq> CHR ''+''" and "hd s \<noteq> CHR ''-''"
  shows "parseUint 64 s = (nat v, None) \<and> 0 \<le> v"
proof -
  obtain un e where u: "parseUint 64 s = (un, e)" by fastforce
  with assms have e: "e \<noteq> Some ErrSyntax" "un < 2 ^ 63" "v = int un"
    by (auto simp: parseInt64_def Let_def split: if_splits)
  have "e \<noteq> Some ErrRange"
    using u e(2) parse_digits_range [of "2 ^ 64 - 1" 0 s un] by (auto simp: parseUint_def split: if_splits)
  with e(1) have "e = None" by (cases e; cases "the e") auto
  with u e(3) show ?thesis by simp
qed

text \<open>\<open>atoi\<close> reads a sign that \<open>ShouldParseUint8\<close> does not.\<close>

lemma day_parsed:
  assumes "dayValidator s = None"
  shows "uint (ShouldParseUint8 s) = (if hd s = CHR ''+'' then 0 else fst (atoi s)) \<and> 0 < fst (atoi s) \<and> fst (atoi s) \<le> 31"
proof -
  obtain v where v: "atoi s = (v, None)" "0 < v" "v \<le> 31"
    using assms by (auto simp: dayValidator_def split: prod.splits option.splits if_splits)
  then have ne: "s \<noteq> []" and sign: "hd s \<noteq> CHR ''-''"
    by (auto simp: parseInt64_def Let_def split: if_splits prod.splits)
  show ?thesis
  proof (cases "hd s = CHR ''+''")
    case True
    with ne have "parseUint 8 s = (0, Some ErrSyntax)"
      by (cases s) (auto simp: parseUint_def is_digit_def)
    with True v show ?thesis by (simp add: ShouldParseUint8_def)
  next
    case False
    from atoi_unsigned [OF v(1) False sign] ne have "parse_digits (2 ^ 64 - 1) 0 s = (nat v, None)"
      by (simp add: parseUint_def)
    moreover have "nat v \<le> 2 ^ 8 - 1" using v(3) by simp
    ultimately have "parse_digits (2 ^ 8 - 1) 0 s = (nat v, None)" by (rule parse_digits_narrow) simp
    with ne have "parseUint 8 s = (nat v, None)" by (simp add: parseUint_def)
    moreover have "uint (word_of_nat (nat v) :: byte) = v"
    proof -
      have "take_bit 8 v = v" using v(2,3) by (intro take_bit_int_eq_self) simp_all
      with v(2) show ?thesis by (simp add: unsigned_of_int)
    qed
    ultimately show ?thesis using False v by (simp add: ShouldParseUint8_def)
  qed
qed

lemma limit_parsed:
  assumes "uint64Validator s = None"
  shows "ShouldParseInt64 s = min (2 ^ 63 - 1) (int (fst (parseUint 64 s)))"
proof -
  from assms obtain n where n: "parseUint 64 s = (n, None)"
    by (auto simp: uint64Validator_def split: option.splits) (metis prod.collapse)
  then have "s \<noteq> []" "is_digit (hd s)" by (cases s; simp add: parseUint_def split: if_splits)+
  then have "hd s \<noteq> CHR ''+''" "hd s \<noteq> CHR ''-''" by (auto simp: is_digit_def)
  with n \<open>s \<noteq> []\<close> show ?thesis by (auto simp: ShouldParseInt64_def parseInt64_def Let_def min_def)
qed

text \<open>Answers that passed their validators; the protocol is one of the options.\<close>

fun answer_ok :: "(string \<Rightarrow> bool) \<Rightarrow> go_err + string \<Rightarrow> bool" where
  "answer_ok P (Inl e) = True"
| "answer_ok P (Inr s) = P s"

definition validated :: "proto_names \<Rightarrow> (string \<Rightarrow> bool) \<Rightarrow> (string \<Rightarrow> go_err + string list) \<Rightarrow> answers \<Rightarrow> bool" where
  "validated n tld lookupHost an \<longleftrightarrow>
     answer_ok (\<lambda>s. s \<in> set (installProtocolOptions n)) (an_proto an) \<and>
     answer_ok (\<lambda>s. hostValidator tld lookupHost s = None) (an_sweetLisaHost an) \<and>
     answer_ok (\<lambda>s. minLengthValidator 15 s = None) (an_ticket an) \<and>
     answer_ok (\<lambda>s. addressValidator s = None) (an_listen an) \<and>
     answer_ok (\<lambda>s. hostsValidator tld lookupHost s = None) (an_hostname an) \<and>
     answer_ok (\<lambda>s. portValidator s = None) (an_port an) \<and>
     answer_ok (\<lambda>s. minLengthValidator 5 s = None) (an_name an) \<and>
     answer_ok (\<lambda>s. dayValidator s = None) (an_day an) \<and>
     answer_ok (\<lambda>s. limitValidator s = None) (an_limit an)"

text \<open>A limit: the fields are numbers, capped at the largest \<open>int64\<close>.\<close>

lemma limit_fields:
  assumes "limitValidator s = None" and "i < 3"
  shows "0 \<le> ShouldParseInt64 (strings_Split CHR ''/'' s ! i) \<and> ShouldParseInt64 (strings_Split CHR ''/'' s ! i) < 2 ^ 63"
proof -
  have "first_invalid uint64Validator (\<lambda>_ e. e) (strings_Split CHR ''/'' s) = None" "length (strings_Split CHR ''/'' s) = 3"
    using assms(1) by (auto simp: limitValidator_def Let_def split: if_splits)
  then have "uint64Validator (strings_Split CHR ''/'' s ! i) = None"
    using assms(2) by (simp add: first_invalid_None)
  from limit_parsed [OF this] show ?thesis by simp
qed

lemma asked_limit_ok:
  assumes "asked_limit an = Inr l" and "validated n tld lookupHost an"
  shows "0 \<le> bl_UplinkLimitGiB l \<and> bl_UplinkLimitGiB l < 2 ^ 63 \<and> 0 \<le> bl_DownlinkLimitGiB l \<and> bl_DownlinkLimitGiB l < 2 ^ 63 \<and>
    0 \<le> bl_TotalLimitGiB l \<and> bl_TotalLimitGiB l < 2 ^ 63 \<and>
    (if bl_Enable l then \<exists>d. an_day an = Inr d \<and> 0 < fst (atoi d) \<and> fst (atoi d) \<le> 31 \<and>
        uint (bl_ResetDay l) = (if hd d = CHR ''+'' then 0 else fst (atoi d))
     else bl_ResetDay l = 0)"
proof -
  from assms(1) obtain enable where e: "an_enableLimit an = Inr enable" by (auto simp: asked_limit_def ebind_eq_Inr)
  show ?thesis
  proof (cases enable)
    case False
    with assms(1) e show ?thesis by (auto simp: asked_limit_def)
  next
    case True
    with assms(1) e obtain d t where d: "an_day an = Inr d" "an_limit an = Inr t"
      "l = \<lparr>bl_Enable = True, bl_ResetDay = ShouldParseUint8 d,
         bl_UplinkLimitGiB = ShouldParseInt64 (strings_Split CHR ''/'' t ! 0),
         bl_DownlinkLimitGiB = ShouldParseInt64 (strings_Split CHR ''/'' t ! 1),
         bl_TotalLimitGiB = ShouldParseInt64 (strings_Split CHR ''/'' t ! 2)\<rparr>"
      by (auto simp: asked_limit_def ebind_eq_Inr Let_def)
    with assms(2) have "dayValidator d = None" "limitValidator t = None" by (simp_all add: validated_def)
    note f = limit_fields [OF this(2), of 0] limit_fields [OF this(2), of 1] limit_fields [OF this(2), of 2]
    from f day_parsed [OF \<open>dayValidator d = None\<close>] d show ?thesis by simp
  qed
qed

section \<open>Properties\<close>

text \<open>C35: The parameters the installer writes, from answers that passed their validators, are well formed:
  the protocol is one of the five, the port a port, ticket and name have their minimal lengths, the
  limits are numbers of an \<open>int64\<close>, and the reset day is the day that was entered, unless it
  was entered with a plus sign: then it is 0, which means never. No byte of an unauthenticated
  connection is ever drained, although the default for a missing parameter is all of them.\<close>

theorem install_params_typed:
  assumes "getParams an = Inr (Some p)" and "validated n tld lookupHost an"
  shows "john_Protocol (params_John p) \<in> set (installProtocolOptions n) \<and>
    0 \<le> john_Port (params_John p) \<and> john_Port (params_John p) \<le> 65535 \<and>
    15 \<le> length (john_Ticket (params_John p)) \<and> 5 \<le> length (john_Name (params_John p)) \<and>
    john_MaxDrainN (params_John p) = 0 \<and>
    (let l = john_BandwidthLimit (params_John p)
     in 0 \<le> bl_UplinkLimitGiB l \<and> bl_UplinkLimitGiB l < 2 ^ 63 \<and> 0 \<le> bl_DownlinkLimitGiB l \<and> bl_DownlinkLimitGiB l < 2 ^ 63 \<and>
        0 \<le> bl_TotalLimitGiB l \<and> bl_TotalLimitGiB l < 2 ^ 63 \<and>
        (if bl_Enable l then \<exists>d. an_day an = Inr d \<and> 0 < fst (atoi d) \<and> fst (atoi d) \<le> 31 \<and>
            uint (bl_ResetDay l) = (if hd d = CHR ''+'' then 0 else fst (atoi d))
         else bl_ResetDay l = 0))"
proof -
  from assms(1) obtain proto host ticket listen hostname strPort name relay l where
    a: "an_proto an = Inr proto" "an_ticket an = Inr ticket" "an_port an = Inr strPort" "an_name an = Inr name"
      "asked_limit an = Inr l" and
    p: "john_Protocol (params_John p) = proto" "john_Port (params_John p) = fst (atoi strPort)"
      "john_Ticket (params_John p) = ticket" "john_Name (params_John p) = name"
      "john_BandwidthLimit (params_John p) = l" "john_MaxDrainN (params_John p) = 0"
    by (auto simp: getParams_def ebind_eq_Inr split: file_stat.split_asm if_split_asm)
  from assms(2) a have "proto \<in> set (installProtocolOptions n)" "portValidator strPort = None"
    "minLengthValidator 15 ticket = None" "minLengthValidator 5 name = None" by (simp_all add: validated_def)
  with p portValidator_range [of strPort] asked_limit_ok [OF a(5) assms(2)] show ?thesis
    by (simp add: minLengthValidator_def split: if_splits)
qed

definition demo_answers :: answers where
  "demo_answers = \<lparr>an_stat = StatMissing, an_overwrite = False, an_proto = Inr ''anytls'', an_sweetLisaHost = Inr ''1.2.3.4'',
     an_ticket = Inr ''0123456789abcde'', an_listen = Inr ''1.2.3.4:80'', an_hostname = Inr ''1.2.3.4'', an_port = Inr ''80'',
     an_name = Inr ''north'', an_needRelay = Inr True, an_enableLimit = Inr True, an_day = Inr ''+5'', an_limit = Inr ''9/0/0''\<rparr>"

definition demo_names :: proto_names where
  "demo_names = \<lparr>pn_Shadowsocks = ''shadowsocks'', pn_VMessTCP = ''vmess'', pn_VMessTlsGrpc = ''vmess+tls+grpc'',
     pn_Juicity = ''juicity'', pn_UsePacketAddr = 1, pn_CmdPing = 0, pn_CmdSyncPassages = 1\<rparr>"

lemma demo_validated: "validated demo_names (\<lambda>d. True) (\<lambda>h. Inr []) demo_answers"
proof -
  have "parses_IP ''1.2.3.4''" "net_SplitHostPort ''1.2.3.4:80'' = Inr (''1.2.3.4'', ''80'')" by code_simp+
  moreover have "strings_Split CHR '','' ''1.2.3.4'' = [''1.2.3.4'']" "portValidator ''80'' = None"
    "dayValidator ''+5'' = None" "limitValidator ''9/0/0'' = None"
    by (simp_all add: portValidator_def dayValidator_def limitValidator_def uint64Validator_def parseInt64_def parseUint_def
        is_digit_def digit_val_def)
  ultimately show ?thesis
    by (simp add: validated_def demo_answers_def demo_names_def installProtocolOptions_def hostValidator_def hostsValidator_def
        minLengthValidator_def addressValidator_def ProtocolAnyTLS_def)
qed

theorem install_params_typed_witness:
  "\<exists>p. getParams demo_answers = Inr (Some p) \<and> john_Port (params_John p) \<le> 65535 \<and>
     bl_Enable (john_BandwidthLimit (params_John p)) \<and> bl_ResetDay (john_BandwidthLimit (params_John p)) = 0"
proof -
  have "net_SplitHostPort ''1.2.3.4:80'' = Inr (''1.2.3.4'', ''80'')" by code_simp
  then obtain p where p: "getParams demo_answers = Inr (Some p)" "bl_Enable (john_BandwidthLimit (params_John p))"
    by (simp add: getParams_def demo_answers_def asked_limit_def Let_def)
  from install_params_typed [OF p(1) demo_validated] p(2) have
    "john_Port (params_John p) \<le> 65535" "uint (bl_ResetDay (john_BandwidthLimit (params_John p))) = 0"
    by (auto simp: Let_def demo_answers_def)
  then show ?thesis using p by (simp add: uint_0_iff)
qed

end
