(* ===== verification/Limited_Dialer.thy ===== *)
theory Limited_Dialer
  imports Common Go_Netip
begin

text \<open>
  The dialer that keeps clients from the private networks (\<open>server/limited_dialer.go\<close>). The
  dialer of the standard library is an argument that is given the control function; so are the resolver
  of UDP addresses, the ranger of private networks and the parser of DNS messages.
\<close>

section \<open>Dialing\<close>

definition ErrDialPrivateAddress :: go_err where
  "ErrDialPrivateAddress = Errorf ''request to dial a private address''"

datatype ForceNetworkType = Force4 | Force6 | KeepOrigin

record limited_dialer =
  ld_fullCone :: bool
  ld_forceNetwork :: ForceNetworkType

text \<open>\<open>Control\<close> of the dialer of the standard library.\<close>

definition lim_Control :: "(bytes \<Rightarrow> bool option) \<Rightarrow> string \<Rightarrow> go_err option" where
  "lim_Control contains address =
     (case net_SplitHostPort address of
        Inl e \<Rightarrow> Some (Errorf (addr_err_msg e))
      | Inr (host, _) \<Rightarrow>
          (case parseAddr host of
             None \<Rightarrow> Some (Errorf ''unable to parse IP'')
           | Some ip \<Rightarrow>
               if IsPrivate contains (addr_AsSlice ip)
               then Some (Wrapped (addr_String ip) ErrDialPrivateAddress) else None))"

definition NewLimitedDialer :: "bool \<Rightarrow> ForceNetworkType \<Rightarrow> limited_dialer" where
  "NewLimitedDialer fullCone forceNetwork = \<lparr>ld_fullCone = fullCone, ld_forceNetwork = forceNetwork\<rparr>"

text \<open>The symmetric and the full cone dialer; \<open>only4\<close> is the parameter of the configuration.\<close>

definition InitLimitedDialer :: "bool \<Rightarrow> limited_dialer \<times> limited_dialer" where
  "InitLimitedDialer only4 =
     (let forceNetwork = (if only4 then Force4 else KeepOrigin)
      in (NewLimitedDialer False forceNetwork, NewLimitedDialer True forceNetwork))"

text \<open>\<open>fullconeDialer\<close> of the command: the dialer made at the start, or one that keeps the network.\<close>

definition fullconeDialer :: "limited_dialer option \<Rightarrow> limited_dialer" where
  "fullconeDialer d = (case d of Some d \<Rightarrow> d | None \<Rightarrow> NewLimitedDialer True KeepOrigin)"

text \<open>A connection to a remote address, a UDP connection to one, or an unconnected UDP socket.\<close>

datatype lim_conn = LimTCP string | LimUDP string | LimFullCone

definition forced :: "ForceNetworkType \<Rightarrow> string \<Rightarrow> string \<Rightarrow> string" where
  "forced f base network = (case f of Force4 \<Rightarrow> base @ ''4'' | Force6 \<Rightarrow> base @ ''6'' | KeepOrigin \<Rightarrow> network)"

text \<open>\<open>DialContext\<close>. \<open>netDial\<close> is given the control function, the network and the address,
  and returns the remote address of the connection.\<close>

definition lim_DialContext :: "(bytes \<Rightarrow> bool option) \<Rightarrow>
    ((string \<Rightarrow> go_err option) \<Rightarrow> string \<Rightarrow> string \<Rightarrow> go_err + string) \<Rightarrow> (string \<Rightarrow> go_err option) \<Rightarrow>
    limited_dialer \<Rightarrow> go_err + string \<Rightarrow> string \<Rightarrow> go_err + lim_conn" where
  "lim_DialContext contains netDial listenUDP d magicNetwork addr =
     ebind magicNetwork (\<lambda>network.
       if take 3 network = ''tcp'' then
         ebind (netDial (lim_Control contains) (forced (ld_forceNetwork d) ''tcp'' network) addr) (\<lambda>r. Inr (LimTCP r))
       else if take 3 network = ''udp'' then
         (let network' = forced (ld_forceNetwork d) ''udp'' network
          in if ld_fullCone d
             then (case listenUDP network' of Some e \<Rightarrow> Inl e | None \<Rightarrow> Inr LimFullCone)
             else ebind (netDial (lim_Control contains) network' addr) (\<lambda>r. Inr (LimUDP r)))
       else Inl (Errorf (''unknown network '' @ network)))"

text \<open>\<open>Dial\<close>, \<open>DialTcp\<close> and \<open>DialUdp\<close>; \<open>parse\<close> is the library's \<open>ParseMagicNetwork\<close>. The outer \<open>None\<close> of
  \<open>DialUdp\<close> is the panic of its type assertion.\<close>

definition lim_Dial :: "(bytes \<Rightarrow> bool option) \<Rightarrow> ((string \<Rightarrow> go_err option) \<Rightarrow> string \<Rightarrow> string \<Rightarrow> go_err + string) \<Rightarrow>
    (string \<Rightarrow> go_err option) \<Rightarrow> (string \<Rightarrow> go_err + string) \<Rightarrow> limited_dialer \<Rightarrow> string \<Rightarrow> string \<Rightarrow> go_err + lim_conn" where
  "lim_Dial contains netDial listenUDP parse d network addr = lim_DialContext contains netDial listenUDP d (parse network) addr"

definition lim_DialTcp :: "(bytes \<Rightarrow> bool option) \<Rightarrow> ((string \<Rightarrow> go_err option) \<Rightarrow> string \<Rightarrow> string \<Rightarrow> go_err + string) \<Rightarrow>
    (string \<Rightarrow> go_err option) \<Rightarrow> (string \<Rightarrow> go_err + string) \<Rightarrow> limited_dialer \<Rightarrow> string \<Rightarrow> go_err + lim_conn" where
  "lim_DialTcp contains netDial listenUDP parse d addr = lim_Dial contains netDial listenUDP parse d ''tcp'' addr"

definition lim_DialUdp :: "(bytes \<Rightarrow> bool option) \<Rightarrow> ((string \<Rightarrow> go_err option) \<Rightarrow> string \<Rightarrow> string \<Rightarrow> go_err + string) \<Rightarrow>
    (string \<Rightarrow> go_err option) \<Rightarrow> (string \<Rightarrow> go_err + string) \<Rightarrow> limited_dialer \<Rightarrow> string \<Rightarrow> (go_err + lim_conn) option" where
  "lim_DialUdp contains netDial listenUDP parse d addr =
     (case lim_Dial contains netDial listenUDP parse d ''udp'' addr of
        Inl e \<Rightarrow> Some (Inl e)
      | Inr (LimTCP r) \<Rightarrow> None
      | Inr c \<Rightarrow> Some (Inr c))"

text \<open>As the library leaves a plain network as it is, the assertion holds.\<close>

lemma lim_DialUdp_no_panic:
  "parse ''udp'' = Inr ''udp'' \<Longrightarrow> lim_DialUdp contains netDial listenUDP parse d addr \<noteq> None"
  by (auto simp: lim_DialUdp_def lim_Dial_def lim_DialContext_def ebind_eq_Inr Let_def split: sum.splits lim_conn.splits option.splits if_splits)

section \<open>Datagrams\<close>

text \<open>Where a datagram goes: to the peer of a connected socket, or to an IP and a port.\<close>

datatype lim_sent = ToPeer bytes | ToAddr bytes bytes u16

text \<open>\<open>WriteTo\<close>; \<open>resolve\<close> is \<open>net.ResolveUDPAddr\<close>, whose IP is empty for an address
  without a host.\<close>

definition lim_WriteTo :: "(bytes \<Rightarrow> bool option) \<Rightarrow> (string \<Rightarrow> go_err + bytes \<times> u16) \<Rightarrow> bool \<Rightarrow> bytes \<Rightarrow> string \<Rightarrow>
    go_err + lim_sent" where
  "lim_WriteTo contains resolve fullCone b addr =
     (if \<not> fullCone then Inr (ToPeer b)
      else ebind (resolve addr) (\<lambda>(ip, port).
        if IsPrivate contains ip then Inl ErrDialPrivateAddress else Inr (ToAddr b ip port)))"

text \<open>\<open>WriteMsgUDP\<close> and \<open>WriteToUDP\<close> are given the resolved address.\<close>

definition lim_WriteToUDP :: "(bytes \<Rightarrow> bool option) \<Rightarrow> bool \<Rightarrow> bytes \<Rightarrow> bytes \<times> u16 \<Rightarrow> go_err + lim_sent" where
  "lim_WriteToUDP contains fullCone b addr =
     (if \<not> fullCone then Inr (ToPeer b)
      else if IsPrivate contains (fst addr) then Inl ErrDialPrivateAddress
      else Inr (ToAddr b (fst addr) (snd addr)))"

text \<open>The out-of-band data goes only to an address; otherwise it is dropped.\<close>

definition lim_WriteMsgUDP :: "(bytes \<Rightarrow> bool option) \<Rightarrow> bool \<Rightarrow> bytes \<Rightarrow> bytes \<Rightarrow> bytes \<times> u16 \<Rightarrow> go_err + lim_sent \<times> bytes" where
  "lim_WriteMsgUDP contains fullCone b oob addr =
     (if \<not> fullCone then Inr (ToPeer b, [])
      else if IsPrivate contains (fst addr) then Inl ErrDialPrivateAddress
      else Inr (ToAddr b (fst addr) (snd addr), oob))"

lemma lim_writes_agree:
  "lim_WriteMsgUDP contains fc b oob addr = map_sum id (\<lambda>x. (x, if fc then oob else [])) (lim_WriteToUDP contains fc b addr) \<and>
   (resolve target = Inr addr \<longrightarrow> lim_WriteTo contains resolve fc b target = lim_WriteToUDP contains fc b addr)"
  by (auto simp: lim_WriteMsgUDP_def lim_WriteToUDP_def lim_WriteTo_def split: prod.split)

section \<open>DNS over a connection\<close>

record dns_conn =
  dn_buf :: "bytes option"
  dn_start :: nat

text \<open>What \<open>Write\<close> hands to the connection; \<open>None\<close> is the panic of slicing a message of less
  than two bytes.\<close>

definition dns_Write :: "bool \<Rightarrow> bytes \<Rightarrow> bytes option" where
  "dns_Write isUDP b = (if isUDP then (if length b < 2 then None else Some (drop 2 b)) else Some b)"

text \<open>A buffer of \<open>n\<close> bytes of the pool that starts with \<open>b\<close>: what follows is left over from
  its last use.\<close>

definition pooled :: "(nat \<Rightarrow> byte) \<Rightarrow> nat \<Rightarrow> bytes \<Rightarrow> bytes" where
  "pooled old n b = b @ map old [length b..<n]"

text \<open>The first part of \<open>Read\<close>, up to the message: the buffer with two bytes before the message, and
  the length of the message. \<open>dgram\<close> is what one read of the UDP connection yields, \<open>conn\<close> the
  bytes of a stream.\<close>

definition dns_receive :: "bool \<Rightarrow> (nat \<Rightarrow> byte) \<Rightarrow> go_err + bytes \<Rightarrow> bytes \<Rightarrow> go_err + bytes \<times> nat \<times> bytes" where
  "dns_receive isUDP old dgram conn =
     (if isUDP then
        ebind dgram (\<lambda>m. let m' = take 512 m in Inr (pooled old 514 ([old 0, old 1] @ m'), length m', conn))
      else
        ebind (readFull 2 conn) (\<lambda>(len, r1).
        ebind (readFull (unat (uint16 len)) r1) (\<lambda>(m, r2).
          Inr ((if 1280 < uint16 len then [old 0, old 1] else len) @ m, length m, r2))))"

text \<open>The check of the answers: those that are no address records are \<open>None\<close>.\<close>

fun private_answer :: "(bytes \<Rightarrow> bool option) \<Rightarrow> bytes option list \<Rightarrow> bool" where
  "private_answer contains [] = False"
| "private_answer contains (None # as) = private_answer contains as"
| "private_answer contains (Some ip # as) = (IsPrivate contains ip \<or> private_answer contains as)"

text \<open>\<open>Read\<close> into a buffer of \<open>blen\<close> bytes: the bytes put there and the number it reports.\<close>

definition dns_Read :: "bool \<Rightarrow> (nat \<Rightarrow> byte) \<Rightarrow> (bytes \<Rightarrow> bool option) \<Rightarrow> (bytes \<Rightarrow> go_err + bytes option list) \<Rightarrow>
    nat \<Rightarrow> go_err + bytes \<Rightarrow> bytes \<Rightarrow> dns_conn \<Rightarrow> dns_conn \<times> bytes \<times> (go_err + bytes \<times> nat)" where
  "dns_Read isUDP old contains unpack blen dgram conn c =
     (case dn_buf c of
        Some buf \<Rightarrow>
          (let out = take blen (drop (dn_start c) buf);
               start = dn_start c + length out
           in (if length buf \<le> start then c\<lparr>dn_buf := None, dn_start := start\<rparr> else c\<lparr>dn_start := start\<rparr>,
               conn, Inr (out, length out)))
      | None \<Rightarrow>
          (case dns_receive isUDP old dgram conn of
             Inl e \<Rightarrow> (c, conn, Inl e)
           | Inr (buf, n, conn') \<Rightarrow>
               (case unpack (take n (drop 2 buf)) of
                  Inl e \<Rightarrow> (c, conn', Inl e)
                | Inr answers \<Rightarrow>
                    if private_answer contains answers then (c, conn', Inl (Wrapped ''answer'' ErrDialPrivateAddress))
                    else
                      (let buf' = putUint16 (word_of_nat n) @ drop 2 buf; n' = n + 2
                       in (if n' < blen then c else c\<lparr>dn_buf := Some buf', dn_start := blen\<rparr>,
                           conn', Inr (take blen (take n' buf'), n'))))))"

text \<open>A message that does not fit is reported with its whole length, and the next read yields the
  left-overs of the buffer after the message.\<close>

lemma dns_Read_overlong:
  assumes "length m \<le> 512" and "unpack m = Inr []" and "dn_buf c = None" and "blen < length m + 2"
  shows "\<exists>c' out. dns_Read True old contains unpack blen (Inr m) conn c = (c', conn, Inr (out, length m + 2)) \<and>
    length out = blen"
proof -
  have "take (length m) (drop 2 (pooled old 514 (old 0 # old 1 # m))) = m"
    "length (pooled old 514 (old 0 # old 1 # m)) = 514"
    using assms(1) by (simp_all add: pooled_def)
  with assms show ?thesis
    by (simp add: dns_Read_def dns_receive_def Let_def putUint16_def min_def)
qed

section \<open>Properties\<close>

text \<open>C34: If the dialer of the standard library only connects to addresses its control function accepts, as it
  documents, then a TCP connection or connected UDP socket of the limited dialer has a peer whose IP the
  ranger does not call private. An unconnected socket sends a datagram exactly if the address resolves
  and the ranger does not call the IP private; the ranger's error counts as not private, so a
  destination without an IP passes.\<close>

theorem limited_destinations:
  assumes "\<forall>control network addr r. netDial control network addr = Inr r \<longrightarrow> control r = None"
  shows "(lim_DialContext contains netDial listenUDP d magicNetwork addr = Inr (LimTCP r) \<or>
       lim_DialContext contains netDial listenUDP d magicNetwork addr = Inr (LimUDP r) \<longrightarrow>
       (\<exists>host port ip. net_SplitHostPort r = Inr (host, port) \<and> parseAddr host = Some ip \<and>
          contains (addr_AsSlice ip) \<noteq> Some True)) \<and>
    (lim_DialContext contains netDial listenUDP d magicNetwork addr = Inr LimFullCone \<longrightarrow> ld_fullCone d) \<and>
    (lim_WriteTo contains resolve True b target = Inr (ToAddr b ip port) \<longleftrightarrow>
       resolve target = Inr (ip, port) \<and> contains ip \<noteq> Some True)"
proof -
  have c: "\<exists>host port ip. net_SplitHostPort r = Inr (host, port) \<and> parseAddr host = Some ip \<and>
      contains (addr_AsSlice ip) \<noteq> Some True" if "netDial (lim_Control contains) network addr = Inr r" for network
  proof -
    from assms that have "lim_Control contains r = None" by blast
    then show ?thesis
      by (auto simp: lim_Control_def IsPrivate_def split: sum.splits prod.splits option.splits if_splits)
  qed
  have "\<exists>network. netDial (lim_Control contains) network addr = Inr r"
    if "lim_DialContext contains netDial listenUDP d magicNetwork addr = Inr (LimTCP r) \<or>
       lim_DialContext contains netDial listenUDP d magicNetwork addr = Inr (LimUDP r)"
    using that by (auto simp: lim_DialContext_def ebind_eq_Inr Let_def split: if_splits option.splits)
  with c have "lim_DialContext contains netDial listenUDP d magicNetwork addr = Inr (LimTCP r) \<or>
       lim_DialContext contains netDial listenUDP d magicNetwork addr = Inr (LimUDP r) \<longrightarrow>
       (\<exists>host port ip. net_SplitHostPort r = Inr (host, port) \<and> parseAddr host = Some ip \<and>
          contains (addr_AsSlice ip) \<noteq> Some True)" by blast
  moreover have "lim_DialContext contains netDial listenUDP d magicNetwork addr = Inr LimFullCone \<longrightarrow> ld_fullCone d"
    by (auto simp: lim_DialContext_def ebind_eq_Inr Let_def split: if_splits option.splits)
  moreover have "lim_WriteTo contains resolve True b target = Inr (ToAddr b ip port) \<longleftrightarrow>
       resolve target = Inr (ip, port) \<and> contains ip \<noteq> Some True"
    by (auto simp: lim_WriteTo_def ebind_eq_Inr IsPrivate_def split: option.splits if_splits)
  ultimately show ?thesis by blast
qed

text \<open>A dialer that asks the control function, and a ranger of \<open>127.0.0.0/8\<close> that fails on an empty IP.\<close>

definition demo_netDial :: "(string \<Rightarrow> go_err option) \<Rightarrow> string \<Rightarrow> string \<Rightarrow> go_err + string" where
  "demo_netDial control network addr = (case control addr of Some e \<Rightarrow> Inl e | None \<Rightarrow> Inr addr)"

definition demo_contains :: "bytes \<Rightarrow> bool option" where
  "demo_contains ip = (if ip = [] then None else Some (hd ip = 127))"

lemma demo_google: "net_SplitHostPort ''8.8.8.8:53'' = Inr (''8.8.8.8'', ''53'')" "parseAddr ''8.8.8.8'' = Some (IP4 [8, 8, 8, 8])"
  by code_simp+

theorem limited_destinations_witness:
  "lim_WriteTo demo_contains (\<lambda>a. Inr ([], 53)) True [1] '':53'' = Inr (ToAddr [1] [] 53) \<and>
   lim_DialContext demo_contains demo_netDial (\<lambda>n. None) (NewLimitedDialer True Force4) (Inr ''tcp'') ''8.8.8.8:53'' =
     Inr (LimTCP ''8.8.8.8:53'') \<and>
   (\<exists>host port ip. net_SplitHostPort ''8.8.8.8:53'' = Inr (host, port) \<and> parseAddr host = Some ip \<and>
      demo_contains (addr_AsSlice ip) \<noteq> Some True)"
proof -
  have h: "\<forall>control network addr r. demo_netDial control network addr = Inr r \<longrightarrow> control r = None"
    by (auto simp: demo_netDial_def split: option.splits)
  have d: "lim_DialContext demo_contains demo_netDial (\<lambda>n. None) (NewLimitedDialer True Force4) (Inr ''tcp'') ''8.8.8.8:53'' =
     Inr (LimTCP ''8.8.8.8:53'')"
    by (simp add: lim_DialContext_def demo_netDial_def lim_Control_def demo_google demo_contains_def IsPrivate_def)
  show ?thesis
    using limited_destinations [OF h, of demo_contains "\<lambda>n. None" "NewLimitedDialer True Force4"
        "Inr ''tcp''" "''8.8.8.8:53''" "''8.8.8.8:53''" "\<lambda>a. Inr ([], 53)" "[1]" "'':53''" "[]" 53] d
    by (simp add: demo_contains_def)
qed

end
