(* ===== verification/Env_Binding.thy ===== *)
theory Env_Binding
  imports Go_Std "HOL-Library.AList"
begin

text \<open>
  Binding the configuration to the environment (\<open>pkg/viper_tool/bind_envs.go\<close>): the hierarchical map
  of resolved values and the evaluation of default values, some of which refer to other values.
  A template of the standard library is given by its result on the map; the fields of the configuration
  are data, as reflection presents them. The iteration order of a Go map is an argument.
\<close>

section \<open>The hierarchical map\<close>

definition ErrRequired :: go_err where
  "ErrRequired = Errorf ''required''"

definition ErrMutualReference :: go_err where
  "ErrMutualReference = Errorf ''mutual reference or invalid value''"

definition ErrOverlayHierarchicalKey :: go_err where
  "ErrOverlayHierarchicalKey = Errorf ''overlay hierarchical key''"

datatype hval = HNil | HVal string | HMap "(string \<times> hval) list"

text \<open>\<open>SetValueHierarchicalMap\<close> after the key was split: the maps on the way are made where there are
  none. A nested map is shared with its parent, so a change in it is one in the parent.\<close>

fun set_path :: "string list \<Rightarrow> hval \<Rightarrow> (string \<times> hval) list \<Rightarrow> go_err + (string \<times> hval) list" where
  "set_path [] val m = Inr m"
| "set_path [lastKey] val m = Inr (AList.update lastKey val m)"
| "set_path (k # k' # ks) val m =
     (case map_of m k of
        None \<Rightarrow> ebind (set_path (k' # ks) val []) (\<lambda>m'. Inr (AList.update k (HMap m') m))
      | Some (HMap vv) \<Rightarrow> ebind (set_path (k' # ks) val vv) (\<lambda>m'. Inr (AList.update k (HMap m') m))
      | Some _ \<Rightarrow> Inl ErrOverlayHierarchicalKey)"

definition SetValueHierarchicalMap :: "(string \<times> hval) list \<Rightarrow> string \<Rightarrow> hval \<Rightarrow> go_err + (string \<times> hval) list" where
  "SetValueHierarchicalMap m key val = set_path (strings_Split CHR ''.'' key) val m"

fun get_path :: "string list \<Rightarrow> (string \<times> hval) list \<Rightarrow> hval option" where
  "get_path [] m = Some (HMap m)"
| "get_path (k # ks) m =
     (case map_of m k of
        None \<Rightarrow> None
      | Some v \<Rightarrow> if ks = [] then Some v else (case v of HMap vv \<Rightarrow> get_path ks vv | _ \<Rightarrow> None))"

section \<open>Binding\<close>

text \<open>\<open>eb_set\<close> are the values set in viper, over those of the file and the environment.\<close>

record EnvBinder =
  eb_set :: "string \<rightharpoonup> string"
  eb_toResolve :: "(string \<times> string) list"
  eb_resolved :: "(string \<times> hval) list"

definition NewEnvBinder :: EnvBinder where
  "NewEnvBinder = \<lparr>eb_set = Map.empty, eb_toResolve = [], eb_resolved = []\<rparr>"

datatype template = BadTemplate go_err | InvalidValue | ExecError go_err | NoValue | Rendered string

definition viper_Get :: "(string \<Rightarrow> hval) \<Rightarrow> EnvBinder \<Rightarrow> string \<Rightarrow> hval" where
  "viper_Get base b key = (case eb_set b key of Some v \<Rightarrow> HVal v | None \<Rightarrow> base key)"

text \<open>\<open>bindKey\<close>; \<open>exec\<close> is the template of an expression applied to the resolved values.\<close>

definition bindKey :: "(string \<Rightarrow> (string \<times> hval) list \<Rightarrow> template) \<Rightarrow> string \<Rightarrow> string \<Rightarrow> EnvBinder \<Rightarrow> go_err + EnvBinder \<times> bool" where
  "bindKey exec key expr b =
     (case exec expr (eb_resolved b) of
        BadTemplate e \<Rightarrow> Inl (Wrapped key e)
      | InvalidValue \<Rightarrow> Inr (b, False)
      | ExecError e \<Rightarrow> Inl (Wrapped key e)
      | NoValue \<Rightarrow> Inr (b, False)
      | Rendered s \<Rightarrow> Inr (b\<lparr>eb_set := (eb_set b)(key \<mapsto> s)\<rparr>, True))"

definition resolve_key :: "(string \<Rightarrow> hval) \<Rightarrow> string \<Rightarrow> EnvBinder \<Rightarrow> go_err + EnvBinder" where
  "resolve_key base key b =
     (case SetValueHierarchicalMap (eb_resolved b) key (viper_Get base b key) of
        Inl e \<Rightarrow> Inl (Wrapped key e)
      | Inr m \<Rightarrow> Inr (b\<lparr>eb_resolved := m\<rparr>))"

text \<open>The fields of a structure with their tags. A field without a \<open>json\<close> tag is skipped.\<close>

datatype field =
    Struct "string option" "field list"
  | Plain "string option" "string option" bool "string option"

definition first_part :: "string \<Rightarrow> string" where
  "first_part tv = hd (strings_Split CHR '','' tv)"

definition bind_plain :: "(string \<Rightarrow> (string \<times> hval) list \<Rightarrow> template) \<Rightarrow> (string \<Rightarrow> hval) \<Rightarrow> string \<Rightarrow> string option \<Rightarrow> bool \<Rightarrow>
    string option \<Rightarrow> EnvBinder \<Rightarrow> go_err + EnvBinder" where
  "bind_plain exec base key dflt required desc b =
     (if viper_Get base b key = HNil then
        (case dflt of
           Some tv \<Rightarrow>
             ebind (bindKey exec key tv b) (\<lambda>(b', ok).
               if ok then resolve_key base key b'
               else Inr (b'\<lparr>eb_toResolve := AList.update key tv (eb_toResolve b')\<rparr>))
         | None \<Rightarrow>
             if required
             then Inl (Wrapped (key @ (case desc of None \<Rightarrow> [] | Some d \<Rightarrow> '' ('' @ d @ '')'')) ErrRequired)
             else resolve_key base key b)
      else resolve_key base key b)"

text \<open>\<open>bindEnvs\<close> over the fields, with the path of the structure.\<close>

function bindEnvs :: "(string \<Rightarrow> (string \<times> hval) list \<Rightarrow> template) \<Rightarrow> (string \<Rightarrow> hval) \<Rightarrow> field list \<Rightarrow> string list \<Rightarrow>
    EnvBinder \<Rightarrow> go_err + EnvBinder" where
  "bindEnvs exec base [] parts b = Inr b"
| "bindEnvs exec base (Struct None sub # fs) parts b = bindEnvs exec base fs parts b"
| "bindEnvs exec base (Struct (Some tv) sub # fs) parts b =
     (case bindEnvs exec base sub (parts @ [first_part tv]) b of
        Inl e \<Rightarrow> Inl e | Inr b' \<Rightarrow> bindEnvs exec base fs parts b')"
| "bindEnvs exec base (Plain None d r t # fs) parts b = bindEnvs exec base fs parts b"
| "bindEnvs exec base (Plain (Some tv) d r t # fs) parts b =
     (case bind_plain exec base (strings_Join ''.'' (parts @ [first_part tv])) d r t b of
        Inl e \<Rightarrow> Inl e | Inr b' \<Rightarrow> bindEnvs exec base fs parts b')"
  by pat_completeness auto
termination
  by (relation "measure (\<lambda>(exec, base, fs, parts, b). size_list size fs)") auto

text \<open>One round over the keys to resolve, in the order of the list: the keys that could be bound
  leave.\<close>

fun bind_round :: "(string \<Rightarrow> (string \<times> hval) list \<Rightarrow> template) \<Rightarrow> (string \<Rightarrow> hval) \<Rightarrow> (string \<times> string) list \<Rightarrow>
    bool \<Rightarrow> EnvBinder \<Rightarrow> go_err + EnvBinder \<times> bool" where
  "bind_round exec base [] changed b = Inr (b, changed)"
| "bind_round exec base ((key, expr) # xs) changed b =
     (case bindKey exec key expr b of
        Inl e \<Rightarrow> Inl e
      | Inr (b1, ok) \<Rightarrow>
          if ok then
            (case resolve_key base key b1 of
               Inl e \<Rightarrow> Inl e
             | Inr b2 \<Rightarrow> bind_round exec base xs True (b2\<lparr>eb_toResolve := AList.delete key (eb_toResolve b2)\<rparr>))
          else bind_round exec base xs changed b1)"

text \<open>The loop of \<open>Bind\<close>; \<open>order\<close> is the order of each round, the fuel counts rounds.\<close>

fun bind_loop :: "nat \<Rightarrow> (nat \<Rightarrow> (string \<times> string) list \<Rightarrow> (string \<times> string) list) \<Rightarrow>
    (string \<Rightarrow> (string \<times> hval) list \<Rightarrow> template) \<Rightarrow> (string \<Rightarrow> hval) \<Rightarrow> EnvBinder \<Rightarrow> (go_err + EnvBinder) option" where
  "bind_loop 0 order exec base b = None"
| "bind_loop (Suc k) order exec base b =
     (if length (eb_toResolve b) = 0 then Some (Inr b)
      else case bind_round exec base (order k (eb_toResolve b)) False b of
             Inl e \<Rightarrow> Some (Inl e)
           | Inr (b', changed) \<Rightarrow>
               if \<not> changed
               then Some (Inl (Wrapped (strings_Join '', '' (map fst (order k (eb_toResolve b')))) ErrMutualReference))
               else bind_loop k order exec base b')"

definition Bind :: "nat \<Rightarrow> (nat \<Rightarrow> (string \<times> string) list \<Rightarrow> (string \<times> string) list) \<Rightarrow>
    (string \<Rightarrow> (string \<times> hval) list \<Rightarrow> template) \<Rightarrow> (string \<Rightarrow> hval) \<Rightarrow> field list \<Rightarrow> EnvBinder \<Rightarrow> (go_err + EnvBinder) option" where
  "Bind k order exec base iface b =
     (case bindEnvs exec base iface [] b of
        Inl e \<Rightarrow> Some (Inl e)
      | Inr b' \<Rightarrow> bind_loop k order exec base b')"

section \<open>The map after a store\<close>

lemma map_of_AList_update [simp]: "map_of (AList.update k v m) = (map_of m)(k \<mapsto> v)"
  by (simp add: update_conv' fun_eq_iff)

lemma get_set_path: "set_path ks v m = Inr m' \<Longrightarrow> ks \<noteq> [] \<Longrightarrow> get_path ks m' = Some v"
proof (induction ks v m arbitrary: m' rule: set_path.induct)
  case (3 k k' ks v m)
  have "\<exists>n. get_path (k' # ks) n = Some v \<and> m' = AList.update k (HMap n) m"
  proof (cases "map_of m k")
    case None
    with 3(3) 3(1) [OF None] show ?thesis by (auto simp: ebind_eq_Inr simp del: get_path.simps)
  next
    case (Some w)
    with 3(3) 3(2) [OF Some] show ?thesis by (cases w) (auto simp: ebind_eq_Inr simp del: get_path.simps)
  qed
  then show ?case by auto
qed simp_all

lemma get_set_other:
  "set_path ks v m = Inr m' \<Longrightarrow> \<not> prefix ks ls \<Longrightarrow> \<not> prefix ls ks \<Longrightarrow> get_path ls m' = get_path ls m"
proof (induction ks v m arbitrary: m' ls rule: set_path.induct)
  case (2 k v m)
  then show ?case by (cases ls) auto
next
  case (3 k k' ks v m)
  then obtain l ls' where ls: "ls = l # ls'" by (cases ls) auto
  show ?case
  proof (cases "l = k")
    case True
    with 3(4,5) ls have p: "\<not> prefix (k' # ks) ls'" "\<not> prefix ls' (k' # ks)" "ls' \<noteq> []" by auto
    show ?thesis
    proof (cases "map_of m k")
      case None
      with 3(3) obtain n where n: "set_path (k' # ks) v [] = Inr n" "m' = AList.update k (HMap n) m"
        by (auto simp: ebind_eq_Inr)
      have "get_path ls' [] = None" using p(3) by (cases ls') simp_all
      with 3(1) [OF None n(1) p(1,2)] None n True p(3) ls show ?thesis by simp
    next
      case (Some w)
      with 3(3) obtain vv n where n: "w = HMap vv" "set_path (k' # ks) v vv = Inr n" "m' = AList.update k (HMap n) m"
        by (cases w) (auto simp: ebind_eq_Inr)
      with 3(2) [OF Some n(1) n(2) p(1,2)] Some True p(3) ls show ?thesis by simp
    qed
  next
    case False
    with 3(3) ls show ?thesis by (auto simp: ebind_eq_Inr split: option.splits hval.splits)
  qed
qed simp

text \<open>The store fails exactly where a value that is no map stands on the way.\<close>

lemma set_path_fails:
  "set_path ks v m = Inl e \<longleftrightarrow> e = ErrOverlayHierarchicalKey \<and>
     (\<exists>q w. q \<noteq> [] \<and> strict_prefix q ks \<and> get_path q m = Some w \<and> (\<forall>vv. w \<noteq> HMap vv))"
proof (induction ks v m arbitrary: e rule: set_path.induct)
  case (2 k v m)
  then show ?case by (auto simp: strict_prefix_def prefix_Cons)
next
  case (3 k k' ks v m)
  have step: "(\<exists>q w. q \<noteq> [] \<and> strict_prefix q (k # k' # ks) \<and> get_path q m = Some w \<and> (\<forall>vv. w \<noteq> HMap vv)) \<longleftrightarrow>
      (\<exists>w. map_of m k = Some w \<and> (\<forall>vv. w \<noteq> HMap vv)) \<or>
      (\<exists>vv q w. map_of m k = Some (HMap vv) \<and> q \<noteq> [] \<and> strict_prefix q (k' # ks) \<and> get_path q vv = Some w \<and> (\<forall>vv. w \<noteq> HMap vv))"
    (is "?l \<longleftrightarrow> ?a \<or> ?b")
  proof
    assume ?l
    then obtain q w where q: "q \<noteq> []" "strict_prefix q (k # k' # ks)" "get_path q m = Some w" "\<forall>vv. w \<noteq> HMap vv" by blast
    then obtain q' where q': "q = k # q'" "strict_prefix q' (k' # ks)" by (cases q) auto
    show "?a \<or> ?b"
    proof (cases "q' = []")
      case True
      with q q' show ?thesis by (auto split: option.splits)
    next
      case False
      with q q' show ?thesis by (auto split: option.splits hval.splits)
    qed
  next
    assume "?a \<or> ?b"
    then show ?l
    proof
      assume ?a
      then show ?l by (intro exI [of _ "[k]"]) auto
    next
      assume ?b
      then obtain vv q w where "map_of m k = Some (HMap vv)" "q \<noteq> []" "strict_prefix q (k' # ks)" "get_path q vv = Some w"
        "\<forall>vv. w \<noteq> HMap vv" by blast
      then show ?l by (intro exI [of _ "k # q"] exI [of _ w]) auto
    qed
  qed
  have none: "get_path q [] = None" if "q \<noteq> []" for q using that by (cases q) simp_all
  show ?case
  proof (cases "map_of m k")
    case None
    have "set_path (k' # ks) v [] \<noteq> Inl x" for x
      unfolding 3(1) [OF None] using none by auto
    then obtain n where "set_path (k' # ks) v [] = Inr n" by (cases "set_path (k' # ks) v []") auto
    with None show ?thesis unfolding step by simp
  next
    case (Some w)
    show ?thesis
    proof (cases w)
      case (HMap vv)
      have l: "set_path (k # k' # ks) v m = Inl e \<longleftrightarrow> set_path (k' # ks) v vv = Inl e"
        using Some HMap by (cases "set_path (k' # ks) v vv") simp_all
      have "map_of m k = Some x \<longleftrightarrow> x = HMap vv" for x using Some HMap by auto
      then have a: "\<not> (\<exists>w. map_of m k = Some w \<and> (\<forall>vv. w \<noteq> HMap vv))"
        "map_of m k = Some (HMap uu) \<longleftrightarrow> uu = vv" for uu by auto
      show ?thesis unfolding l 3(2) [OF Some HMap] step a(2) using a(1) by blast
    next
      case HNil
      have "set_path (k # k' # ks) v m = Inl ErrOverlayHierarchicalKey" using Some HNil by simp
      then show ?thesis unfolding step by (simp only: Some HNil) auto
    next
      case (HVal x)
      have "set_path (k # k' # ks) v m = Inl ErrOverlayHierarchicalKey" using Some HVal by simp
      then show ?thesis unfolding step by (simp only: Some HVal) auto
    qed
  qed
qed simp

section \<open>The loop ends\<close>

lemma bindKey_toResolve: "bindKey exec key expr b = Inr (b', ok) \<Longrightarrow> eb_toResolve b' = eb_toResolve b"
  by (auto simp: bindKey_def split: template.splits)

lemma resolve_key_toResolve: "resolve_key base key b = Inr b' \<Longrightarrow> eb_toResolve b' = eb_toResolve b"
  by (auto simp: resolve_key_def split: sum.splits)

lemma delete_shorter: "k \<in> fst ` set al \<Longrightarrow> length (AList.delete k al) < length al"
proof (induction al)
  case (Cons p al)
  then show ?case using length_delete_le [of k al] by auto
qed simp

lemma bind_round_length:
  "bind_round exec base xs changed b = Inr (b', changed') \<Longrightarrow> length (eb_toResolve b') \<le> length (eb_toResolve b) \<and>
     (changed' \<noteq> changed \<longrightarrow> set xs \<subseteq> set (eb_toResolve b) \<longrightarrow> length (eb_toResolve b') < length (eb_toResolve b)) \<and>
     (changed \<longrightarrow> changed')"
proof (induction xs arbitrary: changed b)
  case (Cons x xs)
  obtain key expr where x: "x = (key, expr)" by (cases x)
  with Cons.prems obtain b1 ok where b1: "bindKey exec key expr b = Inr (b1, ok)" by (auto split: sum.splits)
  note t1 = bindKey_toResolve [OF b1]
  show ?case
  proof (cases ok)
    case True
    with Cons.prems x b1 obtain b2 where b2: "resolve_key base key b1 = Inr b2"
      "bind_round exec base xs True (b2\<lparr>eb_toResolve := AList.delete key (eb_toResolve b2)\<rparr>) = Inr (b', changed')"
      by (auto split: sum.splits)
    have d: "length (AList.delete key (eb_toResolve b)) \<le> length (eb_toResolve b)"
      by (rule length_delete_le)
    have "set (x # xs) \<subseteq> set (eb_toResolve b) \<longrightarrow> length (AList.delete key (eb_toResolve b)) < length (eb_toResolve b)"
    proof
      assume "set (x # xs) \<subseteq> set (eb_toResolve b)"
      with x have "key \<in> fst ` set (eb_toResolve b)" by force
      then show "length (AList.delete key (eb_toResolve b)) < length (eb_toResolve b)" by (rule delete_shorter)
    qed
    moreover have "length (eb_toResolve b') \<le> length (AList.delete key (eb_toResolve b)) \<and> changed'"
      using Cons.IH [OF b2(2)] t1 resolve_key_toResolve [OF b2(1)] by simp
    ultimately show ?thesis using d by linarith
  next
    case False
    with Cons.prems x b1 have "bind_round exec base xs changed b1 = Inr (b', changed')" by simp
    from Cons.IH [OF this] t1 show ?thesis by auto
  qed
qed simp

lemma bind_loop_ends:
  assumes "\<forall>k xs. set (order k xs) = set xs"
  shows "length (eb_toResolve b) < k \<Longrightarrow> \<exists>r. bind_loop k order exec base b = Some r \<and>
    (\<forall>b'. r = Inr b' \<longrightarrow> eb_toResolve b' = [])"
proof (induction k arbitrary: b)
  case (Suc k)
  show ?case
  proof (cases "bind_round exec base (order k (eb_toResolve b)) False b")
    case (Inl e)
    then show ?thesis by simp
  next
    case (Inr p)
    obtain b' changed where p: "p = (b', changed)" by (cases p)
    show ?thesis
    proof (cases changed)
      case True
      from bind_round_length [OF Inr [unfolded p]] True assms have "length (eb_toResolve b') < length (eb_toResolve b)" by simp
      with Suc.prems have "length (eb_toResolve b') < k" by simp
      from Suc.IH [OF this] Inr p True show ?thesis by simp
    next
      case False
      with Inr p show ?thesis by simp
    qed
  qed
qed simp

text \<open>The fields with a default value.\<close>

fun default_count :: "field list \<Rightarrow> nat" where
  "default_count [] = 0"
| "default_count (Struct tv sub # fs) = default_count sub + default_count fs"
| "default_count (Plain tv d r t # fs) = (case d of None \<Rightarrow> 0 | Some _ \<Rightarrow> 1) + default_count fs"

lemma length_update_le: "length (AList.update k v al) \<le> Suc (length al)"
  by (induction al) auto

lemma bind_plain_toResolve:
  "bind_plain exec base key d r t b = Inr b' \<Longrightarrow>
     length (eb_toResolve b') \<le> length (eb_toResolve b) + (case d of None \<Rightarrow> 0 | Some _ \<Rightarrow> 1)"
  using length_update_le [of key "the d" "eb_toResolve b"]
  by (auto simp: bind_plain_def ebind_eq_Inr dest!: bindKey_toResolve resolve_key_toResolve split: if_splits option.splits)

lemma bindEnvs_toResolve:
  "bindEnvs exec base fs parts b = Inr b' \<Longrightarrow> length (eb_toResolve b') \<le> length (eb_toResolve b) + default_count fs"
proof (induction exec base fs parts b arbitrary: b' rule: bindEnvs.induct)
  case (3 exec base tv sub fs parts b)
  then show ?case by (fastforce split: sum.splits)
next
  case (5 exec base tv d r t fs parts b)
  from 5(2) obtain b1 where b1: "bind_plain exec base (strings_Join ''.'' (parts @ [first_part tv])) d r t b = Inr b1"
    "bindEnvs exec base fs parts b1 = Inr b'" by (auto split: sum.splits)
  from 5(1) [OF b1] bind_plain_toResolve [OF b1(1)] show ?case by (simp split: option.splits)
qed (simp_all split: option.split)

section \<open>Properties\<close>

text \<open>Storing under a hierarchical key fails exactly if a proper part of the key already has a value that is
  no map. If it succeeds, the key leads to the value, and what every unrelated key leads to is as before.\<close>

theorem hierarchical_store:
  "(SetValueHierarchicalMap m key val = Inl e \<longleftrightarrow> e = ErrOverlayHierarchicalKey \<and>
     (\<exists>q w. q \<noteq> [] \<and> strict_prefix q (strings_Split CHR ''.'' key) \<and> get_path q m = Some w \<and> (\<forall>vv. w \<noteq> HMap vv))) \<and>
   (SetValueHierarchicalMap m key val = Inr m' \<longrightarrow> get_path (strings_Split CHR ''.'' key) m' = Some val \<and>
     (\<forall>ls. \<not> prefix (strings_Split CHR ''.'' key) ls \<longrightarrow> \<not> prefix ls (strings_Split CHR ''.'' key) \<longrightarrow>
        get_path ls m' = get_path ls m))"
  unfolding SetValueHierarchicalMap_def
  by (intro conjI allI impI)
    (rule set_path_fails, erule get_set_path, simp, erule get_set_other, assumption+)

theorem hierarchical_store_witness:
  "SetValueHierarchicalMap [(''a'', HMap [(''b'', HVal ''1'')])] ''a.c'' (HVal ''2'') =
     Inr [(''a'', HMap [(''b'', HVal ''1''), (''c'', HVal ''2'')])] \<and>
   get_path [''a'', ''b''] [(''a'', HMap [(''b'', HVal ''1''), (''c'', HVal ''2'')])] = Some (HVal ''1'')"
proof -
  let ?m = "[(''a'', HMap [(''b'', HVal ''1'')])]" and ?m' = "[(''a'', HMap [(''b'', HVal ''1''), (''c'', HVal ''2'')])]"
  have s: "strings_Split CHR ''.'' ''a.c'' = [''a'', ''c'']" by simp
  have r: "SetValueHierarchicalMap ?m ''a.c'' (HVal ''2'') = Inr ?m'" by (simp add: SetValueHierarchicalMap_def)
  have "get_path [''a'', ''b''] ?m' = get_path [''a'', ''b''] ?m"
    using hierarchical_store [of ?m "''a.c''" "HVal ''2''" _ ?m'] r s by simp
  with r show ?thesis by simp
qed

text \<open>C39: Binding ends, whatever the templates do and in whatever order each round visits the keys: as many
  rounds as there are fields with a default value, and one more, are enough. If it succeeds, no key is
  left to resolve.\<close>

theorem env_bind_terminates:
  assumes "\<forall>k xs. set (order k xs) = set xs" and "length (eb_toResolve b) + default_count iface < k"
  shows "\<exists>r. Bind k order exec base iface b = Some r \<and> (\<forall>b'. r = Inr b' \<longrightarrow> eb_toResolve b' = [])"
proof (cases "bindEnvs exec base iface [] b")
  case (Inl e)
  then show ?thesis by (simp add: Bind_def)
next
  case (Inr b1)
  from bindEnvs_toResolve [OF this] assms(2) have "length (eb_toResolve b1) < k" by simp
  from bind_loop_ends [OF assms(1) this] Inr show ?thesis by (simp add: Bind_def)
qed

text \<open>A port whose default is the listening address.\<close>

definition demo_fields :: "field list" where
  "demo_fields = [Plain (Some ''port'') (Some ''L'') False None, Plain (Some ''listen'') (Some ''80'') False None]"

definition demo_exec :: "string \<Rightarrow> (string \<times> hval) list \<Rightarrow> template" where
  "demo_exec expr m =
     (if expr = ''L'' then (case map_of m ''listen'' of Some (HVal s) \<Rightarrow> Rendered s | _ \<Rightarrow> NoValue) else Rendered expr)"

theorem env_bind_terminates_witness:
  "\<exists>b'. Bind 3 (\<lambda>_ xs. xs) demo_exec (\<lambda>_. HNil) demo_fields NewEnvBinder = Some (Inr b') \<and> eb_toResolve b' = []"
proof -
  have "length (eb_toResolve NewEnvBinder) + default_count demo_fields < 3"
    by (simp add: NewEnvBinder_def demo_fields_def)
  from env_bind_terminates [of "\<lambda>_ xs. xs", OF _ this, of demo_exec "\<lambda>_. HNil"] obtain r where
    r: "Bind 3 (\<lambda>_ xs. xs) demo_exec (\<lambda>_. HNil) demo_fields NewEnvBinder = Some r" "\<forall>b'. r = Inr b' \<longrightarrow> eb_toResolve b' = []" by auto
  have "case Bind 3 (\<lambda>_ xs. xs) demo_exec (\<lambda>_. HNil) demo_fields NewEnvBinder of Some (Inr b') \<Rightarrow> True | _ \<Rightarrow> False"
    by code_simp
  with r show ?thesis by (auto split: sum.splits)
qed

end
