(* ===== verification/Run.thy ===== *)
theory Run
  imports Demo_World Limited_Dialer Env_Binding Server_Lifecycle
begin

unbundle bit_operations_syntax

text \<open>
  The run command (\<open>cmd/run.go\<close>, with \<open>pkg/resolver\<close> and \<open>pkg/disk_bloom\<close>): reading the
  configuration, what a protocol needs before its server is made, the wait for the DNS record, and the
  two goroutines, listening and the validation of the CDN at intervals, that end the command through
  one \<open>runShutdown\<close>. Files are a map from paths, and the libraries are arguments.
\<close>

section \<open>The configuration\<close>

text \<open>Where the configuration is looked for: in the file of the flag, or in three directories.\<close>

datatype config_source = ConfigFile string | ConfigSearch "string list"

datatype config_read = ConfigFound | ConfigFileNotFound | ConfigReadError go_err

definition config_source :: "string \<Rightarrow> go_err + string \<Rightarrow> config_source" where
  "config_source cfgFile home =
     (if cfgFile \<noteq> [] then ConfigFile cfgFile
      else ConfigSearch ([''./''] @ (case home of Inl e \<Rightarrow> [] | Inr h \<Rightarrow> [path_Join [h, ''BitterJohn'']]) @
             [path_Join [''etc'', ''BitterJohn'']]))"

text \<open>\<open>initConfig\<close>: a missing file is no error; an error ends the program. \<open>base\<close> are the values of the
  file and the environment, \<open>unmarshal\<close> fills the parameters from all values.\<close>

definition initConfig :: "nat \<Rightarrow> string \<Rightarrow> go_err + string \<Rightarrow> (config_source \<Rightarrow> config_read) \<Rightarrow>
    (nat \<Rightarrow> (string \<times> string) list \<Rightarrow> (string \<times> string) list) \<Rightarrow> (string \<Rightarrow> (string \<times> hval) list \<Rightarrow> template) \<Rightarrow>
    (string \<Rightarrow> hval) \<Rightarrow> field list \<Rightarrow> (EnvBinder \<Rightarrow> go_err + Params) \<Rightarrow> (go_err + Params) option" where
  "initConfig k cfgFile home readInConfig order exec base iface unmarshal =
     (case readInConfig (config_source cfgFile home) of
        ConfigReadError e \<Rightarrow> Some (Inl e)
      | _ \<Rightarrow>
          (case Bind k order exec base iface NewEnvBinder of
             None \<Rightarrow> None
           | Some (Inl e) \<Rightarrow> Some (Inl e)
           | Some (Inr b) \<Rightarrow> Some (unmarshal b)))"

definition HomeExpand :: "go_err + string \<Rightarrow> string \<Rightarrow> go_err + string" where
  "HomeExpand home path =
     (if \<not> strings_HasPrefix path ''~'' then Inr path
      else case home of Inl e \<Rightarrow> Inl e | Inr h \<Rightarrow> Inr (path_Join [h, tl path]))"

text \<open>\<open>initLog\<close>: the way and the file of the log.\<close>

definition initLog :: "go_err + string \<Rightarrow> Log \<Rightarrow> go_err + string \<times> string" where
  "initLog home l =
     (let logWay = (if log_File l \<noteq> [] then ''file'' else ''console'')
      in case HomeExpand home (log_File l) of Inl e \<Rightarrow> Inl e | Inr f \<Rightarrow> Inr (logWay, f))"

text \<open>A program started without a flag looks into a directory below the working directory, never into
  that of the installer.\<close>

lemma config_not_in_etc:
  assumes "home = Inr ''/root''"
  shows "config_source [] home = ConfigSearch [''./'', ''/root/BitterJohn'', ''etc/BitterJohn'']"
proof -
  have "path_Join [''/root'', ''BitterJohn''] = ''/root/BitterJohn''" "path_Join [''etc'', ''BitterJohn''] = ''etc/BitterJohn''"
    by code_simp+
  with assms show ?thesis by (simp add: config_source_def)
qed

section \<open>Preparing a protocol\<close>

definition protocolRequiresDNSReady :: "string \<Rightarrow> bool" where
  "protocolRequiresDNSReady proto = (if proto = ProtocolAnyTLS then True else StringsHas (strings_Split CHR ''+'' proto) ''tls'')"

text \<open>The value in the context of the server, for the protocols that need one.\<close>

datatype runtime =
    Bloom string "bytes \<Rightarrow> 64 word \<times> 64 word"
  | DoubleCuckoo int
  | Certificate bytes bytes
  | Background

definition DiskBloomSalt :: bytes where
  "DiskBloomSalt = map of_char ''BitterJohn''"

definition fnv64a :: "bytes \<Rightarrow> 64 word" where
  "fnv64a b = foldl (\<lambda>h x. (h XOR ucast x) * 1099511628211) 14695981039346656037 b"

definition doubleFNVFactory :: "bytes \<Rightarrow> bytes \<Rightarrow> 64 word \<times> 64 word" where
  "doubleFNVFactory salt b = (fnv64 (b @ salt), fnv64a (b @ salt))"

text \<open>\<open>NewGroup\<close> of the bloom library may fail for a pattern.\<close>

definition NewBloom :: "(string \<Rightarrow> go_err option) \<Rightarrow> string \<Rightarrow> bytes \<Rightarrow> go_err + runtime" where
  "NewBloom newGroup pattern salt =
     (case newGroup pattern of Some e \<Rightarrow> Inl e | None \<Rightarrow> Inr (Bloom pattern (doubleFNVFactory salt)))"

text \<open>Errors of the command: one of its own, one it formats, one it passes on, or several joined.\<close>

datatype run_error = Own string | Formatted go_err | Plain_Err go_err | Joined "go_err list"

type_synonym files = "string \<rightharpoonup> bytes"

text \<open>What the command takes from its surroundings. \<open>rw_writeFails\<close> is the error of opening a file for
  writing.\<close>

record run_world =
  rw_newGroup :: "string \<Rightarrow> go_err option"
  rw_confDir :: string
  rw_search :: "string \<Rightarrow> go_err + string"
  rw_create :: "string \<Rightarrow> go_err + string"
  rw_euid :: nat
  rw_copy :: "string \<Rightarrow> go_err + bytes \<times> bytes"
  rw_writeFails :: "string \<Rightarrow> go_err option"

definition os_WriteFile :: "run_world \<Rightarrow> string \<Rightarrow> bytes \<Rightarrow> files \<Rightarrow> files \<times> go_err option" where
  "os_WriteFile w p b fs = (case rw_writeFails w p of Some e \<Rightarrow> (fs, Some e) | None \<Rightarrow> (fs(p \<mapsto> b), None))"

definition sum_errors :: "(go_err + 'a) list \<Rightarrow> go_err list" where
  "sum_errors rs = concat (map (case_sum (\<lambda>e. [e]) (\<lambda>_. [])) rs)"

text \<open>The certificate of the juicity server: that of the two files, or a copy that is written to them.\<close>

definition juicity_certificate :: "run_world \<Rightarrow> string \<Rightarrow> string \<Rightarrow> files \<Rightarrow> files \<times> (run_error + runtime)" where
  "juicity_certificate w crtPath keyPath fs =
     (case (fs crtPath, fs keyPath) of
        (Some crt, Some key) \<Rightarrow> (fs, Inr (Certificate crt key))
      | _ \<Rightarrow>
          (case rw_copy w (JuicityDomain @ '':443'') of
             Inl e \<Rightarrow> (fs, Inl (Plain_Err e))
           | Inr (crt, key) \<Rightarrow>
               (case os_WriteFile w crtPath crt fs of
                  (fs1, Some e) \<Rightarrow> (fs1, Inl (Plain_Err e))
                | (fs1, None) \<Rightarrow>
                    (case os_WriteFile w keyPath key fs1 of
                       (fs2, Some e) \<Rightarrow> (fs2, Inl (Plain_Err e))
                     | (fs2, None) \<Rightarrow> (fs2, Inr (Certificate crt key))))))"

definition protocolRuntime :: "proto_names \<Rightarrow> run_world \<Rightarrow> limited_dialer option \<Rightarrow> string \<Rightarrow> files \<Rightarrow>
    files \<times> (run_error + runtime \<times> limited_dialer)" where
  "protocolRuntime pn w fullcone proto fs =
     (if proto = pn_Shadowsocks pn then
        (case NewBloom (rw_newGroup w) (path_Join [rw_confDir w, ''disk_bloom_*'']) DiskBloomSalt of
           Inl e \<Rightarrow> (fs, Inl (Formatted e))
         | Inr r \<Rightarrow> (fs, Inr (r, fullconeDialer fullcone)))
      else if proto = pn_VMessTCP pn \<or> proto = pn_VMessTlsGrpc pn then
        (fs, Inr (DoubleCuckoo 120, fullconeDialer fullcone))
      else if proto = pn_Juicity pn then
        (let crtPath = DataFile (rw_search w) (rw_create w) (rw_euid w) (JuicityDomain @ ''_443.crt'');
             keyPath = DataFile (rw_search w) (rw_create w) (rw_euid w) (JuicityDomain @ ''_443.key'')
         in case (crtPath, keyPath) of
              (Inr cp, Inr kp) \<Rightarrow>
                (case juicity_certificate w cp kp fs of
                   (fs', Inl e) \<Rightarrow> (fs', Inl e)
                 | (fs', Inr r) \<Rightarrow> (fs', Inr (r, fullconeDialer fullcone)))
            | _ \<Rightarrow> (fs, Inl (Joined (sum_errors [crtPath, keyPath]))))
      else if proto = ProtocolAnyTLS then (fs, Inr (Background, fullconeDialer fullcone))
      else (fs, Inl (Own (''protocol '' @ proto @ '' is invalid''))))"

text \<open>A certificate once served is served again after a restart, whatever a copy would give then.\<close>

lemma juicity_certificate_reused:
  assumes "juicity_certificate w cp kp fs = (fs', Inr r)" and "cp \<noteq> kp"
  shows "juicity_certificate w' cp kp fs' = (fs', Inr r)"
  using assms unfolding juicity_certificate_def [of w] os_WriteFile_def
  by (auto simp: juicity_certificate_def split: option.splits sum.splits prod.splits)

lemma juicity_runtime_reused:
  assumes "protocolRuntime pn w d (pn_Juicity pn) fs = (fs', Inr (r, l))" and
    "DataFile (rw_search w) (rw_create w) (rw_euid w) (JuicityDomain @ ''_443.crt'') \<noteq>
     DataFile (rw_search w) (rw_create w) (rw_euid w) (JuicityDomain @ ''_443.key'')" and
    "pn_Juicity pn \<notin> {pn_Shadowsocks pn, pn_VMessTCP pn, pn_VMessTlsGrpc pn}"
  shows "protocolRuntime pn (w\<lparr>rw_copy := c\<rparr>) d (pn_Juicity pn) fs' = (fs', Inr (r, l))"
proof -
  from assms(1,3) obtain cp kp where p:
    "DataFile (rw_search w) (rw_create w) (rw_euid w) (JuicityDomain @ ''_443.crt'') = Inr cp"
    "DataFile (rw_search w) (rw_create w) (rw_euid w) (JuicityDomain @ ''_443.key'') = Inr kp"
    "juicity_certificate w cp kp fs = (fs', Inr r)" "l = fullconeDialer d"
    by (auto simp: protocolRuntime_def Let_def split: sum.splits prod.splits)
  with assms(2) have "cp \<noteq> kp" by auto
  from juicity_certificate_reused [OF p(3) this, of "w\<lparr>rw_copy := c\<rparr>"] p assms(3) show ?thesis
    by (simp add: protocolRuntime_def)
qed

section \<open>Waiting for the DNS record\<close>

definition LookupHost :: "(string \<Rightarrow> string list \<times> go_err option) \<Rightarrow> (string \<Rightarrow> string list \<times> go_err option) \<Rightarrow> string \<Rightarrow>
    string list \<times> go_err option" where
  "LookupHost system resolver host =
     (case system host of (addrs, err) \<Rightarrow> if addrs = [] \<or> err \<noteq> None then resolver host else (addrs, err))"

text \<open>The loop; \<open>lookup n\<close> are the addresses of its \<open>n\<close>-th round and \<open>since n\<close> the nanoseconds since the
  start when it looks at the clock. The outer option is the fuel, the inner one the error.\<close>

definition minute :: int where
  "minute = 60 * 10 ^ 9"

fun dns_wait :: "nat \<Rightarrow> (nat \<Rightarrow> string list) \<Rightarrow> (nat \<Rightarrow> int) \<Rightarrow> nat \<Rightarrow> string option option" where
  "dns_wait 0 lookup since n = None"
| "dns_wait (Suc k) lookup since n =
     (if lookup n \<noteq> [] then Some None
      else if minute < since n then Some (Some ''timeout for waiting for DNS record'')
      else dns_wait k lookup since (Suc n))"

text \<open>Each round sleeps for half a second, so 122 rounds are enough.\<close>

lemma dns_wait_ends:
  assumes "minute < since (n + k)"
  shows "dns_wait (Suc k) lookup since n \<noteq> None"
  using assms
proof (induction k arbitrary: n)
  case (Suc k)
  then have "minute < since (Suc n + k)" by simp
  with Suc.IH show ?case by (metis dns_wait.simps(2) option.distinct(1))
qed simp

lemma clock_advances:
  fixes since :: "nat \<Rightarrow> int"
  assumes "0 \<le> since 0" and "\<forall>m. since m + 500000000 \<le> since (Suc m)"
  shows "int m * 500000000 \<le> since m"
proof (induction m)
  case (Suc m)
  with assms(2) [rule_format, of m] show ?case by simp
qed (use assms(1) in simp)

lemma dns_wait_terminates:
  assumes "0 \<le> since 0" and "\<forall>m. since m + 500000000 \<le> since (Suc m)"
  shows "dns_wait 122 lookup since 0 \<noteq> None"
proof -
  have "minute < since (0 + 121)" using clock_advances [OF assms, of 121] by (simp add: minute_def)
  from dns_wait_ends [of since 0 121, OF this, of lookup] show ?thesis by simp
qed

lemma dns_wait_found:
  "dns_wait k lookup since n = Some None \<longleftrightarrow> (\<exists>m<k. lookup (n + m) \<noteq> [] \<and> (\<forall>j<m. lookup (n + j) = [] \<and> since (n + j) \<le> minute))"
proof (induction k arbitrary: n)
  case (Suc k)
  show ?case
  proof (cases "lookup n \<noteq> []")
    case True
    then show ?thesis by (auto intro!: exI [of _ 0])
  next
    case False
    then have "(\<exists>m<Suc k. lookup (n + m) \<noteq> [] \<and> (\<forall>j<m. lookup (n + j) = [] \<and> since (n + j) \<le> minute)) \<longleftrightarrow>
      since n \<le> minute \<and> (\<exists>m<k. lookup (Suc n + m) \<noteq> [] \<and> (\<forall>j<m. lookup (Suc n + j) = [] \<and> since (Suc n + j) \<le> minute))"
      by (subst Ex_less_Suc2) (auto simp: All_less_Suc2)
    with False Suc.IH [of "Suc n"] show ?thesis by (auto simp: not_less)
  qed
qed simp

section \<open>Starting\<close>

text \<open>\<open>Run\<close> up to the goroutines: the server and the files, or the error.\<close>

definition run_start :: "nat \<Rightarrow> proto_names \<Rightarrow> (string \<Rightarrow> bool) \<Rightarrow> run_world \<Rightarrow>
    (string \<rightharpoonup> runtime \<times> limited_dialer \<times> string \<times> Lisa \<times> server_argument \<Rightarrow> go_err + 's) \<Rightarrow>
    (string \<Rightarrow> nat \<Rightarrow> string list) \<Rightarrow> (nat \<Rightarrow> int) \<Rightarrow> Params \<Rightarrow> files \<Rightarrow> (files \<times> (run_error + 's)) option" where
  "run_start k pn valid w creators lookup since conf fs =
     (let john = params_John conf; proto = john_Protocol john
      in if \<not> ProtocolValid valid proto then Some (fs, Inl (Own (''protocol '' @ proto @ '' is invalid'')))
         else case protocolRuntime pn w (Some (snd (InitLimitedDialer (john_Only4 john)))) proto fs of
                (fs', Inl e) \<Rightarrow> Some (fs', Inl e)
              | (fs', Inr (ctx, dialer)) \<Rightarrow>
                  (case NewServer creators proto (ctx, dialer, proto, params_Lisa conf,
                      \<lparr>sarg_Ticket = john_Ticket john, sarg_ServerName = john_Name john, sarg_Hostnames = john_Hostname john,
                       sarg_Port = john_Port john, sarg_NoRelay = john_NoRelay john\<rparr>) of
                     Inl e \<Rightarrow> Some (fs', Inl (Formatted e))
                   | Inr s \<Rightarrow>
                       if \<not> protocolRequiresDNSReady proto then Some (fs', Inr s)
                       else case HostsToSNI (john_Hostname john) (lisa_Host (params_Lisa conf)) of
                              Inl e \<Rightarrow> Some (fs', Inl (Formatted e))
                            | Inr domain \<Rightarrow>
                                (case dns_wait k (lookup domain) since 0 of
                                   None \<Rightarrow> None
                                 | Some (Some e) \<Rightarrow> Some (fs', Inl (Own e))
                                 | Some None \<Rightarrow> Some (fs', Inr s))))"

lemma run_start_ends:
  assumes "0 \<le> since 0" and "\<forall>m. since m + 500000000 \<le> since (Suc m)"
  shows "run_start 122 pn valid w creators lookup since conf fs \<noteq> None"
proof -
  have [simp]: "dns_wait 122 l since 0 \<noteq> None" for l by (rule dns_wait_terminates [OF assms])
  show ?thesis by (simp add: run_start_def Let_def split: sum.split prod.split option.split)
qed

section \<open>Shutting down\<close>

text \<open>\<open>runShutdown\<close>, with the number of calls of \<open>close\<close>; \<open>once\<close> lets one caller through and the others
  wait for it, so the body is one step.\<close>

record runShutdown =
  sd_done :: bool
  sd_err :: "go_err option"
  sd_close :: "go_err option option"
  sd_closed :: nat

definition newRunShutdown :: "go_err option option \<Rightarrow> runShutdown" where
  "newRunShutdown close = \<lparr>sd_done = False, sd_err = None, sd_close = close, sd_closed = 0\<rparr>"

definition signal :: "go_err option \<Rightarrow> runShutdown \<Rightarrow> runShutdown" where
  "signal err s =
     (if sd_done s then s
      else case sd_close s of
             None \<Rightarrow> s\<lparr>sd_done := True, sd_err := err\<rparr>
           | Some closeErr \<Rightarrow>
               s\<lparr>sd_done := True, sd_err := (if err = None then closeErr else err), sd_closed := Suc (sd_closed s)\<rparr>)"

text \<open>\<open>wait\<close> returns, with an error or none, once the channel is closed.\<close>

definition wait_result :: "runShutdown \<Rightarrow> go_err option option" where
  "wait_result s = (if sd_done s then Some (sd_err s) else None)"

section \<open>The two goroutines\<close>

definition ErrFailedValidate :: go_err where
  "ErrFailedValidate = Errorf ''failed to validate''"

text \<open>The goroutine that validates the CDN, with its counter: before it looks at the channel, waiting for
  an answer, or over.\<close>

datatype watch = Idle u32 | Asking u32 | Over

record run_life =
  rl_shutdown :: runShutdown
  rl_listening :: bool
  rl_watch :: watch

definition run_life_new :: "go_err option \<Rightarrow> bool \<Rightarrow> run_life" where
  "run_life_new closeErr doNotValidate =
     \<lparr>rl_shutdown = newRunShutdown (Some closeErr), rl_listening = True,
      rl_watch = (if doNotValidate then Over else Idle 0)\<rparr>"

text \<open>The question of one round, in the surroundings it finds.\<close>

definition watch_answer :: "env \<Rightarrow> (string \<times> go_err option) option" where
  "watch_answer w =
     (let host = lisa_Host (params_Lisa (env_params w));
          t = env_lookupTXT w (''cdn-validate.'' @ host);
          validateToken = (if 0 < length t then t ! 0 else [])
      in TrustedHost w host validateToken)"

text \<open>What the answer does: the counter, or the end with an error. \<open>deadline\<close> says whether the text of an
  error contains \<open>context deadline exceeded\<close>.\<close>

definition watch_decide :: "(go_err \<Rightarrow> bool) \<Rightarrow> go_err option \<Rightarrow> u32 \<Rightarrow> watch \<times> go_err option" where
  "watch_decide deadline cdnErr consecutiveFailure =
     (case cdnErr of
        None \<Rightarrow> (Idle 0, None)
      | Some e \<Rightarrow>
          if deadline e then (Idle consecutiveFailure, None)
          else if errors_Is e ErrCanStealIP then (Over, Some e)
          else if errors_Is e ErrFailedValidate then (Idle (consecutiveFailure + 1), None)
          else (Idle consecutiveFailure, None))"

datatype run_event = ListenReturned "go_err option" | RoundBegins | RoundEnds env

text \<open>A missing validator would be a panic; the registered ones are there
  (\<open>cdn_validate_exact\<close>).\<close>

fun run_life_exec :: "(go_err \<Rightarrow> bool) \<Rightarrow> run_event \<Rightarrow> run_life \<Rightarrow> run_life option" where
  "run_life_exec deadline (ListenReturned err) s =
     (if rl_listening s then Some (s\<lparr>rl_listening := False, rl_shutdown := signal err (rl_shutdown s)\<rparr>) else None)"
| "run_life_exec deadline RoundBegins s =
     (case rl_watch s of
        Idle n \<Rightarrow> Some (s\<lparr>rl_watch := (if sd_done (rl_shutdown s) then Over else Asking n)\<rparr>)
      | _ \<Rightarrow> None)"
| "run_life_exec deadline (RoundEnds w) s =
     (case (rl_watch s, watch_answer w) of
        (Asking n, Some (cdn, cdnErr)) \<Rightarrow>
          (case watch_decide deadline cdnErr n of
             (k, None) \<Rightarrow> Some (s\<lparr>rl_watch := k\<rparr>)
           | (k, Some e) \<Rightarrow> Some (s\<lparr>rl_watch := k, rl_shutdown := signal (Some e) (rl_shutdown s)\<rparr>))
      | _ \<Rightarrow> None)"

text \<open>The reason an event gives for shutting down, if it gives one.\<close>

definition steals :: "(go_err \<Rightarrow> bool) \<Rightarrow> env \<Rightarrow> go_err option" where
  "steals deadline w =
     (case watch_answer w of
        Some (cdn, Some e) \<Rightarrow> if \<not> deadline e \<and> errors_Is e ErrCanStealIP then Some e else None
      | _ \<Rightarrow> None)"

fun reason :: "(go_err \<Rightarrow> bool) \<Rightarrow> run_event \<Rightarrow> go_err option list" where
  "reason deadline (ListenReturned err) = [err]"
| "reason deadline RoundBegins = []"
| "reason deadline (RoundEnds w) = (case steals deadline w of None \<Rightarrow> [] | Some e \<Rightarrow> [Some e])"

lemma watch_decide_stops:
  "snd (watch_decide deadline cdnErr n) =
     (case cdnErr of Some e \<Rightarrow> (if \<not> deadline e \<and> errors_Is e ErrCanStealIP then Some e else None) | None \<Rightarrow> None)"
  by (simp add: watch_decide_def split: option.split)

definition signals :: "go_err option list \<Rightarrow> runShutdown \<Rightarrow> runShutdown" where
  "signals rs s = fold signal rs s"

lemma run_life_exec_shutdown:
  assumes "run_life_exec deadline e s = Some s'"
  shows "rl_shutdown s' = signals (reason deadline e) (rl_shutdown s)"
proof (cases e)
  case (RoundEnds w)
  with assms obtain n cdn cdnErr where w: "rl_watch s = Asking n" "watch_answer w = Some (cdn, cdnErr)"
    by (auto split: watch.splits option.splits)
  show ?thesis
    using assms RoundEnds w watch_decide_stops [of deadline cdnErr n]
    by (cases "watch_decide deadline cdnErr n") (auto simp: steals_def signals_def split: option.splits if_splits)
qed (use assms in \<open>auto simp: signals_def split: if_splits watch.splits\<close>)

lemma run_life_shutdown:
  "run_events (run_life_exec deadline) es s = Some s' \<Longrightarrow>
    rl_shutdown s' = signals (concat (map (reason deadline) es)) (rl_shutdown s)"
  by (induction es arbitrary: s) (auto simp: signals_def split: option.splits dest!: run_life_exec_shutdown)

lemma signals_done: "sd_done s \<Longrightarrow> signals rs s = s"
  by (induction rs) (auto simp: signals_def signal_def)

lemma signals_new:
  "signals rs (newRunShutdown (Some closeErr)) =
     (case rs of
        [] \<Rightarrow> newRunShutdown (Some closeErr)
      | r # _ \<Rightarrow> \<lparr>sd_done = True, sd_err = (if r = None then closeErr else r), sd_close = Some closeErr, sd_closed = 1\<rparr>)"
proof (cases rs)
  case (Cons r rs')
  have "signals rs (newRunShutdown (Some closeErr)) = signals rs' (signal r (newRunShutdown (Some closeErr)))"
    by (simp add: Cons signals_def)
  then show ?thesis by (simp add: Cons signal_def newRunShutdown_def signals_done)
qed (simp add: signals_def)

text \<open>A round does not begin after the end, and an answer of the round under way changes nothing any more.\<close>

lemma no_round_after_end:
  "sd_done (rl_shutdown s) \<Longrightarrow> run_life_exec deadline RoundBegins s = Some s' \<Longrightarrow> rl_watch s' = Over"
  by (auto split: watch.splits)

section \<open>Properties\<close>

text \<open>C40: The command ends with the first reason there is, and closes the server exactly once: the error of
  listening or, if that is none, the error of closing; or the error of a validation that found the settings of
  the CDN able to steal addresses, unless its text speaks of a deadline. No other failure of validation ends it,
  however often it comes in a row, and reasons that come later change nothing.\<close>

theorem run_ends_once:
  assumes "run_events (run_life_exec deadline) es (run_life_new closeErr doNotValidate) = Some s"
  shows "wait_result (rl_shutdown s) =
      (case concat (map (reason deadline) es) of
         [] \<Rightarrow> None
       | err # _ \<Rightarrow> Some (if err = None then closeErr else err)) \<and>
    sd_closed (rl_shutdown s) = (if wait_result (rl_shutdown s) = None then 0 else 1)"
proof -
  define rs where "rs = concat (map (reason deadline) es)"
  have "rl_shutdown s = signals rs (newRunShutdown (Some closeErr))"
    using run_life_shutdown [OF assms] by (simp add: run_life_new_def rs_def)
  then show ?thesis
    unfolding signals_new rs_def [symmetric] by (simp add: wait_result_def newRunShutdown_def split: list.split)
qed

text \<open>A round whose answer is that the settings can steal addresses, then the end of listening.\<close>

definition demo_cdns :: registry where
  "demo_cdns = cdn_Register ''c'' (\<lambda>token. Inr (\<lambda>domain. Inr False)) [([0, 0, 0, 0], [0, 0, 0, 0])] no_cdns"

definition demo_thief :: env where
  "demo_thief = (env.truncate demo_world)\<lparr>env_cdns := demo_cdns, env_lookupIP := (\<lambda>d. Inr [[1, 2, 3, 4]]),
     env_params := (env_params demo_world)\<lparr>params_John := (params_John (env_params demo_world))\<lparr>john_DoNotValidateCDN := False\<rparr>\<rparr>\<rparr>"

lemma demo_thief_answer:
  "watch_answer demo_thief = Some (''c'', Some (Wrapped ''failed to validate cdn'' ErrCanStealIP))"
proof -
  have "CreatorByIP demo_cdns [1, 2, 3, 4] = (''c'', Some (\<lambda>token. Inr (\<lambda>domain. Inr False)))"
    by (simp add: CreatorByIP_def demo_cdns_def cdn_Register_def no_cdns_def net_Contains_def ip_To4_def mask_ip_def)
  moreover have "validatorMapping demo_cdns ''c'' = Some (\<lambda>token. Inr (\<lambda>domain. Inr False))"
    by (simp add: demo_cdns_def cdn_Register_def)
  moreover have "Deduplicate [''c''] = [''c'']" by code_simp
  moreover have "TrustedHost demo_thief ''l.c'' [] = cdn_Validate demo_cdns (\<lambda>d. Inr [[1, 2, 3, 4]]) ''l.c'' []"
    by (simp add: TrustedHost_def demo_thief_def demo_world_def env.truncate_def strings_TrimSuffix_def Let_def)
  ultimately show ?thesis
    by (simp add: watch_answer_def demo_thief_def demo_world_def env.truncate_def Let_def cdn_Validate_def wrap_cdn_def)
qed

theorem run_ends_once_witness:
  "\<exists>s. run_events (run_life_exec (\<lambda>e. False)) [RoundBegins, RoundEnds demo_thief, ListenReturned None]
      (run_life_new None False) = Some s \<and>
     wait_result (rl_shutdown s) = Some (Some (Wrapped ''failed to validate cdn'' ErrCanStealIP)) \<and> sd_closed (rl_shutdown s) = 1"
proof -
  let ?es = "[RoundBegins, RoundEnds demo_thief, ListenReturned None]"
  have "\<exists>s. run_events (run_life_exec (\<lambda>e. False)) ?es (run_life_new None False) = Some s"
    by (simp add: run_life_new_def newRunShutdown_def demo_thief_answer watch_decide_def signal_def)
  then obtain s where s: "run_events (run_life_exec (\<lambda>e. False)) ?es (run_life_new None False) = Some s" ..
  from run_ends_once [OF s] s show ?thesis
    by (intro exI [of _ s]) (simp add: steals_def demo_thief_answer ErrCanStealIP_def)
qed

end
