(* ===== verification/Copy_Cert.thy ===== *)
theory Copy_Cert
  imports Go_Std "HOL-Library.Product_Lexorder"
begin

text \<open>
  The copy of a website's certificates (\<open>pkg/copy_cert/copy_cert.go\<close>) that the juicity server shows: for
  each certificate of the chain a new key, and the same certificate signed anew by the new key of the next
  one. A key is its kind and a number, a certificate is the fields the code sets and the key it is
  signed with, and a PEM file is the list of its blocks. The network and the generation of keys are
  arguments; \<open>CreateCertificate\<close>, \<open>ParseCertificate\<close> and \<open>X509KeyPair\<close> are those of the standard
  library on this data. The lemmas show that the copies form a chain again.
\<close>

section \<open>Dates\<close>

text \<open>Year, month, day and nanoseconds of the day.\<close>

datatype date = Date int nat nat nat

fun date_key :: "date \<Rightarrow> int \<times> nat \<times> nat \<times> nat" where
  "date_key (Date y m d t) = (y, m, d, t)"

lemma date_key_inject: "date_key a = date_key b \<longleftrightarrow> a = b"
  by (cases a; cases b) simp

instantiation date :: linorder
begin

definition less_eq_date :: "date \<Rightarrow> date \<Rightarrow> bool" where
  "less_eq_date a b \<longleftrightarrow> date_key a \<le> date_key b"

definition less_date :: "date \<Rightarrow> date \<Rightarrow> bool" where
  "less_date a b \<longleftrightarrow> date_key a < date_key b"

instance
  by intro_classes (auto simp only: less_eq_date_def less_date_def date_key_inject [symmetric] less_le_not_le intro: linear antisym)

end

definition leap_year :: "int \<Rightarrow> bool" where
  "leap_year y \<longleftrightarrow> y mod 4 = 0 \<and> (y mod 100 \<noteq> 0 \<or> y mod 400 = 0)"

text \<open>\<open>AddDate(n, 0, 0)\<close>: a day the month does not have is the first of the next.\<close>

fun AddYears :: "int \<Rightarrow> date \<Rightarrow> date" where
  "AddYears n (Date y m d t) =
     (if m = 2 \<and> d = 29 \<and> \<not> leap_year (y + n) then Date (y + n) 3 1 t else Date (y + n) m d t)"

lemma AddYears_later: "0 < n \<Longrightarrow> d < AddYears n d"
  by (cases d) (simp add: less_date_def)

section \<open>Keys and certificates\<close>

datatype key_kind = RSA nat | ECDSA string | OtherKey

type_synonym key = "key_kind \<times> nat"

record certificate =
  xc_Subject :: string
  xc_Issuer :: string
  xc_NotBefore :: date
  xc_NotAfter :: date
  xc_PublicKey :: "key option"
  xc_KnownAlgorithm :: bool
  xc_SignedBy :: "key option"

text \<open>\<open>x509.CreateCertificate\<close>: the issuer is the subject of the parent, and a private key that is not that of
  the parent's public key, if it has one, is an error, as is a signature algorithm of another certificate.
  \<open>ParseCertificate\<close> reads the result as it is.\<close>

definition CreateCertificate :: "certificate \<Rightarrow> certificate \<Rightarrow> key \<Rightarrow> key \<Rightarrow> go_err + certificate" where
  "CreateCertificate template parent pub priv =
     (if xc_KnownAlgorithm template then Inl (Errorf ''x509: requested SignatureAlgorithm does not match private key type'')
      else if xc_PublicKey parent \<noteq> None \<and> xc_PublicKey parent \<noteq> Some priv
      then Inl (Errorf ''x509: provided PrivateKey does not match parent's PublicKey'')
      else Inr (template\<lparr>xc_Issuer := xc_Subject parent, xc_PublicKey := Some pub, xc_KnownAlgorithm := True,
        xc_SignedBy := Some priv\<rparr>))"

datatype pem_block = PemCertificate certificate | PemKey string key

record cert_pair =
  cp_newCert :: certificate
  cp_newCertPem :: pem_block
  cp_priv :: key
  cp_privPem :: pem_block

text \<open>The new key for the key of a certificate. \<open>gen\<close> is the generator of keys of a kind for the certificate at
  a position, \<open>pkcs8\<close> the error of marshalling a key.\<close>

definition new_key :: "(key_kind \<Rightarrow> nat \<Rightarrow> go_err + nat) \<Rightarrow> (key \<Rightarrow> go_err option) \<Rightarrow> nat \<Rightarrow> key option \<Rightarrow>
    go_err + key \<times> pem_block" where
  "new_key gen pkcs8 i pk =
     (case map_option fst pk of
        Some (RSA bits) \<Rightarrow>
          (let kind = RSA ((bits + 7) div 8 * 8)
           in case gen kind i of
                Inl e \<Rightarrow> Inl (Wrapped ''generate rsa key'' e)
              | Inr n \<Rightarrow> Inr ((kind, n), PemKey ''RSA PRIVATE KEY'' (kind, n)))
      | Some (ECDSA curve) \<Rightarrow>
          (case gen (ECDSA curve) i of
             Inl e \<Rightarrow> Inl (Wrapped ''generate ec key'' e)
           | Inr n \<Rightarrow>
               (case pkcs8 (ECDSA curve, n) of
                  Some e \<Rightarrow> Inl (Wrapped ''MarshalPKCS8PrivateKey'' e)
                | None \<Rightarrow> Inr ((ECDSA curve, n), PemKey ''EC PRIVATE KEY'' (ECDSA curve, n))))
      | _ \<Rightarrow> Inl (Errorf ''unknown key type''))"

text \<open>The template made from an original certificate.\<close>

definition template_of :: "certificate \<Rightarrow> certificate" where
  "template_of c = c\<lparr>xc_NotAfter := AddYears 10 (xc_NotBefore c), xc_PublicKey := None, xc_KnownAlgorithm := False\<rparr>"

text \<open>One round of the loop of \<open>makeCerts\<close>; \<open>parent\<close> is the pair of the round before. In the first round
  the parent is the pair itself, whose new certificate is the template.\<close>

definition make_pair :: "(key_kind \<Rightarrow> nat \<Rightarrow> go_err + nat) \<Rightarrow> (key \<Rightarrow> go_err option) \<Rightarrow> nat \<Rightarrow> cert_pair option \<Rightarrow> certificate \<Rightarrow>
    go_err + cert_pair" where
  "make_pair gen pkcs8 i parent c =
     ebind (new_key gen pkcs8 i (xc_PublicKey c)) (\<lambda>(k, privPem).
       let t = template_of c;
           (signer, signerKey) = (case parent of Some p \<Rightarrow> (cp_newCert p, cp_priv p) | None \<Rightarrow> (t, k))
       in case CreateCertificate t signer k signerKey of
            Inl e \<Rightarrow> Inl (Wrapped ''CreateCertificate'' e)
          | Inr der \<Rightarrow> Inr \<lparr>cp_newCert = der, cp_newCertPem = PemCertificate der, cp_priv = k, cp_privPem = privPem\<rparr>)"

fun make_loop :: "(key_kind \<Rightarrow> nat \<Rightarrow> go_err + nat) \<Rightarrow> (key \<Rightarrow> go_err option) \<Rightarrow> nat \<Rightarrow> cert_pair option \<Rightarrow> certificate list \<Rightarrow>
    go_err + cert_pair list" where
  "make_loop gen pkcs8 i parent [] = Inr []"
| "make_loop gen pkcs8 i parent (c # cs) =
     ebind (make_pair gen pkcs8 i parent c) (\<lambda>p.
     ebind (make_loop gen pkcs8 (Suc i) (Some p) cs) (\<lambda>ps. Inr (p # ps)))"

text \<open>From the root, or the intermediate certificate next to it, to the certificate of the website.\<close>

definition makeCerts :: "(key_kind \<Rightarrow> nat \<Rightarrow> go_err + nat) \<Rightarrow> (key \<Rightarrow> go_err option) \<Rightarrow> certificate list \<Rightarrow>
    go_err + cert_pair list" where
  "makeCerts gen pkcs8 originCerts = make_loop gen pkcs8 0 None (rev originCerts)"

text \<open>The bundles, the website's certificate first.\<close>

definition Copy :: "(string \<Rightarrow> go_err + certificate list) \<Rightarrow> (key_kind \<Rightarrow> nat \<Rightarrow> go_err + nat) \<Rightarrow> (key \<Rightarrow> go_err option) \<Rightarrow>
    string \<Rightarrow> go_err + pem_block list \<times> pem_block list" where
  "Copy getCertsFromNetwork gen pkcs8 addr =
     ebind (getCertsFromNetwork addr) (\<lambda>certs.
     ebind (makeCerts gen pkcs8 certs) (\<lambda>newCerts.
     Inr (map cp_newCertPem (rev newCerts), map cp_privPem (rev newCerts))))"

text \<open>\<open>tls.X509KeyPair\<close>: the certificates of the file, and the first block of the other whose type ends in
  \<open>PRIVATE KEY\<close>, which must be the key of the first certificate.\<close>

fun pem_certificates :: "pem_block list \<Rightarrow> certificate list" where
  "pem_certificates [] = []"
| "pem_certificates (PemCertificate c # bs) = c # pem_certificates bs"
| "pem_certificates (PemKey ty k # bs) = pem_certificates bs"

fun pem_key :: "pem_block list \<Rightarrow> key option" where
  "pem_key [] = None"
| "pem_key (PemCertificate c # bs) = pem_key bs"
| "pem_key (PemKey ty k # bs) = (if ty = ''PRIVATE KEY'' \<or> suffix '' PRIVATE KEY'' ty then Some k else pem_key bs)"

definition X509KeyPair :: "pem_block list \<Rightarrow> pem_block list \<Rightarrow> go_err + certificate list \<times> key" where
  "X509KeyPair certPEM keyPEM =
     (case (pem_certificates certPEM, pem_key keyPEM) of
        (leaf # cs, Some k) \<Rightarrow>
          if xc_PublicKey leaf = Some k then Inr (leaf # cs, k)
          else Inl (Errorf ''tls: private key does not match public key'')
      | _ \<Rightarrow> Inl (Errorf ''tls: failed to find a PEM block''))"

section \<open>The chain\<close>

text \<open>Each certificate is issued and signed by the one behind it, the last by itself.\<close>

fun signed_chain :: "certificate list \<Rightarrow> bool" where
  "signed_chain [] = True"
| "signed_chain [c] = (xc_Issuer c = xc_Subject c \<and> xc_SignedBy c = xc_PublicKey c)"
| "signed_chain (c # d # cs) = (xc_Issuer c = xc_Subject d \<and> xc_SignedBy c = xc_PublicKey d \<and> signed_chain (d # cs))"

text \<open>What a round makes of a certificate.\<close>

definition pair_of :: "certificate \<Rightarrow> cert_pair \<Rightarrow> bool" where
  "pair_of c p \<longleftrightarrow> cp_newCertPem p = PemCertificate (cp_newCert p) \<and>
     (\<exists>ty. cp_privPem p = PemKey ty (cp_priv p) \<and> suffix '' PRIVATE KEY'' ty) \<and>
     xc_PublicKey (cp_newCert p) = Some (cp_priv p) \<and> xc_Subject (cp_newCert p) = xc_Subject c \<and>
     xc_NotBefore (cp_newCert p) = xc_NotBefore c \<and> xc_NotBefore (cp_newCert p) < xc_NotAfter (cp_newCert p)"

definition signed_by :: "cert_pair \<Rightarrow> cert_pair \<Rightarrow> bool" where
  "signed_by q p \<longleftrightarrow> xc_Issuer (cp_newCert p) = xc_Subject (cp_newCert q) \<and> xc_SignedBy (cp_newCert p) = Some (cp_priv q)"

lemma new_key_block:
  "new_key gen pkcs8 i pk = Inr (k, b) \<Longrightarrow> \<exists>ty. b = PemKey ty k \<and> suffix '' PRIVATE KEY'' ty"
  by (auto simp: new_key_def Let_def suffix_def split: option.splits key_kind.splits sum.splits)

lemma make_pair_spec:
  assumes "make_pair gen pkcs8 i parent c = Inr p" and "\<forall>q. parent = Some q \<longrightarrow> (\<exists>d. pair_of d q)"
  shows "pair_of c p \<and> signed_by (case parent of Some q \<Rightarrow> q | None \<Rightarrow> p) p"
proof -
  from assms(1) obtain k b where k: "new_key gen pkcs8 i (xc_PublicKey c) = Inr (k, b)"
    by (auto simp: make_pair_def ebind_eq_Inr)
  from new_key_block [OF k] obtain ty where b: "b = PemKey ty k" "suffix '' PRIVATE KEY'' ty" by blast
  have later: "xc_NotBefore c < AddYears 10 (xc_NotBefore c)" by (rule AddYears_later) simp
  show ?thesis
  proof (cases parent)
    case None
    with assms(1) k b later show ?thesis
      by (auto simp: make_pair_def CreateCertificate_def template_of_def pair_of_def signed_by_def Let_def)
  next
    case (Some q)
    with assms(2) have "xc_PublicKey (cp_newCert q) = Some (cp_priv q)" by (auto simp: pair_of_def)
    with assms(1) k b later Some show ?thesis
      by (auto simp: make_pair_def CreateCertificate_def template_of_def pair_of_def signed_by_def Let_def)
  qed
qed

text \<open>The pairs of the loop, each signed by the one before it.\<close>

fun pair_chain :: "cert_pair option \<Rightarrow> cert_pair list \<Rightarrow> bool" where
  "pair_chain parent [] = True"
| "pair_chain parent (p # ps) = (signed_by (case parent of Some q \<Rightarrow> q | None \<Rightarrow> p) p \<and> pair_chain (Some p) ps)"

lemma make_loop_spec:
  assumes "make_loop gen pkcs8 i parent cs = Inr ps" and "\<forall>q. parent = Some q \<longrightarrow> (\<exists>d. pair_of d q)"
  shows "list_all2 pair_of cs ps \<and> pair_chain parent ps"
  using assms
proof (induction cs arbitrary: i parent ps)
  case (Cons c cs)
  then obtain p ps' where p: "make_pair gen pkcs8 i parent c = Inr p"
    "make_loop gen pkcs8 (Suc i) (Some p) cs = Inr ps'" "ps = p # ps'"
    by (auto simp: ebind_eq_Inr)
  from make_pair_spec [OF p(1) Cons.prems(2)] have "pair_of c p" "signed_by (case parent of Some q \<Rightarrow> q | None \<Rightarrow> p) p" by blast+
  with Cons.IH [OF p(2)] p(3) show ?case by auto
qed simp

text \<open>Seen from the other end the pairs are a chain of certificates.\<close>

lemma pair_chain_snoc:
  "pair_chain parent (ps @ [p]) \<longleftrightarrow> pair_chain parent ps \<and>
     signed_by (if ps \<noteq> [] then last ps else case parent of Some q \<Rightarrow> q | None \<Rightarrow> p) p"
  by (induction ps arbitrary: parent) auto

lemma pair_chain_signed:
  assumes "pair_chain None ps" and "\<forall>p \<in> set ps. \<exists>c. pair_of c p"
  shows "signed_chain (map cp_newCert (rev ps))"
  using assms
proof (induction ps rule: rev_induct)
  case (snoc p ps)
  then have ih: "signed_chain (map cp_newCert (rev ps))" by (simp add: pair_chain_snoc)
  have own: "xc_PublicKey (cp_newCert q) = Some (cp_priv q)" if "q \<in> set (ps @ [p])" for q
    using snoc.prems(2) that by (auto simp: pair_of_def)
  show ?case
  proof (cases "ps = []")
    case True
    with snoc.prems(1) own show ?thesis by (simp add: signed_by_def)
  next
    case False
    then obtain qs q where q: "ps = qs @ [q]" by (metis append_butlast_last_id)
    from snoc.prems(1) False have "signed_by (last ps) p" unfolding pair_chain_snoc [of None ps p] by simp
    with q have "signed_by q p" by simp
    with ih own [of q] q show ?thesis by (simp add: signed_by_def)
  qed
qed simp

lemma pem_certificates_map:
  "\<forall>p \<in> set ps. cp_newCertPem p = PemCertificate (cp_newCert p) \<Longrightarrow> pem_certificates (map cp_newCertPem ps) = map cp_newCert ps"
  by (induction ps) simp_all

text \<open>The loop fails only for a key it does not know or cannot make.\<close>

definition key_made :: "(key_kind \<Rightarrow> nat \<Rightarrow> go_err + nat) \<Rightarrow> (key \<Rightarrow> go_err option) \<Rightarrow> nat \<Rightarrow> certificate \<Rightarrow> bool" where
  "key_made gen pkcs8 i c \<longleftrightarrow> (\<exists>r. new_key gen pkcs8 i (xc_PublicKey c) = Inr r)"

lemma make_pair_succeeds:
  assumes "key_made gen pkcs8 i c" and "\<forall>q. parent = Some q \<longrightarrow> (\<exists>d. pair_of d q)"
  shows "\<exists>p. make_pair gen pkcs8 i parent c = Inr p"
proof (cases parent)
  case None
  with assms(1) show ?thesis
    by (auto simp: key_made_def make_pair_def CreateCertificate_def template_of_def Let_def)
next
  case (Some q)
  with assms(2) have "xc_PublicKey (cp_newCert q) = Some (cp_priv q)" by (auto simp: pair_of_def)
  with assms(1) Some show ?thesis
    by (auto simp: key_made_def make_pair_def CreateCertificate_def template_of_def Let_def)
qed

lemma make_loop_succeeds:
  assumes "\<forall>j < length cs. key_made gen pkcs8 (i + j) (cs ! j)" and "\<forall>q. parent = Some q \<longrightarrow> (\<exists>d. pair_of d q)"
  shows "\<exists>ps. make_loop gen pkcs8 i parent cs = Inr ps"
  using assms
proof (induction cs arbitrary: i parent)
  case (Cons c cs)
  from Cons.prems(1) have "key_made gen pkcs8 i c" by auto
  from make_pair_succeeds [OF this Cons.prems(2)] obtain p where p: "make_pair gen pkcs8 i parent c = Inr p" ..
  have "\<forall>j < length cs. key_made gen pkcs8 (Suc i + j) (cs ! j)" using Cons.prems(1) by force
  moreover have "\<forall>q. Some p = Some q \<longrightarrow> (\<exists>d. pair_of d q)" using make_pair_spec [OF p Cons.prems(2)] by auto
  ultimately obtain ps where "make_loop gen pkcs8 (Suc i) (Some p) cs = Inr ps" using Cons.IH by blast
  with p show ?case by simp
qed simp

section \<open>The copy of a chain\<close>

text \<open>If every key of the website's certificates is of a known kind and can be made anew, the copy succeeds:
  it has the certificates of the website in their order, with their subjects, each issued and signed
  by the next one and the last by itself, and none expired before it begins; and a server accepts the two bundles as a
  certificate with its key.\<close>

lemma copied_chain:
  assumes "getCerts addr = Inr certs" and "certs \<noteq> []"
    and "\<forall>j < length certs. key_made gen pkcs8 j (rev certs ! j)"
  shows "\<exists>crt key copies k. Copy getCerts gen pkcs8 addr = Inr (crt, key) \<and> X509KeyPair crt key = Inr (copies, k) \<and>
    map xc_Subject copies = map xc_Subject certs \<and> signed_chain copies \<and>
    list_all (\<lambda>c. xc_NotBefore c < xc_NotAfter c) copies"
proof -
  from make_loop_succeeds [of "rev certs" gen pkcs8 0 None] assms(3) obtain ps where
    ps: "make_loop gen pkcs8 0 None (rev certs) = Inr ps" by auto
  from make_loop_spec [OF ps] have sp: "list_all2 pair_of (rev certs) ps" "pair_chain None ps" by simp_all
  have own: "\<forall>p \<in> set ps. \<exists>c. pair_of c p" using sp(1) by (metis in_set_conv_nth list_all2_conv_all_nth)
  have subj: "map xc_Subject (map cp_newCert (rev ps)) = map xc_Subject certs"
    using sp(1) by (intro nth_equalityI) (auto simp: list_all2_conv_all_nth pair_of_def rev_nth)
  let ?cs = "map cp_newCert (rev ps)"
  have pem: "pem_certificates (map cp_newCertPem (rev ps)) = ?cs"
    using own by (intro pem_certificates_map) (auto simp: pair_of_def)
  have "ps \<noteq> []" using sp(1) assms(2) by auto
  then obtain p qs where p: "rev ps = p # qs" by (cases "rev ps") auto
  then have "p \<in> set ps" by (metis list.set_intros(1) set_rev)
  with own have pk: "pem_key (map cp_privPem (rev ps)) = Some (cp_priv p)" "xc_PublicKey (cp_newCert p) = Some (cp_priv p)"
    by (auto simp: p pair_of_def)
  then have "X509KeyPair (map cp_newCertPem (rev ps)) (map cp_privPem (rev ps)) = Inr (?cs, cp_priv p)"
    using pem p by (simp add: X509KeyPair_def)
  moreover have "Copy getCerts gen pkcs8 addr = Inr (map cp_newCertPem (rev ps), map cp_privPem (rev ps))"
    using assms(1) ps by (simp add: Copy_def makeCerts_def)
  moreover have "list_all (\<lambda>c. xc_NotBefore c < xc_NotAfter c) ?cs"
    using own by (auto simp: list_all_iff pair_of_def)
  ultimately show ?thesis using subj pair_chain_signed [OF sp(2) own] by blast
qed

definition demo_cert :: "string \<Rightarrow> string \<Rightarrow> key_kind \<Rightarrow> certificate" where
  "demo_cert subject issuer kind =
     \<lparr>xc_Subject = subject, xc_Issuer = issuer, xc_NotBefore = Date 2024 2 29 0, xc_NotAfter = Date 2025 2 28 0,
      xc_PublicKey = Some (kind, 1), xc_KnownAlgorithm = True, xc_SignedBy = Some (RSA 4096, 9)\<rparr>"

lemma demo_keys:
  "\<forall>j < 2. key_made (\<lambda>kind i. Inr (5 + i)) (\<lambda>k. None) j (rev [demo_cert ''site'' ''ca'' (ECDSA ''P-256''), demo_cert ''ca'' ''root'' (RSA 2048)] ! j)"
  by (auto simp: key_made_def new_key_def demo_cert_def less_Suc_eq numeral_2_eq_2 Let_def)

end
