(* ===== verification/Juicity_New.thy ===== *)
theory Juicity_New
  imports Juicity_Conn Run Copy_Cert
begin

text \<open>
  Making a juicity server and serving (\<open>New\<close> and \<open>Serve\<close> of \<open>server/juicity/dataplane.go\<close>, \<open>NewJohn\<close>
  of \<open>server.go\<close>), with the dialer that the run command hands to every server
  (\<open>protocolRuntime\<close> of \<open>Run\<close>). The key pair of a certificate and its key, the listener of QUIC and the
  direct dialers of the protocol library are arguments. The lemmas say which dialer the streams are
  relayed with, and how serving ends.
\<close>

section \<open>The data plane\<close>

record ju_options =
  jo_Certificate :: bytes
  jo_PrivateKey :: bytes
  jo_CongestionControl :: string
  jo_SendThrough :: string

text \<open>The dialers a server can be made with: those of the protocol library, which connect directly, and the
  one that refuses private addresses.\<close>

datatype direct_dialer = FullconeDirect | DirectLaddr ipaddr

datatype net_dialer = Direct direct_dialer | Limited limited_dialer

record 'cert ju_dataplane =
  jd_dialer :: net_dialer
  jd_NextProtos :: "string list"
  jd_MinVersion :: nat
  jd_Certificates :: "'cert list"
  jd_maxOpenIncomingStreams :: int
  jd_congestionControl :: string
  jd_cwnd :: int

definition juicity_New :: "(bytes \<Rightarrow> bytes \<Rightarrow> go_err + 'cert) \<Rightarrow> ju_options \<Rightarrow> go_err + 'cert ju_dataplane" where
  "juicity_New keyPair opts =
     ebind (keyPair (jo_Certificate opts) (jo_PrivateKey opts)) (\<lambda>cert.
     ebind (if jo_SendThrough opts \<noteq> [] then
              (case parseAddr (jo_SendThrough opts) of
                 None \<Rightarrow> Inl (Wrapped ''parse send_through'' (Errorf ''unable to parse IP''))
               | Some lAddr \<Rightarrow> Inr (DirectLaddr lAddr))
            else Inr FullconeDirect) (\<lambda>dialer.
     Inr \<lparr>jd_dialer = Direct dialer, jd_NextProtos = [''h3''], jd_MinVersion = VersionTLS13, jd_Certificates = [cert],
       jd_maxOpenIncomingStreams = 100, jd_congestionControl = jo_CongestionControl opts, jd_cwnd = 10\<rparr>))"

text \<open>\<open>NewJohn\<close>: it is given a dialer, as the creator of every protocol is. A result \<open>None\<close> is a panic.\<close>

definition juicity_NewJohn :: "(bytes \<Rightarrow> bytes \<Rightarrow> go_err + 'cert) \<Rightarrow> (bytes \<Rightarrow> go_err + string) \<Rightarrow> ju_lib \<Rightarrow> 'd world \<Rightarrow>
    bytes \<Rightarrow> bytes \<Rightarrow> net_dialer \<Rightarrow> server_argument \<Rightarrow> (go_err + 'cert ju_dataplane \<times> ju_server) option" where
  "juicity_NewJohn keyPair certHash L w cert key dialer arg =
     (case juicity_New keyPair \<lparr>jo_Certificate = cert, jo_PrivateKey = key, jo_CongestionControl = ''bbr'', jo_SendThrough = []\<rparr> of
        Inl e \<Rightarrow> Some (Inl e)
      | Inr d \<Rightarrow> map_option (\<lambda>r. ebind r (\<lambda>s. Inr (d, s))) (ju_NewJohn L w (certHash cert) arg))"

text \<open>A dial of a server: the limited dialer looks at the address, a direct one is the library's.\<close>

definition net_DialContext :: "(bytes \<Rightarrow> bool option) \<Rightarrow> ((string \<Rightarrow> go_err option) \<Rightarrow> string \<Rightarrow> string \<Rightarrow> go_err + string) \<Rightarrow>
    (string \<Rightarrow> go_err option) \<Rightarrow> (direct_dialer \<Rightarrow> string \<Rightarrow> string \<Rightarrow> go_err + lim_conn) \<Rightarrow> net_dialer \<Rightarrow> string \<Rightarrow> string \<Rightarrow>
    go_err + lim_conn" where
  "net_DialContext contains netDial listenUDP direct d network addr =
     (case d of
        Limited l \<Rightarrow> lim_DialContext contains netDial listenUDP l (Inr network) addr
      | Direct x \<Rightarrow> direct x network addr)"

lemma juicity_New_dialer:
  "juicity_New keyPair opts = Inr d \<Longrightarrow> jo_SendThrough opts = [] \<Longrightarrow> jd_dialer d = Direct FullconeDirect"
  by (auto simp: juicity_New_def ebind_eq_Inr)

lemma juicity_NewJohn_made:
  assumes "juicity_NewJohn keyPair certHash L w cert key dialer arg = Some (Inr (d, s))"
  shows "jd_dialer d = Direct FullconeDirect \<and> ju_reach L s"
proof -
  from assms obtain d' where
    d': "juicity_New keyPair \<lparr>jo_Certificate = cert, jo_PrivateKey = key, jo_CongestionControl = ''bbr'', jo_SendThrough = []\<rparr> = Inr d'"
    by (auto simp: juicity_NewJohn_def split: sum.splits)
  with assms have "d' = d" "ju_NewJohn L w (certHash cert) arg = Some (Inr s)"
    by (auto simp: juicity_NewJohn_def ebind_eq_Inr)
  with juicity_New_dialer [OF d'] ju_NewJohn_reach show ?thesis by auto
qed

section \<open>Serving\<close>

record quic_config =
  qc_MaxIncomingStreams :: int
  qc_MaxIncomingUniStreams :: int
  qc_KeepAlivePeriod :: int
  qc_EnableDatagrams :: bool

definition serve_config :: "'cert ju_dataplane \<Rightarrow> quic_config" where
  "serve_config d =
     \<lparr>qc_MaxIncomingStreams = jd_maxOpenIncomingStreams d, qc_MaxIncomingUniStreams = jd_maxOpenIncomingStreams d,
      qc_KeepAlivePeriod = 10 * 10 ^ 9, qc_EnableDatagrams = False\<rparr>"

text \<open>\<open>Serve\<close> in the steps another goroutine can see: listening, storing the listener, asking for the
  context, an accept that fails because the context was cancelled, or otherwise, and the deferred calls. \<open>Close\<close> is
  one step, it holds the mutex.\<close>

datatype serve_phase = ServeStart | ServeListening | ServeStored | ServeAccepting | ServeFailed "go_err option" | ServeReturned "go_err option"

record ju_serve =
  jv_life :: ju_life
  jv_phase :: serve_phase
  jv_open :: bool
  jv_closes :: nat

definition ju_serve_new :: ju_serve where
  "ju_serve_new = \<lparr>jv_life = \<lparr>jc_ctx = Some False, jc_listener = None\<rparr>, jv_phase = ServeStart, jv_open = False, jv_closes = 0\<rparr>"

datatype serve_event = ServeListen | ServeSetListener | ServeContext | ServeAcceptFails go_err | ServeDeferred | ServerClose

definition jv_cancelled :: "ju_serve \<Rightarrow> bool" where
  "jv_cancelled s = (jc_ctx (jv_life s) = Some True)"

fun ju_serve_exec :: "serve_event \<Rightarrow> ju_serve \<Rightarrow> ju_serve option" where
  "ju_serve_exec ServeListen s =
     (if jv_phase s = ServeStart then Some (s\<lparr>jv_phase := ServeListening, jv_open := True\<rparr>) else None)"
| "ju_serve_exec ServeSetListener s =
     (if jv_phase s = ServeListening then Some (s\<lparr>jv_phase := ServeStored, jv_life := ju_setListener (Some 0) (jv_life s)\<rparr>) else None)"
| "ju_serve_exec ServeContext s =
     (if jv_phase s = ServeStored then Some (s\<lparr>jv_phase := ServeAccepting, jv_life := fst (ju_serverContext (jv_life s))\<rparr>) else None)"
| "ju_serve_exec (ServeAcceptFails e) s =
     (if jv_phase s = ServeAccepting \<and> (e = canceled \<longrightarrow> jv_cancelled s)
      then Some (s\<lparr>jv_phase := ServeFailed (ju_accept_end e)\<rparr>) else None)"
| "ju_serve_exec ServeDeferred s =
     (case jv_phase s of
        ServeFailed r \<Rightarrow> Some (s\<lparr>jv_phase := ServeReturned r, jv_open := False, jv_life := ju_setListener None (jv_life s)\<rparr>)
      | _ \<Rightarrow> None)"
| "ju_serve_exec ServerClose s =
     (case ju_Close (jv_life s) of
        (l, lt) \<Rightarrow> Some (s\<lparr>jv_life := l, jv_open := (if lt = None then jv_open s else False),
          jv_closes := jv_closes s + (if lt = None then 0 else 1)\<rparr>))"

text \<open>Once the server was closed its context stays cancelled, so the accept that comes can only end; when
  serving has returned the listener is closed and no longer stored.\<close>

definition ju_serve_inv :: "ju_serve \<Rightarrow> bool" where
  "ju_serve_inv s \<longleftrightarrow> jc_ctx (jv_life s) \<noteq> None \<and>
     (case jv_phase s of
        ServeStart \<Rightarrow> \<not> jv_open s \<and> jc_listener (jv_life s) = None
      | ServeListening \<Rightarrow> jc_listener (jv_life s) = None
      | ServeReturned r \<Rightarrow> \<not> jv_open s \<and> jc_listener (jv_life s) = None
      | _ \<Rightarrow> True)"

lemma ju_serve_inv_exec: "ju_serve_inv s \<Longrightarrow> ju_serve_exec e s = Some s' \<Longrightarrow> ju_serve_inv s'"
  by (cases e) (auto simp: ju_serve_inv_def ju_setListener_def ju_serverContext_def ju_Close_def
      split: if_splits serve_phase.splits option.splits)

interpretation ju_serving: event_system ju_serve_exec ju_serve_inv
  by unfold_locales (rule ju_serve_inv_exec)

lemma jv_cancelled_stays: "jv_cancelled s \<Longrightarrow> ju_serve_exec e s = Some s' \<Longrightarrow> jv_cancelled s'"
  by (cases e) (auto simp: jv_cancelled_def ju_setListener_def ju_serverContext_def ju_Close_def
      split: if_splits serve_phase.splits option.splits)

interpretation ju_cancelling: event_system ju_serve_exec jv_cancelled
  by unfold_locales (rule jv_cancelled_stays)

lemma ju_close_cancels: "ju_serve_inv s \<Longrightarrow> ju_serve_exec ServerClose s = Some s' \<Longrightarrow> jv_cancelled s'"
  by (auto simp: ju_serve_inv_def jv_cancelled_def ju_Close_def)

text \<open>Wherever \<open>Close\<close> comes between the steps of \<open>Serve\<close>, serving can come to its end, without an error,
  and no listener is left open.\<close>

lemma ju_serve_ends:
  assumes "run_events ju_serve_exec es ju_serve_new = Some s" and "jv_cancelled s" and "jv_phase s = ServeAccepting"
  shows "\<exists>s'. run_events ju_serve_exec [ServeAcceptFails canceled, ServeDeferred] s = Some s' \<and>
    jv_phase s' = ServeReturned None \<and> \<not> jv_open s'"
  using assms by (simp add: ju_accept_end_def canceled_def)

lemma ju_serve_closed:
  assumes "run_events ju_serve_exec es ju_serve_new = Some s" and "jv_phase s = ServeReturned r"
  shows "\<not> jv_open s \<and> jc_listener (jv_life s) = None"
proof -
  have "ju_serve_inv ju_serve_new" by (simp add: ju_serve_inv_def ju_serve_new_def)
  from ju_serving.run_keeps [OF assms(1) this] assms(2) show ?thesis by (simp add: ju_serve_inv_def)
qed

section \<open>Properties\<close>

text \<open>C31: The run command hands the dialer that refuses private addresses to the juicity server as to every
  other, but \<open>NewJohn\<close> of the juicity server leaves it aside: in every state the server reaches, a stream of a
  passage without a next hop is relayed with the direct dialer, whatever its target, and the list of private
  networks is never asked. With the dialer that was handed over, a tcp connection would only be made to
  an address that is not private.\<close>

theorem ju_dials_private:
  assumes "protocolRuntime pn rw (Some l) (pn_Juicity pn) fs = (fs', Inr (Certificate cert key, handed))"
    and "juicity_NewJohn keyPair certHash L w cert key (Limited handed) arg = Some (Inr (dp, s0))"
    and "ju_users s uuid = Some q" and "pa_Out q = None"
    and "ju_handleStream L w (jd_dialer dp) (Inr uuid) ip stream out (cache, s) = Some (st, out', Relay d net target)"
    and "\<forall>control network addr r. netDial control network addr = Inr r \<longrightarrow> control r = None"
  shows "handed = l \<and> d = Direct FullconeDirect \<and>
    net_DialContext contains netDial listenUDP direct d net target = direct FullconeDirect net target \<and>
    (\<forall>r. net_DialContext contains netDial listenUDP direct (Limited handed) ''tcp'' target = Inr (LimTCP r) \<longrightarrow>
       lim_Control contains r = None)"
proof -
  have "handed = l"
    using assms(1) by (auto simp: protocolRuntime_def NewBloom_def fullconeDialer_def Let_def split: if_splits sum.splits prod.splits option.splits)
  moreover have "jd_dialer dp = Direct FullconeDirect" using juicity_NewJohn_made [OF assms(2)] by blast
  moreover have "d = jd_dialer dp"
    using assms(3-5) by (auto simp: ju_handleStream_def passage_dialer_def split: sum.splits option.splits if_splits prod.splits)
  ultimately show ?thesis
    using assms(6) by (auto simp: net_DialContext_def lim_DialContext_def ebind_eq_Inr split: if_splits sum.splits)
qed

text \<open>A program whose two certificate files exist.\<close>

definition demo_files_world :: run_world where
  "demo_files_world =
     \<lparr>rw_newGroup = (\<lambda>_. None), rw_confDir = ''c'', rw_search = Inr, rw_create = Inr, rw_euid = 0,
      rw_copy = (\<lambda>_. Inl IoEOF), rw_writeFails = (\<lambda>_. None)\<rparr>"

definition demo_net_world :: "net_dialer world" where
  "demo_net_world = env.extend (env.truncate demo_world)
     (world.fields (wd_names demo_world) (\<lambda>s. Inr []) (\<lambda>_ d _. Inr d) arg_Password (\<lambda>i. ''m'') (\<lambda>l. Inr []) (\<lambda>b. Inr []))"

lemma demo_net_runtime:
  "\<exists>fs. protocolRuntime (wd_names demo_world) demo_files_world (Some (NewLimitedDialer True KeepOrigin)) (pn_Juicity (wd_names demo_world)) fs =
     (fs, Inr (Certificate [1] [2], NewLimitedDialer True KeepOrigin))"
proof -
  have r: "DataFile (rw_search demo_files_world) (rw_create demo_files_world) (rw_euid demo_files_world) f =
      Inr (path_Join [''BitterJohn'', f])" for f
    by (simp add: DataFile_def demo_files_world_def)
  let ?cp = "path_Join [''BitterJohn'', JuicityDomain @ ''_443.crt'']" and ?kp = "path_Join [''BitterJohn'', JuicityDomain @ ''_443.key'']"
  have ne: "?cp \<noteq> ?kp" by code_simp
  let ?fs = "Map.empty(?cp \<mapsto> [1], ?kp \<mapsto> [2]) :: files"
  have "juicity_certificate demo_files_world ?cp ?kp ?fs = (?fs, Inr (Certificate [1] [2]))"
    using ne by (simp add: juicity_certificate_def)
  then have "protocolRuntime (wd_names demo_world) demo_files_world (Some (NewLimitedDialer True KeepOrigin)) (pn_Juicity (wd_names demo_world)) ?fs =
      (?fs, Inr (Certificate [1] [2], NewLimitedDialer True KeepOrigin))"
    by (simp add: protocolRuntime_def r fullconeDialer_def) (simp add: demo_world_def)
  then show ?thesis by (rule exI [of _ ?fs])
qed

lemma demo_net_NewJohn:
  "\<exists>dp s. juicity_NewJohn (\<lambda>c k. Inr ()) (\<lambda>c. Inr ''h'') demo_ju_lib demo_net_world [1] [2] dialer
      \<lparr>sarg_Ticket = [], sarg_ServerName = [], sarg_Hostnames = [], sarg_Port = 0, sarg_NoRelay = False\<rparr> = Some (Inr (dp, s))"
proof -
  let ?arg = "\<lparr>sarg_Ticket = [], sarg_ServerName = [], sarg_Hostnames = [], sarg_Port = 0, sarg_NoRelay = False\<rparr>"
  let ?s0 = "ju_New\<lparr>ju_arg := ?arg, ju_pinned := ''h'', ju_contention := True\<rparr>"
  have ok0: "ju_ok demo_ju_lib ?s0" by (simp add: ju_ok_def ju_New_def)
  from ju_add [OF ok0, of "wd_gen demo_net_world" "[manager_passage]"] obtain s1 where
    s1: "ju_AddPassages demo_ju_lib (wd_gen demo_net_world) [manager_passage] ?s0 = Some (s1, None)" "ju_ok demo_ju_lib s1" by blast
  have t: "env.truncate demo_net_world = env.truncate demo_world"
    by (simp add: demo_net_world_def env.truncate_def env.extend_def)
  have "ju_ok demo_ju_lib (s1\<lparr>ju_lastAlive := env_now demo_net_world\<rparr>)" using s1(2) by (simp add: ju_ok_def)
  from ju_store.sync [OF this, of "[demo_user ''b'']" "wd_hash demo_net_world" "wd_gen demo_net_world" "wd_gen demo_net_world"]
  obtain s2 where "ju_SyncPassages demo_ju_lib demo_net_world [demo_user ''b''] (s1\<lparr>ju_lastAlive := env_now demo_net_world\<rparr>) = Some (s2, None)"
    by (auto simp: ju_SyncPassages_def)
  then have "ju_register demo_ju_lib demo_net_world s1 = Some (s2, None)"
    by (simp add: ju_register_def t demo_call Let_def)
  with s1(1) have "ju_NewJohn demo_ju_lib demo_net_world (Inr ''h'') ?arg = Some (Inr s2)"
    by (simp add: ju_NewJohn_def)
  then show ?thesis by (simp add: juicity_NewJohn_def juicity_New_def)
qed

theorem ju_dials_private_witness:
  "\<exists>s st out' d target contains netDial.
     ju_AddPassages demo_ju_lib (\<lambda>i. ''g'') [demo_ju_user ''u''] ju_New = Some (s, None) \<and>
     ju_handleStream demo_ju_lib demo_net_world (Direct FullconeDirect) (Inr (to_bytes ''u'')) [] [] \<lparr>w_out = [], w_budget = None\<rparr>
       (no_dialers, s) = Some (st, out', Relay d ''tcp'' target) \<and>
     net_DialContext contains netDial (\<lambda>_. None) (\<lambda>_ _ a. Inr (LimTCP a)) d ''tcp'' target = Inr (LimTCP target)"
proof -
  obtain fs where r: "protocolRuntime (wd_names demo_world) demo_files_world (Some (NewLimitedDialer True KeepOrigin))
      (pn_Juicity (wd_names demo_world)) fs = (fs, Inr (Certificate [1] [2], NewLimitedDialer True KeepOrigin))"
    using demo_net_runtime by (elim exE)
  obtain dp s0 where n: "juicity_NewJohn (\<lambda>c k. Inr ()) (\<lambda>c. Inr ''h'') demo_ju_lib demo_net_world [1] [2] (Limited (NewLimitedDialer True KeepOrigin))
      \<lparr>sarg_Ticket = [], sarg_ServerName = [], sarg_Hostnames = [], sarg_Port = 0, sarg_NoRelay = False\<rparr> = Some (Inr (dp, s0))"
    using demo_net_NewJohn by blast
  have dp: "jd_dialer dp = Direct FullconeDirect" using juicity_NewJohn_made [OF n] by blast
  from demo_ju_add obtain s p where s: "ju_AddPassages demo_ju_lib (\<lambda>i. ''g'') [demo_ju_user ''u''] ju_New = Some (s, None)"
    "ju_users s (to_bytes ''u'') = Some p" "\<not> pa_Manager p" "pa_Out p = None" "ju_contention s = False" by blast
  obtain target where h: "ju_handleStream demo_ju_lib demo_net_world (jd_dialer dp) (Inr (to_bytes ''u'')) [] [] \<lparr>w_out = [], w_budget = None\<rparr> (no_dialers, s) =
      Some ((no_dialers, s), \<lparr>w_out = [], w_budget = None\<rparr>, Relay (Direct FullconeDirect) ''tcp'' target)"
    using s(2-5) dp by (simp add: ju_handleStream_def demo_ju_lib_def ju_ContentionCheck_def passage_dialer_def)
  have c: "\<forall>control network addr r. (\<lambda>_ _ _. Inl IoEOF :: go_err + string) control network addr = Inr r \<longrightarrow> control r = None" by simp
  from ju_dials_private [OF r n s(2,4) h c, of "\<lambda>_. Some True" "\<lambda>_. None" "\<lambda>_ _ a. Inr (LimTCP a)"]
  have "net_DialContext (\<lambda>_. Some True) (\<lambda>_ _ _. Inl IoEOF) (\<lambda>_. None) (\<lambda>_ _ a. Inr (LimTCP a)) (Direct FullconeDirect) ''tcp'' target = Inr (LimTCP target)"
    by (elim conjE) simp
  with s(1) h dp show ?thesis by auto
qed

section \<open>The first start\<close>

text \<open>The copy of the certificates and the key pair as the program calls them: on bytes, with the encoding of PEM
  files.\<close>

definition pem_copy :: "(pem_block list \<Rightarrow> bytes) \<Rightarrow> (string \<Rightarrow> go_err + certificate list) \<Rightarrow> (key_kind \<Rightarrow> nat \<Rightarrow> go_err + nat) \<Rightarrow>
    (key \<Rightarrow> go_err option) \<Rightarrow> string \<Rightarrow> go_err + bytes \<times> bytes" where
  "pem_copy encode getCerts gen pkcs8 addr =
     ebind (Copy getCerts gen pkcs8 addr) (\<lambda>(crt, key). Inr (encode crt, encode key))"

definition pem_keyPair :: "(bytes \<Rightarrow> pem_block list) \<Rightarrow> bytes \<Rightarrow> bytes \<Rightarrow> go_err + certificate list \<times> key" where
  "pem_keyPair decode crt key = X509KeyPair (decode crt) (decode key)"

text \<open>C32: A juicity server that starts without certificate files gets them: if the website shows a chain whose keys
  can be made anew, and the files can be written, the copy is written to them and the server is made with it. It shows a
  chain with the subjects of the website in their order, each signed by the next and the last by itself, none expired before it
  begins; and every later start reads the same files, whatever the website then shows.\<close>

theorem juicity_first_start:
  assumes "getCerts (JuicityDomain @ '':443'') = Inr certs" and "certs \<noteq> []"
    and "\<forall>j < length certs. key_made gen pkcs8 j (rev certs ! j)"
    and "rw_copy w = pem_copy encode getCerts gen pkcs8"
    and "\<forall>c k. Copy getCerts gen pkcs8 (JuicityDomain @ '':443'') = Inr (c, k) \<longrightarrow> decode (encode c) = c \<and> decode (encode k) = k"
    and "rw_writeFails w cp = None" and "rw_writeFails w kp = None" and "fs cp = None \<or> fs kp = None" and "cp \<noteq> kp"
  shows "\<exists>fs' crt key d copies k. juicity_certificate w cp kp fs = (fs', Inr (Certificate crt key)) \<and>
    juicity_New (pem_keyPair decode) \<lparr>jo_Certificate = crt, jo_PrivateKey = key, jo_CongestionControl = ''bbr'', jo_SendThrough = []\<rparr> = Inr d \<and>
    jd_Certificates d = [(copies, k)] \<and> map xc_Subject copies = map xc_Subject certs \<and> signed_chain copies \<and>
    list_all (\<lambda>c. xc_NotBefore c < xc_NotAfter c) copies \<and>
    (\<forall>w'. juicity_certificate w' cp kp fs' = (fs', Inr (Certificate crt key)))"
proof -
  from copied_chain [of getCerts "JuicityDomain @ '':443''" certs gen pkcs8, OF assms(1-3)] obtain c k0 copies k where
    c: "Copy getCerts gen pkcs8 (JuicityDomain @ '':443'') = Inr (c, k0)" "X509KeyPair c k0 = Inr (copies, k)" and
    copies: "map xc_Subject copies = map xc_Subject certs" "signed_chain copies" "list_all (\<lambda>c. xc_NotBefore c < xc_NotAfter c) copies"
    by blast
  from assms(5) c(1) have dec: "decode (encode c) = c" "decode (encode k0) = k0" by auto
  let ?fs = "fs(cp \<mapsto> encode c, kp \<mapsto> encode k0)"
  have "rw_copy w (JuicityDomain @ '':443'') = Inr (encode c, encode k0)" using assms(4) c(1) by (simp add: pem_copy_def)
  then have j: "juicity_certificate w cp kp fs = (?fs, Inr (Certificate (encode c) (encode k0)))"
    using assms(6-8) by (auto simp: juicity_certificate_def os_WriteFile_def split: option.split)
  have p: "pem_keyPair decode (encode c) (encode k0) = Inr (copies, k)" using c(2) dec by (simp add: pem_keyPair_def)
  let ?o = "\<lparr>jo_Certificate = encode c, jo_PrivateKey = encode k0, jo_CongestionControl = ''bbr'', jo_SendThrough = []\<rparr>"
  from p obtain d where d: "juicity_New (pem_keyPair decode) ?o = Inr d" "jd_Certificates d = [(copies, k)]"
    by (simp add: juicity_New_def)
  have "\<forall>w'. juicity_certificate w' cp kp ?fs = (?fs, Inr (Certificate (encode c) (encode k0)))"
    using juicity_certificate_reused [OF j assms(9)] by blast
  with j d copies show ?thesis by blast
qed

theorem juicity_first_start_witness:
  "\<exists>w fs' crt key d copies k decode. juicity_certificate w ''c'' ''k'' Map.empty = (fs', Inr (Certificate crt key)) \<and>
    juicity_New (pem_keyPair decode) \<lparr>jo_Certificate = crt, jo_PrivateKey = key, jo_CongestionControl = ''bbr'', jo_SendThrough = []\<rparr> = Inr d \<and>
    jd_Certificates d = [(copies, k)] \<and> map xc_Subject copies = [''site'', ''ca''] \<and> signed_chain copies"
proof -
  let ?certs = "[demo_cert ''site'' ''ca'' (ECDSA ''P-256''), demo_cert ''ca'' ''root'' (RSA 2048)]"
  let ?get = "\<lambda>a. Inr ?certs :: go_err + certificate list" and ?gen = "\<lambda>kind i. Inr (5 + i) :: go_err + nat"
    and ?p8 = "\<lambda>k. None :: go_err option"
  have keys: "\<forall>j < length ?certs. key_made ?gen ?p8 j (rev ?certs ! j)" using demo_keys by simp
  let ?r = "Copy ?get ?gen ?p8 (JuicityDomain @ '':443'')"
  define c0 where "c0 = (case ?r of Inr (c, k) \<Rightarrow> c | Inl e \<Rightarrow> [])"
  define k0 where "k0 = (case ?r of Inr (c, k) \<Rightarrow> k | Inl e \<Rightarrow> [])"
  define encode where "encode = (\<lambda>bs. if bs = c0 then [1] else [2] :: bytes)"
  define decode where "decode = (\<lambda>b. if b = [1 :: byte] then c0 else k0)"
  have dec: "\<forall>c k. ?r = Inr (c, k) \<longrightarrow> decode (encode c) = c \<and> decode (encode k) = k"
    by (auto simp: c0_def k0_def encode_def decode_def)
  let ?w = "demo_files_world\<lparr>rw_copy := pem_copy encode ?get ?gen ?p8\<rparr>"
  have w: "rw_copy ?w = pem_copy encode ?get ?gen ?p8" "rw_writeFails ?w f = None" for f by (simp_all add: demo_files_world_def)
  have ne: "(Map.empty :: files) ''c'' = None \<or> (Map.empty :: files) ''k'' = None" "''c'' \<noteq> ''k''" by simp_all
  have subj: "map xc_Subject ?certs = [''site'', ''ca'']" "?certs \<noteq> []" by (simp_all add: demo_cert_def)
  obtain fs' crt key d copies k where
    r: "juicity_certificate ?w ''c'' ''k'' Map.empty = (fs', Inr (Certificate crt key))"
      "juicity_New (pem_keyPair decode) \<lparr>jo_Certificate = crt, jo_PrivateKey = key, jo_CongestionControl = ''bbr'', jo_SendThrough = []\<rparr> = Inr d"
      "jd_Certificates d = [(copies, k)]" "map xc_Subject copies = map xc_Subject ?certs" "signed_chain copies"
    using juicity_first_start [of ?get ?certs ?gen ?p8 ?w encode decode, OF refl subj(2) keys w(1) dec w(2) w(2) ne] by (elim exE conjE) blast
  show ?thesis
    by (rule exI [of _ ?w], rule exI [of _ fs'], rule exI [of _ crt], rule exI [of _ key], rule exI [of _ d], rule exI [of _ copies],
        rule exI [of _ k], rule exI [of _ decode]) (use r subj(1) in simp)
qed

end
