(* ===== verification/Files.thy ===== *)
theory Files
  imports Config Go_Net
begin

text \<open>
  The file system the commands work on, with the functions of \<open>os\<close> they call, and the copying of files
  (\<open>pkg/copyfile/main.go\<close>). A name leads to an inode, so that two names may be one file; a path leads to a
  name once the symbolic links of its directories are followed. What can go wrong outside the program (a full
  disk, a missing permission, two devices) is an argument. The lemmas say what a copy leaves at
  either path and that it touches no other file.
\<close>

section \<open>The file system\<close>

datatype inode = Regular bytes nat | Directory | Device

record file_sys =
  fs_real :: "string \<Rightarrow> string"
  fs_names :: "string \<rightharpoonup> nat"
  fs_inodes :: "nat \<Rightarrow> inode"
  fs_next :: nat

text \<open>The errors of the calls, by their path; how many bytes of a file opened for writing the disk takes
  (\<open>None\<close>: all); and the mode of a new file, which is the requested one less the umask.\<close>

record faults =
  fa_stat :: "string \<Rightarrow> go_err option"
  fa_open :: "string \<Rightarrow> go_err option"
  fa_create :: "string \<Rightarrow> go_err option"
  fa_mkdir :: "string \<Rightarrow> go_err option"
  fa_link :: "string \<Rightarrow> string \<Rightarrow> go_err option"
  fa_remove :: "string \<Rightarrow> go_err option"
  fa_chmod :: "string \<Rightarrow> go_err option"
  fa_room :: "string \<Rightarrow> nat option"
  fa_sync :: "string \<Rightarrow> go_err option"
  fa_close :: "string \<Rightarrow> go_err option"
  fa_umask :: "nat \<Rightarrow> nat"

definition no_faults :: faults where
  "no_faults = \<lparr>fa_stat = \<lambda>p. None, fa_open = \<lambda>p. None, fa_create = \<lambda>p. None, fa_mkdir = \<lambda>p. None, fa_link = \<lambda>p q. None,
     fa_remove = \<lambda>p. None, fa_chmod = \<lambda>p. None, fa_room = \<lambda>p. None, fa_sync = \<lambda>p. None, fa_close = \<lambda>p. None,
     fa_umask = \<lambda>m. m AND 493\<rparr>"

definition entry :: "file_sys \<Rightarrow> string \<Rightarrow> nat option" where
  "entry fs p = fs_names fs (fs_real fs p)"

text \<open>The contents and the mode of a regular file.\<close>

definition file_at :: "file_sys \<Rightarrow> nat option \<Rightarrow> (bytes \<times> nat) option" where
  "file_at fs n = (case n of Some i \<Rightarrow> (case fs_inodes fs i of Regular b m \<Rightarrow> Some (b, m) | _ \<Rightarrow> None) | None \<Rightarrow> None)"

definition file_of :: "file_sys \<Rightarrow> string \<Rightarrow> (bytes \<times> nat) option" where
  "file_of fs p = file_at fs (entry fs p)"

definition contents :: "file_sys \<Rightarrow> string \<Rightarrow> bytes option" where
  "contents fs p = map_option fst (file_of fs p)"

definition ErrNotExist :: go_err where
  "ErrNotExist = Errorf ''file does not exist''"

text \<open>\<open>filepath.Dir\<close>\<close>

definition path_Dir :: "string \<Rightarrow> string" where
  "path_Dir p = path_Clean (rev (dropWhile (\<lambda>c. c \<noteq> CHR ''/'') (rev p)))"

section \<open>The functions of \<open>os\<close>\<close>

datatype file_info = NotExist | StatFailed go_err | FileInfo nat bool

definition os_Stat :: "faults \<Rightarrow> string \<Rightarrow> file_sys \<Rightarrow> file_info" where
  "os_Stat fa p fs =
     (case fa_stat fa p of
        Some e \<Rightarrow> StatFailed e
      | None \<Rightarrow> (case entry fs p of None \<Rightarrow> NotExist | Some i \<Rightarrow> FileInfo i (case fs_inodes fs i of Regular b m \<Rightarrow> True | _ \<Rightarrow> False)))"

text \<open>A new name for a new inode; the directory it is in must exist.\<close>

definition new_name :: "string \<Rightarrow> inode \<Rightarrow> file_sys \<Rightarrow> (file_sys \<times> nat) option" where
  "new_name p x fs =
     (case fs_names fs (path_Dir (fs_real fs p)) of
        None \<Rightarrow> None
      | Some d \<Rightarrow>
          if fs_inodes fs d \<noteq> Directory then None
          else Some (fs\<lparr>fs_names := (fs_names fs)(fs_real fs p \<mapsto> fs_next fs),
                 fs_inodes := (fs_inodes fs)(fs_next fs := x), fs_next := Suc (fs_next fs)\<rparr>, fs_next fs))"

text \<open>Opening for reading, and for writing: a file that exists is emptied and keeps its mode.\<close>

definition os_Open :: "faults \<Rightarrow> string \<Rightarrow> file_sys \<Rightarrow> go_err + bytes" where
  "os_Open fa p fs =
     (case fa_open fa p of Some e \<Rightarrow> Inl e | None \<Rightarrow> (case contents fs p of None \<Rightarrow> Inl ErrNotExist | Some b \<Rightarrow> Inr b))"

definition os_Create :: "faults \<Rightarrow> nat \<Rightarrow> string \<Rightarrow> file_sys \<Rightarrow> file_sys \<times> (go_err + nat)" where
  "os_Create fa perm p fs =
     (case fa_create fa p of
        Some e \<Rightarrow> (fs, Inl e)
      | None \<Rightarrow>
          (case entry fs p of
             Some i \<Rightarrow>
               (case fs_inodes fs i of
                  Regular b m \<Rightarrow> (fs\<lparr>fs_inodes := (fs_inodes fs)(i := Regular [] m)\<rparr>, Inr i)
                | Directory \<Rightarrow> (fs, Inl (Errorf ''is a directory''))
                | Device \<Rightarrow> (fs, Inr i))
           | None \<Rightarrow>
               (case new_name p (Regular [] (fa_umask fa perm)) fs of
                  None \<Rightarrow> (fs, Inl ErrNotExist)
                | Some (fs', i) \<Rightarrow> (fs', Inr i))))"

definition room_for :: "faults \<Rightarrow> string \<Rightarrow> bytes \<Rightarrow> bytes" where
  "room_for fa p b = (case fa_room fa p of None \<Rightarrow> b | Some n \<Rightarrow> take n b)"

text \<open>Writing at the end of an open file. What fits is written before the error.\<close>

definition fd_Write :: "faults \<Rightarrow> string \<Rightarrow> nat \<Rightarrow> bytes \<Rightarrow> file_sys \<Rightarrow> file_sys \<times> go_err option" where
  "fd_Write fa p i b fs =
     ((case fs_inodes fs i of
         Regular c m \<Rightarrow> fs\<lparr>fs_inodes := (fs_inodes fs)(i := Regular (c @ room_for fa p b) m)\<rparr>
       | _ \<Rightarrow> fs),
      if room_for fa p b = b then None else Some (Errorf ''no space left on device''))"

definition os_WriteFile :: "faults \<Rightarrow> string \<Rightarrow> bytes \<Rightarrow> file_sys \<Rightarrow> file_sys \<times> go_err option" where
  "os_WriteFile fa p b fs =
     (case os_Create fa 420 p fs of
        (fs1, Inl e) \<Rightarrow> (fs1, Some e)
      | (fs1, Inr i) \<Rightarrow>
          (case fd_Write fa p i b fs1 of
             (fs2, Some e) \<Rightarrow> (fs2, Some e)
           | (fs2, None) \<Rightarrow> (fs2, fa_close fa p)))"

definition os_Link :: "faults \<Rightarrow> string \<Rightarrow> string \<Rightarrow> file_sys \<Rightarrow> file_sys \<times> go_err option" where
  "os_Link fa src dst fs =
     (case (fa_link fa src dst, entry fs src, entry fs dst, fs_names fs (path_Dir (fs_real fs dst))) of
        (Some e, _) \<Rightarrow> (fs, Some e)
      | (None, Some i, None, Some d) \<Rightarrow>
          if fs_inodes fs d = Directory then (fs\<lparr>fs_names := (fs_names fs)(fs_real fs dst \<mapsto> i)\<rparr>, None) else (fs, Some ErrNotExist)
      | (None, Some i, Some j, _) \<Rightarrow> (fs, Some (Errorf ''file exists''))
      | _ \<Rightarrow> (fs, Some ErrNotExist))"

text \<open>That a directory is not empty is one of the errors of removing.\<close>

definition os_Remove :: "faults \<Rightarrow> string \<Rightarrow> file_sys \<Rightarrow> file_sys \<times> go_err option" where
  "os_Remove fa p fs =
     (case (fa_remove fa p, entry fs p) of
        (Some e, _) \<Rightarrow> (fs, Some e)
      | (None, None) \<Rightarrow> (fs, Some ErrNotExist)
      | (None, Some i) \<Rightarrow> (fs\<lparr>fs_names := (fs_names fs)(fs_real fs p := None)\<rparr>, None))"

definition os_Chmod :: "faults \<Rightarrow> string \<Rightarrow> nat \<Rightarrow> file_sys \<Rightarrow> file_sys \<times> go_err option" where
  "os_Chmod fa p mode fs =
     (case (fa_chmod fa p, entry fs p) of
        (Some e, _) \<Rightarrow> (fs, Some e)
      | (None, None) \<Rightarrow> (fs, Some ErrNotExist)
      | (None, Some i) \<Rightarrow>
          ((case fs_inodes fs i of Regular b m \<Rightarrow> fs\<lparr>fs_inodes := (fs_inodes fs)(i := Regular b mode)\<rparr> | _ \<Rightarrow> fs), None))"

text \<open>\<open>os.MkdirAll\<close> makes the directories of the path from the root on.\<close>

fun dirs_above :: "string \<Rightarrow> string \<Rightarrow> string list" where
  "dirs_above pre [] = [pre]"
| "dirs_above pre (c # cs) =
     (if c = CHR ''/'' then (if pre = [] then [''/''] else [pre]) @ dirs_above (pre @ [c]) cs else dirs_above (pre @ [c]) cs)"

definition os_Mkdir :: "faults \<Rightarrow> string \<Rightarrow> file_sys \<Rightarrow> file_sys \<times> bool" where
  "os_Mkdir fa p fs =
     (case entry fs p of
        Some i \<Rightarrow> (fs, fs_inodes fs i = Directory)
      | None \<Rightarrow>
          if fa_mkdir fa p \<noteq> None then (fs, False)
          else (case new_name p Directory fs of None \<Rightarrow> (fs, False) | Some (fs', i) \<Rightarrow> (fs', True)))"

fun mkdirs :: "faults \<Rightarrow> string list \<Rightarrow> file_sys \<Rightarrow> file_sys" where
  "mkdirs fa [] fs = fs"
| "mkdirs fa (p # ps) fs = (case os_Mkdir fa p fs of (fs', ok) \<Rightarrow> if ok then mkdirs fa ps fs' else fs')"

definition os_MkdirAll :: "faults \<Rightarrow> string \<Rightarrow> file_sys \<Rightarrow> file_sys" where
  "os_MkdirAll fa p fs = mkdirs fa (dirs_above [] p) fs"

section \<open>Copying\<close>

text \<open>The checks of both copying functions: an error, nothing to do, or a copy to make.\<close>

datatype copy_check = CheckErr go_err | CheckSame | CheckCopy

definition check_files :: "faults \<Rightarrow> string \<Rightarrow> string \<Rightarrow> file_sys \<Rightarrow> copy_check" where
  "check_files fa src dst fs =
     (case os_Stat fa src fs of
        NotExist \<Rightarrow> CheckErr ErrNotExist
      | StatFailed e \<Rightarrow> CheckErr e
      | FileInfo i sreg \<Rightarrow>
          if \<not> sreg then CheckErr (Errorf ''CopyFile: non-regular source file'')
          else (case os_Stat fa dst fs of
                  NotExist \<Rightarrow> CheckCopy
                | StatFailed e \<Rightarrow> CheckErr e
                | FileInfo j dreg \<Rightarrow>
                    if \<not> dreg then CheckErr (Errorf ''CopyFile: non-regular destination file'')
                    else if i = j then CheckSame
                    else CheckCopy))"

definition copyFileContents :: "faults \<Rightarrow> string \<Rightarrow> string \<Rightarrow> file_sys \<Rightarrow> file_sys \<times> go_err option" where
  "copyFileContents fa src dst fs =
     (case os_Open fa src fs of
        Inl e \<Rightarrow> (fs, Some e)
      | Inr b \<Rightarrow>
          (case os_Create fa 438 dst fs of
             (fs1, Inl e) \<Rightarrow> (fs1, Some e)
           | (fs1, Inr i) \<Rightarrow>
               (case fd_Write fa dst i b fs1 of
                  (fs2, Some e) \<Rightarrow> (fs2, Some e)
                | (fs2, None) \<Rightarrow> (fs2, if fa_sync fa dst \<noteq> None then fa_sync fa dst else fa_close fa dst))))"

definition CopyFileContent :: "faults \<Rightarrow> string \<Rightarrow> string \<Rightarrow> file_sys \<Rightarrow> file_sys \<times> go_err option" where
  "CopyFileContent fa src dst fs =
     (case check_files fa src dst fs of
        CheckErr e \<Rightarrow> (fs, Some e)
      | CheckSame \<Rightarrow> (fs, None)
      | CheckCopy \<Rightarrow> copyFileContents fa src dst fs)"

definition CopyFile :: "faults \<Rightarrow> string \<Rightarrow> string \<Rightarrow> file_sys \<Rightarrow> file_sys \<times> go_err option" where
  "CopyFile fa src dst fs =
     (case check_files fa src dst fs of
        CheckErr e \<Rightarrow> (fs, Some e)
      | CheckSame \<Rightarrow> (fs, None)
      | CheckCopy \<Rightarrow>
          (case os_Link fa src dst fs of
             (fs1, None) \<Rightarrow> (fs1, None)
           | (fs1, Some _) \<Rightarrow> copyFileContents fa src dst fs1))"

section \<open>What the functions change\<close>

text \<open>Every inode a name leads to has been made.\<close>

definition fs_ok :: "file_sys \<Rightarrow> bool" where
  "fs_ok fs \<longleftrightarrow> (\<forall>q i. fs_names fs q = Some i \<longrightarrow> i < fs_next fs)"

text \<open>A path whose file has no other name.\<close>

definition alone :: "file_sys \<Rightarrow> string \<Rightarrow> bool" where
  "alone fs p \<longleftrightarrow> (\<forall>q. entry fs p \<noteq> None \<and> fs_names fs q = entry fs p \<longrightarrow> q = fs_real fs p)"

text \<open>A call that works on the path \<open>p\<close> and may read the one at \<open>src\<close> changes no other name and no inode but
  that at \<open>p\<close>; what it leaves there is the inode that was there, that of \<open>src\<close>, a new one, or none.\<close>

definition only_at :: "string \<Rightarrow> nat option \<Rightarrow> file_sys \<Rightarrow> file_sys \<Rightarrow> bool" where
  "only_at p src fs fs' \<longleftrightarrow> fs_real fs' = fs_real fs \<and> fs_next fs \<le> fs_next fs' \<and>
     (\<forall>q. q \<noteq> fs_real fs p \<longrightarrow> fs_names fs' q = fs_names fs q) \<and>
     (\<forall>i < fs_next fs. entry fs p \<noteq> Some i \<longrightarrow> fs_inodes fs' i = fs_inodes fs i) \<and>
     (entry fs' p = entry fs p \<or> entry fs' p = src \<or> entry fs' p = None \<or> (\<exists>i. entry fs' p = Some i \<and> fs_next fs \<le> i \<and> i < fs_next fs'))"

lemma only_at_refl [simp]: "only_at p src fs fs"
  by (simp add: only_at_def)

lemma entry_update [simp]:
  "entry (fs\<lparr>fs_inodes := x\<rparr>) p = entry fs p" "entry (fs\<lparr>fs_next := n\<rparr>) p = entry fs p"
  by (simp_all add: entry_def)

lemma only_at_src: "only_at p None fs fs' \<Longrightarrow> only_at p src fs fs'"
  by (auto simp: only_at_def)

lemma only_at_end:
  assumes "only_at p src fs fs'"
  obtains "entry fs' p = entry fs p" | "entry fs' p = src" | "entry fs' p = None"
    | i where "entry fs' p = Some i" "fs_next fs \<le> i" "i < fs_next fs'"
proof -
  from assms have "entry fs' p = entry fs p \<or> entry fs' p = src \<or> entry fs' p = None \<or>
    (\<exists>i. entry fs' p = Some i \<and> fs_next fs \<le> i \<and> i < fs_next fs')"
    by (simp add: only_at_def)
  with that show thesis by (elim disjE exE conjE) simp_all
qed

lemma only_at_next: "only_at p src fs fs' \<Longrightarrow> fs_next fs \<le> fs_next fs'"
  by (simp add: only_at_def)

lemma only_at_trans:
  assumes "only_at p None fs fs1" and "only_at p None fs1 fs2"
  shows "only_at p None fs fs2"
proof -
  have "fs_inodes fs2 i = fs_inodes fs i" if "i < fs_next fs" "entry fs p \<noteq> Some i" for i
    using assms that by (auto simp: only_at_def)
  moreover have "fs_names fs2 q = fs_names fs q" if "q \<noteq> fs_real fs p" for q
    using assms that by (simp add: only_at_def)
  moreover have "fs_real fs2 = fs_real fs \<and> fs_next fs \<le> fs_next fs2" using assms by (auto simp: only_at_def)
  moreover have "entry fs2 p = entry fs p \<or> entry fs2 p = None \<or> (\<exists>i. entry fs2 p = Some i \<and> fs_next fs \<le> i \<and> i < fs_next fs2)"
  proof -
    note n = only_at_next [OF assms(1)] only_at_next [OF assms(2)]
    from assms(2) show ?thesis
    proof (cases rule: only_at_end)
      case 1
      from assms(1) show ?thesis by (cases rule: only_at_end) (use 1 n in auto)
    next
      case (4 i)
      with n show ?thesis by auto
    qed simp_all
  qed
  ultimately show ?thesis by (auto simp: only_at_def)
qed

lemma fs_ok_entry: "fs_ok fs \<Longrightarrow> entry fs p = Some i \<Longrightarrow> i < fs_next fs"
  by (simp add: fs_ok_def entry_def)

lemma only_at_ok:
  assumes "only_at p src fs fs'" and "fs_ok fs" and "\<And>i. src = Some i \<Longrightarrow> i < fs_next fs"
  shows "fs_ok fs'"
proof -
  have "i < fs_next fs'" if "fs_names fs' q = Some i" for q i
  proof (cases "q = fs_real fs p")
    case True
    with that have "entry fs' p = Some i" using assms(1) by (simp add: only_at_def entry_def)
    note n = only_at_next [OF assms(1)]
    from assms(1) show ?thesis
    proof (cases rule: only_at_end)
      case 1
      with \<open>entry fs' p = Some i\<close> fs_ok_entry [OF assms(2), of p i] n show ?thesis by simp
    next
      case 2
      with \<open>entry fs' p = Some i\<close> assms(3) [of i] n show ?thesis by simp
    qed (use \<open>entry fs' p = Some i\<close> in auto)
  next
    case False
    with that assms(1) have "fs_names fs q = Some i" by (simp add: only_at_def)
    with assms(2) only_at_next [OF assms(1)] show ?thesis by (fastforce simp: fs_ok_def)
  qed
  then show ?thesis by (simp add: fs_ok_def)
qed

lemma only_at_keeps:
  assumes "only_at p src fs fs'" and "fs_ok fs" and "fs_real fs q \<noteq> fs_real fs p" and "entry fs p = None \<or> entry fs q \<noteq> entry fs p"
  shows "entry fs' q = entry fs q" and "file_of fs' q = file_of fs q"
proof -
  show e: "entry fs' q = entry fs q" using assms(1,3) by (simp add: only_at_def entry_def)
  have "fs_inodes fs' i = fs_inodes fs i" if "entry fs q = Some i" for i
    using assms fs_ok_entry [OF assms(2) that] that by (auto simp: only_at_def)
  with e show "file_of fs' q = file_of fs q" by (simp add: file_of_def file_at_def split: option.split)
qed

lemma alone_apart:
  "alone fs q \<Longrightarrow> fs_real fs q \<noteq> fs_real fs p \<Longrightarrow> entry fs p = None \<or> entry fs q \<noteq> entry fs p"
  unfolding alone_def entry_def by force

lemma only_at_alone:
  assumes "only_at p src fs fs'" and "fs_ok fs" and "alone fs q" and "fs_real fs q \<noteq> fs_real fs p"
    and "src = None \<or> src \<noteq> entry fs q"
  shows "alone fs' q"
proof -
  have e: "entry fs' q = entry fs q" "fs_real fs' = fs_real fs" using assms(1,4) by (simp_all add: only_at_def entry_def)
  have "r = fs_real fs q" if r: "fs_names fs' r = Some i" "entry fs q = Some i" for r i
  proof (cases "r = fs_real fs p")
    case True
    with r(1) have "entry fs' p = Some i" by (simp add: entry_def e(2))
    moreover have "entry fs p \<noteq> Some i" using alone_apart [OF assms(3,4)] r(2) by auto
    moreover have "i < fs_next fs" using fs_ok_entry [OF assms(2) r(2)] .
    ultimately show ?thesis using assms(1,5) r(2) by (auto simp: only_at_def)
  next
    case False
    with r assms(1) have "fs_names fs r = Some i" by (simp add: only_at_def)
    with assms(3) r(2) show ?thesis by (simp add: alone_def)
  qed
  then show ?thesis using e by (fastforce simp: alone_def)
qed

lemma new_name_only_at:
  "new_name p x fs = Some (fs', i) \<Longrightarrow> entry fs p = None \<Longrightarrow> only_at p None fs fs' \<and> entry fs' p = Some i \<and> fs_inodes fs' i = x"
  by (auto simp: new_name_def only_at_def entry_def split: option.splits if_splits)

lemma os_Create_only_at:
  assumes "os_Create fa perm p fs = (fs', r)"
  shows "only_at p None fs fs'"
proof (cases "entry fs p")
  case None
  with assms show ?thesis
    using new_name_only_at [of p "Regular [] (fa_umask fa perm)" fs] by (auto simp: os_Create_def split: option.splits)
next
  case (Some i)
  with assms show ?thesis
    by (auto simp: os_Create_def only_at_def split: option.splits inode.splits)
qed

lemma os_Create_file:
  assumes "os_Create fa perm p fs = (fs', Inr i)"
  shows "entry fs' p = Some i" and "fs_inodes fs' i = Device \<or> (\<exists>m. fs_inodes fs' i = Regular [] m)"
proof -
  have "entry fs' p = Some i \<and> (fs_inodes fs' i = Device \<or> (\<exists>m. fs_inodes fs' i = Regular [] m))"
  proof (cases "entry fs p")
    case None
    with assms show ?thesis
      using new_name_only_at [of p "Regular [] (fa_umask fa perm)" fs] by (auto simp: os_Create_def split: option.splits)
  next
    case (Some j)
    with assms show ?thesis
      by (auto simp: os_Create_def split: option.splits inode.splits)
  qed
  then show "entry fs' p = Some i" and "fs_inodes fs' i = Device \<or> (\<exists>m. fs_inodes fs' i = Regular [] m)" by blast+
qed

lemma fd_Write_only_at:
  "fd_Write fa p i b fs = (fs', e) \<Longrightarrow> entry fs p = Some i \<Longrightarrow> only_at p None fs fs' \<and> entry fs' p = Some i"
  by (auto simp: fd_Write_def only_at_def split: inode.splits)

lemma fd_Write_file:
  assumes "fd_Write fa p i b fs = (fs', e)" and "entry fs p = Some i" and "fs_inodes fs i = Regular c m"
  shows "file_of fs' p = Some (c @ room_for fa p b, m)" and "e = None \<Longrightarrow> room_for fa p b = b"
  using assms by (auto simp: fd_Write_def file_of_def file_at_def split: if_splits)

text \<open>Writing a whole file.\<close>

lemma os_WriteFile_only_at:
  assumes "os_WriteFile fa p b fs = (fs', e)"
  shows "only_at p None fs fs'"
proof -
  obtain fs1 r where c: "os_Create fa 420 p fs = (fs1, r)" by fastforce
  note c1 = os_Create_only_at [OF c]
  show ?thesis
  proof (cases r)
    case (Inl a)
    with assms c c1 show ?thesis by (simp add: os_WriteFile_def)
  next
    case (Inr i)
    obtain fs2 e2 where w: "fd_Write fa p i b fs1 = (fs2, e2)" by fastforce
    have "fs' = fs2" using assms c Inr w by (auto simp: os_WriteFile_def split: option.splits)
    moreover have "only_at p None fs1 fs2" using fd_Write_only_at [OF w] os_Create_file(1) c Inr by blast
    ultimately show ?thesis using only_at_trans [OF c1] by simp
  qed
qed

text \<open>No device is at the path.\<close>

definition no_device :: "file_sys \<Rightarrow> string \<Rightarrow> bool" where
  "no_device fs p \<longleftrightarrow> (\<forall>i. entry fs p = Some i \<longrightarrow> fs_inodes fs i \<noteq> Device)"

lemma os_Create_regular:
  assumes "os_Create fa perm p fs = (fs', Inr i)" and "no_device fs p"
  shows "\<exists>m. fs_inodes fs' i = Regular [] m"
proof (cases "entry fs p")
  case None
  with assms(1) show ?thesis
    using new_name_only_at [of p "Regular [] (fa_umask fa perm)" fs] by (auto simp: os_Create_def split: option.splits)
next
  case (Some j)
  with assms show ?thesis
    by (auto simp: os_Create_def no_device_def split: option.splits inode.splits)
qed

lemma os_WriteFile_contents:
  assumes "os_WriteFile fa p b fs = (fs', None)" and "no_device fs p"
  shows "contents fs' p = Some b"
proof -
  from assms(1) obtain fs1 i fs2 where c: "os_Create fa 420 p fs = (fs1, Inr i)" and w: "fd_Write fa p i b fs1 = (fs2, None)"
    and f: "fs' = fs2"
    by (auto simp: os_WriteFile_def split: prod.splits sum.splits option.splits)
  obtain m where m: "fs_inodes fs1 i = Regular [] m" using os_Create_regular [OF c assms(2)] by blast
  from fd_Write_file [OF w os_Create_file(1) [OF c] m] f show ?thesis by (simp add: contents_def)
qed

section \<open>What a copy leaves\<close>

lemma check_files_copy:
  assumes "check_files fa src dst fs = CheckCopy"
  obtains i b m where "entry fs src = Some i" "fs_inodes fs i = Regular b m" "entry fs dst \<noteq> Some i" "no_device fs dst"
    "fs_real fs src \<noteq> fs_real fs dst"
proof -
  from assms obtain i b m where i: "entry fs src = Some i" "fs_inodes fs i = Regular b m"
    "entry fs dst = None \<or> (\<exists>j c k. entry fs dst = Some j \<and> j \<noteq> i \<and> fs_inodes fs j = Regular c k)"
    by (auto simp: check_files_def os_Stat_def split: option.splits if_splits inode.splits)
  then have "entry fs dst \<noteq> Some i" "no_device fs dst" by (auto simp: no_device_def)
  moreover have "fs_real fs src \<noteq> fs_real fs dst" using i(1) \<open>entry fs dst \<noteq> Some i\<close> by (auto simp: entry_def)
  ultimately show thesis using that i(1,2) by blast
qed

lemma copyFileContents_only_at:
  assumes "copyFileContents fa src dst fs = (fs', e)"
  shows "only_at dst None fs fs'"
proof (cases "os_Open fa src fs")
  case (Inl a)
  with assms show ?thesis by (simp add: copyFileContents_def)
next
  case (Inr b)
  obtain fs1 r where c: "os_Create fa 438 dst fs = (fs1, r)" by fastforce
  note c1 = os_Create_only_at [OF c]
  show ?thesis
  proof (cases r)
    case (Inl a)
    with assms c c1 \<open>os_Open fa src fs = Inr b\<close> show ?thesis by (simp add: copyFileContents_def)
  next
    case (Inr i)
    obtain fs2 e2 where w: "fd_Write fa dst i b fs1 = (fs2, e2)" by fastforce
    have "fs' = fs2" using assms c Inr w \<open>os_Open fa src fs = Inr b\<close>
      by (auto simp: copyFileContents_def split: option.splits)
    moreover have "only_at dst None fs1 fs2" using fd_Write_only_at [OF w] os_Create_file(1) c Inr by blast
    ultimately show ?thesis using only_at_trans [OF c1] by simp
  qed
qed

lemma copyFileContents_ok:
  assumes "copyFileContents fa src dst fs = (fs', None)" and "no_device fs dst" and "contents fs src = Some b"
  shows "contents fs' dst = Some b"
proof -
  from assms(1,3) obtain fs1 i fs2 where c: "os_Create fa 438 dst fs = (fs1, Inr i)" and w: "fd_Write fa dst i b fs1 = (fs2, None)"
    and f: "fs' = fs2"
    by (auto simp: copyFileContents_def os_Open_def split: prod.splits sum.splits option.splits if_splits)
  obtain m where m: "fs_inodes fs1 i = Regular [] m" using os_Create_regular [OF c assms(2)] by blast
  from fd_Write_file [OF w os_Create_file(1) [OF c] m] f show ?thesis by (simp add: contents_def)
qed

lemma os_Link_cases:
  assumes "os_Link fa src dst fs = (fs', e)"
  obtains "fs' = fs" "e \<noteq> None"
    | i where "e = None" "entry fs src = Some i" "entry fs dst = None" "fs' = fs\<lparr>fs_names := (fs_names fs)(fs_real fs dst \<mapsto> i)\<rparr>"
proof -
  from assms have "fs' = fs \<and> e \<noteq> None \<or> (e = None \<and> (\<exists>i. entry fs src = Some i \<and> entry fs dst = None \<and>
      fs' = fs\<lparr>fs_names := (fs_names fs)(fs_real fs dst \<mapsto> i)\<rparr>))"
    by (auto simp: os_Link_def split: option.splits if_splits)
  with that show thesis by (elim disjE exE conjE) simp_all
qed

lemma os_Link_only_at:
  assumes "os_Link fa src dst fs = (fs', e)"
  shows "only_at dst (entry fs src) fs fs'"
  using assms by (cases rule: os_Link_cases) (auto simp: only_at_def entry_def)

text \<open>Both copying functions change nothing but the destination, whatever happens.\<close>

lemma CopyFile_only_at:
  assumes "CopyFile fa src dst fs = (fs', e)"
  shows "only_at dst (entry fs src) fs fs'"
proof (cases "check_files fa src dst fs = CheckCopy")
  case True
  obtain fs1 e1 where l: "os_Link fa src dst fs = (fs1, e1)" by fastforce
  show ?thesis
  proof (cases e1)
    case None
    with assms True l os_Link_only_at [OF l] show ?thesis by (simp add: CopyFile_def)
  next
    case (Some x)
    with l have "fs1 = fs" by (cases rule: os_Link_cases) auto
    with assms True l Some have "copyFileContents fa src dst fs = (fs', e)" by (simp add: CopyFile_def)
    then show ?thesis by (rule only_at_src [OF copyFileContents_only_at])
  qed
next
  case False
  with assms show ?thesis by (auto simp: CopyFile_def split: copy_check.splits)
qed

lemma CopyFileContent_only_at:
  assumes "CopyFileContent fa src dst fs = (fs', e)"
  shows "only_at dst (entry fs src) fs fs'"
proof (cases "check_files fa src dst fs = CheckCopy")
  case True
  with assms have "copyFileContents fa src dst fs = (fs', e)" by (simp add: CopyFileContent_def)
  then show ?thesis by (rule only_at_src [OF copyFileContents_only_at])
next
  case False
  with assms show ?thesis by (auto simp: CopyFileContent_def split: copy_check.splits)
qed

text \<open>The interface of a copying function: after the checks, which it begins with, it works on the destination and
  copies the contents. Then the source keeps its contents whatever happens, and after a success the destination
  has them.\<close>

locale file_copier =
  fixes copy :: "faults \<Rightarrow> string \<Rightarrow> string \<Rightarrow> file_sys \<Rightarrow> file_sys \<times> go_err option"
  assumes touches: "copy fa src dst fs = (fs', e) \<Longrightarrow> only_at dst (entry fs src) fs fs'"
    and refuses: "check_files fa src dst fs = CheckErr x \<Longrightarrow> copy fa src dst fs = (fs, Some x)"
    and same: "check_files fa src dst fs = CheckSame \<Longrightarrow> copy fa src dst fs = (fs, None)"
    and copies: "check_files fa src dst fs = CheckCopy \<Longrightarrow> copy fa src dst fs = (fs', None) \<Longrightarrow> contents fs src = Some b \<Longrightarrow>
      contents fs' dst = Some b"
begin

lemma source_kept:
  assumes "copy fa src dst fs = (fs', e)" and "fs_ok fs"
  shows "file_of fs' src = file_of fs src"
proof (cases "check_files fa src dst fs")
  case CheckCopy
  from check_files_copy [OF this] obtain i where "entry fs src = Some i" "entry fs dst \<noteq> Some i" "fs_real fs src \<noteq> fs_real fs dst"
    by metis
  then show ?thesis by (intro only_at_keeps(2) [OF touches [OF assms(1)] assms(2)]) auto
qed (use assms(1) refuses same in auto)

lemma copied:
  assumes "copy fa src dst fs = (fs', None)"
  shows "\<exists>b. contents fs src = Some b \<and> contents fs' dst = Some b"
proof (cases "check_files fa src dst fs")
  case (CheckErr e)
  with assms refuses show ?thesis by auto
next
  case CheckSame
  then have "\<exists>i b m. entry fs src = Some i \<and> entry fs dst = Some i \<and> fs_inodes fs i = Regular b m"
    by (auto simp: check_files_def os_Stat_def split: option.splits if_splits inode.splits)
  moreover have "fs' = fs" using assms same [OF CheckSame] by simp
  ultimately show ?thesis by (auto simp: contents_def file_of_def file_at_def)
next
  case CheckCopy
  from check_files_copy [OF this] obtain i b m where "entry fs src = Some i" "fs_inodes fs i = Regular b m" by metis
  then have b: "contents fs src = Some b" by (simp add: contents_def file_of_def file_at_def)
  from copies [OF CheckCopy assms b] b show ?thesis by simp
qed

end

lemma CopyFileContent_copies:
  assumes "check_files fa src dst fs = CheckCopy" and "CopyFileContent fa src dst fs = (fs', None)" and "contents fs src = Some b"
  shows "contents fs' dst = Some b"
proof -
  have "copyFileContents fa src dst fs = (fs', None)" using assms(1,2) by (simp add: CopyFileContent_def)
  moreover have "no_device fs dst" using check_files_copy [OF assms(1)] by metis
  ultimately show ?thesis using copyFileContents_ok assms(3) by blast
qed

lemma CopyFile_copies:
  assumes "check_files fa src dst fs = CheckCopy" and "CopyFile fa src dst fs = (fs', None)" and "contents fs src = Some b"
  shows "contents fs' dst = Some b"
proof -
  obtain fs1 e1 where l: "os_Link fa src dst fs = (fs1, e1)" by fastforce
  show ?thesis
  proof (cases e1)
    case None
    with assms(1,2) l have f: "fs' = fs1" by (simp add: CopyFile_def)
    from l show ?thesis
    proof (cases rule: os_Link_cases)
      case (2 j)
      with assms(3) f show ?thesis by (simp add: contents_def file_of_def file_at_def entry_def)
    qed (use None in simp)
  next
    case (Some x)
    with l have "fs1 = fs" by (cases rule: os_Link_cases) auto
    with assms(1,2) l Some have "copyFileContents fa src dst fs = (fs', None)" by (simp add: CopyFile_def)
    moreover have "no_device fs dst" using check_files_copy [OF assms(1)] by metis
    ultimately show ?thesis using copyFileContents_ok assms(3) by blast
  qed
qed

interpretation linking: file_copier CopyFile
  by unfold_locales (simp_all add: CopyFile_only_at CopyFile_copies, simp_all add: CopyFile_def)

interpretation copying: file_copier CopyFileContent
  by unfold_locales (simp_all add: CopyFileContent_only_at CopyFileContent_copies, simp_all add: CopyFileContent_def)

end
