(* ===== verification/Commands.thy ===== *)
theory Commands
  imports Install Files
begin

text \<open>
  The commands that change the files of the host: the rest of the installer (\<open>cmd/install.go\<close>) and the update
  command (\<open>cmd/update.go\<close>), on the file system of \<open>Files\<close>. Both replace a binary in the same way. A
  command ends by \<open>log.Fatal\<close>, by leaving early, or by its last line.
\<close>

datatype cmd_end = CmdFatal go_err | CmdExit | CmdDone string

section \<open>Replacing the binary\<close>

text \<open>The target is removed if it exists, then copied; the errors of removing and of \<open>Chmod\<close> are dropped.\<close>

definition remove_old :: "faults \<Rightarrow> string \<Rightarrow> file_sys \<Rightarrow> file_sys" where
  "remove_old fa p fs = (case os_Stat fa p fs of FileInfo i r \<Rightarrow> fst (os_Remove fa p fs) | _ \<Rightarrow> fs)"

definition replace_binary :: "faults \<Rightarrow> string \<Rightarrow> string \<Rightarrow> file_sys \<Rightarrow> file_sys \<times> go_err option" where
  "replace_binary fa src dst fs =
     (case CopyFile fa src dst (remove_old fa dst fs) of
        (fs1, Some e) \<Rightarrow> (fs1, Some (Wrapped ''failed to copy binary'' e))
      | (fs1, None) \<Rightarrow> (fst (os_Chmod fa dst 493 fs1), None))"

section \<open>The installer\<close>

text \<open>The service file is written only if it differs.\<close>

definition write_service :: "(string \<Rightarrow> bool \<Rightarrow> string list \<Rightarrow> go_err + bytes) \<Rightarrow> faults \<Rightarrow> string \<Rightarrow> string \<Rightarrow> bool \<Rightarrow>
    string list \<Rightarrow> file_sys \<Rightarrow> file_sys \<times> go_err option" where
  "write_service render fa serviceFilePath binPath forUser args fs =
     (case render binPath forUser args of
        Inl e \<Rightarrow> (fs, Some e)
      | Inr b \<Rightarrow> if os_Open fa serviceFilePath fs \<noteq> Inr b then os_WriteFile fa serviceFilePath b fs else (fs, None))"

definition writeFiles :: "(Params \<Rightarrow> go_err + bytes) \<Rightarrow> (string \<Rightarrow> bool \<Rightarrow> string list \<Rightarrow> go_err + bytes) \<Rightarrow> faults \<Rightarrow>
    string \<Rightarrow> Params option \<Rightarrow> string \<Rightarrow> string \<Rightarrow> bool \<Rightarrow> file_sys \<Rightarrow> file_sys \<times> go_err option" where
  "writeFiles json render fa configFilePath params serviceFilePath binPath forUser fs =
     (case params of
        None \<Rightarrow> write_service render fa serviceFilePath binPath forUser [] fs
      | Some p \<Rightarrow>
          (case json p of
             Inl e \<Rightarrow> (fs, Some e)
           | Inr b \<Rightarrow>
               (case os_WriteFile fa configFilePath b fs of
                  (fs1, Some e) \<Rightarrow> (fs1, Some e)
                | (fs1, None) \<Rightarrow>
                    write_service render fa serviceFilePath binPath forUser [''--config='' @ configFilePath] fs1)))"

definition stat_of :: "file_info \<Rightarrow> file_stat" where
  "stat_of i = (case i of NotExist \<Rightarrow> StatMissing | StatFailed e \<Rightarrow> StatError e | FileInfo j r \<Rightarrow> StatFound)"

text \<open>What \<open>Install\<close> learns from the host and the user: \<open>user.Current\<close>, \<open>os.Executable\<close>, the answers, the
  encoding of the parameters and the template of the service.\<close>

record install_world =
  iw_home :: "go_err + string"
  iw_executable :: "go_err + string"
  iw_answers :: answers
  iw_json :: "Params \<Rightarrow> go_err + bytes"
  iw_render :: "string \<Rightarrow> bool \<Rightarrow> string list \<Rightarrow> go_err + bytes"

definition make_dirs :: "faults \<Rightarrow> bool \<Rightarrow> string \<times> string \<times> string \<Rightarrow> file_sys \<Rightarrow> file_sys" where
  "make_dirs fa genConfig paths fs =
     (case paths of (cfg, bin, svc) \<Rightarrow>
        os_MkdirAll fa (path_Dir svc) (os_MkdirAll fa (path_Dir bin) (if genConfig then os_MkdirAll fa (path_Dir cfg) fs else fs)))"

text \<open>The parameters to write: an early end, or none without \<open>genConfig\<close>.\<close>

definition install_params :: "faults \<Rightarrow> install_world \<Rightarrow> bool \<Rightarrow> string \<Rightarrow> file_sys \<Rightarrow> cmd_end + Params option" where
  "install_params fa w genConfig cfg fs =
     (if \<not> genConfig then Inr None
      else (case getParams ((iw_answers w)\<lparr>an_stat := stat_of (os_Stat fa cfg fs)\<rparr>) of
              Inl e \<Rightarrow> Inl (CmdFatal e)
            | Inr None \<Rightarrow> Inl CmdExit
            | Inr (Some p) \<Rightarrow> Inr (Some p)))"

definition Install :: "faults \<Rightarrow> install_world \<Rightarrow> bool \<Rightarrow> bool \<Rightarrow> file_sys \<Rightarrow> file_sys \<times> cmd_end" where
  "Install fa w forUser genConfig fs =
     (case iw_home w of
        Inl e \<Rightarrow> (fs, CmdFatal e)
      | Inr home \<Rightarrow>
          (let (cfg, bin, svc) = targetPaths forUser home;
               fs1 = make_dirs fa genConfig (cfg, bin, svc) fs
           in case install_params fa w genConfig cfg fs1 of
                Inl r \<Rightarrow> (fs1, r)
              | Inr params \<Rightarrow>
                  (case iw_executable w of
                     Inl e \<Rightarrow> (fs1, CmdFatal (Wrapped ''failed to copy binary'' e))
                   | Inr ex \<Rightarrow>
                       (case (if ex = bin then (fs1, None) else replace_binary fa ex bin fs1) of
                          (fs2, Some e) \<Rightarrow> (fs2, CmdFatal e)
                        | (fs2, None) \<Rightarrow>
                            (case writeFiles (iw_json w) (iw_render w) fa cfg params svc bin forUser fs2 of
                               (fs3, Some e) \<Rightarrow> (fs3, CmdFatal e)
                             | (fs3, None) \<Rightarrow>
                                 (fs3, CmdDone (''Run: systemctl enable '' @
                                    strings_Join '' '' ([''--now''] @ (if forUser then [''--user''] else [])) @ '' BitterJohn.service'')))))))"

section \<open>The update command\<close>

definition update_arch :: "string \<Rightarrow> string option" where
  "update_arch arch =
     (if arch = ''arm'' \<or> arch = ''arm64'' then Some arch
      else if arch = ''amd64'' then Some ''x64''
      else if arch = ''386'' then Some ''x86''
      else None)"

text \<open>A new empty file in the directory of temporary files; its name is one that is free.\<close>

definition os_CreateTemp :: "faults \<Rightarrow> string \<Rightarrow> file_sys \<Rightarrow> (file_sys \<times> nat) option" where
  "os_CreateTemp fa p fs = (if fa_create fa p \<noteq> None \<or> entry fs p \<noteq> None then None else new_name p (Regular [] (fa_umask fa 384)) fs)"

definition update_url :: "string \<Rightarrow> string" where
  "update_url arch =
     ''https://github.com/e14914c0-6759-480d-be89-66b7b7676451/BitterJohn/releases/latest/download/BitterJohn_linux_'' @ arch"

text \<open>An answer has its status, what arrives of its body, and the error its body ends with, if it does.\<close>

record update_world =
  uw_arch :: string
  uw_executable :: "go_err + string"
  uw_temp :: string
  uw_get :: "string \<Rightarrow> go_err + nat \<times> bytes \<times> go_err option"

definition Update :: "faults \<Rightarrow> update_world \<Rightarrow> file_sys \<Rightarrow> file_sys \<times> cmd_end" where
  "Update fa w fs =
     (case update_arch (uw_arch w) of
        None \<Rightarrow> (fs, CmdFatal (Errorf (''Unsupported CPU architecture: '' @ uw_arch w)))
      | Some arch \<Rightarrow>
          (case uw_executable w of
             Inl e \<Rightarrow> (fs, CmdFatal (Wrapped ''Failed to get the path of current binary'' e))
           | Inr currentBinaryPath \<Rightarrow>
               (case os_CreateTemp fa (uw_temp w) fs of
                  None \<Rightarrow> (fs, CmdFatal (Errorf ''Cannot create a temp file''))
                | Some (fs1, f) \<Rightarrow>
                    (case uw_get w (update_url arch) of
                       Inl e \<Rightarrow> (fs1, CmdFatal (Wrapped ''Failed to download the latest binary'' e))
                     | Inr (status, body, bodyErr) \<Rightarrow>
                         if status \<noteq> 200 then (fs1, CmdFatal (Wrapped ''Failed to download the latest binary'' (Errorf ''bad status'')))
                         else (case replace_binary fa (uw_temp w) currentBinaryPath (fst (fd_Write fa (uw_temp w) f body fs1)) of
                                 (fs2, Some e) \<Rightarrow> (fs2, CmdFatal e)
                               | (fs2, None) \<Rightarrow> (fs2, CmdDone ''If you use systemd, run: systemctl restart BitterJohn.service''))))))"

section \<open>What replacing the binary leaves\<close>

lemma os_Remove_only_at: "os_Remove fa p fs = (fs', e) \<Longrightarrow> only_at p None fs fs'"
  by (auto simp: os_Remove_def only_at_def entry_def split: option.splits)

lemma remove_old_only_at: "only_at p None fs (remove_old fa p fs)"
  using os_Remove_only_at [of fa p fs "fst (os_Remove fa p fs)" "snd (os_Remove fa p fs)"]
  by (auto simp: remove_old_def split: file_info.split)

lemma os_Chmod_only_at: "os_Chmod fa p m fs = (fs', e) \<Longrightarrow> only_at p None fs fs'"
  by (auto simp: os_Chmod_def only_at_def split: option.splits inode.splits)

lemma os_Chmod_contents: "os_Chmod fa p m fs = (fs', e) \<Longrightarrow> contents fs' q = contents fs q"
  by (auto simp: os_Chmod_def contents_def file_of_def file_at_def split: option.splits inode.splits if_splits)

text \<open>Another file, that has no second name, stays as it is.\<close>

definition kept :: "string \<Rightarrow> file_sys \<Rightarrow> file_sys \<Rightarrow> bool" where
  "kept q fs fs' \<longleftrightarrow> alone fs' q \<and> entry fs' q = entry fs q \<and> (\<forall>i. entry fs q = Some i \<longrightarrow> fs_inodes fs' i = fs_inodes fs i) \<and>
     fs_real fs' = fs_real fs"

lemma kept_alone: "kept q fs fs' \<Longrightarrow> alone fs' q"
  and kept_real: "kept q fs fs' \<Longrightarrow> fs_real fs' = fs_real fs"
  and kept_device: "kept q fs fs' \<Longrightarrow> no_device fs' q = no_device fs q"
  and kept_contents: "kept q fs fs' \<Longrightarrow> contents fs' q = contents fs q"
  by (auto simp: kept_def no_device_def contents_def file_of_def file_at_def split: option.split)

lemma kept_trans: "kept q fs fs1 \<Longrightarrow> kept q fs1 fs2 \<Longrightarrow> kept q fs fs2"
  by (auto simp: kept_def)

lemma kept_refl: "alone fs q \<Longrightarrow> kept q fs fs"
  by (simp add: kept_def)

lemma only_at_kept:
  assumes "only_at p src fs fs'" and "fs_ok fs" and "alone fs q" and "fs_real fs q \<noteq> fs_real fs p"
    and "src = None \<or> (src = entry fs r \<and> fs_real fs q \<noteq> fs_real fs r)"
  shows "fs_ok fs' \<and> kept q fs fs'"
proof -
  have s: "src = None \<or> src \<noteq> entry fs q" using alone_apart [OF assms(3), of r] assms(5) by auto
  note ap = alone_apart [OF assms(3,4)]
  have "fs_ok fs'" by (rule only_at_ok [OF assms(1,2)]) (use assms(2,5) fs_ok_entry in auto)
  moreover have "fs_inodes fs' i = fs_inodes fs i" if "entry fs q = Some i" for i
    using assms(1) fs_ok_entry [OF assms(2) that] ap that by (auto simp: only_at_def)
  moreover have "fs_real fs' = fs_real fs" using assms(1) by (simp add: only_at_def)
  ultimately show ?thesis
    using only_at_alone [OF assms(1-4) s] only_at_keeps(1) [OF assms(1,2,4) ap] by (simp add: kept_def)
qed

lemma remove_old_contents:
  "fs_real fs src \<noteq> fs_real fs dst \<Longrightarrow> contents (remove_old fa dst fs) src = contents fs src"
  by (auto simp: remove_old_def os_Remove_def contents_def file_of_def file_at_def entry_def split: file_info.split option.split)

lemma replace_binary_kept:
  assumes "replace_binary fa src dst fs = (fs', e)" and "fs_ok fs" and "alone fs q" and "fs_real fs q \<noteq> fs_real fs dst"
    and "fs_real fs q \<noteq> fs_real fs src"
  shows "fs_ok fs' \<and> kept q fs fs'"
proof -
  let ?fs1 = "remove_old fa dst fs"
  obtain fs2 e2 where c: "CopyFile fa src dst ?fs1 = (fs2, e2)" by fastforce
  have r: "only_at dst None fs ?fs1" by (rule remove_old_only_at)
  from only_at_kept [OF r assms(2-4), of q] have 1: "fs_ok ?fs1" "kept q fs ?fs1" by simp_all
  with only_at_kept [OF CopyFile_only_at [OF c], of q src] assms(4,5) have 2: "fs_ok fs2" "kept q fs fs2"
    by (auto simp: kept_real kept_alone intro: kept_trans)
  show ?thesis
  proof (cases e2)
    case None
    obtain fs3 e3 where m: "os_Chmod fa dst 493 fs2 = (fs3, e3)" by fastforce
    with assms(1) c None have "fs' = fs3" by (simp add: replace_binary_def)
    with only_at_kept [OF os_Chmod_only_at [OF m], of q q] 2 assms(4) show ?thesis
      by (auto simp: kept_real kept_alone intro: kept_trans)
  next
    case (Some x)
    with assms(1) c 2 show ?thesis by (simp add: replace_binary_def)
  qed
qed

lemma remove_old_ok: "fs_ok fs \<Longrightarrow> fs_ok (remove_old fa p fs)"
  by (rule only_at_ok [OF remove_old_only_at]) simp_all

text \<open>After a success the target has what the source had.\<close>

lemma replace_binary_ok:
  assumes "replace_binary fa src dst fs = (fs', None)" and "fs_ok fs"
  shows "\<exists>b. contents fs src = Some b \<and> contents fs' dst = Some b"
proof -
  let ?fs1 = "remove_old fa dst fs"
  from assms(1) obtain fs2 where c: "CopyFile fa src dst ?fs1 = (fs2, None)" and f: "fs' = fst (os_Chmod fa dst 493 fs2)"
    by (auto simp: replace_binary_def split: prod.splits option.splits)
  from linking.copied [OF c] obtain b where b: "contents ?fs1 src = Some b" "contents fs2 dst = Some b"
    by blast
  have "contents fs src = Some b"
  proof (cases "fs_real fs src = fs_real fs dst")
    case True
    with b(1) have "?fs1 = fs"
      by (auto simp: remove_old_def os_Remove_def contents_def file_of_def file_at_def entry_def split: file_info.splits option.splits)
    with b show ?thesis by simp
  next
    case False
    with b show ?thesis by (simp add: remove_old_contents)
  qed
  moreover have "contents fs' dst = Some b"
    using os_Chmod_contents [of fa dst 493 fs2 fs' "snd (os_Chmod fa dst 493 fs2)" dst] b(2) by (simp add: f)
  ultimately show ?thesis by blast
qed

text \<open>After a failure the target is not what it was, if removing it worked: it is gone, or a new file that may have
  only a part of the source.\<close>

lemma remove_old_gone:
  assumes "fa_stat fa dst = None" and "fa_remove fa dst = None"
  shows "entry (remove_old fa dst fs) dst = None" and "fs_next (remove_old fa dst fs) = fs_next fs"
  using assms by (auto simp: remove_old_def os_Stat_def os_Remove_def entry_def split: option.splits)

lemma replace_binary_fails:
  assumes "replace_binary fa src dst fs = (fs', Some e)" and "fs_ok fs" and "fa_stat fa dst = None" and "fa_remove fa dst = None"
    and "entry fs dst = Some i"
  shows "entry fs' dst \<noteq> Some i"
proof -
  let ?fs1 = "remove_old fa dst fs"
  from assms(1) obtain x where c: "CopyFile fa src dst ?fs1 = (fs', Some x)"
    by (auto simp: replace_binary_def split: prod.splits option.splits)
  have n: "fs_next ?fs1 = fs_next fs" "entry ?fs1 dst = None" using remove_old_gone [OF assms(3,4)] by simp_all
  show ?thesis
  proof (cases "check_files fa src dst ?fs1 = CheckCopy")
    case True
    obtain fs2 e2 where l: "os_Link fa src dst ?fs1 = (fs2, e2)" by fastforce
    have "e2 \<noteq> None" using c True l by (auto simp: CopyFile_def split: option.splits)
    with l have "fs2 = ?fs1" by (cases rule: os_Link_cases) auto
    with c True l \<open>e2 \<noteq> None\<close> have "copyFileContents fa src dst ?fs1 = (fs', Some x)" by (auto simp: CopyFile_def)
    from copyFileContents_only_at [OF this] show ?thesis
      by (cases rule: only_at_end) (use n fs_ok_entry [OF assms(2,5)] in auto)
  next
    case False
    with c have "fs' = ?fs1" by (auto simp: CopyFile_def split: copy_check.splits)
    with n show ?thesis by simp
  qed
qed

text \<open>If the source is the target under another path, it is deleted.\<close>

lemma replace_binary_self:
  assumes "fs_real fs src = fs_real fs dst" and "fa_stat fa dst = None" and "fa_remove fa dst = None"
  shows "\<exists>fs' e. replace_binary fa src dst fs = (fs', Some e) \<and> entry fs' src = None"
proof -
  let ?fs1 = "remove_old fa dst fs"
  have "fs_real ?fs1 = fs_real fs" using remove_old_only_at [of dst fs fa] by (simp add: only_at_def)
  then have "entry ?fs1 src = None" using remove_old_gone [OF assms(2,3), of fs] assms(1) by (simp add: entry_def)
  moreover from this have "\<exists>e. check_files fa src dst ?fs1 = CheckErr e"
    by (auto simp: check_files_def os_Stat_def split: option.splits)
  ultimately show ?thesis by (auto simp: replace_binary_def CopyFile_def)
qed

section \<open>What the installer leaves\<close>

lemma os_Mkdir_kept:
  assumes "os_Mkdir fa p fs = (fs', ok)" and "fs_ok fs"
  shows "fs_ok fs' \<and> fs_real fs' = fs_real fs \<and> contents fs' q = contents fs q \<and>
    (alone fs q \<longrightarrow> alone fs' q) \<and> (no_device fs q \<longrightarrow> no_device fs' q)"
proof (cases "fs' = fs")
  case False
  with assms(1) obtain i where n: "entry fs p = None" "new_name p Directory fs = Some (fs', i)"
    by (auto simp: os_Mkdir_def split: option.splits if_splits)
  note o = new_name_only_at [OF n(2,1)]
  then have "fs_ok fs'" by (intro only_at_ok [OF _ assms(2)]) auto
  have real: "fs_real fs' = fs_real fs" using o by (simp add: only_at_def)
  show ?thesis
  proof (cases "fs_real fs q = fs_real fs p")
    case True
    then have q: "entry fs' q = Some i" "entry fs q = None" using o n(1) real by (simp_all add: entry_def)
    moreover have "r = fs_real fs q" if "fs_names fs' r = Some i" for r
      using n(2) that assms(2) True by (fastforce simp: new_name_def fs_ok_def split: option.splits if_splits)
    then have "alone fs' q" using q(1) real by (simp add: alone_def)
    ultimately show ?thesis using o \<open>fs_ok fs'\<close> real by (simp add: contents_def file_of_def file_at_def no_device_def)
  next
    case False
    from o only_at_keeps [of p None fs fs' q] assms(2) False n(1) have e: "entry fs' q = entry fs q" "file_of fs' q = file_of fs q"
      by simp_all
    moreover have "alone fs q \<longrightarrow> alone fs' q" using o only_at_alone [of p None fs fs' q] assms(2) False by blast
    moreover have "fs_inodes fs' j = fs_inodes fs j" if "entry fs q = Some j" for j
      using o fs_ok_entry [OF assms(2) that] n(1) by (simp add: only_at_def)
    ultimately show ?thesis using \<open>fs_ok fs'\<close> real by (simp add: contents_def no_device_def)
  qed
qed (use assms in simp)

lemma mkdirs_kept:
  "fs_ok fs \<Longrightarrow> fs_ok (mkdirs fa ps fs) \<and> fs_real (mkdirs fa ps fs) = fs_real fs \<and> contents (mkdirs fa ps fs) q = contents fs q \<and>
    (alone fs q \<longrightarrow> alone (mkdirs fa ps fs) q) \<and> (no_device fs q \<longrightarrow> no_device (mkdirs fa ps fs) q)"
proof (induction ps arbitrary: fs)
  case (Cons p ps)
  obtain fs1 ok where m: "os_Mkdir fa p fs = (fs1, ok)" by fastforce
  from os_Mkdir_kept [OF m Cons.prems, of q] Cons.IH [of fs1] m show ?case by simp
qed simp

lemma make_dirs_kept:
  assumes "fs_ok fs"
  shows "fs_ok (make_dirs fa g ps fs) \<and> fs_real (make_dirs fa g ps fs) = fs_real fs \<and>
    contents (make_dirs fa g ps fs) q = contents fs q \<and>
    (alone fs q \<longrightarrow> alone (make_dirs fa g ps fs) q) \<and> (no_device fs q \<longrightarrow> no_device (make_dirs fa g ps fs) q)"
  using assms by (simp add: make_dirs_def os_MkdirAll_def mkdirs_kept split: prod.split)

lemma os_WriteFile_kept:
  assumes "os_WriteFile fa p b fs = (fs', e)" and "fs_ok fs" and "alone fs p" and "fs_real fs q \<noteq> fs_real fs p"
  shows "fs_ok fs' \<and> contents fs' q = contents fs q \<and> fs_real fs' = fs_real fs \<and> (alone fs q \<longrightarrow> kept q fs fs')"
proof -
  note o = os_WriteFile_only_at [OF assms(1)]
  from alone_apart [OF assms(3), of q] assms(4) have "entry fs p = None \<or> entry fs q \<noteq> entry fs p" by auto
  from only_at_keeps(2) [OF o assms(2,4) this] have "contents fs' q = contents fs q" by (simp add: contents_def)
  moreover have "fs_ok fs'" by (rule only_at_ok [OF o assms(2)]) simp
  moreover have "fs_real fs' = fs_real fs" using o by (simp add: only_at_def)
  moreover have "kept q fs fs'" if "alone fs q" using only_at_kept [OF o assms(2) that assms(4), of q] by simp
  ultimately show ?thesis by blast
qed

lemma write_service_ok:
  assumes "write_service render fa svc bin u args fs = (fs', None)" and "no_device fs svc"
  shows "\<exists>b. render bin u args = Inr b \<and> contents fs' svc = Some b"
proof -
  from assms(1) obtain b where b: "render bin u args = Inr b" by (auto simp: write_service_def split: sum.splits)
  show ?thesis
  proof (cases "os_Open fa svc fs = Inr b")
    case True
    then have "contents fs svc = Some b" by (simp add: os_Open_def split: option.splits)
    with True assms(1) b show ?thesis by (simp add: write_service_def)
  next
    case False
    with assms(1) b have "os_WriteFile fa svc b fs = (fs', None)" by (simp add: write_service_def)
    from os_WriteFile_contents [OF this assms(2)] b show ?thesis by simp
  qed
qed

lemma write_service_kept:
  assumes "write_service render fa svc bin u args fs = (fs', e)" and "fs_ok fs" and "alone fs svc" and "fs_real fs q \<noteq> fs_real fs svc"
  shows "contents fs' q = contents fs q"
proof (cases "fs' = fs")
  case False
  with assms(1) obtain b where "os_WriteFile fa svc b fs = (fs', e)"
    by (auto simp: write_service_def split: sum.splits if_splits)
  with os_WriteFile_kept assms(2-4) show ?thesis by blast
qed simp

text \<open>The configuration and the service file are names of their own, and files, not devices.\<close>

definition separate :: "file_sys \<Rightarrow> string \<Rightarrow> string \<Rightarrow> string \<Rightarrow> string \<Rightarrow> bool" where
  "separate fs cfg bin svc ex \<longleftrightarrow> alone fs cfg \<and> alone fs svc \<and> no_device fs cfg \<and> no_device fs svc \<and>
     fs_real fs cfg \<noteq> fs_real fs svc \<and> fs_real fs cfg \<noteq> fs_real fs bin \<and> fs_real fs cfg \<noteq> fs_real fs ex \<and>
     fs_real fs svc \<noteq> fs_real fs bin \<and> fs_real fs svc \<noteq> fs_real fs ex"

lemma writeFiles_leaves:
  assumes "writeFiles json render fa cfg params svc bin u fs = (fs', None)" and "fs_ok fs" and "separate fs cfg bin svc ex"
  shows "contents fs' bin = contents fs bin \<and>
    (\<forall>p. params = Some p \<longrightarrow> (\<exists>b. json p = Inr b \<and> contents fs' cfg = Some b)) \<and>
    (\<exists>b. render bin u (if params \<noteq> None then [''--config='' @ cfg] else []) = Inr b \<and> contents fs' svc = Some b)"
proof (cases params)
  case None
  with assms(1) have s: "write_service render fa svc bin u [] fs = (fs', None)" by (simp add: writeFiles_def)
  have "alone fs svc" "no_device fs svc" "fs_real fs bin \<noteq> fs_real fs svc"
    using assms(3) by (auto simp: separate_def)
  with write_service_ok [OF s] write_service_kept [OF s assms(2), of bin] None show ?thesis by simp
next
  case (Some p)
  with assms(1) obtain b fs1 where b: "json p = Inr b" "os_WriteFile fa cfg b fs = (fs1, None)"
    and s: "write_service render fa svc bin u [''--config='' @ cfg] fs1 = (fs', None)"
    by (auto simp: writeFiles_def split: sum.splits prod.splits option.splits)
  note sep = assms(3) [unfolded separate_def]
  have d: "fs_real fs svc \<noteq> fs_real fs cfg" "fs_real fs bin \<noteq> fs_real fs cfg" "fs_real fs bin \<noteq> fs_real fs svc"
    using assms(3) by (auto simp: separate_def)
  from os_WriteFile_kept [OF b(2) assms(2), of svc] os_WriteFile_kept [OF b(2) assms(2), of bin] sep d
  have 1: "fs_ok fs1" "kept svc fs fs1" "contents fs1 bin = contents fs bin" "fs_real fs1 = fs_real fs" by simp_all
  then have "alone fs1 svc" "no_device fs1 svc" using sep by (simp_all add: kept_alone kept_device)
  moreover have "fs_real fs1 cfg \<noteq> fs_real fs1 svc" "fs_real fs1 bin \<noteq> fs_real fs1 svc" using 1(4) d by simp_all
  ultimately show ?thesis
    using write_service_ok [OF s] write_service_kept [OF s 1(1)] os_WriteFile_contents [OF b(2)] b(1) 1(3) sep Some by simp
qed

section \<open>Properties\<close>


definition demo_fs :: file_sys where
  "demo_fs = \<lparr>fs_real = (\<lambda>p. p),
     fs_names = [''/'' \<mapsto> 0, ''/etc'' \<mapsto> 1, ''/usr'' \<mapsto> 2, ''/usr/bin'' \<mapsto> 3, ''/tmp'' \<mapsto> 4, ''/tmp/john'' \<mapsto> 5],
     fs_inodes = (\<lambda>i. if i = 5 then Regular [7, 8] 493 else Directory), fs_next = 6\<rparr>"

lemma demo_fs_ok: "fs_ok demo_fs"
  by (simp add: fs_ok_def demo_fs_def)

definition demo_install :: install_world where
  "demo_install = \<lparr>iw_home = Inr ''/root'', iw_executable = Inr ''/tmp/john'', iw_answers = demo_answers,
     iw_json = (\<lambda>p. Inr [1, 2]), iw_render = (\<lambda>b u args. Inr [3])\<rparr>"

text \<open>The directories are made, and the binary is copied to another device.\<close>

text \<open>The directories are made, and the binary is copied to another device.\<close>

definition demo_faults :: faults where
  "demo_faults = no_faults\<lparr>fa_link := (\<lambda>p q. Some ErrWrite)\<rparr>"

lemma update_download:
  assumes "os_CreateTemp fa p fs = Some (fs1, f)" and "fs_ok fs" and "fd_Write fa p f body fs1 = (fs2, e)"
  shows "fs_ok fs2 \<and> contents fs2 p = Some (room_for fa p body) \<and> only_at p None fs fs2 \<and> entry fs p = None"
proof -
  from assms(1) have n: "entry fs p = None" "new_name p (Regular [] (fa_umask fa 384)) fs = Some (fs1, f)"
    by (auto simp: os_CreateTemp_def split: if_splits)
  note o = new_name_only_at [OF n(2,1)]
  from o have f: "entry fs1 p = Some f" "fs_inodes fs1 f = Regular [] (fa_umask fa 384)" by simp_all
  from fd_Write_file(1) [OF assms(3) f] have c: "contents fs2 p = Some (room_for fa p body)" by (simp add: contents_def)
  have "only_at p None fs fs2" using o fd_Write_only_at [OF assms(3) f(1)] only_at_trans by blast
  with only_at_ok [OF this assms(2)] c n(1) show ?thesis by simp
qed

text \<open>C37: Once the answer to the update's request has begun, what becomes of the binary does not depend on whether
  its body was received to the end: a success means that the binary is what arrived and
  was stored, an interrupted download included. And a failure never leaves the binary that was running: it has been removed
  before the new one is in its place.\<close>

theorem update_outcome:
  assumes "Update fa w fs = (fs', r)" and "fs_ok fs" and "update_arch (uw_arch w) = Some arch" and "uw_executable w = Inr cur"
    and "os_CreateTemp fa (uw_temp w) fs \<noteq> None" and "uw_get w (update_url arch) = Inr (200, body, bodyErr)"
    and "fs_real fs (uw_temp w) \<noteq> fs_real fs cur"
  shows "(\<exists>m. r = CmdDone m \<and> contents fs' cur = Some (room_for fa (uw_temp w) body)) \<or>
    (\<exists>e. r = CmdFatal e \<and>
      (\<forall>i. entry fs cur = Some i \<and> fa_stat fa cur = None \<and> fa_remove fa cur = None \<longrightarrow> entry fs' cur \<noteq> Some i))"
proof -
  from assms(5) obtain fs1 f where t: "os_CreateTemp fa (uw_temp w) fs = Some (fs1, f)" by auto
  obtain fs2 e2 where d: "fd_Write fa (uw_temp w) f body fs1 = (fs2, e2)" by fastforce
  from update_download [OF t assms(2) d] have ok: "fs_ok fs2" "contents fs2 (uw_temp w) = Some (room_for fa (uw_temp w) body)"
    and o: "only_at (uw_temp w) None fs fs2" and n: "entry fs (uw_temp w) = None" by simp_all
  from only_at_keeps(1) [OF o assms(2), of cur] assms(7) n have c: "entry fs2 cur = entry fs cur" by auto
  obtain fs3 e3 where b: "replace_binary fa (uw_temp w) cur fs2 = (fs3, e3)" by fastforce
  show ?thesis
  proof (cases e3)
    case None
    with assms(1,3,4,6) t d b have "fs' = fs3 \<and> (\<exists>m. r = CmdDone m)" by (auto simp: Update_def)
    with replace_binary_ok [OF b [unfolded None] ok(1)] ok(2) show ?thesis by auto
  next
    case (Some e)
    with assms(1,3,4,6) t d b have "fs' = fs3 \<and> r = CmdFatal e" by (auto simp: Update_def)
    with replace_binary_fails [OF b [unfolded Some] ok(1)] c show ?thesis by auto
  qed
qed

text \<open>A download that breaks after one byte; a disk with no room for the copy.\<close>

definition demo_update :: update_world where
  "demo_update = \<lparr>uw_arch = ''amd64'', uw_executable = Inr ''/tmp/john'', uw_temp = ''/tmp/new'',
     uw_get = (\<lambda>u. Inr (200, [9], Some IoUnexpectedEOF))\<rparr>"

theorem update_outcome_witness:
  "(\<exists>fs' m. Update no_faults demo_update demo_fs = (fs', CmdDone m) \<and> contents fs' ''/tmp/john'' = Some [9]) \<and>
   (\<exists>fs' e. Update (demo_faults\<lparr>fa_room := (\<lambda>p. if p = ''/tmp/john'' then Some 0 else None)\<rparr>) demo_update demo_fs = (fs', CmdFatal e) \<and>
      entry fs' ''/tmp/john'' \<noteq> entry demo_fs ''/tmp/john'')"
proof
  let ?bad = "demo_faults\<lparr>fa_room := (\<lambda>p. if p = ''/tmp/john'' then Some 0 else None)\<rparr>"
  have w: "update_arch (uw_arch demo_update) = Some ''x64''" "uw_executable demo_update = Inr ''/tmp/john''"
    "uw_get demo_update (update_url ''x64'') = Inr (200, [9], Some IoUnexpectedEOF)"
    "fs_real demo_fs (uw_temp demo_update) \<noteq> fs_real demo_fs ''/tmp/john''"
    by (simp_all add: demo_update_def update_arch_def demo_fs_def)
  obtain fs1 r1 where u1: "Update no_faults demo_update demo_fs = (fs1, r1)" by fastforce
  have "case snd (Update no_faults demo_update demo_fs) of CmdFatal e \<Rightarrow> False | _ \<Rightarrow> True" by code_simp
  then have ne: "r1 \<noteq> CmdFatal e" for e using u1 by auto
  have t1: "os_CreateTemp no_faults (uw_temp demo_update) demo_fs \<noteq> None" by code_simp
  have "room_for no_faults (uw_temp demo_update) [9] = [9]" by code_simp
  with update_outcome [OF u1 demo_fs_ok w(1,2) t1 w(3,4)] ne u1
  show "\<exists>fs' m. Update no_faults demo_update demo_fs = (fs', CmdDone m) \<and> contents fs' ''/tmp/john'' = Some [9]" by auto
  obtain fs2 r2 where u2: "Update ?bad demo_update demo_fs = (fs2, r2)" by fastforce
  have "case snd (Update ?bad demo_update demo_fs) of CmdDone m \<Rightarrow> False | _ \<Rightarrow> True" by code_simp
  then have nd: "r2 \<noteq> CmdDone m" for m using u2 by auto
  have t2: "os_CreateTemp ?bad (uw_temp demo_update) demo_fs \<noteq> None" by code_simp
  have "entry demo_fs ''/tmp/john'' = Some 5" "fa_stat ?bad ''/tmp/john'' = None" "fa_remove ?bad ''/tmp/john'' = None"
    by (simp_all add: entry_def demo_fs_def demo_faults_def no_faults_def)
  with update_outcome [OF u2 demo_fs_ok w(1,2) t2 w(3,4)] nd u2
  show "\<exists>fs' e. Update ?bad demo_update demo_fs = (fs', CmdFatal e) \<and> entry fs' ''/tmp/john'' \<noteq> entry demo_fs ''/tmp/john''"
    by auto
qed

end
