(* ===== verification/Top_Domains.thy ===== *)
theory Top_Domains
  imports Install
begin

text \<open>
  The table of top-level domains (\<open>common/domain.go\<close>), in the order of the source, a text by its bytes in
  UTF-8, and the test of a host name against it that the installer makes. The lemma at the end says
  which names pass.
\<close>

section \<open>The table\<close>

definition topDomains_a :: "string list" where
  "topDomains_a =
    [''.ac'', ''.ad'', ''.ae'', ''.aero'', ''.af'', ''.ag'', ''.ai'', ''.al'', ''.am'', ''.ao'', ''.aq'', ''.ar'',
     ''.arpa'', ''.as'', ''.asia'', ''.at'', ''.au'', ''.aw'', ''.ax'', ''.az'', ''.ba'', ''.bb'', ''.be'', ''.bf'',
     ''.bg'', ''.bh'', ''.bi'', ''.biz'', ''.bj'', ''.bm'', ''.bn'', ''.bo'', ''.br'', ''.bs'', ''.bt'', ''.bv'', ''.bw'',
     ''.by'', ''.bz'', ''.ca'', ''.cat'', ''.cc'', ''.cd'', ''.cf'', ''.cg'', ''.ch'', ''.ci'', ''.cl'', ''.cm'', ''.cn'',
     ''.co'', ''.com'', ''.coop'', ''.cr'', ''.cu'', ''.cv'', ''.cw'', ''.cx'', ''.cy'', ''.cz'', ''.de'', ''.dj'',
     ''.dk'', ''.dm'', ''.do'', ''.dz'', ''.ec'', ''.edu'', ''.ee'', ''.eg'', ''.es'', ''.et'', ''.eu'', ''.fi'', ''.fj'',
     ''.fm'', ''.fo'', ''.fr'', ''.ga'', ''.gb'', ''.gd'', ''.ge'', ''.gf'', ''.gg'', ''.gh'', ''.gi'', ''.gl'', ''.gm'',
     ''.gn'', ''.gov'', ''.gp'', ''.gq'', ''.gr'', ''.gs'', ''.gt'', ''.gu'', ''.gw'', ''.gy'', ''.hk'', ''.hm'', ''.hn'',
     ''.hr'', ''.ht'', ''.hu'', ''.id'', ''.ie'', ''.il'', ''.im'', ''.in'', ''.info'', ''.int'', ''.io'', ''.iq'',
     ''.ir'', ''.is'', ''.it'', ''.je'', ''.jo'', ''.jobs'', ''.jp'', ''.ke'', ''.kg'', ''.ki'', ''.km'', ''.kn'',
     ''.kp'', ''.kr'', ''.kw'', ''.ky'', ''.kz'', ''.la'', ''.lb'', ''.lc'', ''.li'', ''.lk'', ''.lr'', ''.ls'', ''.lt'',
     ''.lu'', ''.lv'', ''.ly'', ''.ma'', ''.mc'', ''.md'', ''.me'', ''.mg'', ''.mh'', ''.mil'', ''.mk'', ''.ml'']"

definition topDomains_b :: "string list" where
  "topDomains_b =
    [''.mn'', ''.mo'', ''.mobi'', ''.mp'', ''.mq'', ''.mr'', ''.ms'', ''.mt'', ''.mu'', ''.museum'', ''.mv'', ''.mw'',
     ''.mx'', ''.my'', ''.mz'', ''.na'', ''.name'', ''.nc'', ''.ne'', ''.net'', ''.nf'', ''.ng'', ''.ni'', ''.nl'',
     ''.no'', ''.nr'', ''.nu'', ''.nz'', ''.om'', ''.onion'', ''.org'', ''.pa'', ''.pe'', ''.pf'', ''.ph'', ''.pk'',
     ''.pl'', ''.pm'', ''.pn'', ''.post'', ''.pr'', ''.pro'', ''.ps'', ''.pt'', ''.pw'', ''.py'', ''.qa'', ''.re'',
     ''.ro'', ''.rs'', ''.ru'', ''.rw'', ''.sa'', ''.sb'', ''.sc'', ''.sd'', ''.se'', ''.sg'', ''.sh'', ''.si'', ''.sj'',
     ''.sk'', ''.sl'', ''.sm'', ''.sn'', ''.so'', ''.sr'', ''.ss'', ''.st'', ''.su'', ''.sv'', ''.sx'', ''.sy'', ''.sz'',
     ''.tc'', ''.td'', ''.tel'', ''.tf'', ''.tg'', ''.th'', ''.tj'', ''.tk'', ''.tl'', ''.tm'', ''.tn'', ''.to'', ''.tr'',
     ''.tt'', ''.tv'', ''.tw'', ''.tz'', ''.ua'', ''.ug'', ''.uk'', ''.us'', ''.uy'', ''.uz'', ''.va'', ''.vc'', ''.ve'',
     ''.vg'', ''.vi'', ''.vn'', ''.vu'', ''.wf'', ''.ws'', ''.yt'',
     [CHR ''.'', CHR 0xD8, CHR 0xA7, CHR 0xD9, CHR 0x85, CHR 0xD8, CHR 0xA7, CHR 0xD8, CHR 0xB1, CHR 0xD8, CHR 0xA7, CHR 0xD8, CHR 0xAA],
     [CHR ''.'', CHR 0xD5, CHR 0xB0, CHR 0xD5, CHR 0xA1, CHR 0xD5, CHR 0xB5],
     [CHR ''.'', CHR 0xE0, CHR 0xA6, CHR 0xAC, CHR 0xE0, CHR 0xA6, CHR 0xBE, CHR 0xE0, CHR 0xA6, CHR 0x82, CHR 0xE0, CHR 0xA6, CHR 0xB2, CHR 0xE0, CHR 0xA6, CHR 0xBE],
     [CHR ''.'', CHR 0xD0, CHR 0xB1, CHR 0xD0, CHR 0xB3],
     [CHR ''.'', CHR 0xD8, CHR 0xA7, CHR 0xD9, CHR 0x84, CHR 0xD8, CHR 0xA8, CHR 0xD8, CHR 0xAD, CHR 0xD8, CHR 0xB1, CHR 0xD9, CHR 0x8A, CHR 0xD9, CHR 0x86],
     [CHR ''.'', CHR 0xD0, CHR 0xB1, CHR 0xD0, CHR 0xB5, CHR 0xD0, CHR 0xBB],
     [CHR ''.'', CHR 0xE4, CHR 0xB8, CHR 0xAD, CHR 0xE5, CHR 0x9B, CHR 0xBD],
     [CHR ''.'', CHR 0xE4, CHR 0xB8, CHR 0xAD, CHR 0xE5, CHR 0x9C, CHR 0x8B],
     [CHR ''.'', CHR 0xD8, CHR 0xA7, CHR 0xD9, CHR 0x84, CHR 0xD8, CHR 0xAC, CHR 0xD8, CHR 0xB2, CHR 0xD8, CHR 0xA7, CHR 0xD8, CHR 0xA6, CHR 0xD8, CHR 0xB1],
     [CHR ''.'', CHR 0xD9, CHR 0x85, CHR 0xD8, CHR 0xB5, CHR 0xD8, CHR 0xB1],
     [CHR ''.'', CHR 0xD0, CHR 0xB5, CHR 0xD1, CHR 0x8E], [CHR ''.'', CHR 0xCE, CHR 0xB5, CHR 0xCF, CHR 0x85],
     [CHR ''.'', CHR 0xD9, CHR 0x85, CHR 0xD9, CHR 0x88, CHR 0xD8, CHR 0xB1, CHR 0xD9, CHR 0x8A, CHR 0xD8, CHR 0xAA, CHR 0xD8, CHR 0xA7, CHR 0xD9, CHR 0x86, CHR 0xD9, CHR 0x8A, CHR 0xD8, CHR 0xA7],
     [CHR ''.'', CHR 0xE1, CHR 0x83, CHR 0x92, CHR 0xE1, CHR 0x83, CHR 0x94],
     [CHR ''.'', CHR 0xCE, CHR 0xB5, CHR 0xCE, CHR 0xBB],
     [CHR ''.'', CHR 0xE9, CHR 0xA6, CHR 0x99, CHR 0xE6, CHR 0xB8, CHR 0xAF],
     [CHR ''.'', CHR 0xE0, CHR 0xB2, CHR 0xAD, CHR 0xE0, CHR 0xB2, CHR 0xBE, CHR 0xE0, CHR 0xB2, CHR 0xB0, CHR 0xE0, CHR 0xB2, CHR 0xA4],
     [CHR ''.'', CHR 0xE0, CHR 0xAC, CHR 0xAD, CHR 0xE0, CHR 0xAC, CHR 0xBE, CHR 0xE0, CHR 0xAC, CHR 0xB0, CHR 0xE0, CHR 0xAC, CHR 0xA4],
     [CHR ''.'', CHR 0xE0, CHR 0xA6, CHR 0xAD, CHR 0xE0, CHR 0xA6, CHR 0xBE, CHR 0xE0, CHR 0xA7, CHR 0xB0, CHR 0xE0, CHR 0xA6, CHR 0xA4],
     [CHR ''.'', CHR 0xE0, CHR 0xA4, CHR 0xAD, CHR 0xE0, CHR 0xA4, CHR 0xBE, CHR 0xE0, CHR 0xA4, CHR 0xB0, CHR 0xE0, CHR 0xA4, CHR 0xA4, CHR 0xE0, CHR 0xA4, CHR 0xAE, CHR 0xE0, CHR 0xA5, CHR 0x8D],
     [CHR ''.'', CHR 0xE0, CHR 0xA4, CHR 0xAD, CHR 0xE0, CHR 0xA4, CHR 0xBE, CHR 0xE0, CHR 0xA4, CHR 0xB0, CHR 0xE0, CHR 0xA5, CHR 0x8B, CHR 0xE0, CHR 0xA4, CHR 0xA4],
     [CHR ''.'', CHR 0xDA, CHR 0x80, CHR 0xD8, CHR 0xA7, CHR 0xD8, CHR 0xB1, CHR 0xD8, CHR 0xAA],
     [CHR ''.'', CHR 0xE0, CHR 0xB4, CHR 0xAD, CHR 0xE0, CHR 0xB4, CHR 0xBE, CHR 0xE0, CHR 0xB4, CHR 0xB0, CHR 0xE0, CHR 0xB4, CHR 0xA4, CHR 0xE0, CHR 0xB4, CHR 0x82],
     [CHR ''.'', CHR 0xE0, CHR 0xA4, CHR 0xAD, CHR 0xE0, CHR 0xA4, CHR 0xBE, CHR 0xE0, CHR 0xA4, CHR 0xB0, CHR 0xE0, CHR 0xA4, CHR 0xA4],
     [CHR ''.'', CHR 0xD8, CHR 0xA8, CHR 0xD8, CHR 0xA7, CHR 0xD8, CHR 0xB1, CHR 0xD8, CHR 0xAA],
     [CHR ''.'', CHR 0xD8, CHR 0xA8, CHR 0xDA, CHR 0xBE, CHR 0xD8, CHR 0xA7, CHR 0xD8, CHR 0xB1, CHR 0xD8, CHR 0xAA],
     [CHR ''.'', CHR 0xE0, CHR 0xB0, CHR 0xAD, CHR 0xE0, CHR 0xB0, CHR 0xBE, CHR 0xE0, CHR 0xB0, CHR 0xB0, CHR 0xE0, CHR 0xB0, CHR 0xA4, CHR 0xE0, CHR 0xB1, CHR 0x8D],
     [CHR ''.'', CHR 0xE0, CHR 0xAA, CHR 0xAD, CHR 0xE0, CHR 0xAA, CHR 0xBE, CHR 0xE0, CHR 0xAA, CHR 0xB0, CHR 0xE0, CHR 0xAA, CHR 0xA4],
     [CHR ''.'', CHR 0xE0, CHR 0xA8, CHR 0xAD, CHR 0xE0, CHR 0xA8, CHR 0xBE, CHR 0xE0, CHR 0xA8, CHR 0xB0, CHR 0xE0, CHR 0xA8, CHR 0xA4],
     [CHR ''.'', CHR 0xE0, CHR 0xA6, CHR 0xAD, CHR 0xE0, CHR 0xA6, CHR 0xBE, CHR 0xE0, CHR 0xA6, CHR 0xB0, CHR 0xE0, CHR 0xA6, CHR 0xA4],
     [CHR ''.'', CHR 0xE0, CHR 0xAE, CHR 0x87, CHR 0xE0, CHR 0xAE, CHR 0xA8, CHR 0xE0, CHR 0xAF, CHR 0x8D, CHR 0xE0, CHR 0xAE, CHR 0xA4, CHR 0xE0, CHR 0xAE, CHR 0xBF, CHR 0xE0, CHR 0xAE, CHR 0xAF, CHR 0xE0, CHR 0xAE, CHR 0xBE],
     [CHR ''.'', CHR 0xD8, CHR 0xA7, CHR 0xDB, CHR 0x8C, CHR 0xD8, CHR 0xB1, CHR 0xD8, CHR 0xA7, CHR 0xD9, CHR 0x86],
     [CHR ''.'', CHR 0xD8, CHR 0xA7, CHR 0xD9, CHR 0x8A, CHR 0xD8, CHR 0xB1, CHR 0xD8, CHR 0xA7, CHR 0xD9, CHR 0x86],
     [CHR ''.'', CHR 0xD8, CHR 0xB9, CHR 0xD8, CHR 0xB1, CHR 0xD8, CHR 0xA7, CHR 0xD9, CHR 0x82],
     [CHR ''.'', CHR 0xD8, CHR 0xA7, CHR 0xD9, CHR 0x84, CHR 0xD8, CHR 0xA7, CHR 0xD8, CHR 0xB1, CHR 0xD8, CHR 0xAF, CHR 0xD9, CHR 0x86],
     [CHR ''.'', CHR 0xED, CHR 0x95, CHR 0x9C, CHR 0xEA, CHR 0xB5, CHR 0xAD],
     [CHR ''.'', CHR 0xD2, CHR 0x9B, CHR 0xD0, CHR 0xB0, CHR 0xD0, CHR 0xB7],
     [CHR ''.'', CHR 0xE0, CHR 0xBA, CHR 0xA5, CHR 0xE0, CHR 0xBA, CHR 0xB2, CHR 0xE0, CHR 0xBA, CHR 0xA7],
     [CHR ''.'', CHR 0xE0, CHR 0xB6, CHR 0xBD, CHR 0xE0, CHR 0xB6, CHR 0x82, CHR 0xE0, CHR 0xB6, CHR 0x9A, CHR 0xE0, CHR 0xB7, CHR 0x8F],
     [CHR ''.'', CHR 0xE0, CHR 0xAE, CHR 0x87, CHR 0xE0, CHR 0xAE, CHR 0xB2, CHR 0xE0, CHR 0xAE, CHR 0x99, CHR 0xE0, CHR 0xAF, CHR 0x8D, CHR 0xE0, CHR 0xAE, CHR 0x95, CHR 0xE0, CHR 0xAF, CHR 0x88],
     [CHR ''.'', CHR 0xD8, CHR 0xA7, CHR 0xD9, CHR 0x84, CHR 0xD9, CHR 0x85, CHR 0xD8, CHR 0xBA, CHR 0xD8, CHR 0xB1, CHR 0xD8, CHR 0xA8],
     [CHR ''.'', CHR 0xD0, CHR 0xBC, CHR 0xD0, CHR 0xBA, CHR 0xD0, CHR 0xB4],
     [CHR ''.'', CHR 0xD0, CHR 0xBC, CHR 0xD0, CHR 0xBE, CHR 0xD0, CHR 0xBD]]"

definition topDomains_c :: "string list" where
  "topDomains_c =
    [[CHR ''.'', CHR 0xE6, CHR 0xBE, CHR 0xB3, CHR 0xE9, CHR 0x96, CHR 0x80],
     [CHR ''.'', CHR 0xE6, CHR 0xBE, CHR 0xB3, CHR 0xE9, CHR 0x97, CHR 0xA8],
     [CHR ''.'', CHR 0xD9, CHR 0x85, CHR 0xD9, CHR 0x84, CHR 0xD9, CHR 0x8A, CHR 0xD8, CHR 0xB3, CHR 0xD9, CHR 0x8A, CHR 0xD8, CHR 0xA7],
     [CHR ''.'', CHR 0xD8, CHR 0xB9, CHR 0xD9, CHR 0x85, CHR 0xD8, CHR 0xA7, CHR 0xD9, CHR 0x86],
     [CHR ''.'', CHR 0xD9, CHR 0xBE, CHR 0xD8, CHR 0xA7, CHR 0xDA, CHR 0xA9, CHR 0xD8, CHR 0xB3, CHR 0xD8, CHR 0xAA, CHR 0xD8, CHR 0xA7, CHR 0xD9, CHR 0x86],
     [CHR ''.'', CHR 0xD9, CHR 0xBE, CHR 0xD8, CHR 0xA7, CHR 0xD9, CHR 0x83, CHR 0xD8, CHR 0xB3, CHR 0xD8, CHR 0xAA, CHR 0xD8, CHR 0xA7, CHR 0xD9, CHR 0x86],
     [CHR ''.'', CHR 0xD9, CHR 0x81, CHR 0xD9, CHR 0x84, CHR 0xD8, CHR 0xB3, CHR 0xD8, CHR 0xB7, CHR 0xD9, CHR 0x8A, CHR 0xD9, CHR 0x86],
     [CHR ''.'', CHR 0xD1, CHR 0x81, CHR 0xD1, CHR 0x80, CHR 0xD0, CHR 0xB1],
     [CHR ''.'', CHR 0xD1, CHR 0x80, CHR 0xD1, CHR 0x84],
     [CHR ''.'', CHR 0xD9, CHR 0x82, CHR 0xD8, CHR 0xB7, CHR 0xD8, CHR 0xB1],
     [CHR ''.'', CHR 0xD8, CHR 0xA7, CHR 0xD9, CHR 0x84, CHR 0xD8, CHR 0xB3, CHR 0xD8, CHR 0xB9, CHR 0xD9, CHR 0x88, CHR 0xD8, CHR 0xAF, CHR 0xD9, CHR 0x8A, CHR 0xD8, CHR 0xA9],
     [CHR ''.'', CHR 0xD8, CHR 0xA7, CHR 0xD9, CHR 0x84, CHR 0xD8, CHR 0xB3, CHR 0xD8, CHR 0xB9, CHR 0xD9, CHR 0x88, CHR 0xD8, CHR 0xAF, CHR 0xDB, CHR 0x8C, CHR 0xD8, CHR 0xA9],
     [CHR ''.'', CHR 0xD8, CHR 0xA7, CHR 0xD9, CHR 0x84, CHR 0xD8, CHR 0xB3, CHR 0xD8, CHR 0xB9, CHR 0xD9, CHR 0x88, CHR 0xD8, CHR 0xAF, CHR 0xDB, CHR 0x8C, CHR 0xDB, CHR 0x83],
     [CHR ''.'', CHR 0xD8, CHR 0xA7, CHR 0xD9, CHR 0x84, CHR 0xD8, CHR 0xB3, CHR 0xD8, CHR 0xB9, CHR 0xD9, CHR 0x88, CHR 0xD8, CHR 0xAF, CHR 0xD9, CHR 0x8A, CHR 0xD9, CHR 0x87],
     [CHR ''.'', CHR 0xD8, CHR 0xB3, CHR 0xD9, CHR 0x88, CHR 0xD8, CHR 0xAF, CHR 0xD8, CHR 0xA7, CHR 0xD9, CHR 0x86],
     [CHR ''.'', CHR 0xE6, CHR 0x96, CHR 0xB0, CHR 0xE5, CHR 0x8A, CHR 0xA0, CHR 0xE5, CHR 0x9D, CHR 0xA1],
     [CHR ''.'', CHR 0xE0, CHR 0xAE, CHR 0x9A, CHR 0xE0, CHR 0xAE, CHR 0xBF, CHR 0xE0, CHR 0xAE, CHR 0x99, CHR 0xE0, CHR 0xAF, CHR 0x8D, CHR 0xE0, CHR 0xAE, CHR 0x95, CHR 0xE0, CHR 0xAE, CHR 0xAA, CHR 0xE0, CHR 0xAF, CHR 0x8D, CHR 0xE0, CHR 0xAE, CHR 0xAA, CHR 0xE0, CHR 0xAF, CHR 0x82, CHR 0xE0, CHR 0xAE, CHR 0xB0, CHR 0xE0, CHR 0xAF, CHR 0x8D],
     [CHR ''.'', CHR 0xD8, CHR 0xB3, CHR 0xD9, CHR 0x88, CHR 0xD8, CHR 0xB1, CHR 0xD9, CHR 0x8A, CHR 0xD8, CHR 0xA9],
     [CHR ''.'', CHR 0xD8, CHR 0xB3, CHR 0xD9, CHR 0x88, CHR 0xD8, CHR 0xB1, CHR 0xD9, CHR 0x8A, CHR 0xD8, CHR 0xA7],
     [CHR ''.'', CHR 0xE0, CHR 0xB9, CHR 0x84, CHR 0xE0, CHR 0xB8, CHR 0x97, CHR 0xE0, CHR 0xB8, CHR 0xA2],
     [CHR ''.'', CHR 0xD8, CHR 0xAA, CHR 0xD9, CHR 0x88, CHR 0xD9, CHR 0x86, CHR 0xD8, CHR 0xB3],
     [CHR ''.'', CHR 0xE5, CHR 0x8F, CHR 0xB0, CHR 0xE7, CHR 0x81, CHR 0xA3],
     [CHR ''.'', CHR 0xE5, CHR 0x8F, CHR 0xB0, CHR 0xE6, CHR 0xB9, CHR 0xBE],
     [CHR ''.'', CHR 0xE8, CHR 0x87, CHR 0xBA, CHR 0xE7, CHR 0x81, CHR 0xA3],
     [CHR ''.'', CHR 0xD1, CHR 0x83, CHR 0xD0, CHR 0xBA, CHR 0xD1, CHR 0x80],
     [CHR ''.'', CHR 0xD8, CHR 0xA7, CHR 0xD9, CHR 0x84, CHR 0xD9, CHR 0x8A, CHR 0xD9, CHR 0x85, CHR 0xD9, CHR 0x86],
     ''.xxx'', ''.ye'', ''.zm'', ''.zw'', ''.aaa'', ''.aarp'', ''.abarth'', ''.abb'', ''.abbott'', ''.abbvie'', ''.abc'',
     ''.able'', ''.abogado'', ''.abudhabi'', ''.academy'', ''.accenture'', ''.accountant'', ''.accountants'', ''.aco'',
     ''.actor'', ''.adac'', ''.ads'', ''.adult'', ''.aeg'', ''.aetna'', ''.afamilycompany'', ''.afl'', ''.africa'',
     ''.agakhan'', ''.agency'', ''.aig'', ''.airbus'', ''.airforce'', ''.airtel'', ''.akdn'', ''.alfaromeo'',
     ''.alibaba'', ''.alipay'', ''.allfinanz'', ''.allstate'', ''.ally'', ''.alsace'', ''.alstom'', ''.amazon'',
     ''.americanexpress'', ''.americanfamily'', ''.amex'', ''.amfam'', ''.amica'', ''.amsterdam'', ''.analytics'',
     ''.android'', ''.anquan'', ''.anz'', ''.aol'', ''.apartments'', ''.app'', ''.apple'', ''.aquarelle'', ''.arab'',
     ''.aramco'', ''.archi'', ''.army'', ''.art'', ''.arte'', ''.asda'', ''.associates'', ''.athleta'', ''.attorney'',
     ''.auction'', ''.audi'', ''.audible'', ''.audio'', ''.auspost'', ''.author'', ''.auto'', ''.autos'', ''.avianca'',
     ''.aws'', ''.axa'', ''.azure'', ''.baby'', ''.baidu'', ''.banamex'', ''.bananarepublic'', ''.band'', ''.bank'',
     ''.bar'', ''.barcelona'', ''.barclaycard'', ''.barclays'', ''.barefoot'', ''.bargains'', ''.baseball'',
     ''.basketball'', ''.bauhaus'', ''.bayern'', ''.bbc'', ''.bbt'', ''.bbva'', ''.bcg'', ''.bcn'', ''.beats'',
     ''.beauty'', ''.beer'', ''.bentley'', ''.berlin'', ''.best'', ''.bestbuy'', ''.bet'', ''.bharti'', ''.bible'',
     ''.bid'', ''.bike'', ''.bing'', ''.bingo'', ''.bio'', ''.black'', ''.blackfriday'', ''.blockbuster'', ''.blog'',
     ''.bloomberg'', ''.blue'', ''.bms'']"

definition topDomains_d :: "string list" where
  "topDomains_d =
    [''.bmw'', ''.bnpparibas'', ''.boats'', ''.boehringer'', ''.bofa'', ''.bom'', ''.bond'', ''.boo'', ''.book'',
     ''.booking'', ''.bosch'', ''.bostik'', ''.boston'', ''.bot'', ''.boutique'', ''.box'', ''.bradesco'',
     ''.bridgestone'', ''.broadway'', ''.broker'', ''.brother'', ''.brussels'', ''.budapest'', ''.bugatti'', ''.build'',
     ''.builders'', ''.business'', ''.buy'', ''.buzz'', ''.bzh'', ''.cab'', ''.cafe'', ''.cal'', ''.call'',
     ''.calvinklein'', ''.cam'', ''.camera'', ''.camp'', ''.cancerresearch'', ''.canon'', ''.capetown'', ''.capital'',
     ''.capitalone'', ''.car'', ''.caravan'', ''.cards'', ''.care'', ''.career'', ''.careers'', ''.cars'', ''.casa'',
     ''.case'', ''.cash'', ''.casino'', ''.catering'', ''.catholic'', ''.cba'', ''.cbn'', ''.cbre'', ''.cbs'',
     ''.center'', ''.ceo'', ''.cern'', ''.cfa'', ''.cfd'', ''.chanel'', ''.channel'', ''.charity'', ''.chase'', ''.chat'',
     ''.cheap'', ''.chintai'', ''.christmas'', ''.chrome'', ''.church'', ''.cipriani'', ''.circle'', ''.cisco'',
     ''.citadel'', ''.citi'', ''.citic'', ''.city'', ''.cityeats'', ''.claims'', ''.cleaning'', ''.click'', ''.clinic'',
     ''.clinique'', ''.clothing'', ''.cloud'', ''.club'', ''.clubmed'', ''.coach'', ''.codes'', ''.coffee'', ''.college'',
     ''.cologne'', ''.comcast'', ''.commbank'', ''.community'', ''.company'', ''.compare'', ''.computer'', ''.comsec'',
     ''.condos'', ''.construction'', ''.consulting'', ''.contact'', ''.contractors'', ''.cooking'', ''.cookingchannel'',
     ''.cool'', ''.corsica'', ''.country'', ''.coupon'', ''.coupons'', ''.courses'', ''.cpa'', ''.credit'',
     ''.creditcard'', ''.creditunion'', ''.cricket'', ''.crown'', ''.crs'', ''.cruise'', ''.cruises'', ''.csc'',
     ''.cuisinella'', ''.cymru'', ''.cyou'', ''.dabur'', ''.dad'', ''.dance'', ''.data'', ''.date'', ''.dating'',
     ''.datsun'', ''.day'', ''.dclk'', ''.dds'', ''.deal'', ''.dealer'', ''.deals'', ''.degree'', ''.delivery'',
     ''.dell'', ''.deloitte'', ''.delta'', ''.democrat'', ''.dental'']"

definition topDomains_e :: "string list" where
  "topDomains_e =
    [''.dentist'', ''.desi'', ''.design'', ''.dev'', ''.dhl'', ''.diamonds'', ''.diet'', ''.digital'', ''.direct'',
     ''.directory'', ''.discount'', ''.discover'', ''.dish'', ''.diy'', ''.dnp'', ''.docs'', ''.doctor'', ''.dog'',
     ''.domains'', ''.dot'', ''.download'', ''.drive'', ''.dtv'', ''.dubai'', ''.duck'', ''.dunlop'', ''.dupont'',
     ''.durban'', ''.dvag'', ''.dvr'', ''.earth'', ''.eat'', ''.eco'', ''.edeka'', ''.education'', ''.email'',
     ''.emerck'', ''.energy'', ''.engineer'', ''.engineering'', ''.enterprises'', ''.epson'', ''.equipment'',
     ''.ericsson'', ''.erni'', ''.esq'', ''.estate'', ''.etisalat'', ''.eurovision'', ''.eus'', ''.events'',
     ''.exchange'', ''.expert'', ''.exposed'', ''.express'', ''.extraspace'', ''.fage'', ''.fail'', ''.fairwinds'',
     ''.faith'', ''.family'', ''.fan'', ''.fans'', ''.farm'', ''.farmers'', ''.fashion'', ''.fast'', ''.fedex'',
     ''.feedback'', ''.ferrari'', ''.ferrero'', ''.fiat'', ''.fidelity'', ''.fido'', ''.film'', ''.final'', ''.finance'',
     ''.financial'', ''.fire'', ''.firestone'', ''.firmdale'', ''.fish'', ''.fishing'', ''.fit'', ''.fitness'',
     ''.flickr'', ''.flights'', ''.flir'', ''.florist'', ''.flowers'', ''.fly'', ''.foo'', ''.food'', ''.foodnetwork'',
     ''.football'', ''.ford'', ''.forex'', ''.forsale'', ''.forum'', ''.foundation'', ''.fox'', ''.free'', ''.fresenius'',
     ''.frl'', ''.frogans'', ''.frontdoor'', ''.frontier'', ''.ftr'', ''.fujitsu'', ''.fun'', ''.fund'', ''.furniture'',
     ''.futbol'', ''.fyi'', ''.gal'', ''.gallery'', ''.gallo'', ''.gallup'', ''.game'', ''.games'', ''.gap'', ''.garden'',
     ''.gay'', ''.gbiz'', ''.gdn'', ''.gea'', ''.gent'', ''.genting'', ''.george'', ''.ggee'', ''.gift'', ''.gifts'',
     ''.gives'', ''.giving'', ''.glade'', ''.glass'', ''.gle'', ''.global'', ''.globo'', ''.gmail'', ''.gmbh'', ''.gmo'',
     ''.gmx'', ''.godaddy'', ''.gold'', ''.goldpoint'', ''.golf'', ''.goo'', ''.goodyear'', ''.goog'']"

definition topDomains_f :: "string list" where
  "topDomains_f =
    [''.google'', ''.gop'', ''.got'', ''.grainger'', ''.graphics'', ''.gratis'', ''.green'', ''.gripe'', ''.grocery'',
     ''.group'', ''.guardian'', ''.gucci'', ''.guge'', ''.guide'', ''.guitars'', ''.guru'', ''.hair'', ''.hamburg'',
     ''.hangout'', ''.haus'', ''.hbo'', ''.hdfc'', ''.hdfcbank'', ''.health'', ''.healthcare'', ''.help'', ''.helsinki'',
     ''.here'', ''.hermes'', ''.hgtv'', ''.hiphop'', ''.hisamitsu'', ''.hitachi'', ''.hiv'', ''.hkt'', ''.hockey'',
     ''.holdings'', ''.holiday'', ''.homedepot'', ''.homegoods'', ''.homes'', ''.homesense'', ''.honda'', ''.horse'',
     ''.hospital'', ''.host'', ''.hosting'', ''.hot'', ''.hoteles'', ''.hotels'', ''.hotmail'', ''.house'', ''.how'',
     ''.hsbc'', ''.hughes'', ''.hyatt'', ''.hyundai'', ''.ibm'', ''.icbc'', ''.ice'', ''.icu'', ''.ieee'', ''.ifm'',
     ''.ikano'', ''.imamat'', ''.imdb'', ''.immo'', ''.immobilien'', ''.inc'', ''.industries'', ''.infiniti'', ''.ing'',
     ''.ink'', ''.institute'', ''.insurance'', ''.insure'', ''.international'', ''.intuit'', ''.investments'',
     ''.ipiranga'', ''.irish'', ''.ismaili'', ''.ist'', ''.istanbul'', ''.itau'', ''.itv'', ''.jaguar'', ''.java'',
     ''.jcb'', ''.jeep'', ''.jetzt'', ''.jewelry'', ''.jio'', ''.jll'', ''.jmp'', ''.jnj'', ''.joburg'', ''.jot'',
     ''.joy'', ''.jpmorgan'', ''.jprs'', ''.juegos'', ''.juniper'', ''.kaufen'', ''.kddi'', ''.kerryhotels'',
     ''.kerrylogistics'', ''.kerryproperties'', ''.kfh'', ''.kia'', ''.kids'', ''.kim'', ''.kinder'', ''.kindle'',
     ''.kitchen'', ''.kiwi'', ''.koeln'', ''.komatsu'', ''.kosher'', ''.kpmg'', ''.kpn'', ''.krd'', ''.kred'',
     ''.kuokgroup'', ''.kyoto'', ''.lacaixa'', ''.lamborghini'', ''.lamer'', ''.lancaster'', ''.lancia'', ''.land'',
     ''.landrover'', ''.lanxess'', ''.lasalle'', ''.lat'', ''.latino'', ''.latrobe'', ''.law'', ''.lawyer'', ''.lds'',
     ''.lease'', ''.leclerc'', ''.lefrak'', ''.legal'', ''.lego'', ''.lexus'', ''.lgbt'', ''.lidl'', ''.life'',
     ''.lifeinsurance'']"

definition topDomains_g :: "string list" where
  "topDomains_g =
    [''.lifestyle'', ''.lighting'', ''.like'', ''.lilly'', ''.limited'', ''.limo'', ''.lincoln'', ''.linde'', ''.link'',
     ''.lipsy'', ''.live'', ''.living'', ''.lixil'', ''.llc'', ''.llp'', ''.loan'', ''.loans'', ''.locker'', ''.locus'',
     ''.loft'', ''.lol'', ''.london'', ''.lotte'', ''.lotto'', ''.love'', ''.lpl'', ''.lplfinancial'', ''.ltd'',
     ''.ltda'', ''.lundbeck'', ''.luxe'', ''.luxury'', ''.macys'', ''.madrid'', ''.maif'', ''.maison'', ''.makeup'',
     ''.man'', ''.management'', ''.mango'', ''.map'', ''.market'', ''.marketing'', ''.markets'', ''.marriott'',
     ''.marshalls'', ''.maserati'', ''.mattel'', ''.mba'', ''.mckinsey'', ''.med'', ''.media'', ''.meet'', ''.melbourne'',
     ''.meme'', ''.memorial'', ''.men'', ''.menu'', ''.merckmsd'', ''.miami'', ''.microsoft'', ''.mini'', ''.mint'',
     ''.mit'', ''.mitsubishi'', ''.mlb'', ''.mls'', ''.mma'', ''.mobile'', ''.moda'', ''.moe'', ''.moi'', ''.mom'',
     ''.monash'', ''.money'', ''.monster'', ''.mormon'', ''.mortgage'', ''.moscow'', ''.moto'', ''.motorcycles'',
     ''.mov'', ''.movie'', ''.msd'', ''.mtn'', ''.mtr'', ''.music'', ''.mutual'', ''.nab'', ''.nagoya'', ''.natura'',
     ''.navy'', ''.nba'', ''.nec'', ''.netbank'', ''.netflix'', ''.network'', ''.neustar'', ''.new'', ''.news'',
     ''.next'', ''.nextdirect'', ''.nexus'', ''.nfl'', ''.ngo'', ''.nhk'', ''.nico'', ''.nike'', ''.nikon'', ''.ninja'',
     ''.nissan'', ''.nissay'', ''.nokia'', ''.northwesternmutual'', ''.norton'', ''.now'', ''.nowruz'', ''.nowtv'',
     ''.nra'', ''.nrw'', ''.ntt'', ''.nyc'', ''.obi'', ''.observer'', ''.off'', ''.office'', ''.okinawa'', ''.olayan'',
     ''.olayangroup'', ''.oldnavy'', ''.ollo'', ''.omega'', ''.one'', ''.ong'', ''.onl'', ''.online'', ''.ooo'',
     ''.open'', ''.oracle'', ''.orange'', ''.organic'', ''.origins'', ''.osaka'', ''.otsuka'', ''.ott'', ''.ovh'',
     ''.page'', ''.panasonic'', ''.paris'', ''.pars'']"

definition topDomains_h :: "string list" where
  "topDomains_h =
    [''.partners'', ''.parts'', ''.party'', ''.passagens'', ''.pay'', ''.pccw'', ''.pet'', ''.pfizer'', ''.pharmacy'',
     ''.phd'', ''.philips'', ''.phone'', ''.photo'', ''.photography'', ''.photos'', ''.physio'', ''.pics'', ''.pictet'',
     ''.pictures'', ''.pid'', ''.pin'', ''.ping'', ''.pink'', ''.pioneer'', ''.pizza'', ''.place'', ''.play'',
     ''.playstation'', ''.plumbing'', ''.plus'', ''.pnc'', ''.pohl'', ''.poker'', ''.politie'', ''.porn'', ''.pramerica'',
     ''.praxi'', ''.press'', ''.prime'', ''.prod'', ''.productions'', ''.prof'', ''.progressive'', ''.promo'',
     ''.properties'', ''.property'', ''.protection'', ''.pru'', ''.prudential'', ''.pub'', ''.pwc'', ''.qpon'',
     ''.quebec'', ''.quest'', ''.racing'', ''.radio'', ''.raid'', ''.read'', ''.realestate'', ''.realtor'', ''.realty'',
     ''.recipes'', ''.red'', ''.redstone'', ''.redumbrella'', ''.rehab'', ''.reise'', ''.reisen'', ''.reit'',
     ''.reliance'', ''.ren'', ''.rent'', ''.rentals'', ''.repair'', ''.report'', ''.republican'', ''.rest'',
     ''.restaurant'', ''.review'', ''.reviews'', ''.rexroth'', ''.rich'', ''.richardli'', ''.ricoh'', ''.ril'', ''.rio'',
     ''.rip'', ''.rocher'', ''.rocks'', ''.rodeo'', ''.rogers'', ''.room'', ''.rsvp'', ''.rugby'', ''.ruhr'', ''.run'',
     ''.rwe'', ''.ryukyu'', ''.saarland'', ''.safe'', ''.safety'', ''.sakura'', ''.sale'', ''.salon'', ''.samsclub'',
     ''.samsung'', ''.sandvik'', ''.sandvikcoromant'', ''.sanofi'', ''.sap'', ''.sarl'', ''.sas'', ''.save'', ''.saxo'',
     ''.sbi'', ''.sbs'', ''.sca'', ''.scb'', ''.schaeffler'', ''.schmidt'', ''.scholarships'', ''.school'', ''.schule'',
     ''.schwarz'', ''.science'', ''.scjohnson'', ''.scot'', ''.search'', ''.seat'', ''.secure'', ''.security'', ''.seek'',
     ''.select'', ''.sener'', ''.services'', ''.ses'', ''.seven'', ''.sew'', ''.sex'', ''.sexy'', ''.sfr'',
     ''.shangrila'', ''.sharp'', ''.shaw'', ''.shell'', ''.shia'', ''.shiksha'', ''.shoes'', ''.shop'', ''.shopping'']"

definition topDomains_i :: "string list" where
  "topDomains_i =
    [''.shouji'', ''.show'', ''.showtime'', ''.silk'', ''.sina'', ''.singles'', ''.site'', ''.ski'', ''.skin'', ''.sky'',
     ''.skype'', ''.sling'', ''.smart'', ''.smile'', ''.sncf'', ''.soccer'', ''.social'', ''.softbank'', ''.software'',
     ''.sohu'', ''.solar'', ''.solutions'', ''.song'', ''.sony'', ''.soy'', ''.spa'', ''.space'', ''.sport'', ''.spot'',
     ''.srl'', ''.stada'', ''.staples'', ''.star'', ''.statebank'', ''.statefarm'', ''.stc'', ''.stcgroup'',
     ''.stockholm'', ''.storage'', ''.store'', ''.stream'', ''.studio'', ''.study'', ''.style'', ''.sucks'',
     ''.supplies'', ''.supply'', ''.support'', ''.surf'', ''.surgery'', ''.suzuki'', ''.swatch'', ''.swiss'', ''.sydney'',
     ''.systems'', ''.tab'', ''.taipei'', ''.talk'', ''.taobao'', ''.target'', ''.tatamotors'', ''.tatar'', ''.tattoo'',
     ''.tax'', ''.taxi'', ''.tci'', ''.tdk'', ''.team'', ''.tech'', ''.technology'', ''.temasek'', ''.tennis'', ''.teva'',
     ''.thd'', ''.theater'', ''.theatre'', ''.tiaa'', ''.tickets'', ''.tienda'', ''.tiffany'', ''.tips'', ''.tires'',
     ''.tirol'', ''.tjmaxx'', ''.tjx'', ''.tkmaxx'', ''.tmall'', ''.today'', ''.tokyo'', ''.tools'', ''.top'', ''.toray'',
     ''.toshiba'', ''.total'', ''.tours'', ''.town'', ''.toyota'', ''.toys'', ''.trade'', ''.trading'', ''.training'',
     ''.travel'', ''.travelchannel'', ''.travelers'', ''.travelersinsurance'', ''.trust'', ''.trv'', ''.tube'', ''.tui'',
     ''.tunes'', ''.tushu'', ''.tvs'', ''.ubank'', ''.ubs'', ''.unicom'', ''.university'', ''.uno'', ''.uol'', ''.ups'',
     ''.vacations'', ''.vana'', ''.vanguard'', ''.vegas'', ''.ventures'', ''.verisign'', ''.versicherung'', ''.vet'',
     ''.viajes'', ''.video'', ''.vig'', ''.viking'', ''.villas'', ''.vin'', ''.vip'', ''.virgin'', ''.visa'', ''.vision'',
     ''.viva'', ''.vivo'', ''.vlaanderen'', ''.vodka'', ''.volkswagen'', ''.volvo'', ''.vote'', ''.voting'', ''.voto'',
     ''.voyage'', ''.vuelos'', ''.wales'', ''.walmart'']"

definition topDomains_j :: "string list" where
  "topDomains_j =
    [''.walter'', ''.wang'', ''.wanggou'', ''.watch'', ''.watches'', ''.weather'', ''.weatherchannel'', ''.webcam'',
     ''.weber'', ''.website'', ''.wedding'', ''.weibo'', ''.weir'', ''.whoswho'', ''.wien'', ''.wiki'', ''.williamhill'',
     ''.win'', ''.windows'', ''.wine'', ''.winners'', ''.wme'', ''.wolterskluwer'', ''.woodside'', ''.work'', ''.works'',
     ''.world'', ''.wow'', ''.wtc'', ''.wtf'', ''.xbox'', ''.xerox'', ''.xfinity'', ''.xihuan'', ''.xin'',
     [CHR ''.'', CHR 0xE0, CHR 0xA4, CHR 0x95, CHR 0xE0, CHR 0xA5, CHR 0x89, CHR 0xE0, CHR 0xA4, CHR 0xAE],
     [CHR ''.'', CHR 0xE3, CHR 0x82, CHR 0xBB, CHR 0xE3, CHR 0x83, CHR 0xBC, CHR 0xE3, CHR 0x83, CHR 0xAB],
     [CHR ''.'', CHR 0xE4, CHR 0xBD, CHR 0x9B, CHR 0xE5, CHR 0xB1, CHR 0xB1],
     [CHR ''.'', CHR 0xE6, CHR 0x85, CHR 0x88, CHR 0xE5, CHR 0x96, CHR 0x84],
     [CHR ''.'', CHR 0xE9, CHR 0x9B, CHR 0x86, CHR 0xE5, CHR 0x9B, CHR 0xA2],
     [CHR ''.'', CHR 0xE5, CHR 0x9C, CHR 0xA8, CHR 0xE7, CHR 0xBA, CHR 0xBF],
     [CHR ''.'', CHR 0xE5, CHR 0xA4, CHR 0xA7, CHR 0xE4, CHR 0xBC, CHR 0x97, CHR 0xE6, CHR 0xB1, CHR 0xBD, CHR 0xE8, CHR 0xBD, CHR 0xA6],
     [CHR ''.'', CHR 0xE7, CHR 0x82, CHR 0xB9, CHR 0xE7, CHR 0x9C, CHR 0x8B],
     [CHR ''.'', CHR 0xE0, CHR 0xB8, CHR 0x84, CHR 0xE0, CHR 0xB8, CHR 0xAD, CHR 0xE0, CHR 0xB8, CHR 0xA1],
     [CHR ''.'', CHR 0xE5, CHR 0x85, CHR 0xAB, CHR 0xE5, CHR 0x8D, CHR 0xA6],
     [CHR ''.'', CHR 0xD9, CHR 0x85, CHR 0xD9, CHR 0x88, CHR 0xD9, CHR 0x82, CHR 0xD8, CHR 0xB9],
     [CHR ''.'', CHR 0xE5, CHR 0x85, CHR 0xAC, CHR 0xE7, CHR 0x9B, CHR 0x8A],
     [CHR ''.'', CHR 0xE5, CHR 0x85, CHR 0xAC, CHR 0xE5, CHR 0x8F, CHR 0xB8],
     [CHR ''.'', CHR 0xE9, CHR 0xA6, CHR 0x99, CHR 0xE6, CHR 0xA0, CHR 0xBC, CHR 0xE9, CHR 0x87, CHR 0x8C, CHR 0xE6, CHR 0x8B, CHR 0x89],
     [CHR ''.'', CHR 0xE7, CHR 0xBD, CHR 0x91, CHR 0xE7, CHR 0xAB, CHR 0x99],
     [CHR ''.'', CHR 0xE7, CHR 0xA7, CHR 0xBB, CHR 0xE5, CHR 0x8A, CHR 0xA8],
     [CHR ''.'', CHR 0xE6, CHR 0x88, CHR 0x91, CHR 0xE7, CHR 0x88, CHR 0xB1, CHR 0xE4, CHR 0xBD, CHR 0xA0],
     [CHR ''.'', CHR 0xD0, CHR 0xBC, CHR 0xD0, CHR 0xBE, CHR 0xD1, CHR 0x81, CHR 0xD0, CHR 0xBA, CHR 0xD0, CHR 0xB2, CHR 0xD0, CHR 0xB0],
     [CHR ''.'', CHR 0xD0, CHR 0xBA, CHR 0xD0, CHR 0xB0, CHR 0xD1, CHR 0x82, CHR 0xD0, CHR 0xBE, CHR 0xD0, CHR 0xBB, CHR 0xD0, CHR 0xB8, CHR 0xD0, CHR 0xBA],
     [CHR ''.'', CHR 0xD0, CHR 0xBE, CHR 0xD0, CHR 0xBD, CHR 0xD0, CHR 0xBB, CHR 0xD0, CHR 0xB0, CHR 0xD0, CHR 0xB9, CHR 0xD0, CHR 0xBD],
     [CHR ''.'', CHR 0xD1, CHR 0x81, CHR 0xD0, CHR 0xB0, CHR 0xD0, CHR 0xB9, CHR 0xD1, CHR 0x82],
     [CHR ''.'', CHR 0xE8, CHR 0x81, CHR 0x94, CHR 0xE9, CHR 0x80, CHR 0x9A],
     [CHR ''.'', CHR 0xD7, CHR 0xA7, CHR 0xD7, CHR 0x95, CHR 0xD7, CHR 0x9D],
     [CHR ''.'', CHR 0xE6, CHR 0x97, CHR 0xB6, CHR 0xE5, CHR 0xB0, CHR 0x9A],
     [CHR ''.'', CHR 0xE5, CHR 0xBE, CHR 0xAE, CHR 0xE5, CHR 0x8D, CHR 0x9A],
     [CHR ''.'', CHR 0xE6, CHR 0xB7, CHR 0xA1, CHR 0xE9, CHR 0xA9, CHR 0xAC, CHR 0xE9, CHR 0x94, CHR 0xA1],
     [CHR ''.'', CHR 0xE3, CHR 0x83, CHR 0x95, CHR 0xE3, CHR 0x82, CHR 0xA1, CHR 0xE3, CHR 0x83, CHR 0x83, CHR 0xE3, CHR 0x82, CHR 0xB7, CHR 0xE3, CHR 0x83, CHR 0xA7, CHR 0xE3, CHR 0x83, CHR 0xB3],
     [CHR ''.'', CHR 0xD0, CHR 0xBE, CHR 0xD1, CHR 0x80, CHR 0xD0, CHR 0xB3],
     [CHR ''.'', CHR 0xE0, CHR 0xA4, CHR 0xA8, CHR 0xE0, CHR 0xA5, CHR 0x87, CHR 0xE0, CHR 0xA4, CHR 0x9F],
     [CHR ''.'', CHR 0xE3, CHR 0x82, CHR 0xB9, CHR 0xE3, CHR 0x83, CHR 0x88, CHR 0xE3, CHR 0x82, CHR 0xA2],
     [CHR ''.'', CHR 0xE3, CHR 0x82, CHR 0xA2, CHR 0xE3, CHR 0x83, CHR 0x9E, CHR 0xE3, CHR 0x82, CHR 0xBE, CHR 0xE3, CHR 0x83, CHR 0xB3],
     [CHR ''.'', CHR 0xEC, CHR 0x82, CHR 0xBC, CHR 0xEC, CHR 0x84, CHR 0xB1],
     [CHR ''.'', CHR 0xE5, CHR 0x95, CHR 0x86, CHR 0xE6, CHR 0xA0, CHR 0x87],
     [CHR ''.'', CHR 0xE5, CHR 0x95, CHR 0x86, CHR 0xE5, CHR 0xBA, CHR 0x97],
     [CHR ''.'', CHR 0xE5, CHR 0x95, CHR 0x86, CHR 0xE5, CHR 0x9F, CHR 0x8E],
     [CHR ''.'', CHR 0xD0, CHR 0xB4, CHR 0xD0, CHR 0xB5, CHR 0xD1, CHR 0x82, CHR 0xD0, CHR 0xB8],
     [CHR ''.'', CHR 0xE3, CHR 0x83, CHR 0x9D, CHR 0xE3, CHR 0x82, CHR 0xA4, CHR 0xE3, CHR 0x83, CHR 0xB3, CHR 0xE3, CHR 0x83, CHR 0x88],
     [CHR ''.'', CHR 0xE6, CHR 0x96, CHR 0xB0, CHR 0xE9, CHR 0x97, CHR 0xBB],
     [CHR ''.'', CHR 0xE5, CHR 0xAE, CHR 0xB6, CHR 0xE9, CHR 0x9B, CHR 0xBB],
     [CHR ''.'', CHR 0xD9, CHR 0x83, CHR 0xD9, CHR 0x88, CHR 0xD9, CHR 0x85],
     [CHR ''.'', CHR 0xE4, CHR 0xB8, CHR 0xAD, CHR 0xE6, CHR 0x96, CHR 0x87, CHR 0xE7, CHR 0xBD, CHR 0x91],
     [CHR ''.'', CHR 0xE4, CHR 0xB8, CHR 0xAD, CHR 0xE4, CHR 0xBF, CHR 0xA1],
     [CHR ''.'', CHR 0xE5, CHR 0xA8, CHR 0xB1, CHR 0xE4, CHR 0xB9, CHR 0x90],
     [CHR ''.'', CHR 0xE8, CHR 0xB0, CHR 0xB7, CHR 0xE6, CHR 0xAD, CHR 0x8C],
     [CHR ''.'', CHR 0xE9, CHR 0x9B, CHR 0xBB, CHR 0xE8, CHR 0xA8, CHR 0x8A, CHR 0xE7, CHR 0x9B, CHR 0x88, CHR 0xE7, CHR 0xA7, CHR 0x91],
     [CHR ''.'', CHR 0xE8, CHR 0xB4, CHR 0xAD, CHR 0xE7, CHR 0x89, CHR 0xA9],
     [CHR ''.'', CHR 0xE3, CHR 0x82, CHR 0xAF, CHR 0xE3, CHR 0x83, CHR 0xA9, CHR 0xE3, CHR 0x82, CHR 0xA6, CHR 0xE3, CHR 0x83, CHR 0x89],
     [CHR ''.'', CHR 0xE9, CHR 0x80, CHR 0x9A, CHR 0xE8, CHR 0xB2, CHR 0xA9],
     [CHR ''.'', CHR 0xE7, CHR 0xBD, CHR 0x91, CHR 0xE5, CHR 0xBA, CHR 0x97],
     [CHR ''.'', CHR 0xE0, CHR 0xA4, CHR 0xB8, CHR 0xE0, CHR 0xA4, CHR 0x82, CHR 0xE0, CHR 0xA4, CHR 0x97, CHR 0xE0, CHR 0xA4, CHR 0xA0, CHR 0xE0, CHR 0xA4, CHR 0xA8],
     [CHR ''.'', CHR 0xE9, CHR 0xA4, CHR 0x90, CHR 0xE5, CHR 0x8E, CHR 0x85],
     [CHR ''.'', CHR 0xE7, CHR 0xBD, CHR 0x91, CHR 0xE7, CHR 0xBB, CHR 0x9C],
     [CHR ''.'', CHR 0xD0, CHR 0xBA, CHR 0xD0, CHR 0xBE, CHR 0xD0, CHR 0xBC],
     [CHR ''.'', CHR 0xE4, CHR 0xBA, CHR 0x9A, CHR 0xE9, CHR 0xA9, CHR 0xAC, CHR 0xE9, CHR 0x80, CHR 0x8A],
     [CHR ''.'', CHR 0xE8, CHR 0xAF, CHR 0xBA, CHR 0xE5, CHR 0x9F, CHR 0xBA, CHR 0xE4, CHR 0xBA, CHR 0x9A],
     [CHR ''.'', CHR 0xE9, CHR 0xA3, CHR 0x9F, CHR 0xE5, CHR 0x93, CHR 0x81],
     [CHR ''.'', CHR 0xE9, CHR 0xA3, CHR 0x9E, CHR 0xE5, CHR 0x88, CHR 0xA9, CHR 0xE6, CHR 0xB5, CHR 0xA6],
     [CHR ''.'', CHR 0xE6, CHR 0x89, CHR 0x8B, CHR 0xE6, CHR 0x9C, CHR 0xBA],
     [CHR ''.'', CHR 0xD8, CHR 0xA7, CHR 0xD8, CHR 0xB1, CHR 0xD8, CHR 0xA7, CHR 0xD9, CHR 0x85, CHR 0xD9, CHR 0x83, CHR 0xD9, CHR 0x88],
     [CHR ''.'', CHR 0xD8, CHR 0xA7, CHR 0xD9, CHR 0x84, CHR 0xD8, CHR 0xB9, CHR 0xD9, CHR 0x84, CHR 0xD9, CHR 0x8A, CHR 0xD8, CHR 0xA7, CHR 0xD9, CHR 0x86],
     [CHR ''.'', CHR 0xD8, CHR 0xA7, CHR 0xD8, CHR 0xAA, CHR 0xD8, CHR 0xB5, CHR 0xD8, CHR 0xA7, CHR 0xD9, CHR 0x84, CHR 0xD8, CHR 0xA7, CHR 0xD8, CHR 0xAA],
     [CHR ''.'', CHR 0xD8, CHR 0xA8, CHR 0xD8, CHR 0xA7, CHR 0xD8, CHR 0xB2, CHR 0xD8, CHR 0xA7, CHR 0xD8, CHR 0xB1],
     [CHR ''.'', CHR 0xD8, CHR 0xA7, CHR 0xD8, CHR 0xA8, CHR 0xD9, CHR 0x88, CHR 0xD8, CHR 0xB8, CHR 0xD8, CHR 0xA8, CHR 0xD9, CHR 0x8A],
     [CHR ''.'', CHR 0xD9, CHR 0x83, CHR 0xD8, CHR 0xA7, CHR 0xD8, CHR 0xAB, CHR 0xD9, CHR 0x88, CHR 0xD9, CHR 0x84, CHR 0xD9, CHR 0x8A, CHR 0xD9, CHR 0x83],
     [CHR ''.'', CHR 0xD9, CHR 0x87, CHR 0xD9, CHR 0x85, CHR 0xD8, CHR 0xB1, CHR 0xD8, CHR 0xA7, CHR 0xD9, CHR 0x87],
     [CHR ''.'', CHR 0xEB, CHR 0x8B, CHR 0xB7, CHR 0xEC, CHR 0xBB, CHR 0xB4],
     [CHR ''.'', CHR 0xE6, CHR 0x94, CHR 0xBF, CHR 0xE5, CHR 0xBA, CHR 0x9C],
     [CHR ''.'', CHR 0xD8, CHR 0xB4, CHR 0xD8, CHR 0xA8, CHR 0xD9, CHR 0x83, CHR 0xD8, CHR 0xA9],
     [CHR ''.'', CHR 0xD8, CHR 0xA8, CHR 0xD9, CHR 0x8A, CHR 0xD8, CHR 0xAA, CHR 0xD9, CHR 0x83],
     [CHR ''.'', CHR 0xD8, CHR 0xB9, CHR 0xD8, CHR 0xB1, CHR 0xD8, CHR 0xA8],
     [CHR ''.'', CHR 0xE6, CHR 0x9C, CHR 0xBA, CHR 0xE6, CHR 0x9E, CHR 0x84],
     [CHR ''.'', CHR 0xE7, CHR 0xBB, CHR 0x84, CHR 0xE7, CHR 0xBB, CHR 0x87, CHR 0xE6, CHR 0x9C, CHR 0xBA, CHR 0xE6, CHR 0x9E, CHR 0x84],
     [CHR ''.'', CHR 0xE5, CHR 0x81, CHR 0xA5, CHR 0xE5, CHR 0xBA, CHR 0xB7],
     [CHR ''.'', CHR 0xE6, CHR 0x8B, CHR 0x9B, CHR 0xE8, CHR 0x81, CHR 0x98],
     [CHR ''.'', CHR 0xD1, CHR 0x80, CHR 0xD1, CHR 0x83, CHR 0xD1, CHR 0x81],
     [CHR ''.'', CHR 0xE5, CHR 0xA4, CHR 0xA7, CHR 0xE6, CHR 0x8B, CHR 0xBF],
     [CHR ''.'', CHR 0xE3, CHR 0x81, CHR 0xBF, CHR 0xE3, CHR 0x82, CHR 0x93, CHR 0xE3, CHR 0x81, CHR 0xAA],
     [CHR ''.'', CHR 0xE3, CHR 0x82, CHR 0xB0, CHR 0xE3, CHR 0x83, CHR 0xBC, CHR 0xE3, CHR 0x82, CHR 0xB0, CHR 0xE3, CHR 0x83, CHR 0xAB],
     [CHR ''.'', CHR 0xE4, CHR 0xB8, CHR 0x96, CHR 0xE7, CHR 0x95, CHR 0x8C],
     [CHR ''.'', CHR 0xE6, CHR 0x9B, CHR 0xB8, CHR 0xE7, CHR 0xB1, CHR 0x8D],
     [CHR ''.'', CHR 0xE7, CHR 0xBD, CHR 0x91, CHR 0xE5, CHR 0x9D, CHR 0x80],
     [CHR ''.'', CHR 0xEB, CHR 0x8B, CHR 0xB7, CHR 0xEB, CHR 0x84, CHR 0xB7],
     [CHR ''.'', CHR 0xE3, CHR 0x82, CHR 0xB3, CHR 0xE3, CHR 0x83, CHR 0xA0],
     [CHR ''.'', CHR 0xE5, CHR 0xA4, CHR 0xA9, CHR 0xE4, CHR 0xB8, CHR 0xBB, CHR 0xE6, CHR 0x95, CHR 0x99],
     [CHR ''.'', CHR 0xE6, CHR 0xB8, CHR 0xB8, CHR 0xE6, CHR 0x88, CHR 0x8F],
     [CHR ''.'', CHR ''v'', CHR ''e'', CHR ''r'', CHR ''m'', CHR 0xC3, CHR 0xB6, CHR ''g'', CHR ''e'', CHR ''n'', CHR ''s'', CHR ''b'', CHR ''e'', CHR ''r'', CHR ''a'', CHR ''t'', CHR ''e'', CHR ''r''],
     [CHR ''.'', CHR ''v'', CHR ''e'', CHR ''r'', CHR ''m'', CHR 0xC3, CHR 0xB6, CHR ''g'', CHR ''e'', CHR ''n'', CHR ''s'', CHR ''b'', CHR ''e'', CHR ''r'', CHR ''a'', CHR ''t'', CHR ''u'', CHR ''n'', CHR ''g''],
     [CHR ''.'', CHR 0xE4, CHR 0xBC, CHR 0x81, CHR 0xE4, CHR 0xB8, CHR 0x9A],
     [CHR ''.'', CHR 0xE4, CHR 0xBF, CHR 0xA1, CHR 0xE6, CHR 0x81, CHR 0xAF],
     [CHR ''.'', CHR 0xE5, CHR 0x98, CHR 0x89, CHR 0xE9, CHR 0x87, CHR 0x8C, CHR 0xE5, CHR 0xA4, CHR 0xA7, CHR 0xE9, CHR 0x85, CHR 0x92, CHR 0xE5, CHR 0xBA, CHR 0x97],
     [CHR ''.'', CHR 0xE5, CHR 0x98, CHR 0x89, CHR 0xE9, CHR 0x87, CHR 0x8C],
     [CHR ''.'', CHR 0xE5, CHR 0xB9, CHR 0xBF, CHR 0xE4, CHR 0xB8, CHR 0x9C],
     [CHR ''.'', CHR 0xE6, CHR 0x94, CHR 0xBF, CHR 0xE5, CHR 0x8A, CHR 0xA1], ''.xyz'', ''.yachts'', ''.yahoo'',
     ''.yamaxun'', ''.yandex'', ''.yodobashi'', ''.yoga'', ''.yokohama'', ''.you'', ''.youtube'', ''.yun'', ''.zappos'',
     ''.zara'', ''.zero'', ''.zip'', ''.zone'', ''.zuerich'']"

definition topDomains :: "string list" where
  "topDomains = concat [topDomains_a, topDomains_b, topDomains_c, topDomains_d, topDomains_e, topDomains_f, topDomains_g, topDomains_h, topDomains_i, topDomains_j]"

definition mTopDomains :: "string \<Rightarrow> bool" where
  "mTopDomains ext \<longleftrightarrow> List.member topDomains ext"

section \<open>Which names pass\<close>

text \<open>An entry is a dot and a label, and the label has no hyphen and no capital (nothing from 0x40 to 0x5F).\<close>

definition plain_char :: "char \<Rightarrow> bool" where
  "plain_char d \<longleftrightarrow> d \<noteq> CHR ''.'' \<and> d \<noteq> CHR ''/'' \<and> d \<noteq> CHR ''-'' \<and>
     (case d of Char b0 b1 b2 b3 b4 b5 b6 b7 \<Rightarrow> b7 \<or> \<not> b6 \<or> b5)"

definition dot_label :: "string \<Rightarrow> bool" where
  "dot_label s \<longleftrightarrow> (case s of [] \<Rightarrow> False | c # l \<Rightarrow> c = CHR ''.'' \<and> list_all plain_char l)"

lemma topDomains_a_form: "list_all dot_label topDomains_a"
  by code_simp

lemma topDomains_b_form: "list_all dot_label topDomains_b"
  by code_simp

lemma topDomains_c_form: "list_all dot_label topDomains_c"
  by code_simp

lemma topDomains_d_form: "list_all dot_label topDomains_d"
  by code_simp

lemma topDomains_e_form: "list_all dot_label topDomains_e"
  by code_simp

lemma topDomains_f_form: "list_all dot_label topDomains_f"
  by code_simp

lemma topDomains_g_form: "list_all dot_label topDomains_g"
  by code_simp

lemma topDomains_h_form: "list_all dot_label topDomains_h"
  by code_simp

lemma topDomains_i_form: "list_all dot_label topDomains_i"
  by code_simp

lemma topDomains_j_form: "list_all dot_label topDomains_j"
  by code_simp

lemma topDomains_form: "t \<in> set topDomains \<Longrightarrow> dot_label t"
  using topDomains_a_form topDomains_b_form topDomains_c_form topDomains_d_form topDomains_e_form topDomains_f_form topDomains_g_form topDomains_h_form topDomains_i_form topDomains_j_form
  by (auto simp: topDomains_def list_all_iff)

lemma ext_rev_label:
  "list_all plain_char xs \<Longrightarrow> ext_rev (xs @ CHR ''.'' # ys) acc = CHR ''.'' # rev xs @ acc"
  by (induction xs arbitrary: acc) (simp_all add: plain_char_def)

lemma path_Ext_label: "dot_label t \<Longrightarrow> path_Ext (p @ t) = t"
  by (cases t) (auto simp: dot_label_def path_Ext_def ext_rev_label list_all_iff)

lemma ext_rev_suffix: "ext_rev xs acc \<noteq> [] \<Longrightarrow> suffix (ext_rev xs acc) (rev xs @ acc)"
  by (induction xs acc rule: ext_rev.induct) (auto simp: suffix_def split: if_splits)

lemma path_Ext_suffix: "path_Ext d \<noteq> [] \<Longrightarrow> suffix (path_Ext d) d"
  using ext_rev_suffix [of "rev d" "[]"] by (simp add: path_Ext_def)

text \<open>A name passes if and only if it ends in an entry of the table.\<close>

lemma has_top_domain_iff: "HasTopDomain mTopDomains d \<longleftrightarrow> list_ex (\<lambda>t. suffix t d) topDomains"
proof
  assume h: "HasTopDomain mTopDomains d"
  then have t: "path_Ext d \<in> set topDomains" by (simp add: HasTopDomain_def mTopDomains_def)
  from topDomains_form [OF t] have "path_Ext d \<noteq> []" by (auto simp: dot_label_def)
  with t show "list_ex (\<lambda>t. suffix t d) topDomains" unfolding list_ex_iff by (intro bexI [of _ "path_Ext d"] path_Ext_suffix)
next
  assume "list_ex (\<lambda>t. suffix t d) topDomains"
  then obtain t p where t: "t \<in> set topDomains" "d = p @ t" by (auto simp: list_ex_iff suffix_def)
  with path_Ext_label [OF topDomains_form, of t p] show "HasTopDomain mTopDomains d"
    by (simp add: HasTopDomain_def mTopDomains_def)
qed

text \<open>So the installer takes a host that is no address only with such an end, and only if it resolves.\<close>

lemma host_ends_in_domain:
  "hostValidator mTopDomains lookupHost str = None \<longleftrightarrow>
     parses_IP str \<or> (list_ex (\<lambda>t. suffix t str) topDomains \<and> (\<exists>a as. lookupHost str = Inr (a # as)))"
  by (auto simp: hostValidator_def Let_def has_top_domain_iff neq_Nil_conv split: sum.splits)

text \<open>The table has internationalised domains in Unicode only: the ASCII form, which is the one the DNS knows, is
  refused, and so is a name in capitals.\<close>

lemma ascii_form_refused:
  assumes "c \<in> set (tl (path_Ext d))" and "\<not> plain_char c"
  shows "\<not> HasTopDomain mTopDomains d"
proof
  assume "HasTopDomain mTopDomains d"
  then have "path_Ext d \<in> set topDomains" by (simp add: HasTopDomain_def mTopDomains_def)
  from topDomains_form [OF this] assms show False by (cases "path_Ext d") (auto simp: dot_label_def list_all_iff)
qed

lemma ascii_form_example:
  "\<not> HasTopDomain mTopDomains ''a.COM'' \<and> \<not> HasTopDomain mTopDomains ''a.xn--fiqs8s''"
proof -
  have e: "path_Ext ''a.COM'' = ''.COM''" "path_Ext ''a.xn--fiqs8s'' = ''.xn--fiqs8s''" by code_simp+
  have "\<not> plain_char CHR ''C''" "\<not> plain_char CHR ''-''" by code_simp+
  then show ?thesis
    using ascii_form_refused [of "CHR ''C''" "''a.COM''"] ascii_form_refused [of "CHR ''-''" "''a.xn--fiqs8s''"] by (simp add: e)
qed

end
