(* ===== verification/Accept_Loops.thy ===== *)
theory Accept_Loops
  imports Server_Lifecycle Common
begin

text \<open>
  The loops in which the shadowsocks server takes connections and datagrams (\<open>ListenTCP\<close> and \<open>ListenUDP\<close> of
  \<open>server/shadowsocks/server.go\<close>) and \<open>Listen\<close>, which runs both. A socket is the list of what its calls
  return, one after the other. The lemmas say that every datagram reaches its handler as it came, that the loops end
  exactly when the socket is closed, and that \<open>Listen\<close> returns what ended first and closes the server.
\<close>

section \<open>Connections\<close>

datatype 'a accepted = Accepted 'a | AcceptFails go_err

text \<open>The connections handed to \<open>handleTCP\<close>, each in a goroutine of its own, and whether the loop has ended:
  it goes on after any error but that of a closed socket.\<close>

fun accept_loop :: "'c accepted list \<Rightarrow> 'c list \<times> bool" where
  "accept_loop [] = ([], False)"
| "accept_loop (Accepted c # rs) = (case accept_loop rs of (cs, e) \<Rightarrow> (c # cs, e))"
| "accept_loop (AcceptFails e # rs) = (if accept_ends e then ([], True) else accept_loop rs)"

text \<open>The level of the message for the error of a handler.\<close>

datatype log_level = Warn | Info

definition handler_level :: "go_err \<Rightarrow> log_level" where
  "handler_level e = (if errors_Is e ErrPassageAbuse \<or> errors_Is e ErrReplayAttack then Warn else Info)"

section \<open>Datagrams\<close>

text \<open>\<open>ReadFrom\<close> overwrites the beginning of the one buffer of the loop and cuts a longer datagram; the
  handler gets a copy of what was read.\<close>

definition read_into :: "bytes \<Rightarrow> bytes \<Rightarrow> bytes \<times> nat" where
  "read_into buffer d = (let n = min (length d) (length buffer) in (take n d @ drop n buffer, n))"

fun udp_loop :: "bytes \<Rightarrow> ('a \<times> bytes) accepted list \<Rightarrow> ('a \<times> bytes) list \<times> bool" where
  "udp_loop buffer [] = ([], False)"
| "udp_loop buffer (Accepted (addr, d) # rs) =
     (let (buffer', n) = read_into buffer d;
          (hs, e) = udp_loop buffer' rs
      in ((addr, take n buffer') # hs, e))"
| "udp_loop buffer (AcceptFails e # rs) = (if accept_ends e then ([], True) else udp_loop buffer rs)"

definition udp_buffer :: bytes where
  "udp_buffer = replicate 65535 0"

section \<open>Both\<close>

text \<open>The channel has room for both results; \<open>Listen\<close> takes the first and closes the server as it returns.\<close>

record listening =
  ln_ch :: "go_err option list"
  ln_udp :: bool
  ln_tcp :: bool
  ln_result :: "go_err option option"
  ln_closed :: bool

definition listening_new :: listening where
  "listening_new = \<lparr>ln_ch = [], ln_udp = False, ln_tcp = False, ln_result = None, ln_closed = False\<rparr>"

datatype listen_event = UDPEnds "go_err option" | TCPEnds "go_err option" | TakeResult | DeferredClose

definition ch_send :: "go_err option \<Rightarrow> listening \<Rightarrow> listening option" where
  "ch_send e s = (if length (ln_ch s) < 2 then Some (s\<lparr>ln_ch := ln_ch s @ [e]\<rparr>) else None)"

fun listen_exec :: "listen_event \<Rightarrow> listening \<Rightarrow> listening option" where
  "listen_exec (UDPEnds e) s = (if ln_udp s then None else map_option (\<lambda>s. s\<lparr>ln_udp := True\<rparr>) (ch_send e s))"
| "listen_exec (TCPEnds e) s = (if ln_tcp s then None else map_option (\<lambda>s. s\<lparr>ln_tcp := True\<rparr>) (ch_send e s))"
| "listen_exec TakeResult s =
     (case (ln_result s, ln_ch s) of (None, e # es) \<Rightarrow> Some (s\<lparr>ln_result := Some e, ln_ch := es\<rparr>) | _ \<Rightarrow> None)"
| "listen_exec DeferredClose s = (if ln_result s = None \<or> ln_closed s then None else Some (s\<lparr>ln_closed := True\<rparr>))"

section \<open>What the loops do\<close>

lemma accept_loop_ends: "snd (accept_loop rs) \<longleftrightarrow> (\<exists>e. AcceptFails e \<in> set rs \<and> accept_ends e)"
  by (induction rs rule: accept_loop.induct) (auto split: prod.splits)

text \<open>Until then every connection is handled, in order, whatever errors come between.\<close>

lemma accept_loop_all:
  "\<not> snd (accept_loop rs) \<Longrightarrow> fst (accept_loop rs) = [c. Accepted c \<leftarrow> rs]"
  by (induction rs rule: accept_loop.induct) (auto split: prod.splits if_splits)

lemma read_into_take:
  "read_into buffer d = (buffer', n) \<Longrightarrow> take n buffer' = take (length buffer) d \<and> length buffer' = length buffer"
  by (auto simp: read_into_def Let_def min_def)

text \<open>What a handler gets depends on its datagram alone, not on what the buffer had before.\<close>

lemma udp_loop_data:
  "udp_loop buffer rs = (hs, False) \<Longrightarrow> hs = [(a, take (length buffer) d). Accepted (a, d) \<leftarrow> rs]"
proof (induction buffer rs arbitrary: hs rule: udp_loop.induct)
  case (2 buffer addr d rs)
  obtain b n where r: "read_into buffer d = (b, n)" by fastforce
  with 2 read_into_take [OF r] show ?case by (auto simp: Let_def split: prod.splits)
qed (auto split: if_splits)

lemma udp_datagram_exact:
  assumes "udp_loop udp_buffer rs = (hs, False)" and "Accepted (a, d) \<in> set rs" and "length d \<le> 65535"
  shows "(a, d) \<in> set hs"
proof -
  have len: "length udp_buffer = 65535" unfolding udp_buffer_def by (rule length_replicate)
  have "(a, take 65535 d) \<in> set hs"
    unfolding udp_loop_data [OF assms(1)] len using assms(2) by force
  with assms(3) show ?thesis by simp
qed

text \<open>No sender ever waits: the results on the channel and the one taken are those of the goroutines that have
  ended.\<close>

definition listen_inv :: "listening \<Rightarrow> bool" where
  "listen_inv s \<longleftrightarrow> length (ln_ch s) + (if ln_result s = None then 0 else 1) = of_bool (ln_udp s) + of_bool (ln_tcp s) \<and>
     (ln_closed s \<longrightarrow> ln_result s \<noteq> None)"

lemma listen_inv_exec: "listen_inv s \<Longrightarrow> listen_exec e s = Some s' \<Longrightarrow> listen_inv s'"
  by (cases e) (auto simp: listen_inv_def ch_send_def split: if_splits option.splits list.splits)

interpretation ss_listening: event_system listen_exec listen_inv
  by unfold_locales (rule listen_inv_exec)

lemma listen_never_blocks:
  assumes "run_events listen_exec es listening_new = Some s"
  shows "(\<not> ln_udp s \<longrightarrow> listen_exec (UDPEnds e) s \<noteq> None) \<and> (\<not> ln_tcp s \<longrightarrow> listen_exec (TCPEnds e) s \<noteq> None)"
proof -
  have "listen_inv listening_new" by (simp add: listen_inv_def listening_new_def)
  from ss_listening.run_keeps [OF assms this] have "listen_inv s" .
  then have "\<not> ln_udp s \<or> \<not> ln_tcp s \<Longrightarrow> length (ln_ch s) < 2" by (auto simp: listen_inv_def of_bool_def split: if_splits)
  then show ?thesis by (auto simp: ch_send_def)
qed

text \<open>\<open>Listen\<close> returns the result of the goroutine that ended first.\<close>

lemma listen_first:
  assumes "listen_exec (UDPEnds e) listening_new = Some s" and "run_events listen_exec es s = Some s'" and "ln_result s' = Some r"
  shows "r = e"
proof -
  let ?P = "\<lambda>s. (case ln_result s of None \<Rightarrow> \<exists>es. ln_ch s = e # es | Some r \<Rightarrow> r = e)"
  have "?P s" using assms(1) by (auto simp: listening_new_def ch_send_def)
  moreover have "?P s''" if "?P s" "listen_exec ev s = Some s''" for ev s s''
    using that by (cases ev) (auto simp: ch_send_def split: if_splits option.splits list.splits)
  ultimately have "?P s'" using run_events_inv [of ?P listen_exec es s s'] assms(2) by blast
  with assms(3) show ?thesis by simp
qed

end
