(* ===== verification/Logging.thy ===== *)
theory Logging
  imports Run
begin

text \<open>
  The logger's set-up (\<open>pkg/log/log.go\<close>) as \<open>initLog\<close> of \<open>cmd/run.go\<close> calls it, and the resolver's choice of a
  server (\<open>pkg/resolver/resolver.go\<close>). The logger itself is a library: what is modelled are the calls made to
  it and whether a message passes its level.
\<close>

section \<open>Levels\<close>

definition ParseLevel :: "string \<Rightarrow> nat" where
  "ParseLevel logLevel =
     (if logLevel = ''error'' then 3
      else if logLevel = ''warn'' then 4
      else if logLevel = ''info'' then 6
      else if logLevel = ''debug'' then 7
      else if logLevel = ''trace'' then 8
      else 4)"

section \<open>The calls of the set-up\<close>

text \<open>\<open>marshal\<close> encodes a JSON object with truth values.\<close>

datatype log_call = SetLogger string string | SetLevel nat

definition fmt_int :: "int \<Rightarrow> string" where
  "fmt_int i = (if i < 0 then CHR ''-'' # itoa (nat (- i)) else itoa (nat i))"

definition SetLogFile :: "((string \<times> bool) list \<Rightarrow> string) \<Rightarrow> string \<Rightarrow> string \<Rightarrow> int \<Rightarrow> bool \<Rightarrow> bool \<Rightarrow> log_call" where
  "SetLogFile marshal logWay logFile maxdays disableLogColor disableTimestamp =
     (if logWay = ''console''
      then SetLogger ''console'' (marshal [(''color'', \<not> disableLogColor), (''timestamp'', \<not> disableTimestamp)])
      else SetLogger ''file''
             ([CHR ''{'', CHR 0x22] @ ''filename'' @ [CHR 0x22] @ '': '' @ [CHR 0x22] @ logFile @ [CHR 0x22] @ '', '' @
              [CHR 0x22] @ ''maxdays'' @ [CHR 0x22] @ '': '' @ fmt_int maxdays @ ''}''))"

definition SetLogLevel :: "string \<Rightarrow> log_call" where
  "SetLogLevel logLevel = SetLevel (ParseLevel logLevel)"

definition InitLog :: "((string \<times> bool) list \<Rightarrow> string) \<Rightarrow> string \<Rightarrow> string \<Rightarrow> string \<Rightarrow> int \<Rightarrow> bool \<Rightarrow> bool \<Rightarrow> log_call list" where
  "InitLog marshal logWay logFile logLevel maxdays disableLogColor disableTimestamp =
     [SetLogFile marshal logWay logFile maxdays disableLogColor disableTimestamp, SetLogLevel logLevel]"

text \<open>What \<open>initLog\<close> of the run command makes of the configuration.\<close>

definition log_calls :: "((string \<times> bool) list \<Rightarrow> string) \<Rightarrow> go_err + string \<Rightarrow> Log \<Rightarrow> go_err + log_call list" where
  "log_calls marshal home l =
     (case initLog home l of
        Inl e \<Rightarrow> Inl e
      | Inr (way, f) \<Rightarrow> Inr (InitLog marshal way f (log_Level l) (log_MaxDays l) (log_DisableColor l) (log_DisableTimestamp l)))"

text \<open>The wrappers write at a level of the library, given by \<open>lv\<close>, \<open>Fatal\<close> as an error before it ends the
  program with 1; a message is written if its level is not above that of the logger.\<close>

datatype log_fun = LogAlert | LogError | LogFatal | LogWarn | LogInfo | LogDebug | LogTrace

definition logged :: "(log_fun \<Rightarrow> nat) \<Rightarrow> string \<Rightarrow> log_fun \<Rightarrow> bool \<times> nat option" where
  "logged lv level f = (lv (if f = LogFatal then LogError else f) \<le> ParseLevel level, if f = LogFatal then Some 1 else None)"

text \<open>As the library's level of errors is 3, why the program ended is written at every level.\<close>

lemma fatal_always_logged: "lv LogError = 3 \<Longrightarrow> logged lv level LogFatal = (True, Some 1)"
  by (simp add: logged_def ParseLevel_def)

lemma log_levels_nested: "fst (logged lv ''error'' f) \<Longrightarrow> fst (logged lv level f)"
  by (auto simp: logged_def ParseLevel_def split: if_splits)

lemma log_to_file:
  assumes "log_File l \<noteq> []" and "strings_HasPrefix (log_File l) ''~'' \<longrightarrow> (\<exists>h. home = Inr h)"
  shows "\<exists>f ps. HomeExpand home (log_File l) = Inr f \<and>
    log_calls marshal home l = Inr [SetLogger ''file'' ps, SetLevel (ParseLevel (log_Level l))] \<and> sublist f ps"
proof -
  obtain f where f: "HomeExpand home (log_File l) = Inr f" using assms(2)
    by (cases "strings_HasPrefix (log_File l) ''~''") (auto simp: HomeExpand_def)
  have s: "sublist f (a @ f @ b)" for a b :: string by (simp add: sublist_appendI)
  from s [of "[CHR ''{'', CHR 0x22] @ ''filename'' @ [CHR 0x22] @ '': '' @ [CHR 0x22]"] f assms(1) show ?thesis
    by (simp add: log_calls_def initLog_def InitLog_def SetLogFile_def SetLogLevel_def)
qed

section \<open>The resolver\<close>

definition dnsServers :: "(string \<times> string) list" where
  "dnsServers =
     [(''119.29.29.29:53'', ''udp''), (''119.29.29.29:53'', ''tcp''), (''223.6.6.6:53'', ''tcp''), (''223.6.6.6:53'', ''udp''),
      (''180.76.76.76:53'', ''udp''), (''208.67.222.222:53'', ''tcp''), (''208.67.222.222:53'', ''udp'')]"

text \<open>\<open>Dial\<close> of the resolver, with the random number: the network and address it was asked for do not matter.\<close>

definition resolver_Dial :: "nat \<Rightarrow> string \<Rightarrow> string \<Rightarrow> string \<times> string" where
  "resolver_Dial r network address = (let server = dnsServers ! r in (snd server, fst server))"

definition resolver_timeout :: int where
  "resolver_timeout = 1000 * 10 ^ 6"

lemma resolver_Dial_server:
  "r < length dnsServers \<Longrightarrow> (snd (resolver_Dial r n a), fst (resolver_Dial r n a)) \<in> set dnsServers"
  unfolding resolver_Dial_def Let_def by simp

text \<open>A host of the system's resolver is looked up once; the other is asked after an error or an empty answer.\<close>

lemma LookupHost_second:
  "LookupHost system resolver host = (if fst (system host) \<noteq> [] \<and> snd (system host) = None then system host else resolver host)"
  by (auto simp: LookupHost_def split: prod.split)

end
