(* ===== verification/Params_Binding.thy ===== *)
theory Params_Binding
  imports Env_Binding Config
begin

text \<open>
  The fields of the configuration (\<open>config/config.go\<close>) as the binder of \<open>Env_Binding\<close> meets them, with
  their tags, and what binding them gives. The templates are given by what the template library and its function
  \<open>split\<close> document: a text without an action is itself, and the default of the port is the second part of the
  listening address. The lemmas of the first sections hold for any structure whose keys are leaves of one tree.
\<close>

section \<open>The fields\<close>

definition lisa_fields :: "field list" where
  "lisa_fields = [Plain (Some ''host'') None True (Some ''The host of SweetLisa'')]"

definition log_fields :: "field list" where
  "log_fields =
     [Plain (Some ''level,omitempty'') (Some ''warn'') False (Some ''Optional values: trace, debug, info, warn or error''),
      Plain (Some ''file,omitempty'') None False (Some ''The path of log file''),
      Plain (Some ''maxDays,omitempty'') (Some ''3'') False (Some ''Maximum number of days to keep log files''),
      Plain (Some ''disableColor,omitempty'') None False None,
      Plain (Some ''disableTimestamp,omitempty'') None False None]"

definition limit_desc :: "string \<Rightarrow> string" where
  "limit_desc what = what @ '' in GB (keep using '' @ [CHR 0x22] @ ''GiB'' @ [CHR 0x22] @ '' in the name for compatible). Zero means no limit.''"

definition limit_fields :: "field list" where
  "limit_fields =
     [Plain (Some ''enable'') (Some ''false'') False None,
      Plain (Some ''resetDay,omitempty'') None False
        (Some ''ResetDay is the day of every month to reset the limit of bandwidth. Zero means never reset.''),
      Plain (Some ''uplinkLimitGiB,omitempty'') None False (Some (limit_desc ''UplinkLimitGiB is the limit of uplink bandwidth'')),
      Plain (Some ''downlinkLimitGiB,omitempty'') None False (Some (limit_desc ''DownlinkLimitGiB is the limit of downlink bandwidth'')),
      Plain (Some ''totalLimitGiB,omitempty'') None False (Some (limit_desc ''TotalLimitGiB is the limit of downlink plus uplink bandwidth''))]"

definition port_template :: string where
  "port_template =
     ''{{with $arr := split '' @ [CHR 0x22] @ '':'' @ [CHR 0x22] @ '' .john.listen}}{{$arr._1}}{{end}}''"

definition john_fields :: "field list" where
  "john_fields =
     [Plain (Some ''listen,omitempty'') (Some ''0.0.0.0:8880'') False (Some ''Address to listen on''),
      Struct (Some ''log,omitempty'') log_fields,
      Plain (Some ''protocol,omitempty'') (Some ''vmess'') False None,
      Plain (Some ''name'') None True (Some ''Server name to register''),
      Plain (Some ''hostname'') None True
        (Some (''Server hostnames for users to connect (split by '' @ [CHR 0x22] @ '','' @ [CHR 0x22] @ '')'')),
      Plain (Some ''port,omitempty'') (Some port_template) False (Some ''Server port for users to connect''),
      Plain (Some ''ticket'') None True (Some ''Ticket from SweetLisa''),
      Struct (Some ''bandwidthLimit'') limit_fields,
      Plain (Some ''noRelay'') None False None,
      Plain (Some ''maxDrainN'') (Some ''-1'') False (Some ''Max number of bytes to drain. default value is -1, which means unlimited.''),
      Plain (Some ''doNotValidateCDN'') None False (Some ''Do not validate the CDN configuration of the peer SweetLisa''),
      Plain (Some ''only4'') None False (Some ''Only use IPv4 for outbound traffic'')]"

definition params_fields :: "field list" where
  "params_fields = [Struct (Some ''lisa'') lisa_fields, Struct (Some ''john'') john_fields]"

section \<open>The fields in the order they are bound\<close>

type_synonym bound_field = "string \<times> string option \<times> bool \<times> string option"

function flat :: "string list \<Rightarrow> field list \<Rightarrow> bound_field list" where
  "flat parts [] = []"
| "flat parts (Struct None sub # fs) = flat parts fs"
| "flat parts (Struct (Some tv) sub # fs) = flat (parts @ [first_part tv]) sub @ flat parts fs"
| "flat parts (Plain None d r t # fs) = flat parts fs"
| "flat parts (Plain (Some tv) d r t # fs) = (strings_Join ''.'' (parts @ [first_part tv]), d, r, t) # flat parts fs"
  by pat_completeness auto
termination
  by (relation "measure (\<lambda>(parts, fs). size_list size fs)") auto

fun bind_flat :: "(string \<Rightarrow> (string \<times> hval) list \<Rightarrow> template) \<Rightarrow> (string \<Rightarrow> hval) \<Rightarrow> bound_field list \<Rightarrow> EnvBinder \<Rightarrow> go_err + EnvBinder" where
  "bind_flat exec base [] b = Inr b"
| "bind_flat exec base ((key, d, r, t) # xs) b = ebind (bind_plain exec base key d r t b) (bind_flat exec base xs)"

lemma bind_flat_append: "bind_flat exec base (xs @ ys) b = ebind (bind_flat exec base xs b) (bind_flat exec base ys)"
  by (induction xs arbitrary: b) (auto simp: ebind_def split: sum.split)

lemma bindEnvs_flat: "bindEnvs exec base fs parts b = bind_flat exec base (flat parts fs) b"
  by (induction exec base fs parts b rule: bindEnvs.induct) (simp_all add: bind_flat_append ebind_def split: sum.split)

section \<open>Keys that are the leaves of a tree\<close>

lemma get_set_above:
  "set_path ks v m = Inr m' \<Longrightarrow> q \<noteq> [] \<Longrightarrow> strict_prefix q ks \<Longrightarrow> \<exists>n. get_path q m' = Some (HMap n)"
proof (induction ks v m arbitrary: m' q rule: set_path.induct)
  case (2 k v m)
  then show ?case by (auto simp: strict_prefix_def prefix_Cons)
next
  case (3 k k' ks v m)
  from 3(4,5) obtain q' where q: "q = k # q'" "strict_prefix q' (k' # ks)" by (cases q) auto
  obtain n where n: "m' = AList.update k (HMap n) m" "q' \<noteq> [] \<longrightarrow> (\<exists>u. get_path q' n = Some (HMap u))"
  proof (cases "map_of m k")
    case None
    with 3(3) obtain n where "m' = AList.update k (HMap n) m" "set_path (k' # ks) v [] = Inr n" by (auto simp: ebind_eq_Inr)
    with 3(1) [OF None this(2) _ q(2)] that show ?thesis by blast
  next
    case (Some w)
    with 3(3) obtain vv n where w: "w = HMap vv" "m' = AList.update k (HMap n) m" "set_path (k' # ks) v vv = Inr n"
      by (cases w) (auto simp: ebind_eq_Inr)
    with 3(2) [OF Some w(1) w(3) _ q(2)] that show ?thesis by blast
  qed
  then show ?case using q by (cases "q' = []") auto
qed simp

text \<open>The value a field gets: its own, or the rendered default \<open>v\<close>.\<close>

definition field_value :: "(string \<Rightarrow> hval) \<Rightarrow> string \<Rightarrow> string option \<Rightarrow> hval" where
  "field_value base key v = (if base key = HNil then (case v of Some s \<Rightarrow> HVal s | None \<Rightarrow> HNil) else base key)"

definition bound_to :: "(string \<Rightarrow> hval) \<Rightarrow> (string \<times> hval) list \<Rightarrow> bound_field \<Rightarrow> bool" where
  "bound_to base m x \<longleftrightarrow> (case x of (key, d, r, t) \<Rightarrow> get_path (strings_Split CHR ''.'' key) m = Some (field_value base key d))"

text \<open>The interface: paths of which none leads through another. Storing at one of them then never fails and leaves
  the others as they are.\<close>

locale leaf_paths =
  fixes L :: "string list list"
  assumes leaves: "p \<in> set L \<Longrightarrow> q \<in> set L \<Longrightarrow> prefix p q \<Longrightarrow> p = q"
    and proper: "p \<in> set L \<Longrightarrow> p \<noteq> []"
begin

definition tree_ok :: "(string \<times> hval) list \<Rightarrow> bool" where
  "tree_ok m \<longleftrightarrow> (\<forall>p q w. p \<in> set L \<longrightarrow> q \<noteq> [] \<longrightarrow> strict_prefix q p \<longrightarrow> get_path q m = Some w \<longrightarrow> (\<exists>n. w = HMap n))"

lemma tree_ok_Nil: "tree_ok []"
proof -
  have "get_path q [] = None" if "q \<noteq> []" for q using that by (cases q) simp_all
  then show ?thesis by (simp add: tree_ok_def)
qed

lemma set_leaf:
  assumes "p \<in> set L" and "tree_ok m"
  shows "\<exists>m'. set_path p v m = Inr m' \<and> tree_ok m' \<and> get_path p m' = Some v \<and>
    (\<forall>p' \<in> set L. p' \<noteq> p \<longrightarrow> get_path p' m' = get_path p' m)"
proof (cases "set_path p v m")
  case (Inl e)
  with assms show ?thesis unfolding set_path_fails tree_ok_def by blast
next
  case (Inr m')
  have "\<exists>n. w = HMap n" if h: "p' \<in> set L" "q \<noteq> []" "strict_prefix q p'" "get_path q m' = Some w" for p' q w
  proof (cases "strict_prefix q p")
    case True
    from get_set_above [OF Inr h(2) True] h(4) show ?thesis by auto
  next
    case False
    have "\<not> prefix p q"
    proof
      assume "prefix p q"
      with h(3) have "prefix p p'" "p \<noteq> p'" by (auto simp: strict_prefix_def intro: prefix_order.trans prefix_order.antisym)
      with leaves [OF assms(1) h(1)] show False by blast
    qed
    moreover from this False have "\<not> prefix q p" by (auto simp: strict_prefix_def)
    ultimately have "get_path q m' = get_path q m" using get_set_other [OF Inr] by blast
    with h assms(2) show ?thesis unfolding tree_ok_def by metis
  qed
  then have "tree_ok m'" unfolding tree_ok_def by blast
  moreover have "get_path p' m' = get_path p' m" if "p' \<in> set L" "p' \<noteq> p" for p'
    using get_set_other [OF Inr, of p'] leaves [OF assms(1) that(1)] leaves [OF that(1) assms(1)] that(2) by metis
  ultimately show ?thesis using Inr get_set_path [OF Inr proper [OF assms(1)]] by blast
qed

text \<open>A field whose value or default is at hand is bound at once.\<close>

lemma bind_plain_leaf:
  assumes "strings_Split CHR ''.'' key \<in> set L" and "tree_ok (eb_resolved b)" and "eb_set b key = None"
    and "base key = HNil \<longrightarrow> (case d of Some e \<Rightarrow> (\<exists>s. v = Some s \<and> exec e (eb_resolved b) = Rendered s) | None \<Rightarrow> v = None \<and> \<not> r)"
  shows "\<exists>b'. bind_plain exec base key d r t b = Inr b' \<and> tree_ok (eb_resolved b') \<and> eb_toResolve b' = eb_toResolve b \<and>
    (\<forall>k. k \<noteq> key \<longrightarrow> eb_set b' k = eb_set b k) \<and>
    get_path (strings_Split CHR ''.'' key) (eb_resolved b') = Some (field_value base key v) \<and>
    (\<forall>p \<in> set L. p \<noteq> strings_Split CHR ''.'' key \<longrightarrow> get_path p (eb_resolved b') = get_path p (eb_resolved b))"
proof -
  have get: "viper_Get base b key = base key" using assms(3) by (simp add: viper_Get_def)
  from set_leaf [OF assms(1,2)] obtain m' where m: "set_path (strings_Split CHR ''.'' key) (field_value base key v) (eb_resolved b) = Inr m'"
    "tree_ok m'" "get_path (strings_Split CHR ''.'' key) m' = Some (field_value base key v)"
    "\<forall>p' \<in> set L. p' \<noteq> strings_Split CHR ''.'' key \<longrightarrow> get_path p' m' = get_path p' (eb_resolved b)" by blast
  show ?thesis
  proof (cases "base key = HNil \<and> d \<noteq> None")
    case True
    then obtain e s where e: "d = Some e" "v = Some s" "exec e (eb_resolved b) = Rendered s" using assms(4) by auto
    let ?b = "b\<lparr>eb_set := (eb_set b)(key \<mapsto> s)\<rparr>"
    have "bindKey exec key e b = Inr (?b, True)" using e(3) by (simp add: bindKey_def)
    moreover have "viper_Get base ?b key = field_value base key v" using True e by (simp add: viper_Get_def field_value_def)
    ultimately have "bind_plain exec base key d r t b = Inr (?b\<lparr>eb_resolved := m'\<rparr>)"
      using True get e m(1) by (simp add: bind_plain_def resolve_key_def SetValueHierarchicalMap_def)
    with m show ?thesis by simp
  next
    case False
    then have f: "field_value base key v = base key" using assms(4) by (auto simp: field_value_def)
    have "bind_plain exec base key d r t b = Inr (b\<lparr>eb_resolved := m'\<rparr>)"
      using False get assms(4) m(1) f by (auto simp: bind_plain_def resolve_key_def SetValueHierarchicalMap_def split: option.splits)
    with m show ?thesis by simp
  qed
qed

text \<open>Fields with constant defaults, in a row.\<close>

definition constant_field :: "(string \<Rightarrow> (string \<times> hval) list \<Rightarrow> template) \<Rightarrow> (string \<Rightarrow> hval) \<Rightarrow> bound_field \<Rightarrow> bool" where
  "constant_field exec base x \<longleftrightarrow> (case x of (key, d, r, t) \<Rightarrow>
     strings_Split CHR ''.'' key \<in> set L \<and> (\<forall>e m. d = Some e \<longrightarrow> exec e m = Rendered e) \<and> (r \<longrightarrow> d = None \<longrightarrow> base key \<noteq> HNil))"

lemma bind_constant_fields:
  assumes "\<forall>x \<in> set xs. constant_field exec base x" and "tree_ok (eb_resolved b)" and "\<forall>x \<in> set xs. eb_set b (fst x) = None"
    and "distinct (map (\<lambda>x. strings_Split CHR ''.'' (fst x)) xs)"
  shows "\<exists>b'. bind_flat exec base xs b = Inr b' \<and> tree_ok (eb_resolved b') \<and> eb_toResolve b' = eb_toResolve b \<and>
    (\<forall>k. k \<notin> fst ` set xs \<longrightarrow> eb_set b' k = eb_set b k) \<and> (\<forall>x \<in> set xs. bound_to base (eb_resolved b') x) \<and>
    (\<forall>p \<in> set L. p \<notin> (\<lambda>x. strings_Split CHR ''.'' (fst x)) ` set xs \<longrightarrow> get_path p (eb_resolved b') = get_path p (eb_resolved b))"
  using assms
proof (induction xs arbitrary: b)
  case (Cons x xs)
  obtain key d r t where x: "x = (key, d, r, t)" by (cases x)
  let ?s = "strings_Split CHR ''.''"
  have c: "?s key \<in> set L" "base key = HNil \<longrightarrow> (case d of Some e \<Rightarrow> (\<exists>s. d = Some s \<and> exec e (eb_resolved b) = Rendered s) | None \<Rightarrow> d = None \<and> \<not> r)"
    using Cons.prems(1) x by (auto simp: constant_field_def split: option.split)
  have "eb_set b key = None" using Cons.prems(3) x by simp
  from bind_plain_leaf [where key = key and b = b and base = base and d = d and v = d and exec = exec and r = r and t = t, OF c(1) Cons.prems(2) this c(2)] obtain b1 where
    b1: "bind_plain exec base key d r t b = Inr b1" "tree_ok (eb_resolved b1)" "eb_toResolve b1 = eb_toResolve b"
      "\<forall>k. k \<noteq> key \<longrightarrow> eb_set b1 k = eb_set b k" "get_path (?s key) (eb_resolved b1) = Some (field_value base key d)"
      "\<forall>p \<in> set L. p \<noteq> ?s key \<longrightarrow> get_path p (eb_resolved b1) = get_path p (eb_resolved b)" by blast
  have d: "?s key \<notin> (\<lambda>x. ?s (fst x)) ` set xs" "distinct (map (\<lambda>x. ?s (fst x)) xs)" using Cons.prems(4) x by simp_all
  have "\<forall>y \<in> set xs. eb_set b1 (fst y) = None"
  proof
    fix y assume y: "y \<in> set xs"
    with d(1) have "fst y \<noteq> key" by auto
    with b1(4) Cons.prems(3) y show "eb_set b1 (fst y) = None" by simp
  qed
  with Cons.IH [OF _ b1(2) _ d(2)] Cons.prems(1) obtain b' where
    b': "bind_flat exec base xs b1 = Inr b'" "tree_ok (eb_resolved b')" "eb_toResolve b' = eb_toResolve b1"
      "\<forall>k. k \<notin> fst ` set xs \<longrightarrow> eb_set b' k = eb_set b1 k" "\<forall>x \<in> set xs. bound_to base (eb_resolved b') x"
      "\<forall>p \<in> set L. p \<notin> (\<lambda>x. ?s (fst x)) ` set xs \<longrightarrow> get_path p (eb_resolved b') = get_path p (eb_resolved b1)" by auto
  have "bound_to base (eb_resolved b') x" using b1(5) b'(6) c(1) d(1) x by (simp add: bound_to_def)
  moreover have "get_path p (eb_resolved b') = get_path p (eb_resolved b)"
    if "p \<in> set L" "p \<notin> (\<lambda>x. ?s (fst x)) ` set (x # xs)" for p
    using b'(6) b1(6) that x by simp
  ultimately show ?case using b1 b' x by (intro exI [of _ b']) auto
qed simp

end

section \<open>The configuration\<close>

definition params_flat :: "bound_field list" where
  "params_flat = flat [] params_fields"

definition params_paths :: "string list list" where
  "params_paths = map (\<lambda>x. strings_Split CHR ''.'' (fst x)) params_flat"

definition before_port :: "bound_field list" where
  "before_port = takeWhile (\<lambda>x. fst x \<noteq> ''john.port'') params_flat"

definition after_port :: "bound_field list" where
  "after_port = tl (dropWhile (\<lambda>x. fst x \<noteq> ''john.port'') params_flat)"

definition port_field :: bound_field where
  "port_field = (''john.port'', Some port_template, False, Some ''Server port for users to connect'')"

lemma params_parts: "params_flat = before_port @ port_field # after_port"
  by code_simp

lemma params_distinct: "distinct params_paths"
  by code_simp

interpretation params: leaf_paths params_paths
proof
  have "list_all (\<lambda>p. list_all (\<lambda>q. \<not> prefix p q \<or> p = q) params_paths \<and> p \<noteq> []) params_paths" by code_simp
  then show "p \<in> set params_paths \<Longrightarrow> q \<in> set params_paths \<Longrightarrow> prefix p q \<Longrightarrow> p = q" and "p \<in> set params_paths \<Longrightarrow> p \<noteq> []" for p q
    by (auto simp: list_all_iff)
qed

text \<open>The other defaults are constants.\<close>

definition plain_default :: "bound_field \<Rightarrow> bool" where
  "plain_default x \<longleftrightarrow> (case x of (key, d, r, t) \<Rightarrow> (case d of None \<Rightarrow> True | Some e \<Rightarrow> CHR ''{'' \<notin> set e) \<and>
     (r \<longrightarrow> List.member [''lisa.host'', ''john.name'', ''john.hostname'', ''john.ticket''] key))"

lemma params_plain: "list_all plain_default (before_port @ after_port)"
  by code_simp

text \<open>What the template library documents of the templates that occur.\<close>

definition template_laws :: "(string \<Rightarrow> (string \<times> hval) list \<Rightarrow> template) \<Rightarrow> bool" where
  "template_laws exec \<longleftrightarrow> (\<forall>e m. CHR ''{'' \<notin> set e \<longrightarrow> exec e m = Rendered e) \<and>
     (\<forall>m l h p rest. get_path [''john'', ''listen''] m = Some (HVal l) \<longrightarrow> strings_Split CHR '':'' l = h # p # rest \<longrightarrow>
        exec port_template m = Rendered p)"

definition required_given :: "(string \<Rightarrow> hval) \<Rightarrow> bool" where
  "required_given base \<longleftrightarrow> base ''lisa.host'' \<noteq> HNil \<and> base ''john.name'' \<noteq> HNil \<and> base ''john.hostname'' \<noteq> HNil \<and> base ''john.ticket'' \<noteq> HNil"

lemma constant_params:
  assumes "template_laws exec" and "required_given base" and "x \<in> set (before_port @ after_port)"
  shows "params.constant_field exec base x"
proof -
  obtain key d r t where x: "x = (key, d, r, t)" by (cases x)
  have "x \<in> set params_flat" using assms(3) by (auto simp: params_parts)
  then have "strings_Split CHR ''.'' key \<in> set params_paths" using x by (force simp: params_paths_def)
  moreover have "plain_default x" using params_plain assms(3) by (auto simp: list_all_iff)
  then have "\<forall>e. d = Some e \<longrightarrow> CHR ''{'' \<notin> set e" "r \<longrightarrow> base key \<noteq> HNil"
    using assms(2) x by (auto simp: plain_default_def required_given_def)
  ultimately show ?thesis using assms(1) x by (auto simp: params.constant_field_def template_laws_def)
qed

lemma listen_before_port:
  "(''john.listen'', Some ''0.0.0.0:8880'', False, Some ''Address to listen on'') \<in> set before_port"
  by code_simp

lemma paths_apart:
  "distinct (map (\<lambda>x. strings_Split CHR ''.'' (fst x)) before_port)" "distinct (map (\<lambda>x. strings_Split CHR ''.'' (fst x)) after_port)"
  "x \<in> set before_port \<Longrightarrow> fst x \<notin> fst ` set after_port \<and> fst x \<noteq> ''john.port'' \<and>
     strings_Split CHR ''.'' (fst x) \<notin> (\<lambda>x. strings_Split CHR ''.'' (fst x)) ` set after_port \<and> strings_Split CHR ''.'' (fst x) \<noteq> [''john'', ''port'']"
  "x \<in> set after_port \<Longrightarrow> fst x \<noteq> ''john.port'' \<and> strings_Split CHR ''.'' (fst x) \<noteq> [''john'', ''port'']"
proof -
  have port: "strings_Split CHR ''.'' (fst port_field) = [''john'', ''port'']" by code_simp
  have d: "distinct (map (\<lambda>x. strings_Split CHR ''.'' (fst x)) (before_port @ port_field # after_port))"
    using params_distinct by (simp only: params_paths_def params_parts)
  then show "distinct (map (\<lambda>x. strings_Split CHR ''.'' (fst x)) before_port)"
    "distinct (map (\<lambda>x. strings_Split CHR ''.'' (fst x)) after_port)" by simp_all
  have parts: "strings_Split CHR ''.'' (fst port_field) \<notin> (\<lambda>x. strings_Split CHR ''.'' (fst x)) ` set before_port"
    "strings_Split CHR ''.'' (fst port_field) \<notin> (\<lambda>x. strings_Split CHR ''.'' (fst x)) ` set after_port"
    "(\<lambda>x. strings_Split CHR ''.'' (fst x)) ` set before_port \<inter> (\<lambda>x. strings_Split CHR ''.'' (fst x)) ` set after_port = {}"
    using d by simp_all
  have k: "fst port_field = ''john.port''" by (simp add: port_field_def)
  show "fst x \<notin> fst ` set after_port \<and> fst x \<noteq> ''john.port'' \<and>
     strings_Split CHR ''.'' (fst x) \<notin> (\<lambda>x. strings_Split CHR ''.'' (fst x)) ` set after_port \<and> strings_Split CHR ''.'' (fst x) \<noteq> [''john'', ''port'']"
    if x: "x \<in> set before_port"
  proof -
    have o: "strings_Split CHR ''.'' (fst x) \<notin> (\<lambda>x. strings_Split CHR ''.'' (fst x)) ` set after_port"
      "strings_Split CHR ''.'' (fst x) \<noteq> strings_Split CHR ''.'' (fst port_field)"
      using imageI [OF x, of "\<lambda>x. strings_Split CHR ''.'' (fst x)"] parts by (blast, metis)
    moreover have "fst x \<notin> fst ` set after_port" using o(1) by (metis (no_types, lifting) image_iff)
    moreover have "fst x \<noteq> fst port_field" using o(2) by auto
    ultimately show ?thesis by (simp only: port k) simp
  qed
  show "fst x \<noteq> ''john.port'' \<and> strings_Split CHR ''.'' (fst x) \<noteq> [''john'', ''port'']" if x: "x \<in> set after_port"
  proof -
    have o: "strings_Split CHR ''.'' (fst x) \<noteq> strings_Split CHR ''.'' (fst port_field)"
      using imageI [OF x, of "\<lambda>x. strings_Split CHR ''.'' (fst x)"] parts by metis
    moreover have "fst x \<noteq> fst port_field" using o by auto
    ultimately show ?thesis by (simp only: port k) simp
  qed
qed

text \<open>A required value that is missing is an error with its description.\<close>

lemma params_required:
  "base ''lisa.host'' = HNil \<Longrightarrow>
     Bind k order exec base params_fields NewEnvBinder = Some (Inl (Wrapped ''lisa.host (The host of SweetLisa)'' ErrRequired))"
  by (simp add: Bind_def params_fields_def lisa_fields_def bind_plain_def viper_Get_def NewEnvBinder_def first_part_def)

section \<open>The flags of the run command\<close>

text \<open>The flags bound to a key, and all that are declared with their defaults.\<close>

definition bound_flags :: "(string \<times> string) list" where
  "bound_flags =
     [(''john.log.level'', ''log-level''), (''john.log.file'', ''log-file''), (''john.log.maxDays'', ''log-max-days''),
      (''john.log.disableTimestamp'', ''log-disable-timestamp''), (''john.log.disableColor'', ''log-disable-color''),
      (''john.doNotValidateCDN'', ''do-not-validate-cdn'')]"

definition declared_flags :: "(string \<times> string) list" where
  "declared_flags =
     [(''config'', []), (''log-level'', []), (''log-file'', []), (''log-max-days'', ''0''), (''log-disable-timestamp'', ''false''),
      (''log-disable-color'', ''false''), (''do-not-validate-cdn'', ''false'')]"

text \<open>Every bound flag is declared, and its key is one of the configuration; only the flag of the file is not bound.\<close>

lemma flags_are_fields:
  "list_all (\<lambda>(key, f). List.member (map fst params_flat) key \<and> List.member (map fst declared_flags) f) bound_flags"
  by code_simp

lemma flags_bound:
  "list_all (\<lambda>(f, d). f = ''config'' \<or> List.member (map snd bound_flags) f) declared_flags"
  by code_simp

text \<open>As the configuration library documents, the default of a bound flag is the value of its key when nothing else
  gives one. So the defaults in the tags of these fields are never used: the days to keep log files are 0.\<close>

definition with_flags :: "(string \<Rightarrow> hval) \<Rightarrow> string \<Rightarrow> hval" where
  "with_flags given key =
     (if given key \<noteq> HNil then given key
      else (case map_of bound_flags key of
              None \<Rightarrow> HNil
            | Some f \<Rightarrow> (case map_of declared_flags f of None \<Rightarrow> HNil | Some d \<Rightarrow> HVal d)))"

lemma flag_defaults_win:
  assumes "given ''john.log.maxDays'' = HNil" and "given ''john.log.level'' = HNil"
  shows "field_value (with_flags given) ''john.log.maxDays'' (Some ''3'') = HVal ''0'' \<and>
    field_value (with_flags given) ''john.log.level'' (Some ''warn'') = HVal []"
  using assms by (simp add: field_value_def with_flags_def bound_flags_def declared_flags_def)

section \<open>Properties\<close>

text \<open>C38: If the four required values are given, the configuration is bound in one pass, whatever else is given: every
  field has the value it was given or its default, and a port that was not given is the second of the
  parts between the colons of the listening address.\<close>

theorem params_bound:
  assumes "template_laws exec" and "required_given base" and "base ''john.port'' = HNil"
    and "field_value base ''john.listen'' (Some ''0.0.0.0:8880'') = HVal listen" and "strings_Split CHR '':'' listen = h # p # rest"
  shows "\<exists>b. Bind (Suc k) order exec base params_fields NewEnvBinder = Some (Inr b) \<and>
    get_path [''john'', ''port''] (eb_resolved b) = Some (HVal p) \<and>
    list_all (\<lambda>x. fst x = ''john.port'' \<or> bound_to base (eb_resolved b) x) params_flat"
proof -
  let ?s = "\<lambda>x :: bound_field. strings_Split CHR ''.'' (fst x)"
  note plain = constant_params [OF assms(1,2)]
  have port: "strings_Split CHR ''.'' ''john.port'' = [''john'', ''port'']" "[''john'', ''port''] \<in> set params_paths" by code_simp+
  have listen: "strings_Split CHR ''.'' ''john.listen'' = [''john'', ''listen'']" by code_simp
  obtain b1 where b1: "bind_flat exec base before_port NewEnvBinder = Inr b1" "params.tree_ok (eb_resolved b1)" "eb_toResolve b1 = []"
    "\<forall>k. k \<notin> fst ` set before_port \<longrightarrow> eb_set b1 k = None" "\<forall>x \<in> set before_port. bound_to base (eb_resolved b1) x"
    using params.bind_constant_fields [of before_port exec base NewEnvBinder] plain paths_apart(1) params.tree_ok_Nil
    by (auto simp: NewEnvBinder_def)
  from bspec [OF b1(5) listen_before_port] have "get_path [''john'', ''listen''] (eb_resolved b1) = Some (HVal listen)"
    by (simp only: bound_to_def prod.case listen assms(4))
  with assms(1,5) have r: "exec port_template (eb_resolved b1) = Rendered p" by (simp add: template_laws_def)
  have "''john.port'' \<notin> fst ` set before_port"
  proof
    assume "''john.port'' \<in> fst ` set before_port"
    then obtain x where "x \<in> set before_port" "fst x = ''john.port''" by (elim imageE) simp
    with paths_apart(3) [of x] show False by blast
  qed
  from b1(4) [rule_format, OF this] have n: "eb_set b1 ''john.port'' = None" .
  obtain b2 where b2: "bind_plain exec base ''john.port'' (Some port_template) False (Some ''Server port for users to connect'') b1 = Inr b2"
    "params.tree_ok (eb_resolved b2)" "eb_toResolve b2 = []" "\<forall>k. k \<noteq> ''john.port'' \<longrightarrow> eb_set b2 k = eb_set b1 k"
    "get_path [''john'', ''port''] (eb_resolved b2) = Some (HVal p)"
    "\<forall>q \<in> set params_paths. q \<noteq> [''john'', ''port''] \<longrightarrow> get_path q (eb_resolved b2) = get_path q (eb_resolved b1)"
    using params.bind_plain_leaf [where key = "''john.port''" and b = b1 and base = base and d = "Some port_template" and v = "Some p"
        and exec = exec and r = False and t = "Some ''Server port for users to connect''"] port b1(2,3) n r assms(3)
    by (auto simp: field_value_def)
  have "eb_set b2 (fst x) = None" if "x \<in> set after_port" for x
  proof -
    have "fst x \<notin> fst ` set before_port"
    proof
      assume "fst x \<in> fst ` set before_port"
      then obtain y where "y \<in> set before_port" "fst y = fst x" by (elim imageE) simp
      with paths_apart(3) [of y] imageI [OF that, of fst] show False by simp
    qed
    from b1(4) [rule_format, OF this] b2(4) [rule_format, of "fst x"] paths_apart(4) [OF that] show ?thesis by simp
  qed
  then obtain b3 where b3: "bind_flat exec base after_port b2 = Inr b3" "eb_toResolve b3 = []" "\<forall>x \<in> set after_port. bound_to base (eb_resolved b3) x"
    "\<forall>q \<in> set params_paths. q \<notin> ?s ` set after_port \<longrightarrow> get_path q (eb_resolved b3) = get_path q (eb_resolved b2)"
    using params.bind_constant_fields [of after_port exec base b2] plain paths_apart(2) b2(2,3) by auto
  have "bound_to base (eb_resolved b3) x" if x: "x \<in> set before_port" for x
  proof -
    have q: "?s x \<in> set params_paths" using x by (auto simp: params_paths_def params_parts)
    have "get_path (?s x) (eb_resolved b3) = get_path (?s x) (eb_resolved b1)"
      using b3(4) b2(6) q paths_apart(3) [OF x] by simp
    with b1(5) x show ?thesis by (cases x) (auto simp: bound_to_def)
  qed
  with b3(3) have all: "list_all (\<lambda>x. fst x = ''john.port'' \<or> bound_to base (eb_resolved b3) x) params_flat"
    by (auto simp: params_parts list_all_iff port_field_def)
  have "[''john'', ''port''] \<notin> ?s ` set after_port"
  proof
    assume "[''john'', ''port''] \<in> ?s ` set after_port"
    then obtain y where "y \<in> set after_port" "?s y = [''john'', ''port'']" by (elim imageE) simp
    with paths_apart(4) [of y] show False by blast
  qed
  from b3(4) [rule_format, OF port(2) this] b2(5) have "get_path [''john'', ''port''] (eb_resolved b3) = Some (HVal p)" by (simp only:)
  moreover have "bindEnvs exec base params_fields [] NewEnvBinder = Inr b3"
    using b1(1) b2(1) b3(1) by (simp add: bindEnvs_flat params_flat_def [symmetric] params_parts bind_flat_append port_field_def)
  ultimately show ?thesis using all b3(2) by (simp add: Bind_def)
qed

text \<open>A listening address of IPv6 and no port: the port becomes the empty text.\<close>

definition demo_base :: "string \<Rightarrow> hval" where
  "demo_base key =
     (if key = ''john.listen'' then HVal ''[::]:8880''
      else if List.member [''lisa.host'', ''john.name'', ''john.hostname'', ''john.ticket''] key then HVal ''x'' else HNil)"

definition demo_templates :: "string \<Rightarrow> (string \<times> hval) list \<Rightarrow> template" where
  "demo_templates e m =
     (if e = port_template then
        (case get_path [''john'', ''listen''] m of
           Some (HVal l) \<Rightarrow> (case strings_Split CHR '':'' l of h # p # rest \<Rightarrow> Rendered p | _ \<Rightarrow> NoValue)
         | _ \<Rightarrow> NoValue)
      else Rendered e)"

theorem params_bound_witness:
  "\<exists>b. Bind 1 (\<lambda>_ xs. xs) demo_templates demo_base params_fields NewEnvBinder = Some (Inr b) \<and>
     get_path [''john'', ''port''] (eb_resolved b) = Some (HVal [])"
proof -
  have "CHR ''{'' \<in> set port_template" by (simp add: port_template_def)
  then have l: "template_laws demo_templates" by (auto simp: template_laws_def demo_templates_def)
  have r: "required_given demo_base" by (simp add: required_given_def demo_base_def)
  have p: "demo_base ''john.port'' = HNil" by (simp add: demo_base_def)
  have v: "field_value demo_base ''john.listen'' (Some ''0.0.0.0:8880'') = HVal ''[::]:8880''" by (simp add: field_value_def demo_base_def)
  have s: "strings_Split CHR '':'' ''[::]:8880'' = [''['', [], '']'', ''8880'']" by code_simp
  from params_bound [OF l r p v s, of 0 "\<lambda>_ xs. xs"] show ?thesis by (elim exE conjE) (auto intro: exI)
qed

end
