(* ===== verification/Spec2Isabelle.thy ===== *)
theory Spec2Isabelle
  imports Anytls_Streams Anytls_Versions Anytls_Server Anytls_Lifecycle Anytls_Dialer User_Context
    Shadowsocks_Udp Vmess_Contexts Juicity_Conn Server_Lifecycle Lock_Order Install Run
    Juicity_New Copy_Cert Commands Top_Domains Accept_Loops Logging Params_Binding
begin

text \<open>
  BitterJohn is a proxy server. An instance registers at SweetLisa, which sends it \<^emph>\<open>passages\<close>: who may
  use it, and over which next hop. It serves one of four protocols (shadowsocks, vmess, juicity, anytls),
  authenticates each connection against its passages, and relays what it carries to the destination or to
  the next hop. One passage, the manager, belongs to SweetLisa and is used for pings and for
  synchronising the passages.

  \<^bold>\<open>The parts and the theories.\<close> Paths are relative to \<open>src/\<close>.
  \<^item> \<open>Prelude\<close>: words, byte sequences, sequenced fallible steps, generic lemmas. \<open>Go_Std\<close>, \<open>Go_Net\<close>,
    \<open>Go_Netip\<close>: what the program uses of Go's standard library. \<open>Wire\<close>: the locale of self-delimiting
    messages on a byte stream, which every wire format below instantiates.
  \<^item> \<open>Common\<close>, \<open>Config\<close>, \<open>Procfs\<close>: \<open>common/\<close> and \<open>config/\<close>.
  \<^item> \<open>Linklist\<close>, \<open>Lru\<close>, \<open>LruList\<close>, \<open>Trie\<close>, \<open>Ip_Mtu\<close>: the data structures of \<open>infra/\<close>, with their
    nodes on heaps. The linked list refines a sequence; the cache is an instance of the locale
    \<open>keyed_cache\<close>.
  \<^item> \<open>Passages\<close>, \<open>Api\<close>, \<open>Dial\<close>, \<open>Handler\<close>: \<open>server/*.go\<close> and \<open>api/\<close>: passages and their
    synchronisation (locale \<open>passage_store\<close>, the interface \<open>server.Server\<close>), registration (locale
    \<open>keepalive\<close>), the headers and the cache of dialers, and what the handlers of the four servers share.
  \<^item> \<open>Cdn\<close>: \<open>pkg/cdn_validator\<close>. \<open>Env_Binding\<close>: \<open>pkg/viper_tool\<close>. \<open>Limited_Dialer\<close>:
    \<open>server/limited_dialer.go\<close>.
  \<^item> \<open>Anytls_Frame\<close>, \<open>Anytls_Addr\<close>, \<open>Anytls_Uot\<close>, \<open>Anytls_Session\<close>, \<open>Anytls_Recv\<close>,
    \<open>Anytls_Streams\<close>, \<open>Anytls_Versions\<close>: the anytls multiplexer of \<open>server/anytls\<close>.
    \<open>Anytls_Server\<close>, \<open>Anytls_Lifecycle\<close>, \<open>Anytls_Dialer\<close>: its server and its client.
  \<^item> \<open>User_Context\<close>, \<open>Context_Sync\<close>, \<open>Context_Store\<close>: the lists of passages per client address, common
    to shadowsocks and vmess (locale \<open>context_store\<close>). \<open>Lock_Order\<close>: the mutexes around them.
  \<^item> \<open>Shadowsocks_Server\<close>, \<open>Shadowsocks_Contexts\<close>, \<open>Shadowsocks_Udp\<close>: \<open>server/shadowsocks\<close>.
    \<open>Vmess_Server\<close>, \<open>Vmess_Contexts\<close>: \<open>server/vmess\<close>. \<open>Juicity_Server\<close>, \<open>Juicity_Auth\<close>,
    \<open>Juicity_Conn\<close>, \<open>Juicity_New\<close>: \<open>server/juicity\<close>. \<open>Server_Lifecycle\<close>: listening and closing of
    shadowsocks and vmess, and the locale \<open>event_system\<close>. \<open>Accept_Loops\<close>: the loops of the shadowsocks server that take
    connections and datagrams. \<open>Demo_World\<close>: one environment for the examples.
  \<^item> \<open>Files\<close>: a file system of names and inodes, and \<open>pkg/copyfile\<close> on it (locale \<open>file_copier\<close>).
    \<open>Copy_Cert\<close>: \<open>pkg/copy_cert\<close>.
  \<^item> \<open>Install\<close>, \<open>Commands\<close>, \<open>Run\<close>: the commands of \<open>cmd/\<close>, with \<open>pkg/disk_bloom\<close>: the installer's
    answers, what the installer and the update command do to the files, and the run command. \<open>Top_Domains\<close>: the table of
    \<open>common/domain.go\<close>. \<open>Logging\<close>: \<open>pkg/log\<close> and the servers of \<open>pkg/resolver\<close>.
    \<open>Params_Binding\<close>: the fields of \<open>config/config.go\<close> and the flags, bound by \<open>Env_Binding\<close> (locale \<open>leaf_paths\<close>).

  \<^bold>\<open>How state and operations correspond.\<close> A Go structure is a record with the fields the modelled code
  uses, a prefix telling the record (\<open>s_\<close> sessions, \<open>st_\<close> streams, \<open>ss_\<close>, \<open>vs_\<close>, \<open>ju_\<close>, \<open>as_\<close> servers);
  an operation is a function that returns the changed record. Objects that several holders share are
  addresses into a heap in the state. An error is a value of \<open>go_err\<close>; an outer \<open>option\<close> is a panic or,
  where a function has fuel, a loop that still runs. A connection is the bytes it delivers and a
  writer. Choices the code leaves to the runtime (the case of a \<open>select\<close>, the order of a map, the array a
  pool returns, the clock, random texts) are arguments, and the theorems hold for all of them.
  Code that is not in the repository (ciphers, hashes, UUIDs, the protocol library, DNS, HTTP, the
  survey library) is an argument too: a field of \<open>ss_lib\<close>, \<open>vm_lib\<close>, \<open>ju_lib\<close>, \<open>env\<close> or \<open>world\<close>, or a
  parameter.

  Where goroutines matter, the state is stepped by events or by an inductive relation, one step for what
  runs under a mutex or between two points at which another goroutine can be seen: the session with its
  receive loop and users (\<open>Anytls_Recv\<close>), closing (\<open>Anytls_Lifecycle\<close>, \<open>Server_Lifecycle\<close>), the
  datagrams of shadowsocks (\<open>Shadowsocks_Udp\<close>), a juicity connection (\<open>Juicity_Conn\<close>), the two
  goroutines of the run command (\<open>Run\<close>), the locks (\<open>Lock_Order\<close>), the serving of juicity
  (\<open>Juicity_New\<close>). The commands that change files run alone: they are functions on the file system, and what
  can fail outside them (\<open>faults\<close>) is an argument.

  \<^bold>\<open>What the lemmas show.\<close>
  \<^item> The multiplexer carries the bytes of each stream unchanged and in order, to the stream object that was
    open when they came; no stream exists before the settings; a client's dial reaches the server as the
    destination it named, and the answer comes back.
  \<^item> Each server authenticates exactly (or, where the protocol library decides, only) on behalf of a stored
    passage; the stored passages after a synchronisation are those SweetLisa sent, except for the passages
    the findings name; contexts hold what the server holds; registration is retried until it succeeds.
  \<^item> The data structures do what sequences, finite maps and longest-prefix search do.
  \<^item> Closing leaves no stored socket open; the run command closes once and ends with the first reason.
  \<^item> Termination of the receive loops, of the binding of the environment and of the wait for DNS.
  \<^item> The installer leaves the binary, the configuration and the service file it reports; a copied certificate
    chain is a chain; every field of the configuration gets its value or its default; a host name passes the test for top domains exactly if it ends in an entry of the table.
  \<^item> Errors the code makes, as theorems: data lost behind a FIN, passages that share an argument, dialers that
    are never evicted, datagrams that wait for ever, an ACME server that outlives its server, the deadlock
    of a new address with \<open>AddPassages\<close>, a stream that goes on unauthenticated after its connection ended, a
    server that does not use the dialer it is given, an update that installs half a download or leaves no binary.

  \<^bold>\<open>Bounds and fuel.\<close> Frames have at most 65535 bytes and \<open>Write\<close> cuts at that size; \<open>recvLoop\<close> and the
  relay loops take one unit of fuel for each frame or payload, so that \<open>n + 1\<close> are enough for
  \<open>n\<close> bytes; \<open>Bind\<close> takes as many rounds as there are default values, and one more; the wait for DNS
  takes 122 rounds of half a second, against a limit of a minute. Counters of versions, ports and lengths
  are words of their width; times and \<open>int\<close> values of the configuration are \<open>int\<close>.

  \<^bold>\<open>Not modelled.\<close> The declaration of the commands (\<open>main.go\<close>, \<open>cmd/cmd.go\<close>) has no decisions of
  its own. The grpc and ACME servers of vmess (their options are data), TLS and QUIC are libraries, as are the logger, the
  encoding of certificates, the generation of keys and the lookups of the resolver. \<open>pkg/bufferred_conn\<close>
  forwards to a buffered reader of the protocol library, and some methods of connections forward to the stream they
  hold (deadlines, addresses). The dialogue of the installer is given by its answers, and the
  template of its service file is an argument. Deadlines of connections are left out where the library
  enforces them. Symbolic links are modelled for the directories of a path, not for its last element. Texts of
  errors are kept as far as some code looks at them.
\<close>

end
